(* ===== verification/Prelude.thy ===== *)
theory Prelude
  imports Complex_Main "HOL-Library.Product_Lexorder" "HOL-Library.Sublist"
begin

text \<open>
  Shared vocabulary of the development: Python values (text, JSON, times, money, exceptions), the
  list view of a SQLite table with the statements the repositories issue on it, and the generic
  state-machine lemmas every durable component uses.

  \<^item> A Python \<open>str\<close> is its list of code points; \<open>lit\<close> turns a literal of the source into one.
  \<^item> A \<open>datetime\<close> is aware and in UTC throughout the modelled code: it is the number of
    microseconds since the epoch. A \<open>timedelta\<close> is a number of microseconds.
  \<^item> A \<open>Decimal\<close> is an exact rational. The default context rounds to 28 significant digits; sums
    and products of prices and token counts stay exact below that.
  \<^item> A raised exception is the left branch of a sum, a transaction that raises leaves no trace.
\<close>

subsection \<open>Collections of facts\<close>

declare Let_def [simp]

named_theorems table_simps \<open>rewriting of table statements\<close>
named_theorems frame_simps \<open>tables that an operation leaves alone\<close>
named_theorems op_defs \<open>definitions of repository operations\<close>
named_theorems edge_intros \<open>permitted life-cycle edges\<close>

subsection \<open>Text\<close>

type_synonym str = "nat list"

definition lit :: "string \<Rightarrow> str" where
  "lit s = map of_char s"

lemma inj_of_char_nat: "inj (of_char :: char \<Rightarrow> nat)"
  by (rule injI) simp

lemma lit_eq_iff [simp]: "lit a = lit b \<longleftrightarrow> a = b"
  by (simp add: lit_def inj_of_char_nat inj_map_eq_map)

lemma lit_Nil [simp]: "lit [] = []"
  by (simp add: lit_def)

lemma lit_eq_Nil_iff [simp]: "lit a = [] \<longleftrightarrow> a = []" "[] = lit a \<longleftrightarrow> a = []"
  by (simp_all add: lit_def)

lemma length_lit [simp]: "length (lit a) = length a"
  by (simp add: lit_def)

lemma prefix_lit_iff [simp]: "prefix (lit a) (lit b) \<longleftrightarrow> prefix a b"
proof
  assume "prefix (lit a) (lit b)"
  then obtain zs where zs: "lit b = lit a @ zs" by (auto simp: prefix_def)
  then have "take (length a) (lit b) = lit a" by simp
  then have "lit (take (length a) b) = lit a" by (simp add: lit_def take_map)
  then have "take (length a) b = a" by simp
  then show "prefix a b" by (metis take_is_prefix)
qed (auto simp: prefix_def lit_def)

text \<open>\<open>str.casefold\<close> on the ASCII letters; the identifiers the code folds (action kinds, channel
  names, data classes) are ASCII. Other code points are left as they are.\<close>

definition casefold :: "str \<Rightarrow> str" where
  "casefold s = map (\<lambda>c. if 65 \<le> c \<and> c \<le> 90 then c + 32 else c) s"

text \<open>\<open>str.isspace\<close> of one code point, as \<open>str.strip\<close> uses it.\<close>

definition is_space :: "nat \<Rightarrow> bool" where
  "is_space c \<longleftrightarrow>
     (if c < 128 then 9 \<le> c \<and> c \<le> 13 \<or> 28 \<le> c \<and> c \<le> 32
      else c = 133 \<or> c = 160 \<or> c = 5760 \<or> 8192 \<le> c \<and> c \<le> 8202 \<or> c = 8232 \<or> c = 8233
        \<or> c = 8239 \<or> c = 8287 \<or> c = 12288)"

definition lstrip :: "str \<Rightarrow> str" where
  "lstrip s = dropWhile is_space s"

definition rstrip :: "str \<Rightarrow> str" where
  "rstrip s = rev (dropWhile is_space (rev s))"

definition strip :: "str \<Rightarrow> str" where
  "strip s = rstrip (lstrip s)"

lemma length_casefold [simp]: "length (casefold s) = length s"
  by (simp add: casefold_def)

lemma casefold_casefold [simp]: "casefold (casefold s) = casefold s"
  by (simp add: casefold_def comp_def)

lemma length_strip_le: "length (strip s) \<le> length s"
  by (metis (no_types, lifting) le_trans length_dropWhile_le length_rev lstrip_def rstrip_def
      strip_def)

text \<open>\<open>str.split\<close> at one character.\<close>

fun split_at :: "nat \<Rightarrow> str \<Rightarrow> str list" where
  "split_at c [] = [[]]"
| "split_at c (x # xs) = (if x = c then [] # split_at c xs else (case split_at c xs of p # ps \<Rightarrow> (x # p) # ps | [] \<Rightarrow> [[x]]))"

text \<open>Slicing \<open>s[:n]\<close>, for the literal bounds the source uses.\<close>

lemma length_take_le [simp]: "length (take n xs) \<le> n"
  by simp

subsection \<open>Decimal and hexadecimal text\<close>

fun digits_of :: "nat \<Rightarrow> nat \<Rightarrow> str" where
  "digits_of b n =
     (let d = (\<lambda>k. if k < 10 then 48 + k else 87 + k)
      in if n < b \<or> b < 2 then [d n] else digits_of b (n div b) @ [d (n mod b)])"

declare digits_of.simps [simp del]

definition str_of_int :: "int \<Rightarrow> str" where
  "str_of_int i = (if i < 0 then 45 # digits_of 10 (nat (- i)) else digits_of 10 (nat i))"

subsection \<open>JSON values\<close>

text \<open>The values a \<open>JSON\<close> column or a \<open>dict[str, Any]\<close> field holds; a \<open>dict\<close> is its list of
  items in insertion order.\<close>

datatype json =
    JNull
  | JBool bool
  | JInt int
  | JFloat rat
  | JStr str
  | JList "json list"
  | JObj "(str \<times> json) list"

type_synonym dict = "(str \<times> json) list"

definition dget :: "dict \<Rightarrow> string \<Rightarrow> json option" where
  "dget d k = map_of d (lit k)"

text \<open>\<open>bool(value)\<close>.\<close>

fun truthy :: "json \<Rightarrow> bool" where
  "truthy JNull = False"
| "truthy (JBool b) = b"
| "truthy (JInt i) = (i \<noteq> 0)"
| "truthy (JFloat q) = (q \<noteq> 0)"
| "truthy (JStr s) = (s \<noteq> [])"
| "truthy (JList xs) = (xs \<noteq> [])"
| "truthy (JObj kvs) = (kvs \<noteq> [])"

text \<open>\<open>d.get(k, default)\<close> used as a condition, with a falsy default.\<close>

definition dflag :: "dict \<Rightarrow> string \<Rightarrow> bool" where
  "dflag d k = (case dget d k of None \<Rightarrow> False | Some v \<Rightarrow> truthy v)"

lemma dget_Nil [simp]: "dget [] k = None"
  by (simp add: dget_def)

lemma dget_Cons [simp]:
  "dget ((lit k', v) # d) k = (if k = k' then Some v else dget d k)"
  by (auto simp: dget_def)

subsection \<open>Time\<close>

type_synonym time = int

definition seconds :: "int \<Rightarrow> int" where "seconds n = n * 1000000"
definition minutes :: "int \<Rightarrow> int" where "minutes n = seconds (60 * n)"
definition hours :: "int \<Rightarrow> int" where "hours n = seconds (3600 * n)"
definition days :: "int \<Rightarrow> int" where "days n = seconds (86400 * n)"

lemmas timedelta_defs = seconds_def minutes_def hours_def days_def

text \<open>\<open>int(delta.total_seconds())\<close> truncates towards zero.\<close>

definition total_seconds :: "int \<Rightarrow> int" where
  "total_seconds d = (if d < 0 then - ((- d) div 1000000) else d div 1000000)"

lemma total_seconds_seconds [simp]: "total_seconds (seconds n) = n"
proof -
  have "- (n * 1000000) div 1000000 = (- n :: int)"
    using nonzero_mult_div_cancel_right [of "1000000" "- n"] by simp
  then show ?thesis by (simp add: total_seconds_def seconds_def)
qed

subsection \<open>Exceptions\<close>

text \<open>One constructor per exception class the modelled code raises or tells apart; the text is the
  message. \<open>OtherException\<close> is any further subclass of \<open>Exception\<close>, by class name.\<close>

datatype exn =
    ValueError string
  | KeyError
  | RuntimeError string
  | ValidationError string
  | AssertionError
  | TimeoutError
  | LabPaused string
  | PermanentPipelineError string
  | PriceNotConfiguredError
  | BudgetExceededError string
  | ModelGatewayError string
  | ModelTransportError string
  | ModelProtocolError string
  | ToolCallValidationError string
  | ToolSchemaError string
  | MemoryScopeError string
  | ContextOverflowError string
  | OtherException string

type_synonym 'a result = "exn + 'a"

definition raise_if :: "bool \<Rightarrow> exn \<Rightarrow> 'a result \<Rightarrow> 'a result" where
  "raise_if c e r = (if c then Inl e else r)"

definition bind_result :: "'a result \<Rightarrow> ('a \<Rightarrow> 'b result) \<Rightarrow> 'b result" where
  "bind_result r f = (case r of Inl e \<Rightarrow> Inl e | Inr a \<Rightarrow> f a)"

lemma bind_result_Inr_iff:
  "bind_result r f = Inr b \<longleftrightarrow> (\<exists>a. r = Inr a \<and> f a = Inr b)"
  by (cases r) (auto simp: bind_result_def)

lemma bind_result_simps [simp]:
  "bind_result (Inl e) f = Inl e" "bind_result (Inr a) f = f a"
  by (simp_all add: bind_result_def)

lemma raise_if_Inr_iff [simp]: "raise_if c e r = Inr x \<longleftrightarrow> \<not> c \<and> r = Inr x"
  by (simp add: raise_if_def)

text \<open>An operation that returns nothing and raises nothing raises nothing.\<close>

definition is_ok :: "'a result \<Rightarrow> bool" where
  "is_ok r = (case r of Inl _ \<Rightarrow> False | Inr _ \<Rightarrow> True)"

lemma is_ok_simps [simp]: "is_ok (Inr x)" "\<not> is_ok (Inl e)"
  by (simp_all add: is_ok_def)

lemma is_ok_iff: "is_ok r \<longleftrightarrow> (\<exists>x. r = Inr x)"
  by (cases r) auto

text \<open>A loop that collects results and stops at the first exception.\<close>

fun map_results :: "('a \<Rightarrow> 'b result) \<Rightarrow> 'a list \<Rightarrow> 'b list result" where
  "map_results f [] = Inr []"
| "map_results f (x # xs) = bind_result (f x) (\<lambda>y. bind_result (map_results f xs) (\<lambda>ys. Inr (y # ys)))"

lemma map_results_iff: "map_results f xs = Inr ys \<longleftrightarrow> list_all2 (\<lambda>x y. f x = Inr y) xs ys"
  by (induction xs arbitrary: ys) (auto simp: bind_result_Inr_iff list_all2_Cons1)

subsection \<open>Subsequences\<close>

lemma subseq_distinct: "subseq xs ys \<Longrightarrow> distinct ys \<Longrightarrow> distinct xs"
proof (induction rule: list_emb.induct)
  case (list_emb_Cons2 x y xs ys)
  then show ?case by (auto dest: list_emb_set)
qed simp_all

end
