(* ===== verification/Sql_Table.thy ===== *)
theory Sql_Table
  imports Prelude
begin

text \<open>
  A SQLite table is the list of its rows in \<open>rowid\<close> order. The statements of the repositories become
  list functions: \<open>UPDATE .. SET .. WHERE\<close> is \<open>update_where\<close>, its \<open>rowcount\<close> is \<open>count_where\<close>,
  \<open>SELECT .. ORDER BY k LIMIT n\<close> is \<open>select_order\<close>, and an insert appends a row whose integer key is
  one above the largest key (the \<open>rowid\<close> rule for tables without \<open>AUTOINCREMENT\<close>). A comparison with
  SQL's \<open>NULL\<close> is never true, which the row predicates write out with \<open>option\<close>.
\<close>

subsection \<open>Statements\<close>

definition update_where :: "('r \<Rightarrow> bool) \<Rightarrow> ('r \<Rightarrow> 'r) \<Rightarrow> 'r list \<Rightarrow> 'r list" where
  "update_where P f rs = map (\<lambda>r. if P r then f r else r) rs"

definition count_where :: "('r \<Rightarrow> bool) \<Rightarrow> 'r list \<Rightarrow> nat" where
  "count_where P rs = length (filter P rs)"

definition exists_row :: "('r \<Rightarrow> bool) \<Rightarrow> 'r list \<Rightarrow> bool" where
  "exists_row P rs = list_ex P rs"

definition select_order ::
    "('r \<Rightarrow> 'k::linorder) \<Rightarrow> ('r \<Rightarrow> bool) \<Rightarrow> 'r list \<Rightarrow> 'r list" where
  "select_order k P rs = sort_key k (filter P rs)"

definition first_row :: "'r list \<Rightarrow> 'r option" where
  "first_row rs = (case rs of [] \<Rightarrow> None | r # _ \<Rightarrow> Some r)"

definition get_row :: "('r \<Rightarrow> 'k) \<Rightarrow> 'k \<Rightarrow> 'r list \<Rightarrow> 'r option" where
  "get_row key k rs = find (\<lambda>r. key r = k) rs"

definition next_id :: "('r \<Rightarrow> nat) \<Rightarrow> 'r list \<Rightarrow> nat" where
  "next_id key rs = Suc (fold max (map key rs) 0)"

subsection \<open>Facts\<close>

lemma update_where_Nil [simp]: "update_where P f [] = []"
  by (simp add: update_where_def)

lemma length_update_where [simp]: "length (update_where P f rs) = length rs"
  by (simp add: update_where_def)

lemma set_update_where: "set (update_where P f rs) = (\<lambda>r. if P r then f r else r) ` set rs"
  by (simp add: update_where_def)

lemma map_update_where [table_simps]:
  "(\<And>r. key (f r) = key r) \<Longrightarrow> map key (update_where P f rs) = map key rs"
  by (simp add: update_where_def)

lemma map_update_where_on:
  "(\<And>r. P r \<Longrightarrow> key (f r) = key r) \<Longrightarrow> map key (update_where P f rs) = map key rs"
  by (simp add: update_where_def)

lemma ball_update_where:
  "(\<forall>r \<in> set (update_where P f rs). Q r) \<longleftrightarrow>
   (\<forall>r \<in> set rs. if P r then Q (f r) else Q r)"
  by (auto simp: set_update_where)

lemma count_where_0_iff: "count_where P rs = 0 \<longleftrightarrow> (\<forall>r \<in> set rs. \<not> P r)"
  by (simp add: count_where_def filter_empty_conv)

lemma count_where_pos_iff: "0 < count_where P rs \<longleftrightarrow> (\<exists>r \<in> set rs. P r)"
  using count_where_0_iff [of P rs] by auto

lemma update_where_none:
  "count_where P rs = 0 \<Longrightarrow> update_where P f rs = rs"
  by (auto simp: count_where_0_iff update_where_def intro: map_idI)

lemma update_where_cong:
  "(\<And>r. r \<in> set rs \<Longrightarrow> P r = Q r) \<Longrightarrow> update_where P f rs = update_where Q f rs"
  by (simp add: update_where_def)

lemma get_row_Nil [simp]: "get_row key k [] = None"
  by (simp add: get_row_def)

lemma get_row_Cons [simp]:
  "get_row key k (r # rs) = (if key r = k then Some r else get_row key k rs)"
  by (simp add: get_row_def)

lemma get_row_in: "get_row key k rs = Some r \<Longrightarrow> r \<in> set rs \<and> key r = k"
  by (auto simp: get_row_def find_Some_iff)

lemma get_row_None: "get_row key k rs = None \<longleftrightarrow> k \<notin> key ` set rs"
  by (auto simp: get_row_def find_None_iff)

lemma get_row_unique:
  "distinct (map key rs) \<Longrightarrow> r \<in> set rs \<Longrightarrow> get_row key (key r) rs = Some r"
  by (induction rs) (auto simp: image_iff)

lemma get_row_append:
  "get_row key k (rs @ rs') =
   (case get_row key k rs of Some r \<Rightarrow> Some r | None \<Rightarrow> get_row key k rs')"
  by (induction rs) auto

lemma get_row_update_where [table_simps]:
  "(\<And>r. key (f r) = key r) \<Longrightarrow>
   get_row key k (update_where P f rs) =
   map_option (\<lambda>r. if P r then f r else r) (get_row key k rs)"
  by (induction rs) (auto simp: update_where_def)

lemma get_row_append_Some [simp]:
  "get_row key k rs = Some r \<Longrightarrow> get_row key k (rs @ rs') = Some r"
  by (simp add: get_row_append)

lemma fold_max_ge: "(x::nat) \<in> set xs \<or> x = a \<Longrightarrow> x \<le> fold max xs a"
  by (induction xs arbitrary: a x) (auto, (metis max.cobounded1 max.cobounded2 order_trans)+)

lemma next_id_greater: "r \<in> set rs \<Longrightarrow> key r < next_id key rs"
  by (simp add: next_id_def less_Suc_eq_le fold_max_ge)

lemma next_id_fresh [simp]: "next_id key rs \<notin> key ` set rs"
  using next_id_greater by (metis image_iff less_irrefl)

lemma next_id_pos [simp]: "0 < next_id key rs"
  by (simp add: next_id_def)

lemma get_row_next_id [simp]: "get_row key (next_id key rs) rs = None"
  by (simp add: get_row_None)

lemma distinct_append_next_id:
  "distinct (map key rs) \<Longrightarrow> key r = next_id key rs \<Longrightarrow> distinct (map key (rs @ [r]))"
  by (simp add: image_iff) (metis next_id_greater less_irrefl)

lemma count_where_unique_key:
  assumes "distinct (map key rs)"
  shows "count_where (\<lambda>r. key r = k \<and> Q r) rs =
    (case get_row key k rs of None \<Rightarrow> 0 | Some r \<Rightarrow> if Q r then 1 else 0)"
  using assms
proof (induction rs)
  case Nil
  then show ?case by (simp add: count_where_def)
next
  case (Cons a rs)
  show ?case
  proof (cases "key a = k")
    case True
    with Cons.prems have "filter (\<lambda>r. key r = k \<and> Q r) rs = []"
      by (auto simp: filter_empty_conv image_iff)
    with True show ?thesis by (simp add: count_where_def)
  next
    case False
    with Cons show ?thesis by (simp add: count_where_def)
  qed
qed

lemma count_where_le_1:
  "distinct (map key rs) \<Longrightarrow> count_where (\<lambda>r. key r = k \<and> Q r) rs \<le> 1"
  by (simp add: count_where_unique_key split: option.split)

lemma select_order_set: "set (select_order k P rs) = {r \<in> set rs. P r}"
  by (simp add: select_order_def)

lemma select_order_sorted: "sorted (map k (select_order k P rs))"
  by (simp add: select_order_def)

lemma first_row_Some:
  "first_row rs = Some r \<Longrightarrow> r \<in> set rs"
  by (auto simp: first_row_def split: list.splits)

lemma first_row_None [simp]: "first_row rs = None \<longleftrightarrow> rs = []"
  by (simp add: first_row_def split: list.splits)

lemma select_order_first:
  assumes "first_row (select_order k P rs) = Some r"
  shows "r \<in> set rs" and "P r" and "\<And>q. q \<in> set rs \<Longrightarrow> P q \<Longrightarrow> k r \<le> k q"
proof -
  from assms obtain rest where eq: "select_order k P rs = r # rest"
    by (auto simp: first_row_def split: list.splits)
  have st: "set (r # rest) = {q \<in> set rs. P q}"
    using select_order_set [of k P rs] by (simp add: eq)
  then show "r \<in> set rs" "P r" by auto
  have "sorted (map k (r # rest))"
    using select_order_sorted [of k P rs] by (simp add: eq)
  then have le: "\<forall>q \<in> set rest. k r \<le> k q" by simp
  fix q assume "q \<in> set rs" "P q"
  with st have "q \<in> set (r # rest)" by blast
  with le show "k r \<le> k q" by auto
qed

lemma select_order_empty:
  "first_row (select_order k P rs) = None \<longleftrightarrow> (\<forall>r \<in> set rs. \<not> P r)"
  by (simp add: select_order_def filter_empty_conv sort_key_const flip: set_empty) blast

lemma find_in: "find P xs = Some x \<Longrightarrow> x \<in> set xs \<and> P x"
  by (induction xs) (auto split: if_splits)

lemma find_append_None: "find P xs = None \<Longrightarrow> find P (xs @ ys) = find P ys"
  by (induction xs) (auto split: if_splits)

lemma find_key_get_row: "find (\<lambda>r. key r = k) rs = get_row key k rs"
  by (simp add: get_row_def)

lemma exists_key_iff: "exists_row (\<lambda>r. key r = k) rs \<longleftrightarrow> get_row key k rs \<noteq> None"
  by (auto simp: exists_row_def list_ex_iff get_row_def find_None_iff)

lemmas table_defs = update_where_def count_where_def select_order_def first_row_def get_row_def
  next_id_def exists_row_def

end
