(* ===== verification/Row_Life.thy ===== *)
theory Row_Life
  imports Sql_Table
begin

text \<open>
  A table whose rows have a key, a state and columns that never change: every statement after the insert is
  a conditional update that keeps the fixed columns, keeps rows well formed and moves states along edges.
  \<open>row_life\<close> proves once what such updates keep.
\<close>

definition row_move ::
    "('r \<Rightarrow> 'st) \<Rightarrow> ('r \<Rightarrow> 'r \<Rightarrow> bool) \<Rightarrow> ('r \<Rightarrow> bool) \<Rightarrow> ('st \<Rightarrow> 'st \<Rightarrow> bool) \<Rightarrow> ('r \<Rightarrow> bool) \<Rightarrow> ('r \<Rightarrow> 'r) \<Rightarrow> bool" where
  "row_move state fixed ok edge P f \<longleftrightarrow> (\<forall>r. fixed r (f r)) \<and>
     (\<forall>r. P r \<and> ok r \<longrightarrow> ok (f r) \<and> edge (state r) (state (f r)))"

definition table_moved ::
    "('r \<Rightarrow> 'st) \<Rightarrow> ('r \<Rightarrow> 'r \<Rightarrow> bool) \<Rightarrow> ('r \<Rightarrow> bool) \<Rightarrow> ('st \<Rightarrow> 'st \<Rightarrow> bool) \<Rightarrow> 'r list \<Rightarrow> 'r list \<Rightarrow> bool" where
  "table_moved state fixed ok edge xs ys \<longleftrightarrow> (\<exists>P f. row_move state fixed ok edge P f \<and> ys = update_where P f xs)"

lemma table_movedI:
  "ys = update_where P f xs \<Longrightarrow> row_move state fixed ok edge P f \<Longrightarrow> table_moved state fixed ok edge xs ys"
  by (auto simp: table_moved_def)

locale row_life =
  fixes key :: "'r \<Rightarrow> 'k"
    and state :: "'r \<Rightarrow> 'st"
    and fixed :: "'r \<Rightarrow> 'r \<Rightarrow> bool"
    and ok :: "'r \<Rightarrow> bool"
    and edge :: "'st \<Rightarrow> 'st \<Rightarrow> bool"
  assumes fixed_key: "fixed r q \<Longrightarrow> key q = key r"
    and fixed_refl: "fixed r r"
begin

lemma moved_same: "table_moved state fixed ok edge xs xs"
  by (rule table_movedI [where P = "\<lambda>_. False" and f = "\<lambda>r. r"])
    (simp_all add: row_move_def fixed_refl update_where_def)

lemma moved_ok:
  assumes "table_moved state fixed ok edge xs ys" and "\<forall>r \<in> set xs. ok r"
  shows "\<forall>r \<in> set ys. ok r"
proof -
  from assms(1) obtain P f where "row_move state fixed ok edge P f" "ys = update_where P f xs"
    by (auto simp: table_moved_def)
  with assms(2) show ?thesis by (simp add: row_move_def ball_update_where)
qed

lemma moved_column:
  assumes "table_moved state fixed ok edge xs ys" and "\<And>r q. fixed r q \<Longrightarrow> col q = col r"
  shows "map col ys = map col xs"
proof -
  from assms(1) obtain P f where "row_move state fixed ok edge P f" "ys = update_where P f xs"
    by (auto simp: table_moved_def)
  then show ?thesis using assms(2) by (simp add: row_move_def map_update_where)
qed

lemma moved_row:
  assumes "table_moved state fixed ok edge xs ys" and "\<forall>r \<in> set xs. ok r" and "get_row key i xs = Some r"
  shows "\<exists>q. get_row key i ys = Some q \<and> fixed r q \<and> (state q = state r \<or> edge (state r) (state q))"
proof -
  from assms(1) obtain P f where f: "row_move state fixed ok edge P f" "ys = update_where P f xs"
    by (auto simp: table_moved_def)
  then have k: "\<And>r. key (f r) = key r" using fixed_key by (simp add: row_move_def)
  from get_row_in [OF assms(3)] assms(2) have "ok r" by blast
  with f(1) k assms(3) fixed_refl show ?thesis
    by (auto simp: f(2) get_row_update_where row_move_def)
qed

end

end
