(* ===== verification/Domain.thy ===== *)
theory Domain
  imports Prelude
begin

text \<open>
  \<open>lemonbot/domain/models.py\<close>: the enumerations and the messages the components exchange. A pydantic
  model is a record; constructing it checks the declared field bounds, which is the \<open>..._ok\<close>
  predicate, and construction with a failing check raises \<open>ValidationError\<close>. All models are frozen.
\<close>

type_synonym uuid = str

subsection \<open>Enumerations\<close>

datatype event_kind = Ev_Text | Ev_Image | Ev_File | Ev_Enter_Chat | Ev_System

datatype message_role = Role_System | Role_User | Role_Assistant | Role_Tool

datatype delivery_status = Dlv_Acknowledged | Dlv_Failed | Dlv_Unknown

datatype inbox_state = Ibx_Pending | Ibx_Processing | Ibx_Completed | Ibx_Dead

datatype outbox_state =
  Obx_Pending | Obx_Reserved | Obx_Dispatching | Obx_Acknowledged | Obx_Unknown | Obx_Dead

datatype policy_decision = Auto | Approve_Once | Enroll | Deny

datatype approval_state = Apr_Pending | Apr_Executing | Apr_Approved | Apr_Denied | Apr_Unknown

datatype data_class = Dc_Public | Dc_Conversation | Dc_Private_Local | Dc_Secret

text \<open>The \<open>.value\<close> of each member.\<close>

fun event_kind_value :: "event_kind \<Rightarrow> string" where
  "event_kind_value Ev_Text = ''text''"
| "event_kind_value Ev_Image = ''image''"
| "event_kind_value Ev_File = ''file''"
| "event_kind_value Ev_Enter_Chat = ''enter_chat''"
| "event_kind_value Ev_System = ''system''"

fun inbox_state_value :: "inbox_state \<Rightarrow> string" where
  "inbox_state_value Ibx_Pending = ''pending''"
| "inbox_state_value Ibx_Processing = ''processing''"
| "inbox_state_value Ibx_Completed = ''completed''"
| "inbox_state_value Ibx_Dead = ''dead''"

fun outbox_state_value :: "outbox_state \<Rightarrow> string" where
  "outbox_state_value Obx_Pending = ''pending''"
| "outbox_state_value Obx_Reserved = ''reserved''"
| "outbox_state_value Obx_Dispatching = ''dispatching''"
| "outbox_state_value Obx_Acknowledged = ''acknowledged''"
| "outbox_state_value Obx_Unknown = ''unknown''"
| "outbox_state_value Obx_Dead = ''dead''"

fun policy_decision_value :: "policy_decision \<Rightarrow> string" where
  "policy_decision_value Auto = ''AUTO''"
| "policy_decision_value Approve_Once = ''APPROVE_ONCE''"
| "policy_decision_value Enroll = ''ENROLL''"
| "policy_decision_value Deny = ''DENY''"

fun approval_state_value :: "approval_state \<Rightarrow> string" where
  "approval_state_value Apr_Pending = ''pending''"
| "approval_state_value Apr_Executing = ''executing''"
| "approval_state_value Apr_Approved = ''approved''"
| "approval_state_value Apr_Denied = ''denied''"
| "approval_state_value Apr_Unknown = ''unknown''"

fun data_class_value :: "data_class \<Rightarrow> string" where
  "data_class_value Dc_Public = ''PUBLIC''"
| "data_class_value Dc_Conversation = ''CONVERSATION''"
| "data_class_value Dc_Private_Local = ''PRIVATE_LOCAL''"
| "data_class_value Dc_Secret = ''SECRET''"

subsection \<open>Field bounds\<close>

definition len_between :: "nat \<Rightarrow> nat \<Rightarrow> str \<Rightarrow> bool" where
  "len_between lo hi s \<longleftrightarrow> lo \<le> length s \<and> length s \<le> hi"

definition opt_len_le :: "nat \<Rightarrow> str option \<Rightarrow> bool" where
  "opt_len_le hi x = (case x of None \<Rightarrow> True | Some s \<Rightarrow> length s \<le> hi)"

fun role_value :: "message_role \<Rightarrow> string" where
  "role_value Role_System = ''system''"
| "role_value Role_User = ''user''"
| "role_value Role_Assistant = ''assistant''"
| "role_value Role_Tool = ''tool''"

subsection \<open>Messages\<close>

record inbound_event =
  ev_channel :: str
  ev_event_id :: str
  ev_chat_id :: str
  ev_sender_id :: str
  ev_text :: "str option"
  ev_kind :: event_kind
  ev_occurred_at :: time
  ev_metadata :: dict

definition inbound_event_ok :: "inbound_event \<Rightarrow> bool" where
  "inbound_event_ok e \<longleftrightarrow>
     len_between 1 64 (ev_channel e) \<and> len_between 1 256 (ev_event_id e) \<and>
     len_between 1 512 (ev_chat_id e) \<and> len_between 1 512 (ev_sender_id e) \<and>
     opt_len_le 100000 (ev_text e)"

record outbound_message =
  om_message_id :: uuid
  om_channel :: str
  om_chat_id :: str
  om_text :: str
  om_reply_to_event_id :: "str option"
  om_created_at :: time
  om_metadata :: dict

definition outbound_message_ok :: "outbound_message \<Rightarrow> bool" where
  "outbound_message_ok m \<longleftrightarrow>
     len_between 1 64 (om_channel m) \<and> len_between 1 512 (om_chat_id m) \<and>
     len_between 1 3000 (om_text m) \<and> opt_len_le 256 (om_reply_to_event_id m)"

record delivery_receipt =
  rc_message_id :: uuid
  rc_status :: delivery_status
  rc_external_id :: "str option"
  rc_acknowledged_at :: "time option"
  rc_detail :: "str option"

record tool_call =
  tc_call_id :: str
  tc_name :: str
  tc_arguments :: dict

record model_message =
  mm_role :: message_role
  mm_content :: "str option"
  mm_name :: "str option"
  mm_tool_call_id :: "str option"
  mm_tool_calls :: "tool_call list"
  mm_reasoning :: "str option"

text \<open>The validator \<open>content_or_tool_call\<close>, with the field bounds.\<close>

definition model_message_ok :: "model_message \<Rightarrow> bool" where
  "model_message_ok m \<longleftrightarrow>
     opt_len_le 500000 (mm_content m) \<and> opt_len_le 128 (mm_name m) \<and>
     opt_len_le 256 (mm_tool_call_id m) \<and> opt_len_le 500000 (mm_reasoning m) \<and>
     \<not> (mm_content m = None \<and> mm_tool_calls m = [])"

record tool_manifest =
  tm_name :: str
  tm_description :: str
  tm_input_schema :: dict
  tm_action_kind :: str
  tm_side_effect :: bool
  tm_risk_level :: str
  tm_idempotent :: bool
  tm_required_scopes :: "str list"
  tm_allowed_data :: "data_class list"
  tm_timeout_seconds :: rat
  tm_max_output_bytes :: int
  tm_monetary_cost_cny :: str

record tool_context =
  tx_ctx_profile :: str
  tx_ctx_channel :: str
  tx_ctx_chat_id :: str
  tx_ctx_event_id :: str
  tx_ctx_principal_id :: str
  tx_ctx_granted_scopes :: "str list"
  tx_ctx_data_class :: data_class
  tx_ctx_deadline :: "time option"

record tool_result =
  tr_ok :: bool
  tr_content :: str
  tr_metadata :: dict
  tr_facts :: "dict list"
  tr_artifacts :: "str list"
  tr_error_code :: "str option"
  tr_truncated :: bool
  tr_side_effect_committed :: bool
  tr_state_unknown :: bool

record model_request =
  mr_messages :: "model_message list"
  mr_tools :: "tool_manifest list"
  mr_temperature :: rat
  mr_max_tokens :: int
  mr_json :: bool
  mr_deep :: bool
  mr_correlation_id :: "str option"

record model_response =
  ms_content :: "str option"
  ms_tool_calls :: "tool_call list"
  ms_reasoning :: "str option"
  ms_model :: str
  ms_prompt_tokens :: int
  ms_completion_tokens :: int
  ms_finish_reason :: "str option"

record proposed_action =
  pa_kind :: str
  pa_channel :: "str option"
  pa_chat_id :: "str option"
  pa_bound_channel :: "str option"
  pa_bound_chat_id :: "str option"
  pa_reason_event_id :: "str option"
  pa_proactive :: bool
  pa_side_effect :: bool
  pa_tool_name :: "str option"
  pa_arguments :: dict

record policy_evaluation =
  pe_decision :: policy_decision
  pe_reason :: string
  pe_rule_id :: string
  pe_retry_after :: "int option"

text \<open>Constructing a \<open>PolicyEvaluation\<close>: the reason and the rule are non-empty and bounded, and the
  retry delay, when there is one, is between one second and one day.\<close>

definition policy_evaluation ::
    "policy_decision \<Rightarrow> string \<Rightarrow> string \<Rightarrow> int option \<Rightarrow> policy_evaluation result" where
  "policy_evaluation d rule reason retry =
     raise_if (reason = [] \<or> 2000 < length reason \<or> rule = [] \<or> 128 < length rule \<or>
               (case retry of None \<Rightarrow> False | Some n \<Rightarrow> n < 1 \<or> 86400 < n))
       (ValidationError ''PolicyEvaluation'')
       (Inr \<lparr>pe_decision = d, pe_reason = reason, pe_rule_id = rule, pe_retry_after = retry\<rparr>)"

record inbox_item =
  ii_id :: nat
  ii_event :: inbound_event
  ii_state :: inbox_state
  ii_attempts :: nat
  ii_claimed_at :: "time option"

record conversation_message =
  cm_id :: nat
  cm_channel :: str
  cm_chat_id :: str
  cm_sender_id :: "str option"
  cm_role :: message_role
  cm_content :: str
  cm_external_id :: "str option"
  cm_occurred_at :: time
  cm_metadata :: dict

record outbox_item =
  oi_id :: nat
  oi_message :: outbound_message
  oi_state :: outbox_state
  oi_attempts :: nat
  oi_reserved_at :: "time option"
  oi_dispatch_started_at :: "time option"

record audit_record =
  ar_action :: str
  ar_outcome :: str
  ar_channel :: "str option"
  ar_chat_id :: "str option"
  ar_event_id :: "str option"
  ar_message_id :: "uuid option"
  ar_rule_id :: "str option"
  ar_detail :: dict
  ar_occurred_at :: time

subsection \<open>Parsing a UUID\<close>

text \<open>
  \<open>uuid.UUID(s)\<close>: drop \<open>urn:\<close> and \<open>uuid:\<close>, strip braces, drop hyphens, require 32 characters, and
  read them with \<open>int(hex, 16)\<close>. The canonical text is \<open>8-4-4-4-12\<close> lower-case digits. Of the
  spellings \<open>int\<close> takes besides 32 hexadecimal digits (blanks at the ends, a sign, \<open>0x\<close>, single
  underscores) none is produced by the code, and the model rejects them.
\<close>

definition hex_value :: "nat \<Rightarrow> nat option" where
  "hex_value c =
     (if 48 \<le> c \<and> c \<le> 57 then Some (c - 48)
      else if 65 \<le> c \<and> c \<le> 70 then Some (c - 55)
      else if 97 \<le> c \<and> c \<le> 102 then Some (c - 87)
      else None)"

function remove_all :: "str \<Rightarrow> str \<Rightarrow> str" where
  "remove_all pat s =
     (if pat = [] then s
      else if prefix pat s then remove_all pat (drop (length pat) s)
      else case s of [] \<Rightarrow> [] | c # cs \<Rightarrow> c # remove_all pat cs)"
  by pat_completeness auto
termination
proof (relation "measure (length \<circ> snd)", goal_cases)
  case (2 pat s)
  then show ?case by (cases s) auto
qed auto

declare remove_all.simps [simp del]

definition strip_braces :: "str \<Rightarrow> str" where
  "strip_braces s =
     (let b = (\<lambda>c. c = 123 \<or> c = 125) in rev (dropWhile b (rev (dropWhile b s))))"

definition hyphenate :: "str \<Rightarrow> str" where
  "hyphenate h = take 8 h @ [45] @ take 4 (drop 8 h) @ [45] @ take 4 (drop 12 h) @ [45]
     @ take 4 (drop 16 h) @ [45] @ drop 20 h"

definition uuid_parse :: "str \<Rightarrow> uuid option" where
  "uuid_parse s =
     (let h = remove_all [45] (strip_braces
                (remove_all (lit ''uuid:'') (remove_all (lit ''urn:'') s)))
      in if length h \<noteq> 32 \<or> list_ex (\<lambda>c. hex_value c = None) h then None
         else Some (hyphenate (casefold h)))"

text \<open>\<open>UUID(str(value))\<close> for a JSON value: only texts and integers can spell a UUID.\<close>

fun uuid_of_json :: "json \<Rightarrow> uuid option" where
  "uuid_of_json (JStr s) = uuid_parse s"
| "uuid_of_json (JInt i) = uuid_parse (str_of_int i)"
| "uuid_of_json _ = None"

end
