(* ===== verification/Storage.thy ===== *)
theory Storage
  imports Sql_Table Domain
begin

text \<open>
  \<open>lemonbot/storage/models.py\<close>: the tables of the core database, one record per row class, and the
  database as one state record. A nullable column is an \<open>option\<close>; a column that holds an enumeration's
  \<open>.value\<close> has the enumeration's type. The full-text shadow table is
  not part of the state, nor is the \<open>state\<close> column of a draft, which a check constraint fixes to
  \<open>pending\<close>.
\<close>

record inbox_row =
  ib_id :: nat
  ib_channel :: str
  ib_event_id :: str
  ib_chat_id :: str
  ib_sender_id :: str
  ib_kind :: event_kind
  ib_text :: "str option"
  ib_occurred_at :: time
  ib_metadata :: dict
  ib_state :: inbox_state
  ib_attempts :: nat
  ib_claimed_at :: "time option"
  ib_model_started_at :: "time option"
  ib_last_error :: "str option"
  ib_created_at :: time
  ib_updated_at :: time

record draft_row =
  df_id :: nat
  df_draft_id :: uuid
  df_channel :: str
  df_chat_id :: str
  df_text :: str
  df_reply_to_event_id :: str
  df_metadata :: dict
  df_created_at :: time
  df_updated_at :: time

record outbox_row =
  ob_id :: nat
  ob_message_id :: uuid
  ob_channel :: str
  ob_chat_id :: str
  ob_text :: str
  ob_reply_to_event_id :: "str option"
  ob_metadata :: dict
  ob_proactive :: bool
  ob_state :: outbox_state
  ob_attempts :: nat
  ob_next_attempt_at :: "time option"
  ob_reserved_at :: "time option"
  ob_dispatch_started_at :: "time option"
  ob_acknowledged_at :: "time option"
  ob_external_id :: "str option"
  ob_failure_detail :: "str option"
  ob_created_at :: time
  ob_updated_at :: time

record message_row =
  mg_id :: nat
  mg_channel :: str
  mg_chat_id :: str
  mg_sender_id :: "str option"
  mg_role :: message_role
  mg_kind :: event_kind
  mg_content :: str
  mg_external_id :: "str option"
  mg_occurred_at :: time
  mg_metadata :: dict

record audit_row =
  au_id :: nat
  au_record :: audit_record

record allowlist_row =
  al_id :: nat
  al_channel :: str
  al_chat_id :: str
  al_enabled :: bool
  al_label :: "str option"
  al_created_at :: time
  al_updated_at :: time

record approval_row =
  ap_approval_id :: uuid
  ap_profile :: str
  ap_channel :: str
  ap_chat_id :: str
  ap_event_id :: str
  ap_tool_name :: str
  ap_action_kind :: str
  ap_arguments_summary :: str
  ap_arguments_sha256 :: str
  ap_arguments :: dict
  ap_state :: approval_state
  ap_claim_token :: "uuid option"
  ap_outcome_code :: "str option"
  ap_created_at :: time
  ap_expires_at :: time
  ap_claimed_at :: "time option"
  ap_resolved_at :: "time option"
  ap_updated_at :: time

text \<open>The states the \<open>ck_tool_executions_state\<close> constraint lists.\<close>

datatype tool_state =
  Tx_Requested | Tx_Executing | Tx_Succeeded | Tx_Failed | Tx_Denied | Tx_Approval_Pending | Tx_Unknown

record tool_execution_row =
  tx_execution_id :: uuid
  tx_profile :: str
  tx_channel :: str
  tx_chat_id :: str
  tx_event_id :: str
  tx_call_id :: str
  tx_tool_name :: str
  tx_action_kind :: str
  tx_arguments_summary :: str
  tx_arguments_sha256 :: str
  tx_side_effect :: bool
  tx_state :: tool_state
  tx_outcome_code :: "str option"
  tx_result_summary :: dict
  tx_created_at :: time
  tx_started_at :: "time option"
  tx_resolved_at :: "time option"
  tx_updated_at :: time

record runtime_state_row =
  rs_key :: str
  rs_value :: dict
  rs_updated_at :: time

record db =
  inbox :: "inbox_row list"
  drafts :: "draft_row list"
  outbox :: "outbox_row list"
  messages :: "message_row list"
  audit_log :: "audit_row list"
  allowlist :: "allowlist_row list"
  approvals :: "approval_row list"
  tool_executions :: "tool_execution_row list"
  runtime_state :: "runtime_state_row list"

definition empty_db :: db where
  "empty_db = \<lparr>inbox = [], drafts = [], outbox = [], messages = [], audit_log = [],
     allowlist = [], approvals = [], tool_executions = [], runtime_state = []\<rparr>"

subsection \<open>Appending to the audit log and to the conversation\<close>

definition append_audit :: "audit_record \<Rightarrow> db \<Rightarrow> db" where
  "append_audit a s =
     s\<lparr>audit_log := audit_log s @ [\<lparr>au_id = next_id au_id (audit_log s), au_record = a\<rparr>]\<rparr>"

text \<open>The \<open>AuditRow\<close> of a repository operation: no rule, the clock of the operation.\<close>

definition audit_row ::
    "string \<Rightarrow> string \<Rightarrow> str \<Rightarrow> str option \<Rightarrow> str option \<Rightarrow> uuid option \<Rightarrow> dict \<Rightarrow> time \<Rightarrow> audit_record"
  where
  "audit_row action outcome channel chat event mid detail now =
     \<lparr>ar_action = lit action, ar_outcome = lit outcome, ar_channel = Some channel,
      ar_chat_id = chat, ar_event_id = event, ar_message_id = mid, ar_rule_id = None,
      ar_detail = detail, ar_occurred_at = now\<rparr>"

definition add_message :: "message_row \<Rightarrow> db \<Rightarrow> db" where
  "add_message m s = s\<lparr>messages := messages s @ [m\<lparr>mg_id := next_id mg_id (messages s)\<rparr>]\<rparr>"

lemma append_audit_frame [simp, frame_simps]:
  "inbox (append_audit a s) = inbox s" "drafts (append_audit a s) = drafts s"
  "outbox (append_audit a s) = outbox s" "messages (append_audit a s) = messages s"
  "allowlist (append_audit a s) = allowlist s" "approvals (append_audit a s) = approvals s"
  "tool_executions (append_audit a s) = tool_executions s"
  "runtime_state (append_audit a s) = runtime_state s"
  by (simp_all add: append_audit_def)

lemma append_audit_log:
  "audit_log (append_audit a s) =
     audit_log s @ [\<lparr>au_id = next_id au_id (audit_log s), au_record = a\<rparr>]"
  by (simp add: append_audit_def)

lemma add_message_frame [simp, frame_simps]:
  "inbox (add_message m s) = inbox s" "drafts (add_message m s) = drafts s"
  "outbox (add_message m s) = outbox s" "audit_log (add_message m s) = audit_log s"
  "allowlist (add_message m s) = allowlist s" "approvals (add_message m s) = approvals s"
  "tool_executions (add_message m s) = tool_executions s"
  "runtime_state (add_message m s) = runtime_state s"
  by (simp_all add: add_message_def)

lemma empty_db_simps [simp]:
  "inbox empty_db = []" "drafts empty_db = []" "outbox empty_db = []" "messages empty_db = []"
  "audit_log empty_db = []" "allowlist empty_db = []" "approvals empty_db = []"
  "tool_executions empty_db = []" "runtime_state empty_db = []"
  by (simp_all add: empty_db_def)

text \<open>The audit log only grows.\<close>

lemma append_audit_extends: "\<exists>xs. audit_log (append_audit a s) = audit_log s @ xs"
  by (simp add: append_audit_log)

end
