(* ===== verification/Lifecycle.thy ===== *)
theory Lifecycle
  imports Prelude
begin

text \<open>
  Two contracts shared by every durable component. \<open>invariant_machine\<close>: a property that the start
  states have and every step keeps. \<open>lifecycle\<close>: a component that gives each item a status and
  moves it along permitted edges only. Each component interprets both on its own step relation;
  the properties about whole executions rest on the facts proved here once.
\<close>

locale invariant_machine =
  fixes init :: "'s \<Rightarrow> bool"
    and step :: "'s \<Rightarrow> 's \<Rightarrow> bool"
    and inv :: "'s \<Rightarrow> bool"
  assumes init_inv: "init s \<Longrightarrow> inv s"
    and step_inv: "step s t \<Longrightarrow> inv s \<Longrightarrow> inv t"
begin

lemma run_inv: "step\<^sup>*\<^sup>* s t \<Longrightarrow> inv s \<Longrightarrow> inv t"
  by (induction rule: rtranclp_induct) (auto intro: step_inv)

lemma reachable_inv: "init s \<Longrightarrow> step\<^sup>*\<^sup>* s t \<Longrightarrow> inv t"
  by (blast intro: run_inv init_inv)

end

locale lifecycle = invariant_machine init step inv
  for init :: "'s \<Rightarrow> bool" and step :: "'s \<Rightarrow> 's \<Rightarrow> bool" and inv :: "'s \<Rightarrow> bool" +
  fixes status :: "'s \<Rightarrow> 'k \<Rightarrow> 'st option"
    and edge :: "'st \<Rightarrow> 'st \<Rightarrow> bool"
  assumes step_edge:
    "step s t \<Longrightarrow> inv s \<Longrightarrow> status s k = Some a \<Longrightarrow> \<exists>b. status t k = Some b \<and> (b = a \<or> edge a b)"
begin

lemma run_edges:
  "step\<^sup>*\<^sup>* s t \<Longrightarrow> inv s \<Longrightarrow> status s k = Some a \<Longrightarrow> \<exists>b. status t k = Some b \<and> edge\<^sup>*\<^sup>* a b"
proof (induction rule: rtranclp_induct)
  case base
  then show ?case by auto
next
  case (step t u)
  then obtain b where "status t k = Some b" "edge\<^sup>*\<^sup>* a b" by blast
  moreover from step.hyps(1) step.prems(1) have "inv t" by (rule run_inv)
  ultimately show ?case
    using step_edge [OF step.hyps(2)] by (metis rtranclp.rtrancl_into_rtrancl)
qed

text \<open>A set of statuses that no edge leaves is never left.\<close>

lemma closed_run:
  assumes "step\<^sup>*\<^sup>* s t" and "inv s" and "status s k = Some a" and "C a"
    and closed: "\<And>a b. C a \<Longrightarrow> edge a b \<Longrightarrow> C b"
  shows "\<exists>b. status t k = Some b \<and> C b"
proof -
  from run_edges [OF assms(1,2,3)] obtain b where b: "status t k = Some b" "edge\<^sup>*\<^sup>* a b"
    by blast
  from b(2) \<open>C a\<close> have "C b"
    by (induction rule: rtranclp_induct) (auto intro: closed)
  with b(1) show ?thesis by blast
qed

text \<open>A status with no outgoing edge is final.\<close>

lemma final_run:
  assumes "step\<^sup>*\<^sup>* s t" and "inv s" and "status s k = Some a" and "\<And>b. \<not> edge a b"
  shows "status t k = Some a"
  using closed_run [OF assms(1,2,3), of "\<lambda>x. x = a"] assms(4) by blast

end

text \<open>
  A counted life cycle: some steps are marked (an external call is made for item \<open>k\<close>), and a
  rank that only falls, and falls on every marked step, bounds how many marked steps an item can
  see. With a rank of at most one, the external call happens at most once.
\<close>

locale ranked_machine =
  fixes step :: "'s \<Rightarrow> 'l \<Rightarrow> 's \<Rightarrow> bool"
    and marked :: "'k \<Rightarrow> 'l \<Rightarrow> bool"
    and rank :: "'s \<Rightarrow> 'k \<Rightarrow> nat"
    and good :: "'s \<Rightarrow> bool"
  assumes step_rank: "step s l t \<Longrightarrow> good s \<Longrightarrow> rank t k + (if marked k l then 1 else 0) \<le> rank s k"
    and step_good: "step s l t \<Longrightarrow> good s \<Longrightarrow> good t"

inductive run :: "('s \<Rightarrow> 'l \<Rightarrow> 's \<Rightarrow> bool) \<Rightarrow> 's \<Rightarrow> 'l list \<Rightarrow> 's \<Rightarrow> bool"
  for step :: "'s \<Rightarrow> 'l \<Rightarrow> 's \<Rightarrow> bool" where
  run_Nil: "run step s [] s"
| run_Cons: "step s l t \<Longrightarrow> run step t ls u \<Longrightarrow> run step s (l # ls) u"

inductive_simps run_Nil_iff [simp]: "run step s [] u"
inductive_simps run_Cons_iff [simp]: "run step s (l # ls) u"

lemma run_append:
  "run step s (ls @ ms) u \<longleftrightarrow> (\<exists>t. run step s ls t \<and> run step t ms u)"
  by (induction ls arbitrary: s) auto

lemma run_snoc: "run step s ls t \<Longrightarrow> step t l u \<Longrightarrow> run step s (ls @ [l]) u"
  by (auto simp: run_append intro: run.intros)

lemma run_rtranclp: "run step s ls t \<Longrightarrow> (\<lambda>s t. \<exists>l. step s l t)\<^sup>*\<^sup>* s t"
  by (induction rule: run.induct) (auto intro: converse_rtranclp_into_rtranclp)

context ranked_machine begin

lemma run_good: "run step s ls t \<Longrightarrow> good s \<Longrightarrow> good t"
  by (induction rule: run.induct) (auto intro: step_good)

lemma run_rank:
  "run step s ls t \<Longrightarrow> good s \<Longrightarrow> rank t k + length (filter (marked k) ls) \<le> rank s k"
proof (induction rule: run.induct)
  case (run_Nil s)
  then show ?case by simp
next
  case (run_Cons s l t ls u)
  with step_rank [OF run_Cons.hyps(1), of k] step_good [OF run_Cons.hyps(1)]
  show ?case by (auto split: if_splits)
qed

lemma marked_at_most: "run step s ls t \<Longrightarrow> good s \<Longrightarrow> length (filter (marked k) ls) \<le> rank s k"
  using run_rank [of s ls t k] by linarith

end

end
