(* ===== verification/Inbox.thy ===== *)
theory Inbox
  imports Storage Lifecycle
begin

text \<open>
  The inbox operations of \<open>CoreRepository\<close> (\<open>lemonbot/storage/repository.py\<close>). Each method is one
  transaction, so one function on the database; the clock reading of the method is its first
  argument (the several \<open>utc_now()\<close> calls of one method are one reading, no branch compares them).
\<close>

subsection \<open>Operations\<close>

definition inbox_item_of :: "inbox_row \<Rightarrow> inbox_item" where
  "inbox_item_of r =
     \<lparr>ii_id = ib_id r,
      ii_event = \<lparr>ev_channel = ib_channel r, ev_event_id = ib_event_id r, ev_chat_id = ib_chat_id r,
        ev_sender_id = ib_sender_id r, ev_text = ib_text r, ev_kind = ib_kind r,
        ev_occurred_at = ib_occurred_at r, ev_metadata = ib_metadata r\<rparr>,
      ii_state = ib_state r, ii_attempts = ib_attempts r, ii_claimed_at = ib_claimed_at r\<rparr>"

definition is_event :: "str \<Rightarrow> str \<Rightarrow> str \<Rightarrow> inbox_row \<Rightarrow> bool" where
  "is_event ch chat ev r \<longleftrightarrow> ib_channel r = ch \<and> ib_chat_id r = chat \<and> ib_event_id r = ev"

definition has_inbound_event :: "str \<Rightarrow> str \<Rightarrow> str \<Rightarrow> db \<Rightarrow> bool" where
  "has_inbound_event ch chat ev s =
     (if ch = [] \<or> chat = [] \<or> ev = [] then False else exists_row (is_event ch chat ev) (inbox s))"

definition stored_inbound_event :: "str \<Rightarrow> str \<Rightarrow> str \<Rightarrow> db \<Rightarrow> inbound_event option" where
  "stored_inbound_event ch chat ev s =
     (if ch = [] \<or> chat = [] \<or> ev = [] then None
      else map_option (\<lambda>r. ii_event (inbox_item_of r)) (find (is_event ch chat ev) (inbox s)))"

definition record_inbound :: "time \<Rightarrow> inbound_event \<Rightarrow> db \<Rightarrow> bool \<times> db" where
  "record_inbound now e s =
     (if exists_row (\<lambda>r. ib_channel r = ev_channel e \<and> ib_event_id r = ev_event_id e) (inbox s)
      then (False, s)
      else
        let row = \<lparr>ib_id = next_id ib_id (inbox s), ib_channel = ev_channel e,
              ib_event_id = ev_event_id e, ib_chat_id = ev_chat_id e, ib_sender_id = ev_sender_id e,
              ib_kind = ev_kind e, ib_text = ev_text e, ib_occurred_at = ev_occurred_at e,
              ib_metadata = ev_metadata e, ib_state = Ibx_Pending, ib_attempts = 0,
              ib_claimed_at = None, ib_model_started_at = None, ib_last_error = None,
              ib_created_at = now, ib_updated_at = now\<rparr>;
            msg = \<lparr>mg_id = 0, mg_channel = ev_channel e, mg_chat_id = ev_chat_id e,
              mg_sender_id = Some (ev_sender_id e), mg_role = Role_User, mg_kind = ev_kind e,
              mg_content = (case ev_text e of None \<Rightarrow> [] | Some t \<Rightarrow> t),
              mg_external_id = Some (ev_event_id e), mg_occurred_at = ev_occurred_at e,
              mg_metadata = ev_metadata e\<rparr>
        in (True,
            append_audit
              (audit_row ''inbox.receive'' ''accepted'' (ev_channel e) (Some (ev_chat_id e))
                 (Some (ev_event_id e)) None
                 [(lit ''kind'', JStr (lit (event_kind_value (ev_kind e))))] now)
              (add_message msg (s\<lparr>inbox := inbox s @ [row]\<rparr>))))"

text \<open>The correlated \<open>EXISTS\<close> of the claim: an earlier event of the same chat is still active.\<close>

definition ib_active :: "inbox_row \<Rightarrow> bool" where
  "ib_active r \<longleftrightarrow> ib_state r = Ibx_Pending \<or> ib_state r = Ibx_Processing"

definition ib_before :: "inbox_row \<Rightarrow> inbox_row \<Rightarrow> bool" where
  "ib_before earlier current \<longleftrightarrow>
     ib_occurred_at earlier < ib_occurred_at current \<or>
     ib_occurred_at earlier = ib_occurred_at current \<and> ib_id earlier < ib_id current"

definition blocking_earlier :: "inbox_row list \<Rightarrow> inbox_row \<Rightarrow> bool" where
  "blocking_earlier rows current =
     exists_row (\<lambda>earlier. ib_channel earlier = ib_channel current \<and>
         ib_chat_id earlier = ib_chat_id current \<and> ib_active earlier \<and> ib_before earlier current)
       rows"

definition claim_candidate :: "str option \<Rightarrow> inbox_row list \<Rightarrow> inbox_row option" where
  "claim_candidate channel rows =
     first_row (select_order (\<lambda>r. (ib_occurred_at r, ib_id r))
       (\<lambda>r. ib_state r = Ibx_Pending \<and> \<not> blocking_earlier rows r \<and>
            (case channel of None \<Rightarrow> True | Some ch \<Rightarrow> ib_channel r = ch))
       rows)"

definition claim_next_inbox :: "time \<Rightarrow> str option \<Rightarrow> db \<Rightarrow> inbox_item option \<times> db" where
  "claim_next_inbox now channel s =
     (case claim_candidate channel (inbox s) of
        None \<Rightarrow> (None, s)
      | Some c \<Rightarrow>
          let rows = update_where (\<lambda>r. ib_id r = ib_id c \<and> ib_state r = Ibx_Pending)
                (\<lambda>r. r\<lparr>ib_state := Ibx_Processing, ib_attempts := ib_attempts r + 1,
                       ib_claimed_at := Some now, ib_updated_at := now\<rparr>) (inbox s)
          in (map_option inbox_item_of (get_row ib_id (ib_id c) rows), s\<lparr>inbox := rows\<rparr>))"

definition transition_inbox ::
    "time \<Rightarrow> nat \<Rightarrow> inbox_state \<Rightarrow> inbox_state \<Rightarrow> db \<Rightarrow> bool \<times> db" where
  "transition_inbox now i source target s =
     (let P = (\<lambda>r. ib_id r = i \<and> ib_state r = source)
      in (count_where P (inbox s) = 1,
          s\<lparr>inbox := update_where P
             (\<lambda>r. r\<lparr>ib_state := target, ib_claimed_at := None, ib_updated_at := now\<rparr>) (inbox s)\<rparr>))"

definition complete_inbox :: "time \<Rightarrow> nat \<Rightarrow> db \<Rightarrow> bool \<times> db" where
  "complete_inbox now i s = transition_inbox now i Ibx_Processing Ibx_Completed s"

definition mark_inbox_model_started :: "time \<Rightarrow> nat \<Rightarrow> db \<Rightarrow> bool \<times> db" where
  "mark_inbox_model_started now i s =
     (let P = (\<lambda>r. ib_id r = i \<and> ib_state r = Ibx_Processing \<and> ib_model_started_at r = None)
      in if count_where P (inbox s) = 1
         then (True, s\<lparr>inbox := update_where P
                 (\<lambda>r. r\<lparr>ib_model_started_at := Some now, ib_updated_at := now\<rparr>) (inbox s)\<rparr>)
         else (case get_row ib_id i (inbox s) of
                 None \<Rightarrow> False
               | Some r \<Rightarrow> ib_state r = Ibx_Processing \<and> ib_model_started_at r \<noteq> None, s))"

definition fail_inbox ::
    "time \<Rightarrow> nat \<Rightarrow> str \<Rightarrow> bool \<Rightarrow> nat \<Rightarrow> db \<Rightarrow> (inbox_state \<times> db) result" where
  "fail_inbox now i error0 retryable max_attempts s =
     (let error = take 2000 error0
      in case get_row ib_id i (inbox s) of
           None \<Rightarrow> Inl KeyError
         | Some r \<Rightarrow>
             if ib_state r \<noteq> Ibx_Processing then Inr (ib_state r, s)
             else
               let safe_to_retry = (ib_model_started_at r = None);
                   next_state = (if retryable \<and> safe_to_retry \<and> ib_attempts r < max_attempts
                                 then Ibx_Pending else Ibx_Dead);
                   rows = update_where (\<lambda>r. ib_id r = i)
                     (\<lambda>r. r\<lparr>ib_state := next_state, ib_claimed_at := None,
                            ib_last_error := Some error, ib_updated_at := now\<rparr>) (inbox s)
               in Inr (next_state,
                    append_audit
                      (audit_row ''inbox.process'' (inbox_state_value next_state) (ib_channel r)
                        (Some (ib_chat_id r)) (Some (ib_event_id r)) None
                        [(lit ''error'', JStr error),
                         (lit ''attempts'', JInt (int (ib_attempts r)))] now)
                      (s\<lparr>inbox := rows\<rparr>)))"

text \<open>The two inbox statements of \<open>recover_interrupted\<close>: ambiguous work is buried first, then work
  whose model call had not started goes back to the queue.\<close>

definition recover_inbox :: "time \<Rightarrow> time \<Rightarrow> db \<Rightarrow> (nat \<times> nat) \<times> db" where
  "recover_inbox now cutoff s =
     (let stale = (\<lambda>r. ib_state r = Ibx_Processing \<and>
             (case ib_claimed_at r of None \<Rightarrow> False | Some t \<Rightarrow> t < cutoff));
          amb = (\<lambda>r. stale r \<and> ib_model_started_at r \<noteq> None);
          rows1 = update_where amb
             (\<lambda>r. r\<lparr>ib_state := Ibx_Dead, ib_claimed_at := None,
                ib_last_error := Some (lit
                  ''process stopped after model provider I/O may have begun; automatic retry is forbidden''),
                ib_updated_at := now\<rparr>) (inbox s);
          safe = (\<lambda>r. stale r \<and> ib_model_started_at r = None);
          rows2 = update_where safe
             (\<lambda>r. r\<lparr>ib_state := Ibx_Pending, ib_claimed_at := None, ib_updated_at := now\<rparr>) rows1
      in ((count_where safe rows1, count_where amb (inbox s)), s\<lparr>inbox := rows2\<rparr>))"

definition has_active_inbox :: "str \<Rightarrow> db \<Rightarrow> bool" where
  "has_active_inbox ch s = exists_row (\<lambda>r. ib_channel r = ch \<and> ib_active r) (inbox s)"

lemmas inbox_op_defs = record_inbound_def claim_next_inbox_def complete_inbox_def
  transition_inbox_def mark_inbox_model_started_def fail_inbox_def recover_inbox_def

declare inbox_op_defs [op_defs]

subsection \<open>Well-formedness\<close>

definition inbox_row_ok :: "inbox_row \<Rightarrow> bool" where
  "inbox_row_ok r \<longleftrightarrow>
     (ib_state r = Ibx_Processing \<longleftrightarrow> ib_claimed_at r \<noteq> None) \<and>
     (ib_state r = Ibx_Pending \<longrightarrow> ib_model_started_at r = None) \<and>
     (ib_state r \<noteq> Ibx_Pending \<longrightarrow> 0 < ib_attempts r)"

definition inbox_inv :: "db \<Rightarrow> bool" where
  "inbox_inv s \<longleftrightarrow>
     distinct (map ib_id (inbox s)) \<and>
     distinct (map (\<lambda>r. (ib_channel r, ib_event_id r)) (inbox s)) \<and>
     (\<forall>r \<in> set (inbox s). inbox_row_ok r)"

lemma inbox_inv_empty: "inbox s = [] \<Longrightarrow> inbox_inv s"
  by (simp add: inbox_inv_def)

lemma inbox_inv_cong: "inbox t = inbox s \<Longrightarrow> inbox_inv t = inbox_inv s"
  by (simp add: inbox_inv_def)

lemma inbox_inv_update:
  assumes "inbox_inv s"
    and "\<And>r. ib_id (f r) = ib_id r"
    and "\<And>r. ib_channel (f r) = ib_channel r" and "\<And>r. ib_event_id (f r) = ib_event_id r"
    and "\<And>r. P r \<Longrightarrow> inbox_row_ok r \<Longrightarrow> inbox_row_ok (f r)"
    and "inbox t = update_where P f (inbox s)"
  shows "inbox_inv t"
  using assms by (simp add: inbox_inv_def map_update_where ball_update_where)

lemma inbox_inv_insert:
  assumes "inbox_inv s" and "inbox t = inbox s @ [r]" and "ib_id r = next_id ib_id (inbox s)"
    and "\<not> exists_row (\<lambda>q. ib_channel q = ib_channel r \<and> ib_event_id q = ib_event_id r) (inbox s)"
    and "inbox_row_ok r"
  shows "inbox_inv t"
proof -
  have "ib_id r \<notin> ib_id ` set (inbox s)" using assms(3) by simp
  moreover have "(ib_channel r, ib_event_id r) \<notin> (\<lambda>q. (ib_channel q, ib_event_id q)) ` set (inbox s)"
    using assms(4) by (auto simp: exists_row_def list_ex_iff)
  ultimately show ?thesis using assms(1,2,5) by (auto simp: inbox_inv_def)
qed

lemma record_inbound_frame [frame_simps]:
  "outbox (snd (record_inbound now e s)) = outbox s"
  "drafts (snd (record_inbound now e s)) = drafts s"
  "allowlist (snd (record_inbound now e s)) = allowlist s"
  "approvals (snd (record_inbound now e s)) = approvals s"
  "tool_executions (snd (record_inbound now e s)) = tool_executions s"
  "runtime_state (snd (record_inbound now e s)) = runtime_state s"
  by (simp_all add: record_inbound_def)

lemma record_inbound_inv: "inbox_inv s \<Longrightarrow> inbox_inv (snd (record_inbound now e s))"
proof (cases "fst (record_inbound now e s)")
  case True
  assume inv: "inbox_inv s"
  let ?r = "last (inbox (snd (record_inbound now e s)))"
  from True show ?thesis
    by (intro inbox_inv_insert [OF inv, where r = ?r])
      (auto simp: record_inbound_def inbox_row_ok_def split: if_splits)
next
  case False
  assume "inbox_inv s"
  with False show ?thesis by (simp add: record_inbound_def split: if_splits)
qed

text \<open>Each operation touches the inbox by one conditional update, or not at all.\<close>

lemma claim_next_inbox_table:
  "claim_candidate ch (inbox s) = Some c \<Longrightarrow>
   inbox (snd (claim_next_inbox now ch s)) =
     update_where (\<lambda>r. ib_id r = ib_id c \<and> ib_state r = Ibx_Pending)
       (\<lambda>r. r\<lparr>ib_state := Ibx_Processing, ib_attempts := ib_attempts r + 1,
              ib_claimed_at := Some now, ib_updated_at := now\<rparr>) (inbox s)"
  "claim_candidate ch (inbox s) = None \<Longrightarrow> snd (claim_next_inbox now ch s) = s"
  by (simp_all add: claim_next_inbox_def)

lemma transition_inbox_table:
  "inbox (snd (transition_inbox now i source target s)) =
     update_where (\<lambda>r. ib_id r = i \<and> ib_state r = source)
       (\<lambda>r. r\<lparr>ib_state := target, ib_claimed_at := None, ib_updated_at := now\<rparr>) (inbox s)"
  by (simp add: transition_inbox_def)

lemma mark_inbox_table:
  "distinct (map ib_id (inbox s)) \<Longrightarrow>
   inbox (snd (mark_inbox_model_started now i s)) =
     update_where (\<lambda>r. ib_id r = i \<and> ib_state r = Ibx_Processing \<and> ib_model_started_at r = None)
       (\<lambda>r. r\<lparr>ib_model_started_at := Some now, ib_updated_at := now\<rparr>) (inbox s)"
  by (auto simp: mark_inbox_model_started_def update_where_none count_where_unique_key
      split: option.splits if_splits)

lemma recover_inbox_table:
  "inbox (snd (recover_inbox now cutoff s)) =
     update_where (\<lambda>r. ib_state r = Ibx_Processing \<and>
         (case ib_claimed_at r of None \<Rightarrow> False | Some t \<Rightarrow> t < cutoff))
       (\<lambda>r. if ib_model_started_at r \<noteq> None
            then r\<lparr>ib_state := Ibx_Dead, ib_claimed_at := None,
                ib_last_error := Some (lit
                  ''process stopped after model provider I/O may have begun; automatic retry is forbidden''),
                ib_updated_at := now\<rparr>
            else r\<lparr>ib_state := Ibx_Pending, ib_claimed_at := None, ib_updated_at := now\<rparr>) (inbox s)"
  by (simp add: recover_inbox_def update_where_def)

lemma fail_inbox_cases:
  assumes "fail_inbox now i err retry mx s = Inr (st, t)"
  obtains (absent) r where "get_row ib_id i (inbox s) = Some r" "ib_state r \<noteq> Ibx_Processing"
      "st = ib_state r" "t = s"
  | (applied) r where "get_row ib_id i (inbox s) = Some r" "ib_state r = Ibx_Processing"
      "st = (if retry \<and> ib_model_started_at r = None \<and> ib_attempts r < mx
             then Ibx_Pending else Ibx_Dead)"
      "inbox t = update_where (\<lambda>r. ib_id r = i)
         (\<lambda>r. r\<lparr>ib_state := st, ib_claimed_at := None, ib_last_error := Some (take 2000 err),
                ib_updated_at := now\<rparr>) (inbox s)"
proof -
  from assms obtain r where r: "get_row ib_id i (inbox s) = Some r"
    by (cases "get_row ib_id i (inbox s)") (auto simp: fail_inbox_def)
  show ?thesis
  proof (cases "ib_state r = Ibx_Processing")
    case True
    with assms r show ?thesis
      by (intro applied [OF r True]) (auto simp: fail_inbox_def)
  next
    case False
    with assms r show ?thesis
      by (intro absent [OF r False]) (auto simp: fail_inbox_def)
  qed
qed

lemma claim_next_inbox_inv:
  assumes "inbox_inv s" shows "inbox_inv (snd (claim_next_inbox now ch s))"
proof (cases "claim_candidate ch (inbox s)")
  case None
  with assms show ?thesis by (simp add: claim_next_inbox_table)
next
  case (Some c)
  show ?thesis
    by (rule inbox_inv_update [OF assms _ _ _ _ claim_next_inbox_table(1) [OF Some]])
      (auto simp: inbox_row_ok_def)
qed

lemma complete_inbox_inv:
  assumes "inbox_inv s" shows "inbox_inv (snd (complete_inbox now i s))"
  unfolding complete_inbox_def
  by (rule inbox_inv_update [OF assms _ _ _ _ transition_inbox_table]) (auto simp: inbox_row_ok_def)

lemma mark_inbox_inv:
  assumes "inbox_inv s" shows "inbox_inv (snd (mark_inbox_model_started now i s))"
proof (rule inbox_inv_update [OF assms _ _ _ _ mark_inbox_table])
  show "distinct (map ib_id (inbox s))" using assms by (simp add: inbox_inv_def)
qed (auto simp: inbox_row_ok_def)

lemma inbox_inv_update_id:
  assumes "inbox_inv s" and "get_row ib_id i (inbox s) = Some r"
    and "\<And>r. ib_id (f r) = ib_id r"
    and "\<And>r. ib_channel (f r) = ib_channel r" and "\<And>r. ib_event_id (f r) = ib_event_id r"
    and "inbox_row_ok r \<Longrightarrow> inbox_row_ok (f r)"
    and "inbox t = update_where (\<lambda>r. ib_id r = i) f (inbox s)"
  shows "inbox_inv t"
proof -
  have d: "distinct (map ib_id (inbox s))" using assms(1) by (simp add: inbox_inv_def)
  from get_row_in [OF assms(2)] have r: "r \<in> set (inbox s)" "ib_id r = i" by auto
  have "q = r" if "q \<in> set (inbox s)" "ib_id q = i" for q
    using get_row_unique [OF d that(1)] get_row_unique [OF d r(1)] that(2) r(2) by simp
  then have "update_where (\<lambda>q. ib_id q = i) f (inbox s) = update_where (\<lambda>q. q = r) f (inbox s)"
    using r by (intro update_where_cong) blast
  with assms(7) have eq: "inbox t = update_where (\<lambda>q. q = r) f (inbox s)" by simp
  show ?thesis
    by (rule inbox_inv_update [OF assms(1,3,4,5) _ eq]) (use assms(6) in simp)
qed

lemma fail_inbox_inv:
  assumes "inbox_inv s" and "fail_inbox now i err retry mx s = Inr (st, t)"
  shows "inbox_inv t"
  using assms(2)
proof (cases rule: fail_inbox_cases)
  case (absent r)
  with assms(1) show ?thesis by simp
next
  case (applied r)
  from applied(3) have st: "st = Ibx_Dead \<or> st = Ibx_Pending \<and> ib_model_started_at r = None"
    by (auto split: if_splits)
  show ?thesis
  proof (rule inbox_inv_update_id [OF assms(1) applied(1) _ _ _ _ applied(4)])
    assume "inbox_row_ok r"
    with st applied(2) show "inbox_row_ok (r\<lparr>ib_state := st, ib_claimed_at := None,
        ib_last_error := Some (take 2000 err), ib_updated_at := now\<rparr>)"
      by (elim disjE) (simp_all add: inbox_row_ok_def)
  qed simp_all
qed

lemma recover_inbox_inv:
  assumes "inbox_inv s" shows "inbox_inv (snd (recover_inbox now cutoff s))"
  by (rule inbox_inv_update [OF assms _ _ _ _ recover_inbox_table]) (auto simp: inbox_row_ok_def)

subsection \<open>Steps and the life cycle of an item\<close>

inductive inbox_step :: "db \<Rightarrow> db \<Rightarrow> bool" where
  recorded: "inbox_step s (snd (record_inbound now e s))"
| claim_next: "inbox_step s (snd (claim_next_inbox now ch s))"
| complete: "inbox_step s (snd (complete_inbox now i s))"
| mark: "inbox_step s (snd (mark_inbox_model_started now i s))"
| fail: "fail_inbox now i err retry mx s = Inr (st, t) \<Longrightarrow> inbox_step s t"
| recover: "inbox_step s (snd (recover_inbox now cutoff s))"

lemma inbox_step_inv: "inbox_step s t \<Longrightarrow> inbox_inv s \<Longrightarrow> inbox_inv t"
  by (induction rule: inbox_step.induct)
    (auto intro: record_inbound_inv claim_next_inbox_inv complete_inbox_inv mark_inbox_inv
      fail_inbox_inv recover_inbox_inv)

text \<open>The status of item \<open>i\<close>: its state and whether the model boundary has been persisted.\<close>

definition inbox_status :: "db \<Rightarrow> nat \<Rightarrow> (inbox_state \<times> bool) option" where
  "inbox_status s i =
     map_option (\<lambda>r. (ib_state r, ib_model_started_at r \<noteq> None)) (get_row ib_id i (inbox s))"

inductive inbox_edge :: "inbox_state \<times> bool \<Rightarrow> inbox_state \<times> bool \<Rightarrow> bool" where
  claimed: "inbox_edge (Ibx_Pending, False) (Ibx_Processing, False)"
| started: "inbox_edge (Ibx_Processing, False) (Ibx_Processing, True)"
| completed: "inbox_edge (Ibx_Processing, b) (Ibx_Completed, b)"
| retried: "inbox_edge (Ibx_Processing, False) (Ibx_Pending, False)"
| buried: "inbox_edge (Ibx_Processing, b) (Ibx_Dead, b)"

declare inbox_edge.intros [edge_intros]
inductive_simps inbox_edge_iff: "inbox_edge (a, b) (c, d)"

lemma inbox_status_update:
  assumes "inbox t = update_where P f (inbox s)" and "\<And>r. ib_id (f r) = ib_id r"
    and "inbox_status s i = Some a"
  obtains r where "get_row ib_id i (inbox s) = Some r" "r \<in> set (inbox s)" "ib_id r = i"
    "a = (ib_state r, ib_model_started_at r \<noteq> None)"
    "inbox_status t i = Some (if P r then (ib_state (f r), ib_model_started_at (f r) \<noteq> None) else a)"
proof -
  from assms(3) obtain r where r: "get_row ib_id i (inbox s) = Some r"
    "a = (ib_state r, ib_model_started_at r \<noteq> None)"
    by (auto simp: inbox_status_def)
  with assms(1,2) show ?thesis
    by (intro that [of r]) (auto simp: inbox_status_def get_row_update_where dest: get_row_in)
qed

lemma inbox_status_append:
  "inbox t = inbox s @ rs \<Longrightarrow> inbox_status s i = Some a \<Longrightarrow> inbox_status t i = Some a"
  by (auto simp: inbox_status_def)

lemma inbox_row_of:
  "inbox_inv s \<Longrightarrow> r \<in> set (inbox s) \<Longrightarrow> inbox_row_ok r"
  by (simp add: inbox_inv_def)

lemma inbox_step_edge:
  assumes "inbox_step s t" and inv: "inbox_inv s" and a: "inbox_status s i = Some a"
  shows "\<exists>b. inbox_status t i = Some b \<and> (b = a \<or> inbox_edge a b)"
  using assms(1)
proof (cases rule: inbox_step.cases)
  case (recorded now e)
  then have "inbox t = inbox s \<or> (\<exists>r. inbox t = inbox s @ [r])"
    by (auto simp: record_inbound_def)
  with a show ?thesis by (metis inbox_status_append append_Nil2)
next
  case (claim_next now ch)
  show ?thesis
  proof (cases "claim_candidate ch (inbox s)")
    case None
    with claim_next a show ?thesis by (simp add: claim_next_inbox_table)
  next
    case (Some c)
    note tab = claim_next_inbox_table(1) [OF Some, of now, folded claim_next(1)]
    from inbox_status_update [OF tab _ a] show ?thesis
      by (rule, simp) (auto simp: inbox_edge_iff inbox_row_ok_def dest: inbox_row_of [OF inv])
  qed
next
  case (complete now j)
  note tab = transition_inbox_table [of now j Ibx_Processing Ibx_Completed s,
      folded complete_inbox_def, folded complete(1)]
  from inbox_status_update [OF tab _ a] show ?thesis
    by (rule, simp) (auto simp: inbox_edge_iff)
next
  case (mark now j)
  have d: "distinct (map ib_id (inbox s))" using inv by (simp add: inbox_inv_def)
  note tab = mark_inbox_table [OF d, of now j, folded mark(1)]
  from inbox_status_update [OF tab _ a] show ?thesis
    by (rule, simp) (auto simp: inbox_edge_iff)
next
  case (fail now j err retry mx st)
  from fail(1) show ?thesis
  proof (cases rule: fail_inbox_cases)
    case (absent r)
    with a show ?thesis by simp
  next
    case (applied r)
    from applied(3) have st: "st = Ibx_Dead \<or> st = Ibx_Pending \<and> ib_model_started_at r = None"
      by (auto split: if_splits)
    obtain q where q: "get_row ib_id i (inbox s) = Some q" "ib_id q = i"
        "a = (ib_state q, ib_model_started_at q \<noteq> None)"
        "inbox_status t i = Some (if ib_id q = j then (st, ib_model_started_at q \<noteq> None) else a)"
      by (rule inbox_status_update [OF applied(4) _ a]) auto
    with applied(1,2) st show ?thesis
      by (cases "i = j") (auto simp: inbox_edge_iff)
  qed
next
  case (recover now cutoff)
  note tab = recover_inbox_table [of now cutoff s, folded recover(1)]
  from inbox_status_update [OF tab _ a] show ?thesis
    by (rule, simp) (auto simp: inbox_edge_iff split: if_splits)
qed

interpretation inbox_life: lifecycle "\<lambda>s. inbox s = []" inbox_step inbox_inv inbox_status inbox_edge
proof unfold_locales
  show "inbox s = [] \<Longrightarrow> inbox_inv s" for s by (rule inbox_inv_empty)
  show "inbox_step s t \<Longrightarrow> inbox_inv s \<Longrightarrow> inbox_inv t" for s t by (rule inbox_step_inv)
  show "inbox_step s t \<Longrightarrow> inbox_inv s \<Longrightarrow> inbox_status s i = Some a \<Longrightarrow>
      \<exists>b. inbox_status t i = Some b \<and> (b = a \<or> inbox_edge a b)" for s t i a
    by (rule inbox_step_edge)
qed

subsection \<open>Properties\<close>

lemma claim_candidate_props:
  assumes "claim_candidate ch rows = Some c"
  shows "c \<in> set rows" "ib_state c = Ibx_Pending" "\<not> blocking_earlier rows c"
    "\<And>x. ch = Some x \<Longrightarrow> ib_channel c = x"
    "\<And>q. q \<in> set rows \<Longrightarrow> ib_state q = Ibx_Pending \<Longrightarrow> \<not> blocking_earlier rows q \<Longrightarrow>
       (ch = None \<or> ch = Some (ib_channel q)) \<Longrightarrow> (ib_occurred_at c, ib_id c) \<le> (ib_occurred_at q, ib_id q)"
  using select_order_first [OF assms [unfolded claim_candidate_def]]
  by (auto split: option.splits)

lemma claimed_row:
  assumes "inbox_inv s" and "claim_candidate ch (inbox s) = Some c"
  shows "get_row ib_id (ib_id c) (inbox s) = Some c"
    and "fst (claim_next_inbox now ch s) =
      Some (inbox_item_of (c\<lparr>ib_state := Ibx_Processing, ib_attempts := ib_attempts c + 1,
              ib_claimed_at := Some now, ib_updated_at := now\<rparr>))"
proof -
  have d: "distinct (map ib_id (inbox s))" using assms(1) by (simp add: inbox_inv_def)
  note c = claim_candidate_props [OF assms(2)]
  show g: "get_row ib_id (ib_id c) (inbox s) = Some c" by (rule get_row_unique [OF d c(1)])
  with c(2) show "fst (claim_next_inbox now ch s) =
      Some (inbox_item_of (c\<lparr>ib_state := Ibx_Processing, ib_attempts := ib_attempts c + 1,
              ib_claimed_at := Some now, ib_updated_at := now\<rparr>))"
    by (simp add: claim_next_inbox_def assms(2) get_row_update_where)
qed

lemma claim_next_inbox_Some:
  assumes "fst (claim_next_inbox now ch s) = Some item"
  obtains c where "claim_candidate ch (inbox s) = Some c"
  using assms by (auto simp: claim_next_inbox_def split: option.splits)

text \<open>C1. Per-chat order of claims: the event handed out was pending, is the oldest of those that could
  be handed out, and no older event of its chat is still pending or in progress; the claim marks it
  in progress, counts the attempt, and changes no other row.\<close>

theorem claim_next_inbox_fifo:
  assumes "inbox_inv s" and "claim_next_inbox now ch s = (Some item, t)"
  shows "\<exists>c \<in> set (inbox s). ii_id item = ib_id c \<and> ib_state c = Ibx_Pending \<and>
      ii_state item = Ibx_Processing \<and> ii_attempts item = ib_attempts c + 1 \<and>
      (\<forall>q \<in> set (inbox s). ib_channel q = ib_channel c \<and> ib_chat_id q = ib_chat_id c \<and>
         (ib_state q = Ibx_Pending \<or> ib_state q = Ibx_Processing) \<longrightarrow> \<not> ib_before q c) \<and>
      (\<forall>q \<in> set (inbox s). ib_state q = Ibx_Pending \<and> \<not> blocking_earlier (inbox s) q \<and>
         (ch = None \<or> ch = Some (ib_channel q)) \<longrightarrow> \<not> ib_before q c) \<and>
      (\<forall>i. i \<noteq> ib_id c \<longrightarrow> get_row ib_id i (inbox t) = get_row ib_id i (inbox s))"
proof -
  from assms(2) have item: "fst (claim_next_inbox now ch s) = Some item"
    and t: "t = snd (claim_next_inbox now ch s)" by simp_all
  from item obtain c where c: "claim_candidate ch (inbox s) = Some c"
    by (rule claim_next_inbox_Some)
  note p = claim_candidate_props [OF c]
  have "item = inbox_item_of (c\<lparr>ib_state := Ibx_Processing, ib_attempts := ib_attempts c + 1,
              ib_claimed_at := Some now, ib_updated_at := now\<rparr>)"
    using claimed_row(2) [OF assms(1) c] item by simp
  then have i: "ii_id item = ib_id c" "ii_state item = Ibx_Processing"
    "ii_attempts item = ib_attempts c + 1" by (simp_all add: inbox_item_of_def)
  have older: "\<forall>q \<in> set (inbox s). ib_channel q = ib_channel c \<and> ib_chat_id q = ib_chat_id c \<and>
         (ib_state q = Ibx_Pending \<or> ib_state q = Ibx_Processing) \<longrightarrow> \<not> ib_before q c"
    using p(3) by (auto simp: blocking_earlier_def exists_row_def list_ex_iff ib_active_def)
  have least: "\<forall>q \<in> set (inbox s). ib_state q = Ibx_Pending \<and> \<not> blocking_earlier (inbox s) q \<and>
         (ch = None \<or> ch = Some (ib_channel q)) \<longrightarrow> \<not> ib_before q c"
    using p(5) by (fastforce simp: ib_before_def)
  have frame: "\<forall>i. i \<noteq> ib_id c \<longrightarrow> get_row ib_id i (inbox t) = get_row ib_id i (inbox s)"
  proof (intro allI impI)
    fix i assume "i \<noteq> ib_id c"
    then show "get_row ib_id i (inbox t) = get_row ib_id i (inbox s)"
      unfolding t claim_next_inbox_table(1) [OF c]
      by (cases "get_row ib_id i (inbox s)") (auto simp: get_row_update_where dest: get_row_in)
  qed
  from p(1,2) i older least frame show ?thesis by blast
qed

text \<open>No event waits behind nothing: when a chat of the channel has a pending event and none in
  progress, the claim hands out some event.\<close>

theorem claim_next_inbox_progress:
  assumes "r \<in> set (inbox s)" and "ib_state r = Ibx_Pending"
    and "ch = None \<or> ch = Some (ib_channel r)"
    and "\<forall>q \<in> set (inbox s). ib_channel q = ib_channel r \<and> ib_chat_id q = ib_chat_id r \<longrightarrow>
      ib_state q \<noteq> Ibx_Processing"
  shows "fst (claim_next_inbox now ch s) \<noteq> None"
proof -
  let ?A = "\<lambda>q. ib_channel q = ib_channel r \<and> ib_chat_id q = ib_chat_id r \<and> ib_active q"
  let ?k = "\<lambda>q. (ib_occurred_at q, ib_id q)"
  have "\<not> (\<forall>q \<in> set (inbox s). \<not> ?A q)"
    using assms(1,2) by (auto simp: ib_active_def)
  then obtain m where m: "first_row (select_order ?k ?A (inbox s)) = Some m"
    using select_order_empty [of ?k ?A "inbox s"] by (cases "first_row (select_order ?k ?A (inbox s))") auto
  note mp = select_order_first [OF m]
  have pend: "ib_state m = Ibx_Pending"
    using mp(1,2) assms(4) by (auto simp: ib_active_def)
  have free: "\<not> blocking_earlier (inbox s) m"
  proof
    assume "blocking_earlier (inbox s) m"
    then obtain q where "q \<in> set (inbox s)" "?A q" "ib_before q m"
      using mp(2) by (auto simp: blocking_earlier_def exists_row_def list_ex_iff)
    with mp(3) [of q] show False by (auto simp: ib_before_def)
  qed
  have "claim_candidate ch (inbox s) \<noteq> None"
  proof
    assume "claim_candidate ch (inbox s) = None"
    then have "\<forall>q \<in> set (inbox s). \<not> (ib_state q = Ibx_Pending \<and> \<not> blocking_earlier (inbox s) q \<and>
        (case ch of None \<Rightarrow> True | Some x \<Rightarrow> ib_channel q = x))"
      unfolding claim_candidate_def by (simp only: select_order_empty)
    with mp(1,2) pend free assms(3) show False by (auto split: option.splits)
  qed
  then obtain c where c: "claim_candidate ch (inbox s) = Some c" by auto
  have "get_row ib_id (ib_id c) (inbox s) \<noteq> None"
    using claim_candidate_props(1) [OF c] by (auto simp: get_row_None)
  with c show ?thesis by (auto simp: claim_next_inbox_def get_row_update_where)
qed

text \<open>Rows are never removed and never change their key.\<close>

definition inbox_keys :: "db \<Rightarrow> (str \<times> str) set" where
  "inbox_keys s = (\<lambda>r. (ib_channel r, ib_event_id r)) ` set (inbox s)"

lemma inbox_keys_update:
  assumes "inbox t = update_where P f (inbox s)"
    and "\<And>r. ib_channel (f r) = ib_channel r" and "\<And>r. ib_event_id (f r) = ib_event_id r"
  shows "inbox_keys t = inbox_keys s"
  unfolding inbox_keys_def assms(1) set_update_where image_image
  by (rule image_cong) (simp_all add: assms)

lemma inbox_step_keys:
  assumes "inbox_step s t" and inv: "inbox_inv s"
  shows "inbox_keys s \<subseteq> inbox_keys t"
  using assms(1)
proof (cases rule: inbox_step.cases)
  case (recorded now e)
  then show ?thesis by (auto simp: record_inbound_def inbox_keys_def)
next
  case (claim_next now ch)
  show ?thesis
  proof (cases "claim_candidate ch (inbox s)")
    case None
    with claim_next show ?thesis by (simp add: claim_next_inbox_table)
  next
    case (Some c)
    have "inbox_keys t = inbox_keys s"
      unfolding claim_next by (rule inbox_keys_update [OF claim_next_inbox_table(1) [OF Some]]) simp_all
    then show ?thesis by simp
  qed
next
  case (complete now j)
  have "inbox_keys t = inbox_keys s"
    unfolding complete complete_inbox_def by (rule inbox_keys_update [OF transition_inbox_table]) simp_all
  then show ?thesis by simp
next
  case (mark now j)
  have d: "distinct (map ib_id (inbox s))" using inv by (simp add: inbox_inv_def)
  have "inbox_keys t = inbox_keys s"
    unfolding mark by (rule inbox_keys_update [OF mark_inbox_table [OF d]]) simp_all
  then show ?thesis by simp
next
  case (fail now j err retry mx st)
  from fail(1) show ?thesis
  proof (cases rule: fail_inbox_cases)
    case (applied r)
    have "inbox_keys t = inbox_keys s" by (rule inbox_keys_update [OF applied(4)]) simp_all
    then show ?thesis by simp
  qed simp
next
  case (recover now cutoff)
  have "inbox_keys t = inbox_keys s"
    unfolding recover by (rule inbox_keys_update [OF recover_inbox_table]) simp_all
  then show ?thesis by simp
qed

interpretation inbox_keep: invariant_machine
  "\<lambda>s. inbox_inv s \<and> k \<in> inbox_keys s" inbox_step "\<lambda>s. inbox_inv s \<and> k \<in> inbox_keys s" for k
  by unfold_locales (auto dest: inbox_step_keys inbox_step_inv)

lemma record_inbound_result:
  "fst (record_inbound now e s) \<longleftrightarrow> (ev_channel e, ev_event_id e) \<notin> inbox_keys s"
  by (auto simp: record_inbound_def inbox_keys_def exists_row_def list_ex_iff image_iff) metis

text \<open>C2. An event is taken in exactly once: the first delivery of a key adds one inbox row, one
  conversation message and one audit row, and every later delivery of that key, whatever ran in
  between, reports a duplicate and changes nothing.\<close>

theorem record_inbound_exactly_once:
  assumes "inbox_inv s" and "record_inbound now e s = (True, s1)" and "inbox_step\<^sup>*\<^sup>* s1 t"
    and "ev_channel e' = ev_channel e" and "ev_event_id e' = ev_event_id e"
  shows "length (inbox s1) = Suc (length (inbox s)) \<and> length (messages s1) = Suc (length (messages s)) \<and>
    length (audit_log s1) = Suc (length (audit_log s)) \<and>
    has_inbound_event (ev_channel e) (ev_chat_id e) (ev_event_id e) s1 =
      (ev_channel e \<noteq> [] \<and> ev_chat_id e \<noteq> [] \<and> ev_event_id e \<noteq> []) \<and>
    record_inbound now' e' t = (False, t)"
proof -
  let ?k = "(ev_channel e, ev_event_id e)"
  from assms(2) have s1: "s1 = snd (record_inbound now e s)" and new: "fst (record_inbound now e s)"
    by simp_all
  have inv1: "inbox_inv s1" unfolding s1 by (rule record_inbound_inv [OF assms(1)])
  have shape: "length (inbox s1) = Suc (length (inbox s)) \<and> length (messages s1) = Suc (length (messages s)) \<and>
      length (audit_log s1) = Suc (length (audit_log s)) \<and> ?k \<in> inbox_keys s1 \<and>
      exists_row (is_event (ev_channel e) (ev_chat_id e) (ev_event_id e)) (inbox s1)"
    using new unfolding s1
    by (auto simp: record_inbound_def append_audit_log add_message_def inbox_keys_def exists_row_def
        is_event_def split: if_splits)
  from assms(3) inv1 shape have "?k \<in> inbox_keys t"
    using inbox_keep.run_inv [of s1 t ?k] by blast
  then have "\<not> fst (record_inbound now' e' t)"
    by (simp add: record_inbound_result assms(4,5))
  then have "record_inbound now' e' t = (False, t)"
    by (simp add: record_inbound_def split: if_splits)
  with shape show ?thesis by (simp add: has_inbound_event_def)
qed

lemma claim_not_started:
  assumes "inbox_inv t" and "inbox_status t i = Some (st, True)" and "st \<noteq> Ibx_Pending"
    and "fst (claim_next_inbox now ch t) = Some item"
  shows "ii_id item \<noteq> i"
proof -
  from assms(4) obtain c where c: "claim_candidate ch (inbox t) = Some c"
    by (rule claim_next_inbox_Some)
  have "ii_id item = ib_id c" using claimed_row(2) [OF assms(1) c] assms(4) by (auto simp: inbox_item_of_def)
  moreover have "ib_state c = Ibx_Pending" by (rule claim_candidate_props(2) [OF c])
  moreover have "get_row ib_id (ib_id c) (inbox t) = Some c" by (rule claimed_row(1) [OF assms(1) c])
  ultimately show ?thesis using assms(2,3) by (auto simp: inbox_status_def)
qed

lemma mark_inbox_True:
  assumes "inbox_inv s" and "fst (mark_inbox_model_started now i s)"
  obtains r where "get_row ib_id i (inbox s) = Some r" "ib_state r = Ibx_Processing"
proof -
  have d: "distinct (map ib_id (inbox s))" using assms(1) by (simp add: inbox_inv_def)
  note cw = count_where_unique_key [OF d, of i
      "\<lambda>r. ib_state r = Ibx_Processing \<and> ib_model_started_at r = None"]
  from assms(2) have "get_row ib_id i (inbox s) \<noteq> None"
    using cw by (cases "get_row ib_id i (inbox s)") (simp_all add: mark_inbox_model_started_def)
  then obtain r where r: "get_row ib_id i (inbox s) = Some r" by auto
  have "ib_state r = Ibx_Processing"
  proof (rule ccontr)
    assume "ib_state r \<noteq> Ibx_Processing"
    with assms(2) cw r show False by (simp add: mark_inbox_model_started_def)
  qed
  with r show ?thesis by (rule that)
qed

lemma mark_inbox_status:
  assumes "inbox_inv s" and "mark_inbox_model_started now i s = (True, s1)"
  shows "inbox_status s1 i = Some (Ibx_Processing, True)"
proof -
  have d: "distinct (map ib_id (inbox s))" using assms(1) by (simp add: inbox_inv_def)
  from assms obtain r where r: "get_row ib_id i (inbox s) = Some r" "ib_state r = Ibx_Processing"
    using mark_inbox_True [of s now i] by auto
  have "s1 = snd (mark_inbox_model_started now i s)" using assms(2) by simp
  with r mark_inbox_table [OF d, of now i] get_row_in [OF r(1)] show ?thesis
    by (auto simp: inbox_status_def get_row_update_where)
qed

text \<open>C3. The monetary boundary is crossed once: after \<open>mark_inbox_model_started\<close> has succeeded for an
  item, whatever inbox operations follow (failures, completions, restarts with recovery), the item
  is never pending again and no claim ever hands it out again.\<close>

theorem model_boundary_never_requeued:
  assumes "inbox_inv s" and "mark_inbox_model_started now i s = (True, s1)" and "inbox_step\<^sup>*\<^sup>* s1 t"
  shows "\<exists>st. inbox_status t i = Some (st, True) \<and> st \<noteq> Ibx_Pending \<and>
    (\<forall>now' ch item. fst (claim_next_inbox now' ch t) = Some item \<longrightarrow> ii_id item \<noteq> i)"
proof -
  have inv1: "inbox_inv s1" using mark_inbox_inv [OF assms(1), of now i] assms(2) by simp
  have "\<exists>b. inbox_status t i = Some b \<and> (snd b \<and> fst b \<noteq> Ibx_Pending)"
    by (rule inbox_life.closed_run [OF assms(3) inv1 mark_inbox_status [OF assms(1,2)]])
      (auto elim: inbox_edge.cases)
  then obtain st where st: "inbox_status t i = Some (st, True)" "st \<noteq> Ibx_Pending" by auto
  have "inbox_inv t" by (rule inbox_life.run_inv [OF assms(3) inv1])
  with st show ?thesis using claim_not_started by blast
qed

text \<open>The verdict of \<open>fail_inbox\<close>: an unknown item is an error, an item that is not in progress is
  reported as it is and left alone, and an item in progress goes back to the queue exactly when the
  failure is retryable, no model call had started, and attempts remain; otherwise it is dead.\<close>

theorem fail_inbox_verdict:
  assumes "inbox_inv s"
  shows "case get_row ib_id i (inbox s) of
      None \<Rightarrow> fail_inbox now i err retry mx s = Inl KeyError
    | Some r \<Rightarrow>
        (if ib_state r \<noteq> Ibx_Processing then fail_inbox now i err retry mx s = Inr (ib_state r, s)
         else \<exists>t st. fail_inbox now i err retry mx s = Inr (st, t) \<and>
           (st = Ibx_Pending \<longleftrightarrow> retry \<and> ib_model_started_at r = None \<and> ib_attempts r < mx) \<and>
           (st \<noteq> Ibx_Pending \<longrightarrow> st = Ibx_Dead) \<and>
           inbox_status t i = Some (st, ib_model_started_at r \<noteq> None) \<and>
           (\<forall>j. j \<noteq> i \<longrightarrow> get_row ib_id j (inbox t) = get_row ib_id j (inbox s)))"
proof (cases "get_row ib_id i (inbox s)")
  case None
  then show ?thesis by (simp add: fail_inbox_def)
next
  case (Some r)
  show ?thesis
  proof (cases "ib_state r = Ibx_Processing")
    case False
    with Some show ?thesis by (simp add: fail_inbox_def)
  next
    case True
    from Some True obtain t st where f: "fail_inbox now i err retry mx s = Inr (st, t)"
      by (auto simp: fail_inbox_def)
    then show ?thesis
    proof (cases rule: fail_inbox_cases)
      case (absent q)
      with Some True show ?thesis by simp
    next
      case (applied q)
      with Some have q: "q = r" by simp
      have "inbox_status t i = Some (st, ib_model_started_at r \<noteq> None)"
        using Some by (auto simp: inbox_status_def applied(4) get_row_update_where dest: get_row_in)
      moreover have "get_row ib_id j (inbox t) = get_row ib_id j (inbox s)" if "j \<noteq> i" for j
        using that by (cases "get_row ib_id j (inbox s)")
          (auto simp: applied(4) get_row_update_where dest: get_row_in)
      moreover have "st = Ibx_Pending \<longleftrightarrow> retry \<and> ib_model_started_at r = None \<and> ib_attempts r < mx"
        "st \<noteq> Ibx_Pending \<longrightarrow> st = Ibx_Dead" using applied(3) q by auto
      ultimately show ?thesis using Some True f by auto
    qed
  qed
qed

subsection \<open>Concrete runs\<close>

definition demo_event :: "string \<Rightarrow> time \<Rightarrow> inbound_event" where
  "demo_event k w = \<lparr>ev_channel = lit ''wechat_agent_lab'', ev_event_id = lit k, ev_chat_id = lit ''chat_1'',
     ev_sender_id = lit ''sender_1'', ev_text = Some (lit ''hello''), ev_kind = Ev_Text,
     ev_occurred_at = w, ev_metadata = []\<rparr>"

definition demo_inbox :: db where
  "demo_inbox = snd (record_inbound 20 (demo_event ''e2'' 12) (snd (record_inbound 10 (demo_event ''e1'' 5) empty_db)))"

lemma demo_inbox_inv: "inbox_inv demo_inbox"
  unfolding demo_inbox_def by (intro record_inbound_inv inbox_inv_empty) simp

lemma demo_inbox_rows:
  "inbox demo_inbox =
     [\<lparr>ib_id = 1, ib_channel = lit ''wechat_agent_lab'', ib_event_id = lit ''e1'', ib_chat_id = lit ''chat_1'',
       ib_sender_id = lit ''sender_1'', ib_kind = Ev_Text, ib_text = Some (lit ''hello''), ib_occurred_at = 5,
       ib_metadata = [], ib_state = Ibx_Pending, ib_attempts = 0, ib_claimed_at = None,
       ib_model_started_at = None, ib_last_error = None, ib_created_at = 10, ib_updated_at = 10\<rparr>,
      \<lparr>ib_id = 2, ib_channel = lit ''wechat_agent_lab'', ib_event_id = lit ''e2'', ib_chat_id = lit ''chat_1'',
       ib_sender_id = lit ''sender_1'', ib_kind = Ev_Text, ib_text = Some (lit ''hello''), ib_occurred_at = 12,
       ib_metadata = [], ib_state = Ibx_Pending, ib_attempts = 0, ib_claimed_at = None,
       ib_model_started_at = None, ib_last_error = None, ib_created_at = 20, ib_updated_at = 20\<rparr>]"
  by (simp add: demo_inbox_def demo_event_def record_inbound_def exists_row_def next_id_def)

definition demo_claimed :: db where
  "demo_claimed = snd (claim_next_inbox 30 None demo_inbox)"

lemma demo_claim:
  "claim_next_inbox 30 None demo_inbox = (Some (the (fst (claim_next_inbox 30 None demo_inbox))), demo_claimed)"
  "map_option ii_id (fst (claim_next_inbox 30 None demo_inbox)) = Some 1"
  by (simp_all add: demo_claimed_def claim_next_inbox_def claim_candidate_def demo_inbox_rows
      blocking_earlier_def exists_row_def ib_active_def ib_before_def select_order_def first_row_def
      update_where_def inbox_item_of_def)

lemma demo_claimed_inv: "inbox_inv demo_claimed"
  unfolding demo_claimed_def by (rule claim_next_inbox_inv [OF demo_inbox_inv])

theorem claim_next_inbox_fifo_witness:
  "\<exists>c \<in> set (inbox demo_inbox). ib_id c = 1 \<and> ib_state c = Ibx_Pending"
  using claim_next_inbox_fifo [OF demo_inbox_inv demo_claim(1)] demo_claim(2) by auto

theorem claim_next_inbox_progress_witness:
  "fst (claim_next_inbox 30 None demo_inbox) \<noteq> None"
  by (rule claim_next_inbox_progress [where r = "hd (inbox demo_inbox)"]) (simp_all add: demo_inbox_rows)

lemma demo_record: "record_inbound 10 (demo_event ''e1'' 5) empty_db =
    (True, snd (record_inbound 10 (demo_event ''e1'' 5) empty_db))"
  by (simp add: record_inbound_def exists_row_def)

theorem record_inbound_exactly_once_witness:
  "record_inbound 20 (demo_event ''e1'' 7) (snd (record_inbound 10 (demo_event ''e1'' 5) empty_db)) =
     (False, snd (record_inbound 10 (demo_event ''e1'' 5) empty_db))"
  using record_inbound_exactly_once [OF inbox_inv_empty demo_record rtranclp.rtrancl_refl,
      of "demo_event ''e1'' 7" 20]
  by (simp add: demo_event_def)

definition demo_started :: db where
  "demo_started = snd (mark_inbox_model_started 40 1 demo_claimed)"

lemma demo_mark: "mark_inbox_model_started 40 1 demo_claimed = (True, demo_started)"
  by (simp add: demo_started_def demo_claimed_def mark_inbox_model_started_def claim_next_inbox_def
      claim_candidate_def demo_inbox_rows blocking_earlier_def exists_row_def ib_active_def
      ib_before_def select_order_def first_row_def update_where_def count_where_def)

theorem model_boundary_never_requeued_witness:
  "\<exists>st. inbox_status (snd (recover_inbox 90 80 demo_started)) 1 = Some (st, True) \<and> st \<noteq> Ibx_Pending"
proof -
  have "inbox_step\<^sup>*\<^sup>* demo_started (snd (recover_inbox 90 80 demo_started))"
    by (rule r_into_rtranclp) (rule inbox_step.recover)
  from model_boundary_never_requeued [OF demo_claimed_inv demo_mark this] show ?thesis by blast
qed

theorem fail_inbox_verdict_witness:
  "\<exists>t. fail_inbox 50 1 (lit ''X'') True 3 demo_started = Inr (Ibx_Dead, t)"
proof -
  have inv: "inbox_inv demo_started"
    using mark_inbox_inv [OF demo_claimed_inv, of 40 1] by (simp add: demo_started_def)
  have st: "inbox_status demo_started 1 = Some (Ibx_Processing, True)"
    by (rule mark_inbox_status [OF demo_claimed_inv demo_mark])
  then obtain r where "get_row ib_id 1 (inbox demo_started) = Some r" "ib_state r = Ibx_Processing"
    "ib_model_started_at r \<noteq> None" by (auto simp: inbox_status_def)
  with fail_inbox_verdict [OF inv, where i = 1 and now = 50 and err = "lit ''X''" and retry = True and mx = 3] show ?thesis by auto
qed

end
