(* ===== verification/Outbox.thy ===== *)
theory Outbox
  imports Storage Lifecycle
begin

text \<open>
  The outbox, draft and delivery operations of \<open>CoreRepository\<close>
  (\<open>lemonbot/storage/repository.py\<close>), the life cycle of an outbound message, and the proofs that a
  message is handed to a connector at most once and that an event has at most one durable reply.
\<close>

subsection \<open>Creating a message\<close>

definition outbox_item_of :: "outbox_row \<Rightarrow> outbox_item" where
  "outbox_item_of r =
     \<lparr>oi_id = ob_id r,
      oi_message = \<lparr>om_message_id = ob_message_id r, om_channel = ob_channel r,
        om_chat_id = ob_chat_id r, om_text = ob_text r,
        om_reply_to_event_id = ob_reply_to_event_id r, om_created_at = ob_created_at r,
        om_metadata = ob_metadata r\<rparr>,
      oi_state = ob_state r, oi_attempts = ob_attempts r, oi_reserved_at = ob_reserved_at r,
      oi_dispatch_started_at = ob_dispatch_started_at r\<rparr>"

text \<open>The two uniqueness constraints of the table; a \<open>NULL\<close> reply target conflicts with nothing.\<close>

definition outbox_conflict :: "outbound_message \<Rightarrow> outbox_row \<Rightarrow> bool" where
  "outbox_conflict m r \<longleftrightarrow> ob_message_id r = om_message_id m \<or>
     (om_reply_to_event_id m \<noteq> None \<and> ob_channel r = om_channel m \<and>
      ob_reply_to_event_id r = om_reply_to_event_id m)"

definition new_outbox_row :: "time \<Rightarrow> outbound_message \<Rightarrow> nat \<Rightarrow> outbox_row" where
  "new_outbox_row now m i =
     \<lparr>ob_id = i, ob_message_id = om_message_id m, ob_channel = om_channel m,
      ob_chat_id = om_chat_id m, ob_text = om_text m,
      ob_reply_to_event_id = om_reply_to_event_id m, ob_metadata = om_metadata m,
      ob_proactive = dflag (om_metadata m) ''proactive'', ob_state = Obx_Pending,
      ob_attempts = 0, ob_next_attempt_at = None, ob_reserved_at = None,
      ob_dispatch_started_at = None, ob_acknowledged_at = None, ob_external_id = None,
      ob_failure_detail = None, ob_created_at = om_created_at m, ob_updated_at = now\<rparr>"

definition create_outbox :: "time \<Rightarrow> outbound_message \<Rightarrow> db \<Rightarrow> (outbox_item \<times> db) result" where
  "create_outbox now m s =
     (let rows = (if exists_row (outbox_conflict m) (outbox s) then outbox s
                  else outbox s @ [new_outbox_row now m (next_id ob_id (outbox s))]);
          s1 = s\<lparr>outbox := rows\<rparr>
      in case find (outbox_conflict m) rows of
           None \<Rightarrow> Inl (RuntimeError ''outbox insert failed without a conflicting row'')
         | Some row \<Rightarrow>
             let existing_message = exists_row (\<lambda>g. mg_channel g = ob_channel row \<and>
                   mg_external_id g = Some (ob_message_id row) \<and> mg_role g = Role_Assistant)
                   (messages s1);
                 s2 = (if existing_message then s1
                       else add_message
                         \<lparr>mg_id = 0, mg_channel = ob_channel row, mg_chat_id = ob_chat_id row,
                          mg_sender_id = None, mg_role = Role_Assistant, mg_kind = Ev_Text,
                          mg_content = ob_text row, mg_external_id = Some (ob_message_id row),
                          mg_occurred_at = ob_created_at row, mg_metadata = ob_metadata row\<rparr> s1)
             in Inr (outbox_item_of row, s2))"

subsection \<open>Reserving and dispatching\<close>

definition reserve_candidate :: "time \<Rightarrow> str option \<Rightarrow> outbox_row list \<Rightarrow> outbox_row option" where
  "reserve_candidate now channel rows =
     first_row (select_order (\<lambda>r. (ob_created_at r, ob_id r))
       (\<lambda>r. ob_state r = Obx_Pending \<and>
            (case ob_next_attempt_at r of None \<Rightarrow> True | Some t \<Rightarrow> t \<le> now) \<and>
            (case channel of None \<Rightarrow> True | Some ch \<Rightarrow> ob_channel r = ch))
       rows)"

definition reserve_next_outbox :: "time \<Rightarrow> str option \<Rightarrow> db \<Rightarrow> outbox_item option \<times> db" where
  "reserve_next_outbox now channel s =
     (case reserve_candidate now channel (outbox s) of
        None \<Rightarrow> (None, s)
      | Some c \<Rightarrow>
          let P = (\<lambda>r. ob_id r = ob_id c \<and> ob_state r = Obx_Pending);
              rows = update_where P
                (\<lambda>r. r\<lparr>ob_state := Obx_Reserved, ob_reserved_at := Some now,
                       ob_attempts := ob_attempts r + 1, ob_updated_at := now\<rparr>) (outbox s)
          in if count_where P (outbox s) \<noteq> 1 then (None, s\<lparr>outbox := rows\<rparr>)
             else (map_option outbox_item_of (get_row ob_id (ob_id c) rows), s\<lparr>outbox := rows\<rparr>))"

text \<open>A conditional update of one item from one state, with the \<open>rowcount == 1\<close> answer.\<close>

definition outbox_cas ::
    "nat \<Rightarrow> outbox_state \<Rightarrow> (outbox_row \<Rightarrow> outbox_row) \<Rightarrow> db \<Rightarrow> bool \<times> db" where
  "outbox_cas i source f s =
     (let P = (\<lambda>r. ob_id r = i \<and> ob_state r = source)
      in (count_where P (outbox s) = 1, s\<lparr>outbox := update_where P f (outbox s)\<rparr>))"

definition mark_dispatching :: "time \<Rightarrow> nat \<Rightarrow> db \<Rightarrow> bool \<times> db" where
  "mark_dispatching now i s =
     outbox_cas i Obx_Reserved
       (\<lambda>r. r\<lparr>ob_state := Obx_Dispatching, ob_dispatch_started_at := Some now,
              ob_updated_at := now\<rparr>) s"

definition mark_outbox_unknown :: "time \<Rightarrow> nat \<Rightarrow> str \<Rightarrow> db \<Rightarrow> bool \<times> db" where
  "mark_outbox_unknown now i detail s =
     outbox_cas i Obx_Dispatching
       (\<lambda>r. r\<lparr>ob_state := Obx_Unknown, ob_failure_detail := Some (take 2000 detail),
              ob_updated_at := now\<rparr>) s"

definition release_reserved :: "time \<Rightarrow> nat \<Rightarrow> str \<Rightarrow> int \<Rightarrow> db \<Rightarrow> (bool \<times> db) result" where
  "release_reserved now i detail retry_after s =
     (if retry_after < 1 \<or> 86400 < retry_after
      then Inl (ValueError ''outbox retry delay must be 1..86400 seconds'')
      else Inr (outbox_cas i Obx_Reserved
        (\<lambda>r. r\<lparr>ob_state := Obx_Pending, ob_reserved_at := None,
               ob_next_attempt_at := Some (now + seconds retry_after),
               ob_failure_detail := Some (take 2000 detail), ob_updated_at := now\<rparr>) s))"

definition mark_reserved_dead :: "time \<Rightarrow> nat \<Rightarrow> str \<Rightarrow> db \<Rightarrow> bool \<times> db" where
  "mark_reserved_dead now i detail s =
     outbox_cas i Obx_Reserved
       (\<lambda>r. r\<lparr>ob_state := Obx_Dead, ob_failure_detail := Some (take 2000 detail),
              ob_updated_at := now\<rparr>) s"

definition receipt_state :: "delivery_status \<Rightarrow> outbox_state" where
  "receipt_state st = (case st of Dlv_Acknowledged \<Rightarrow> Obx_Acknowledged | Dlv_Unknown \<Rightarrow> Obx_Unknown
                                | Dlv_Failed \<Rightarrow> Obx_Dead)"

definition opt_json :: "str option \<Rightarrow> json" where
  "opt_json x = (case x of None \<Rightarrow> JNull | Some s \<Rightarrow> JStr s)"

definition apply_receipt ::
    "time \<Rightarrow> nat \<Rightarrow> delivery_receipt \<Rightarrow> db \<Rightarrow> (outbox_state \<times> db) result" where
  "apply_receipt now i rc s =
     (case get_row ob_id i (outbox s) of
        None \<Rightarrow> Inl KeyError
      | Some row \<Rightarrow>
          if ob_message_id row \<noteq> rc_message_id rc
          then Inl (ValueError ''receipt message_id does not match outbox item'')
          else if ob_state row \<noteq> Obx_Dispatching then Inr (ob_state row, s)
          else
            let state = receipt_state (rc_status rc);
                rows = update_where (\<lambda>r. ob_id r = i)
                  (\<lambda>r. r\<lparr>ob_state := state, ob_external_id := rc_external_id rc,
                         ob_acknowledged_at := rc_acknowledged_at rc,
                         ob_failure_detail := rc_detail rc, ob_updated_at := now\<rparr>) (outbox s)
            in Inr (state,
                 append_audit
                   (audit_row ''outbox.deliver'' (outbox_state_value state) (ob_channel row)
                     (Some (ob_chat_id row)) (ob_reply_to_event_id row) (Some (ob_message_id row))
                     [(lit ''external_id'', opt_json (rc_external_id rc)),
                      (lit ''detail'', opt_json (rc_detail rc))] now)
                   (s\<lparr>outbox := rows\<rparr>)))"

text \<open>The two outbox statements of \<open>recover_interrupted\<close>.\<close>

definition recover_outbox :: "time \<Rightarrow> time \<Rightarrow> db \<Rightarrow> (nat \<times> nat) \<times> db" where
  "recover_outbox now cutoff s =
     (let stale = (\<lambda>r. ob_state r = Obx_Reserved \<and>
             (case ob_reserved_at r of None \<Rightarrow> False | Some t \<Rightarrow> t < cutoff));
          rows1 = update_where stale
             (\<lambda>r. r\<lparr>ob_state := Obx_Pending, ob_reserved_at := None, ob_next_attempt_at := None,
                    ob_updated_at := now\<rparr>) (outbox s);
          sent = (\<lambda>r. ob_state r = Obx_Dispatching);
          rows2 = update_where sent
             (\<lambda>r. r\<lparr>ob_state := Obx_Unknown,
                    ob_failure_detail := Some (lit
                      ''process stopped after dispatch began; manual reconciliation required''),
                    ob_updated_at := now\<rparr>) rows1
      in ((count_where stale (outbox s), count_where sent rows1), s\<lparr>outbox := rows2\<rparr>))"

subsection \<open>Reading and reconciling\<close>

definition counted_state :: "outbox_state \<Rightarrow> bool" where
  "counted_state st \<longleftrightarrow> st \<in> {Obx_Pending, Obx_Reserved, Obx_Dispatching, Obx_Acknowledged, Obx_Unknown}"

definition count_outbound_since ::
    "time \<Rightarrow> str \<Rightarrow> str option \<Rightarrow> bool option \<Rightarrow> uuid option \<Rightarrow> db \<Rightarrow> nat" where
  "count_outbound_since since channel chat proactive exclude s =
     count_where (\<lambda>r. ob_channel r = channel \<and> since \<le> ob_created_at r \<and> counted_state (ob_state r) \<and>
         (case chat of None \<Rightarrow> True | Some c \<Rightarrow> ob_chat_id r = c) \<and>
         (case proactive of None \<Rightarrow> True | Some p \<Rightarrow> ob_proactive r = p) \<and>
         (case exclude of None \<Rightarrow> True | Some x \<Rightarrow> ob_message_id r \<noteq> x)) (outbox s)"

definition has_active_outbox :: "str \<Rightarrow> db \<Rightarrow> bool" where
  "has_active_outbox ch s =
     exists_row (\<lambda>r. ob_channel r = ch \<and>
       ob_state r \<in> {Obx_Pending, Obx_Reserved, Obx_Dispatching}) (outbox s)"

definition outbox_state_of :: "uuid \<Rightarrow> db \<Rightarrow> outbox_state option" where
  "outbox_state_of mid s = map_option ob_state (find (\<lambda>r. ob_message_id r = mid) (outbox s))"

record unknown_view =
  uv_id :: nat
  uv_message_id :: uuid
  uv_channel :: str
  uv_chat_id :: str
  uv_reply_to_event_id :: "str option"
  uv_attempts :: nat
  uv_created_at :: time
  uv_updated_at :: time
  uv_external_id :: "str option"
  uv_failure_detail :: "str option"

definition list_unknown_outbox :: "int \<Rightarrow> db \<Rightarrow> unknown_view list result" where
  "list_unknown_outbox limit s =
     (if limit < 1 \<or> 500 < limit then Inl (ValueError ''limit must be between 1 and 500'')
      else Inr (map (\<lambda>r. \<lparr>uv_id = ob_id r, uv_message_id = ob_message_id r, uv_channel = ob_channel r,
              uv_chat_id = ob_chat_id r, uv_reply_to_event_id = ob_reply_to_event_id r,
              uv_attempts = ob_attempts r, uv_created_at = ob_created_at r,
              uv_updated_at = ob_updated_at r, uv_external_id = ob_external_id r,
              uv_failure_detail = ob_failure_detail r\<rparr>)
           (take (nat limit) (rev (select_order (\<lambda>r. (ob_updated_at r, ob_id r))
              (\<lambda>r. ob_state r = Obx_Unknown) (outbox s))))))"

definition reconcile_unknown_outbox ::
    "time \<Rightarrow> nat \<Rightarrow> str \<Rightarrow> str \<Rightarrow> db \<Rightarrow> (bool \<times> db) result" where
  "reconcile_unknown_outbox now i outcome operator_note s =
     (if outcome \<noteq> lit ''acknowledged'' \<and> outcome \<noteq> lit ''dead''
      then Inl (ValueError ''outcome must be acknowledged or dead'')
      else
        let note = strip operator_note
        in if length note < 3 \<or> 1000 < length note
           then Inl (ValueError ''operator note must be 3..1000 characters'')
           else case find (\<lambda>r. ob_id r = i \<and> ob_state r = Obx_Unknown) (outbox s) of
                  None \<Rightarrow> Inr (False, s)
                | Some row \<Rightarrow>
                    let ack = (outcome = lit ''acknowledged'');
                        rows = update_where (\<lambda>r. ob_id r = i \<and> ob_state r = Obx_Unknown)
                          (\<lambda>r. r\<lparr>ob_state := (if ack then Obx_Acknowledged else Obx_Dead),
                                 ob_updated_at := now,
                                 ob_acknowledged_at := (if ack then Some now else ob_acknowledged_at r),
                                 ob_failure_detail :=
                                   Some (take 2000 (lit ''manual reconciliation: '' @ note))\<rparr>)
                          (outbox s)
                    in Inr (True,
                         append_audit
                           (audit_row ''outbox.reconcile'' (if ack then ''acknowledged'' else ''dead'')
                             (ob_channel row) (Some (ob_chat_id row)) (ob_reply_to_event_id row)
                             (Some (ob_message_id row))
                             [(lit ''item_id'', JInt (int (ob_id row))),
                              (lit ''operator_note'', JStr note)] now)
                           (s\<lparr>outbox := rows\<rparr>)))"

subsection \<open>Drafts\<close>

definition draft_conflict :: "outbound_message \<Rightarrow> str \<Rightarrow> draft_row \<Rightarrow> bool" where
  "draft_conflict m ev r \<longleftrightarrow> df_draft_id r = om_message_id m \<or>
     (df_channel r = om_channel m \<and> df_reply_to_event_id r = ev)"

definition create_draft :: "time \<Rightarrow> outbound_message \<Rightarrow> db \<Rightarrow> (draft_row \<times> db) result" where
  "create_draft now m s =
     (case om_reply_to_event_id m of
        None \<Rightarrow> Inl (ValueError ''a reply draft must be bound to an inbound event'')
      | Some ev \<Rightarrow>
          let rows = (if exists_row (draft_conflict m ev) (drafts s) then drafts s
                else drafts s @ [\<lparr>df_id = next_id df_id (drafts s), df_draft_id = om_message_id m,
                   df_channel = om_channel m, df_chat_id = om_chat_id m, df_text = om_text m,
                   df_reply_to_event_id = ev, df_metadata = om_metadata m,
                   df_created_at = om_created_at m, df_updated_at = now\<rparr>])
          in case find (draft_conflict m ev) rows of
               None \<Rightarrow> Inl (RuntimeError ''draft insert failed without a conflicting row'')
             | Some row \<Rightarrow> Inr (row, s\<lparr>drafts := rows\<rparr>))"

definition pending_drafts :: "str option \<Rightarrow> str option \<Rightarrow> int \<Rightarrow> db \<Rightarrow> draft_row list result" where
  "pending_drafts channel chat limit s =
     (if limit < 1 \<or> 500 < limit then Inl (ValueError ''limit must be between 1 and 500'')
      else Inr (take (nat limit) (rev (select_order (\<lambda>r. (df_created_at r, df_id r))
        (\<lambda>r. (case channel of None \<Rightarrow> True | Some c \<Rightarrow> df_channel r = c) \<and>
             (case chat of None \<Rightarrow> True | Some c \<Rightarrow> df_chat_id r = c)) (drafts s)))))"

lemmas outbox_op_defs = create_outbox_def reserve_next_outbox_def outbox_cas_def
  mark_dispatching_def mark_outbox_unknown_def release_reserved_def mark_reserved_dead_def
  apply_receipt_def recover_outbox_def reconcile_unknown_outbox_def

declare outbox_op_defs [op_defs]

subsection \<open>Well-formedness\<close>

definition outbox_row_ok :: "outbox_row \<Rightarrow> bool" where
  "outbox_row_ok r \<longleftrightarrow>
     (ob_state r \<in> {Obx_Pending, Obx_Reserved} \<longrightarrow> ob_dispatch_started_at r = None) \<and>
     (ob_state r \<in> {Obx_Dispatching, Obx_Acknowledged, Obx_Unknown} \<longrightarrow>
        ob_dispatch_started_at r \<noteq> None) \<and>
     (ob_state r = Obx_Reserved \<longrightarrow> ob_reserved_at r \<noteq> None) \<and>
     (ob_state r \<noteq> Obx_Pending \<longrightarrow> 0 < ob_attempts r) \<and>
     ob_proactive r = dflag (ob_metadata r) ''proactive''"

text \<open>What identifies a reply: its channel and the event it answers.\<close>

definition reply_keys :: "outbox_row list \<Rightarrow> (str \<times> str) list" where
  "reply_keys rs = List.map_filter
     (\<lambda>r. map_option (\<lambda>e. (ob_channel r, e)) (ob_reply_to_event_id r)) rs"

definition outbox_inv :: "db \<Rightarrow> bool" where
  "outbox_inv s \<longleftrightarrow>
     distinct (map ob_id (outbox s)) \<and> distinct (map ob_message_id (outbox s)) \<and>
     distinct (reply_keys (outbox s)) \<and> (\<forall>r \<in> set (outbox s). outbox_row_ok r)"

text \<open>The columns no statement changes after the insert.\<close>

definition outbox_fixed :: "outbox_row \<Rightarrow> outbox_row \<Rightarrow> bool" where
  "outbox_fixed r q \<longleftrightarrow> ob_id q = ob_id r \<and> ob_message_id q = ob_message_id r \<and>
     ob_channel q = ob_channel r \<and> ob_chat_id q = ob_chat_id r \<and> ob_text q = ob_text r \<and>
     ob_reply_to_event_id q = ob_reply_to_event_id r \<and> ob_metadata q = ob_metadata r \<and>
     ob_proactive q = ob_proactive r \<and> ob_created_at q = ob_created_at r"

lemma outbox_fixed_refl [simp]: "outbox_fixed r r"
  by (simp add: outbox_fixed_def)

lemma reply_keys_update:
  "(\<And>r. outbox_fixed r (f r)) \<Longrightarrow> reply_keys (update_where P f rs) = reply_keys rs"
  by (induction rs) (auto simp: reply_keys_def List.map_filter_def update_where_def outbox_fixed_def)

lemma set_reply_keys: "(c, e) \<in> set (reply_keys rs) \<longleftrightarrow>
    (\<exists>r \<in> set rs. ob_channel r = c \<and> ob_reply_to_event_id r = Some e)"
  by (auto simp: reply_keys_def List.map_filter_def image_iff)

lemma reply_keys_append: "reply_keys (rs @ qs) = reply_keys rs @ reply_keys qs"
  by (simp add: reply_keys_def List.map_filter_def)

lemma outbox_inv_empty: "outbox s = [] \<Longrightarrow> outbox_inv s"
  by (simp add: outbox_inv_def reply_keys_def List.map_filter_def)

lemma outbox_inv_cong: "outbox t = outbox s \<Longrightarrow> outbox_inv t = outbox_inv s"
  by (simp add: outbox_inv_def)

lemma outbox_inv_update:
  assumes "outbox_inv s" and fx: "\<And>r. outbox_fixed r (f r)"
    and "\<And>r. P r \<Longrightarrow> outbox_row_ok r \<Longrightarrow> outbox_row_ok (f r)"
    and "outbox t = update_where P f (outbox s)"
  shows "outbox_inv t"
proof -
  from fx have "\<And>r. ob_id (f r) = ob_id r" "\<And>r. ob_message_id (f r) = ob_message_id r"
    by (simp_all add: outbox_fixed_def)
  with assms show ?thesis
    by (simp add: outbox_inv_def map_update_where reply_keys_update ball_update_where)
qed

lemma outbox_row_of: "outbox_inv s \<Longrightarrow> r \<in> set (outbox s) \<Longrightarrow> outbox_row_ok r"
  by (simp add: outbox_inv_def)

lemma outbox_ids: "outbox_inv s \<Longrightarrow> distinct (map ob_id (outbox s))"
  by (simp add: outbox_inv_def)

subsection \<open>The effect of each operation on the table\<close>

text \<open>The insert.\<close>

lemma create_outbox_ok:
  obtains item t where "create_outbox now m s = Inr (item, t)"
proof -
  let ?rows = "if exists_row (outbox_conflict m) (outbox s) then outbox s
                  else outbox s @ [new_outbox_row now m (next_id ob_id (outbox s))]"
  have "exists_row (outbox_conflict m) ?rows"
    by (auto simp: exists_row_def outbox_conflict_def new_outbox_row_def)
  then have "find (outbox_conflict m) ?rows \<noteq> None"
    by (auto simp: exists_row_def list_ex_iff find_None_iff)
  then obtain row where "find (outbox_conflict m) ?rows = Some row" by auto
  then show ?thesis by (intro that) (auto simp: create_outbox_def)
qed

lemma create_outbox_table:
  assumes "create_outbox now m s = Inr (item, t)"
  shows "outbox t = (if exists_row (outbox_conflict m) (outbox s) then outbox s
           else outbox s @ [new_outbox_row now m (next_id ob_id (outbox s))])"
    and "\<exists>row. find (outbox_conflict m) (outbox t) = Some row \<and> item = outbox_item_of row"
    and "inbox t = inbox s" "approvals t = approvals s" "tool_executions t = tool_executions s"
      "allowlist t = allowlist s" "runtime_state t = runtime_state s" "audit_log t = audit_log s"
  using assms
  by (auto simp: create_outbox_def split: option.splits if_splits)

lemma outbox_inv_insert:
  assumes "outbox_inv s" and "\<not> exists_row (outbox_conflict m) (outbox s)"
    and "outbox t = outbox s @ [new_outbox_row now m (next_id ob_id (outbox s))]"
  shows "outbox_inv t"
proof -
  let ?n = "new_outbox_row now m (next_id ob_id (outbox s))"
  have fresh: "ob_message_id ?n \<notin> ob_message_id ` set (outbox s)"
      "\<And>e. ob_reply_to_event_id ?n = Some e \<Longrightarrow> (ob_channel ?n, e) \<notin> set (reply_keys (outbox s))"
    using assms(2)
    by (auto simp: exists_row_def list_ex_iff outbox_conflict_def new_outbox_row_def set_reply_keys)
  have id: "ob_id ?n \<notin> ob_id ` set (outbox s)" by (simp add: new_outbox_row_def)
  have keys: "distinct (reply_keys (outbox s @ [?n]))"
  proof (cases "ob_reply_to_event_id ?n")
    case None
    then have "reply_keys [?n] = []" by (simp add: reply_keys_def List.map_filter_def)
    with assms(1) show ?thesis by (simp add: reply_keys_append outbox_inv_def)
  next
    case (Some e)
    then have "reply_keys [?n] = [(ob_channel ?n, e)]" by (simp add: reply_keys_def List.map_filter_def)
    with assms(1) fresh(2) [OF Some] show ?thesis by (simp add: reply_keys_append outbox_inv_def)
  qed
  have "outbox_row_ok ?n" by (simp add: outbox_row_ok_def new_outbox_row_def)
  with assms(1) fresh(1) id keys show ?thesis by (auto simp: outbox_inv_def assms(3))
qed

lemma create_outbox_inv:
  assumes "outbox_inv s" and "create_outbox now m s = Inr (item, t)"
  shows "outbox_inv t"
proof (cases "exists_row (outbox_conflict m) (outbox s)")
  case True
  with create_outbox_table(1) [OF assms(2)] assms(1) show ?thesis
    by (simp add: outbox_inv_cong [of t s])
next
  case False
  with create_outbox_table(1) [OF assms(2)] show ?thesis
    by (intro outbox_inv_insert [OF assms(1) False]) simp
qed

text \<open>Every other operation is one conditional update that keeps the fixed columns: either a CAS on
  one item, or a recovery sweep. \<open>outbox_move\<close> names the moves.\<close>

inductive outbox_edge :: "outbox_state \<Rightarrow> outbox_state \<Rightarrow> bool" where
  reserved: "outbox_edge Obx_Pending Obx_Reserved"
| released: "outbox_edge Obx_Reserved Obx_Pending"
| dispatched: "outbox_edge Obx_Reserved Obx_Dispatching"
| stopped: "outbox_edge Obx_Reserved Obx_Dead"
| acknowledged: "outbox_edge Obx_Dispatching Obx_Acknowledged"
| quarantined: "outbox_edge Obx_Dispatching Obx_Unknown"
| failed: "outbox_edge Obx_Dispatching Obx_Dead"
| confirmed: "outbox_edge Obx_Unknown Obx_Acknowledged"
| refuted: "outbox_edge Obx_Unknown Obx_Dead"

declare outbox_edge.intros [edge_intros, simp]
inductive_simps outbox_edge_from_final:
  "outbox_edge Obx_Acknowledged b" "outbox_edge Obx_Dead b"
inductive_simps outbox_edge_to_dispatching: "outbox_edge a Obx_Dispatching"

text \<open>A well-behaved row update: allowed edge, fixed columns, well-formed result.\<close>

definition outbox_move :: "(outbox_row \<Rightarrow> bool) \<Rightarrow> (outbox_row \<Rightarrow> outbox_row) \<Rightarrow> bool" where
  "outbox_move P f \<longleftrightarrow> (\<forall>r. outbox_fixed r (f r)) \<and>
     (\<forall>r. P r \<and> outbox_row_ok r \<longrightarrow> outbox_row_ok (f r) \<and> outbox_edge (ob_state r) (ob_state (f r)))"

definition outbox_status :: "db \<Rightarrow> nat \<Rightarrow> outbox_state option" where
  "outbox_status s i = map_option ob_state (get_row ob_id i (outbox s))"

lemma outbox_move_inv:
  assumes "outbox_move P f" and "outbox_inv s" and "outbox t = update_where P f (outbox s)"
  shows "outbox_inv t"
  using assms(1) by (intro outbox_inv_update [OF assms(2) _ _ assms(3)]) (auto simp: outbox_move_def)

lemma outbox_move_status:
  assumes "outbox_move P f" and "outbox_inv s" and "outbox t = update_where P f (outbox s)"
    and "get_row ob_id i (outbox s) = Some r"
  shows "outbox_status t i = Some (if P r then ob_state (f r) else ob_state r)"
proof -
  have "\<And>r. ob_id (f r) = ob_id r" using assms(1) by (simp add: outbox_move_def outbox_fixed_def)
  with assms(3,4) show ?thesis by (simp add: outbox_status_def get_row_update_where)
qed

lemma outbox_move_edge:
  assumes "outbox_move P f" and "outbox_inv s" and "outbox t = update_where P f (outbox s)"
    and "outbox_status s i = Some a"
  shows "\<exists>b. outbox_status t i = Some b \<and> (b = a \<or> outbox_edge a b)"
proof -
  from assms(4) obtain r where r: "get_row ob_id i (outbox s) = Some r" "a = ob_state r"
    by (auto simp: outbox_status_def)
  from get_row_in [OF r(1)] outbox_row_of [OF assms(2)] have "outbox_row_ok r" by blast
  with assms(1) r(2) outbox_move_status [OF assms(1,2,3) r(1)] show ?thesis
    by (auto simp: outbox_move_def)
qed

text \<open>Under unique ids, an update of item \<open>i\<close> that is in state \<open>st\<close> is a CAS from \<open>st\<close>.\<close>

lemma update_id_as_cas:
  assumes "outbox_inv s" and "get_row ob_id i (outbox s) = Some r" and "ob_state r = st"
  shows "update_where (\<lambda>q. ob_id q = i) f (outbox s) =
    update_where (\<lambda>q. ob_id q = i \<and> ob_state q = st) f (outbox s)"
proof (rule update_where_cong)
  fix q assume "q \<in> set (outbox s)"
  then show "(ob_id q = i) = (ob_id q = i \<and> ob_state q = st)"
    using get_row_unique [OF outbox_ids [OF assms(1)]] assms(2,3) by fastforce
qed

text \<open>A move of one state along one edge.\<close>

lemma outbox_moveI:
  assumes "\<And>r. outbox_fixed r (f r)" and "\<And>r. P r \<Longrightarrow> ob_state r = src" and "outbox_edge src dst"
    and "\<And>r. P r \<Longrightarrow> ob_state (f r) = dst" and "\<And>r. P r \<Longrightarrow> outbox_row_ok r \<Longrightarrow> outbox_row_ok (f r)"
  shows "outbox_move P f"
  using assms by (auto simp: outbox_move_def)

lemma outbox_cas_simps:
  "outbox (snd (outbox_cas i src f s)) = update_where (\<lambda>r. ob_id r = i \<and> ob_state r = src) f (outbox s)"
  "fst (outbox_cas i src f s) = (count_where (\<lambda>r. ob_id r = i \<and> ob_state r = src) (outbox s) = 1)"
  by (simp_all add: outbox_cas_def)

lemma outbox_cas_True:
  "outbox_inv s \<Longrightarrow> fst (outbox_cas i src f s) \<longleftrightarrow> outbox_status s i = Some src"
  by (simp add: outbox_cas_simps count_where_unique_key [OF outbox_ids] outbox_status_def
      split: option.split)

definition is_move :: "db \<Rightarrow> db \<Rightarrow> bool" where
  "is_move s t \<longleftrightarrow> (\<exists>P f. outbox_move P f \<and> outbox t = update_where P f (outbox s))"

lemma is_moveI: "outbox t = update_where P f (outbox s) \<Longrightarrow> outbox_move P f \<Longrightarrow> is_move s t"
  by (auto simp: is_move_def)

lemma is_move_same: "outbox t = outbox s \<Longrightarrow> is_move s t"
  by (rule is_moveI [where P = "\<lambda>_. False" and f = "\<lambda>r. r"])
    (simp_all add: update_where_def outbox_move_def)

lemma reserve_is_move: "is_move s (snd (reserve_next_outbox now ch s))"
proof (cases "reserve_candidate now ch (outbox s)")
  case None
  then show ?thesis by (simp add: reserve_next_outbox_def is_move_same)
next
  case (Some c)
  have "outbox (snd (reserve_next_outbox now ch s)) =
      update_where (\<lambda>r. ob_id r = ob_id c \<and> ob_state r = Obx_Pending)
        (\<lambda>r. r\<lparr>ob_state := Obx_Reserved, ob_reserved_at := Some now,
               ob_attempts := ob_attempts r + 1, ob_updated_at := now\<rparr>) (outbox s)"
    by (simp add: reserve_next_outbox_def Some)
  then show ?thesis
    by (rule is_moveI) (rule outbox_moveI [where src = Obx_Pending and dst = Obx_Reserved],
        auto simp: outbox_fixed_def outbox_row_ok_def)
qed

lemma cas_is_move:
  assumes "\<And>r. outbox_fixed r (f r)" and "outbox_edge src dst" and "\<And>r. ob_state (f r) = dst"
    and "\<And>r. ob_state r = src \<Longrightarrow> outbox_row_ok r \<Longrightarrow> outbox_row_ok (f r)"
  shows "is_move s (snd (outbox_cas i src f s))"
  using assms
  by (intro is_moveI [OF outbox_cas_simps(1)] outbox_moveI [where src = src and dst = dst]) auto

lemma mark_dispatching_is_move: "is_move s (snd (mark_dispatching now i s))"
  unfolding mark_dispatching_def
  by (rule cas_is_move [where dst = Obx_Dispatching]) (auto simp: outbox_fixed_def outbox_row_ok_def)

lemma mark_unknown_is_move: "is_move s (snd (mark_outbox_unknown now i d s))"
  unfolding mark_outbox_unknown_def
  by (rule cas_is_move [where dst = Obx_Unknown]) (auto simp: outbox_fixed_def outbox_row_ok_def)

lemma mark_dead_is_move: "is_move s (snd (mark_reserved_dead now i d s))"
  unfolding mark_reserved_dead_def
  by (rule cas_is_move [where dst = Obx_Dead]) (auto simp: outbox_fixed_def outbox_row_ok_def)

lemma release_is_move: "release_reserved now i d n s = Inr r \<Longrightarrow> is_move s (snd r)"
  by (auto simp: release_reserved_def outbox_fixed_def outbox_row_ok_def split: if_splits
      intro!: cas_is_move [where dst = Obx_Pending])

lemma receipt_edge: "outbox_edge Obx_Dispatching (receipt_state st)"
  by (cases st) (simp_all add: receipt_state_def)

lemma apply_receipt_cases:
  assumes "apply_receipt now i rc s = Inr (st, t)"
  obtains (late) r where "get_row ob_id i (outbox s) = Some r" "ob_message_id r = rc_message_id rc"
      "ob_state r \<noteq> Obx_Dispatching" "st = ob_state r" "t = s"
  | (applied) r where "get_row ob_id i (outbox s) = Some r" "ob_message_id r = rc_message_id rc"
      "ob_state r = Obx_Dispatching" "st = receipt_state (rc_status rc)"
      "outbox t = update_where (\<lambda>r. ob_id r = i)
         (\<lambda>r. r\<lparr>ob_state := receipt_state (rc_status rc), ob_external_id := rc_external_id rc,
                ob_acknowledged_at := rc_acknowledged_at rc,
                ob_failure_detail := rc_detail rc, ob_updated_at := now\<rparr>) (outbox s)"
proof -
  from assms obtain r where r: "get_row ob_id i (outbox s) = Some r"
    "ob_message_id r = rc_message_id rc"
    by (cases "get_row ob_id i (outbox s)") (auto simp: apply_receipt_def split: if_splits)
  show ?thesis
  proof (cases "ob_state r = Obx_Dispatching")
    case True
    with assms r show ?thesis by (intro applied [OF r True]) (auto simp: apply_receipt_def)
  next
    case False
    with assms r show ?thesis by (intro late [OF r False]) (auto simp: apply_receipt_def)
  qed
qed

lemma apply_receipt_is_move:
  assumes "outbox_inv s" and "apply_receipt now i rc s = Inr (st, t)"
  shows "is_move s t"
  using assms(2)
proof (cases rule: apply_receipt_cases)
  case (late r)
  then show ?thesis by (simp add: is_move_same)
next
  case (applied r)
  note eq = applied(5) [unfolded update_id_as_cas [OF assms(1) applied(1,3)]]
  show ?thesis
    by (rule is_moveI [OF eq],
        rule outbox_moveI [where src = Obx_Dispatching and dst = "receipt_state (rc_status rc)"])
      (auto simp: outbox_fixed_def outbox_row_ok_def receipt_edge receipt_state_def
        split: delivery_status.splits)
qed

lemma recover_outbox_table:
  "outbox (snd (recover_outbox now cutoff s)) =
     update_where (\<lambda>r. ob_state r = Obx_Dispatching \<or> (ob_state r = Obx_Reserved \<and>
         (case ob_reserved_at r of None \<Rightarrow> False | Some t \<Rightarrow> t < cutoff)))
       (\<lambda>r. if ob_state r = Obx_Dispatching
            then r\<lparr>ob_state := Obx_Unknown,
                    ob_failure_detail := Some (lit
                      ''process stopped after dispatch began; manual reconciliation required''),
                    ob_updated_at := now\<rparr>
            else r\<lparr>ob_state := Obx_Pending, ob_reserved_at := None, ob_next_attempt_at := None,
                    ob_updated_at := now\<rparr>) (outbox s)"
  by (simp add: recover_outbox_def update_where_def)

lemma recover_outbox_is_move: "is_move s (snd (recover_outbox now cutoff s))"
  by (rule is_moveI [OF recover_outbox_table])
    (auto simp: outbox_move_def outbox_fixed_def outbox_row_ok_def)

lemma reconcile_cases:
  assumes "reconcile_unknown_outbox now i outcome note s = Inr (b, t)"
  obtains (nothing) "\<not> b" "t = s"
  | (closed) r where "b" "r \<in> set (outbox s)" "ob_id r = i" "ob_state r = Obx_Unknown"
      "outbox t = update_where (\<lambda>r. ob_id r = i \<and> ob_state r = Obx_Unknown)
         (\<lambda>r. r\<lparr>ob_state := (if outcome = lit ''acknowledged'' then Obx_Acknowledged else Obx_Dead),
                ob_updated_at := now,
                ob_acknowledged_at := (if outcome = lit ''acknowledged'' then Some now
                                       else ob_acknowledged_at r),
                ob_failure_detail :=
                  Some (take 2000 (lit ''manual reconciliation: '' @ strip note))\<rparr>)
         (outbox s)"
proof -
  show thesis
  proof (cases "find (\<lambda>r. ob_id r = i \<and> ob_state r = Obx_Unknown) (outbox s)")
    case None
    with assms have "\<not> b" "t = s" by (auto simp: reconcile_unknown_outbox_def split: if_splits)
    then show thesis by (rule nothing)
  next
    case (Some r)
    then have "r \<in> set (outbox s)" "ob_id r = i" "ob_state r = Obx_Unknown"
      by (auto simp: find_Some_iff)
    with assms Some show thesis
      by (intro closed [of r]) (auto simp: reconcile_unknown_outbox_def split: if_splits)
  qed
qed

lemma reconcile_is_move:
  assumes "reconcile_unknown_outbox now i outcome note s = Inr (b, t)"
  shows "is_move s t"
  using assms
proof (cases rule: reconcile_cases)
  case nothing
  then show ?thesis by (simp add: is_move_same)
next
  case (closed r)
  show ?thesis
    by (rule is_moveI [OF closed(5)]) (auto simp: outbox_move_def outbox_fixed_def outbox_row_ok_def)
qed

subsection \<open>Steps\<close>

text \<open>The label names the item whose delivery the step opens: a successful \<open>mark_dispatching\<close> is the
  only way to the call of \<open>connector.deliver\<close>.\<close>

inductive outbox_step :: "db \<Rightarrow> nat option \<Rightarrow> db \<Rightarrow> bool" where
  created: "create_outbox now m s = Inr (item, t) \<Longrightarrow> outbox_step s None t"
| reserving: "outbox_step s None (snd (reserve_next_outbox now ch s))"
| dispatching: "mark_dispatching now i s = (True, t) \<Longrightarrow> outbox_step s (Some i) t"
| refused: "mark_dispatching now i s = (False, t) \<Longrightarrow> outbox_step s None t"
| quarantining: "outbox_step s None (snd (mark_outbox_unknown now i d s))"
| releasing: "release_reserved now i d n s = Inr (b, t) \<Longrightarrow> outbox_step s None t"
| stopping: "outbox_step s None (snd (mark_reserved_dead now i d s))"
| receipt: "apply_receipt now i rc s = Inr (st, t) \<Longrightarrow> outbox_step s None t"
| recovering: "outbox_step s None (snd (recover_outbox now cutoff s))"
| reconciling: "reconcile_unknown_outbox now i outcome note s = Inr (b, t) \<Longrightarrow> outbox_step s None t"

lemma outbox_step_shape:
  assumes "outbox_step s l t" and "outbox_inv s"
  shows "is_move s t \<or> (\<exists>now m. outbox t = outbox s @ [new_outbox_row now m (next_id ob_id (outbox s))] \<and>
      \<not> exists_row (outbox_conflict m) (outbox s))"
  using assms(1)
proof (cases rule: outbox_step.cases)
  case (created now m item)
  then show ?thesis using create_outbox_table(1) [OF created(2)]
    by (cases "exists_row (outbox_conflict m) (outbox s)") (auto simp: is_move_same)
next
  case (dispatching now i)
  then show ?thesis using mark_dispatching_is_move [of s now i] by simp
next
  case (refused now i)
  then show ?thesis using mark_dispatching_is_move [of s now i] by simp
next
  case (releasing now i d n b)
  then show ?thesis using release_is_move [of now i d n s "(b, t)"] by simp
qed (auto simp: reserve_is_move mark_unknown_is_move mark_dead_is_move recover_outbox_is_move
    intro: apply_receipt_is_move [OF assms(2)] reconcile_is_move)

lemma outbox_step_inv: "outbox_step s l t \<Longrightarrow> outbox_inv s \<Longrightarrow> outbox_inv t"
  using outbox_step_shape [of s l t] by (auto simp: is_move_def intro: outbox_move_inv outbox_inv_insert)

lemma outbox_step_edge:
  assumes "outbox_step s l t" and "outbox_inv s" and "outbox_status s i = Some a"
  shows "\<exists>b. outbox_status t i = Some b \<and> (b = a \<or> outbox_edge a b)"
  using outbox_step_shape [OF assms(1,2)]
proof (elim disjE exE conjE)
  assume "is_move s t"
  then show ?thesis using outbox_move_edge [OF _ assms(2) _ assms(3)] by (auto simp: is_move_def)
next
  fix now m assume "outbox t = outbox s @ [new_outbox_row now m (next_id ob_id (outbox s))]"
  with assms(3) show ?thesis by (auto simp: outbox_status_def)
qed

interpretation outbox_life: lifecycle "\<lambda>s. outbox s = []" "\<lambda>s t. \<exists>l. outbox_step s l t" outbox_inv
  outbox_status outbox_edge
  by unfold_locales (auto intro: outbox_inv_empty outbox_step_inv outbox_step_edge)

text \<open>How many deliveries an item can still see.\<close>

definition deliveries_left :: "db \<Rightarrow> nat \<Rightarrow> nat" where
  "deliveries_left s i = (case outbox_status s i of None \<Rightarrow> 1
     | Some st \<Rightarrow> if st = Obx_Pending \<or> st = Obx_Reserved then 1 else 0)"

lemma dispatching_status:
  assumes "outbox_inv s" and "mark_dispatching now i s = (True, t)"
  shows "outbox_status s i = Some Obx_Reserved" and "outbox_status t i = Some Obx_Dispatching"
proof -
  have f: "fst (mark_dispatching now i s)" and t: "t = snd (mark_dispatching now i s)"
    using assms(2) by simp_all
  from f show st: "outbox_status s i = Some Obx_Reserved"
    unfolding mark_dispatching_def by (simp only: outbox_cas_True [OF assms(1)])
  then obtain r where "get_row ob_id i (outbox s) = Some r" "ob_state r = Obx_Reserved"
    by (auto simp: outbox_status_def)
  moreover from this(1) have "ob_id r = i" using get_row_in by fastforce
  ultimately show "outbox_status t i = Some Obx_Dispatching"
    unfolding t mark_dispatching_def outbox_status_def outbox_cas_simps
    by (simp add: get_row_update_where)
qed

interpretation outbox_calls: ranked_machine outbox_step "\<lambda>i l. l = Some i" deliveries_left outbox_inv
proof unfold_locales
  show "outbox_step s l t \<Longrightarrow> outbox_inv s \<Longrightarrow> outbox_inv t" for s l t by (rule outbox_step_inv)
  show "deliveries_left t k + (if l = Some k then 1 else 0) \<le> deliveries_left s k"
    if st: "outbox_step s l t" and inv: "outbox_inv s" for s l t k
  proof (cases "l = Some k")
    case True
    with st obtain now where "mark_dispatching now k s = (True, t)"
      by (auto elim: outbox_step.cases)
    from dispatching_status [OF inv this] True show ?thesis by (simp add: deliveries_left_def)
  next
    case False
    show ?thesis
    proof (cases "outbox_status s k")
      case None
      then show ?thesis using False by (simp add: deliveries_left_def split: option.split)
    next
      case (Some a)
      from outbox_step_edge [OF st inv Some] obtain b
        where b: "outbox_status t k = Some b" "b = a \<or> outbox_edge a b" by blast
      with Some False show ?thesis
        by (auto simp: deliveries_left_def elim: outbox_edge.cases)
    qed
  qed
qed

subsection \<open>Properties\<close>

text \<open>C4. A message is handed to a connector at most once: in any sequence of outbox operations,
  crashes with recovery and operator reconciliations included, the delivery of an item is opened at
  most once, and once it has been opened the item is never pending or reserved again.\<close>

theorem outbox_delivered_at_most_once:
  assumes "outbox_inv s" and "run outbox_step s ls t"
  shows "length (filter (\<lambda>l. l = Some i) ls) \<le> 1 \<and>
    (Some i \<in> set ls \<longrightarrow>
      outbox_status t i \<in> Some ` {Obx_Dispatching, Obx_Acknowledged, Obx_Unknown, Obx_Dead})"
proof
  have "deliveries_left s i \<le> 1" by (simp add: deliveries_left_def split: option.split)
  with outbox_calls.marked_at_most [OF assms(2,1), of i]
  show "length (filter (\<lambda>l. l = Some i) ls) \<le> 1" by linarith
  show "Some i \<in> set ls \<longrightarrow>
      outbox_status t i \<in> Some ` {Obx_Dispatching, Obx_Acknowledged, Obx_Unknown, Obx_Dead}"
  proof
    assume "Some i \<in> set ls"
    then obtain as bs where "ls = as @ Some i # bs" by (auto simp: in_set_conv_decomp)
    with assms(2) obtain u v where u: "run outbox_step s as u" "outbox_step u (Some i) v"
      "run outbox_step v bs t" by (auto simp: run_append)
    from u(2) obtain now where mark: "mark_dispatching now i u = (True, v)"
      by (auto elim: outbox_step.cases)
    have inv_u: "outbox_inv u" by (rule outbox_calls.run_good [OF u(1) assms(1)])
    have inv_v: "outbox_inv v" by (rule outbox_step_inv [OF u(2) inv_u])
    have "\<exists>b. outbox_status t i = Some b \<and>
        b \<in> {Obx_Dispatching, Obx_Acknowledged, Obx_Unknown, Obx_Dead}"
      by (rule outbox_life.closed_run [OF run_rtranclp [OF u(3)] inv_v dispatching_status(2) [OF inv_u mark]])
        (auto elim: outbox_edge.cases)
    then show "outbox_status t i \<in> Some ` {Obx_Dispatching, Obx_Acknowledged, Obx_Unknown, Obx_Dead}"
      by auto
  qed
qed

lemma is_move_fixed:
  assumes "is_move s t" and "get_row ob_id i (outbox s) = Some r"
  shows "\<exists>q. get_row ob_id i (outbox t) = Some q \<and> outbox_fixed r q"
proof -
  from assms(1) obtain P f where f: "\<And>r. outbox_fixed r (f r)" "outbox t = update_where P f (outbox s)"
    by (auto simp: is_move_def outbox_move_def)
  from f(1) have "\<And>r. ob_id (f r) = ob_id r" by (simp add: outbox_fixed_def)
  with f assms(2) show ?thesis by (simp add: get_row_update_where)
qed

lemma outbox_fixed_trans: "outbox_fixed a b \<Longrightarrow> outbox_fixed b c \<Longrightarrow> outbox_fixed a c"
  by (simp add: outbox_fixed_def)

lemma outbox_row_kept:
  assumes "run outbox_step s ls t" and "outbox_inv s" and "get_row ob_id i (outbox s) = Some r"
  shows "\<exists>q. get_row ob_id i (outbox t) = Some q \<and> outbox_fixed r q"
  using assms
proof (induction arbitrary: r rule: run.induct)
  case (run_Nil s)
  then show ?case by auto
next
  case (run_Cons s l t ls u)
  have "\<exists>q. get_row ob_id i (outbox t) = Some q \<and> outbox_fixed r q"
    using outbox_step_shape [OF run_Cons.hyps(1) run_Cons.prems(1)] run_Cons.prems(2)
    by (auto intro: is_move_fixed)
  then obtain q where q: "get_row ob_id i (outbox t) = Some q" "outbox_fixed r q" by blast
  from run_Cons.IH [OF outbox_step_inv [OF run_Cons.hyps(1) run_Cons.prems(1)] q(1)] q(2)
  show ?case by (blast intro: outbox_fixed_trans)
qed

lemma outbox_message_kept:
  assumes "run outbox_step s ls t" and "outbox_inv s" and "get_row ob_id i (outbox s) = Some r"
  shows "\<exists>q. get_row ob_id i (outbox t) = Some q \<and>
    oi_message (outbox_item_of q) = oi_message (outbox_item_of r)"
  using outbox_row_kept [OF assms] by (auto simp: outbox_item_of_def outbox_fixed_def)

text \<open>What is sent is what was queued: message id, destination, text, reply target, metadata and
  creation time of a stored message never change, whatever outbox operations run.\<close>

theorem outbox_content_immutable:
  assumes "outbox_inv s" and "run outbox_step s ls t" and "get_row ob_id i (outbox s) = Some r"
  shows "\<exists>q. get_row ob_id i (outbox t) = Some q \<and>
    oi_message (outbox_item_of q) = oi_message (outbox_item_of r)"
  by (rule outbox_message_kept [OF assms(2,1,3)])

lemma distinct_map_filter_inj:
  "distinct (List.map_filter f xs) \<Longrightarrow> x \<in> set xs \<Longrightarrow> y \<in> set xs \<Longrightarrow> f x = Some z \<Longrightarrow> f y = Some z \<Longrightarrow> x = y"
proof (induction xs)
  case (Cons a xs)
  have "z \<in> set (List.map_filter f xs)" if "u \<in> set xs" "f u = Some z" for u
    using that by (induction xs) (auto simp: List.map_filter_simps split: option.splits)
  with Cons show ?case by (auto simp: List.map_filter_simps split: option.splits)
qed simp

lemma reply_row_unique:
  assumes "outbox_inv s" and "r \<in> set (outbox s)" "q \<in> set (outbox s)"
    and "ob_channel r = ob_channel q" and "ob_reply_to_event_id r = Some e" "ob_reply_to_event_id q = Some e"
  shows "r = q"
proof -
  from assms(1) have "distinct (List.map_filter
      (\<lambda>r. map_option (\<lambda>e. (ob_channel r, e)) (ob_reply_to_event_id r)) (outbox s))"
    by (simp add: outbox_inv_def reply_keys_def)
  from distinct_map_filter_inj [OF this assms(2,3), of "(ob_channel q, e)"] assms(4-6)
  show ?thesis by simp
qed

text \<open>One durable reply per event: once a reply to an event has been created, any later creation of
  a reply to the same event on the same channel (same message id, as the pipeline derives it from the
  event) succeeds, adds no row, and returns the original message, its original text included.\<close>

theorem create_outbox_once_per_event:
  assumes "outbox_inv s" and "create_outbox now m s = Inr (item, s1)"
    and "om_reply_to_event_id m = Some ev"
    and "run outbox_step s1 ls t"
    and "om_channel m' = om_channel m" "om_reply_to_event_id m' = Some ev"
      "om_message_id m' = om_message_id m"
    and "oi_message item = m"
  shows "\<exists>item' t'. create_outbox now' m' t = Inr (item', t') \<and> outbox t' = outbox t \<and>
    oi_id item' = oi_id item \<and> oi_message item' = m"
proof -
  have inv1: "outbox_inv s1" by (rule create_outbox_inv [OF assms(1,2)])
  have inv_t: "outbox_inv t" by (rule outbox_calls.run_good [OF assms(4) inv1])
  from create_outbox_table(2) [OF assms(2)] obtain row
    where row: "find (outbox_conflict m) (outbox s1) = Some row" "item = outbox_item_of row" by blast
  from find_in [OF row(1)] have in1: "row \<in> set (outbox s1)" by (rule conjunct1)
  have r: "get_row ob_id (ob_id row) (outbox s1) = Some row"
    by (rule get_row_unique [OF outbox_ids [OF inv1] in1])
  from outbox_message_kept [OF assms(4) inv1 r] obtain q
    where q: "get_row ob_id (ob_id row) (outbox t) = Some q"
      "oi_message (outbox_item_of q) = oi_message (outbox_item_of row)" by blast
  from q(2) assms(8) row(2) have qm: "m = oi_message (outbox_item_of q)" by simp
  have qf: "ob_message_id q = om_message_id m" "ob_channel q = om_channel m"
    unfolding qm by (simp_all add: outbox_item_of_def)
  have "om_reply_to_event_id m = ob_reply_to_event_id q"
    unfolding qm by (simp add: outbox_item_of_def)
  with assms(3) have qe: "ob_reply_to_event_id q = Some ev" by simp
  from get_row_in [OF q(1)] have qin: "q \<in> set (outbox t)" "ob_id q = ob_id row" by blast+
  have conf: "outbox_conflict m' q" by (simp add: outbox_conflict_def qf assms(7))
  have uniq: "p = q" if p: "p \<in> set (outbox t)" "outbox_conflict m' p" for p
  proof -
    from p(2) have "ob_message_id p = ob_message_id q \<or>
        ob_channel p = ob_channel q \<and> ob_reply_to_event_id p = Some ev"
      unfolding outbox_conflict_def assms(5-7) qf by simp
    then consider "ob_message_id p = ob_message_id q"
      | "ob_channel p = ob_channel q" "ob_reply_to_event_id p = Some ev" by blast
    then show ?thesis
    proof cases
      case 1
      have d: "distinct (map ob_message_id (outbox t))" using inv_t by (simp add: outbox_inv_def)
      have "Some p = Some q"
        using get_row_unique [OF d p(1)] get_row_unique [OF d qin(1)] unfolding 1 by (rule trans [OF sym])
      then show ?thesis by (rule option.inject [THEN iffD1])
    next
      case 2
      show ?thesis by (rule reply_row_unique [OF inv_t p(1) qin(1) 2 qe])
    qed
  qed
  have ex: "exists_row (outbox_conflict m') (outbox t)"
    using conf qin(1) unfolding exists_row_def list_ex_iff by blast
  obtain item' t' where c: "create_outbox now' m' t = Inr (item', t')" by (rule create_outbox_ok)
  from create_outbox_table(1) [OF c] have same: "outbox t' = outbox t" by (simp only: ex if_True)
  from create_outbox_table(2) [OF c] obtain p
    where p: "find (outbox_conflict m') (outbox t) = Some p" "item' = outbox_item_of p"
    unfolding same by blast
  from find_in [OF p(1)] have pq: "p = q" by (blast intro: uniq)
  have "oi_id item' = oi_id item" by (simp add: p(2) pq row(2) qin(2) outbox_item_of_def)
  moreover have "oi_message item' = m" by (simp only: p(2) pq qm)
  ultimately show ?thesis using c same by blast
qed

text \<open>The candidate of a reservation, and the exact result.\<close>

definition outbox_due :: "time \<Rightarrow> str option \<Rightarrow> outbox_row \<Rightarrow> bool" where
  "outbox_due now ch r \<longleftrightarrow> ob_state r = Obx_Pending \<and>
     (\<forall>w. ob_next_attempt_at r = Some w \<longrightarrow> w \<le> now) \<and> (\<forall>c. ch = Some c \<longrightarrow> ob_channel r = c)"

lemma reserve_candidate_due:
  "reserve_candidate now ch rows = first_row (select_order (\<lambda>r. (ob_created_at r, ob_id r)) (outbox_due now ch) rows)"
  unfolding reserve_candidate_def
  by (rule arg_cong [where f = first_row], rule arg_cong2 [where f = "select_order _"])
    (auto simp: outbox_due_def fun_eq_iff split: option.splits)

lemma reserve_candidate_Some:
  assumes "outbox_inv s" and "reserve_candidate now ch (outbox s) = Some c"
  shows "c \<in> set (outbox s)" "outbox_due now ch c" "get_row ob_id (ob_id c) (outbox s) = Some c"
    and "\<And>q. q \<in> set (outbox s) \<Longrightarrow> outbox_due now ch q \<Longrightarrow>
      (ob_created_at c, ob_id c) \<le> (ob_created_at q, ob_id q)"
proof -
  note f = select_order_first [OF assms(2) [unfolded reserve_candidate_due]]
  show "c \<in> set (outbox s)" "outbox_due now ch c" by (rule f)+
  then show "get_row ob_id (ob_id c) (outbox s) = Some c"
    by (intro get_row_unique outbox_ids [OF assms(1)])
  show "\<And>q. q \<in> set (outbox s) \<Longrightarrow> outbox_due now ch q \<Longrightarrow>
      (ob_created_at c, ob_id c) \<le> (ob_created_at q, ob_id q)" by (rule f(3))
qed

lemma reserve_exact:
  assumes "outbox_inv s" and "reserve_candidate now ch (outbox s) = Some c"
  shows "reserve_next_outbox now ch s =
    (Some (outbox_item_of (c\<lparr>ob_state := Obx_Reserved, ob_reserved_at := Some now,
        ob_attempts := ob_attempts c + 1, ob_updated_at := now\<rparr>)),
     s\<lparr>outbox := update_where (\<lambda>r. ob_id r = ob_id c \<and> ob_state r = Obx_Pending)
       (\<lambda>r. r\<lparr>ob_state := Obx_Reserved, ob_reserved_at := Some now,
          ob_attempts := ob_attempts r + 1, ob_updated_at := now\<rparr>) (outbox s)\<rparr>)"
proof -
  from reserve_candidate_Some(2) [OF assms] have "ob_state c = Obx_Pending"
    by (simp add: outbox_due_def)
  with reserve_candidate_Some(3) [OF assms] show ?thesis
    by (simp add: reserve_next_outbox_def assms(2) count_where_unique_key [OF outbox_ids [OF assms(1)]]
        get_row_update_where)
qed

text \<open>The dispatcher serves the oldest message that is due: a reservation takes a pending row whose
  back-off has elapsed and that no other due row of the channel precedes in (creation time, id); it
  counts one attempt; and when it takes nothing, no row is due.\<close>

theorem reserve_oldest_due:
  assumes "outbox_inv s" and "reserve_next_outbox now ch s = (res, t)"
  shows "case res of
      None \<Rightarrow> t = s \<and> (\<forall>q \<in> set (outbox s). \<not> outbox_due now ch q)
    | Some item \<Rightarrow> \<exists>c. get_row ob_id (oi_id item) (outbox s) = Some c \<and> outbox_due now ch c \<and>
        (\<forall>q \<in> set (outbox s). outbox_due now ch q \<longrightarrow>
           (ob_created_at c, ob_id c) \<le> (ob_created_at q, ob_id q)) \<and>
        oi_state item = Obx_Reserved \<and> oi_attempts item = ob_attempts c + 1 \<and>
        oi_message item = oi_message (outbox_item_of c) \<and>
        outbox_status t (oi_id item) = Some Obx_Reserved"
proof (cases "reserve_candidate now ch (outbox s)")
  case None
  then have "\<forall>q \<in> set (outbox s). \<not> outbox_due now ch q"
    unfolding reserve_candidate_due by (simp only: select_order_empty)
  with None assms(2) show ?thesis by (auto simp: reserve_next_outbox_def)
next
  case (Some c)
  note p = reserve_candidate_Some [OF assms(1) Some]
  from p(2) have "ob_state c = Obx_Pending" by (simp add: outbox_due_def)
  with assms(2) reserve_exact [OF assms(1) Some] p(2,3) p(4) show ?thesis
    by (auto simp: outbox_item_of_def outbox_status_def get_row_update_where)
qed

text \<open>A back-off is respected: after a reserved item was released for a delay, no reservation takes
  it before the delay has passed; and a delay outside one second to one day is refused.\<close>

theorem release_backoff_respected:
  assumes "outbox_inv s" and "release_reserved t0 i detail delay s = Inr (True, t)"
    and "fst (reserve_next_outbox now ch t) = Some item" and "oi_id item = i"
  shows "t0 + seconds delay \<le> now \<and> 1 \<le> delay \<and> delay \<le> 86400"
proof -
  let ?f = "\<lambda>r. r\<lparr>ob_state := Obx_Pending, ob_reserved_at := None,
      ob_next_attempt_at := Some (t0 + seconds delay),
      ob_failure_detail := Some (take 2000 detail), ob_updated_at := t0\<rparr>"
  from assms(2) have d: "1 \<le> delay" "delay \<le> 86400"
    and cas: "outbox_cas i Obx_Reserved ?f s = (True, t)"
    by (auto simp: release_reserved_def split: if_splits)
  have t: "outbox t = update_where (\<lambda>r. ob_id r = i \<and> ob_state r = Obx_Reserved) ?f (outbox s)"
    using outbox_cas_simps(1) [of i Obx_Reserved ?f s] cas by simp
  have "outbox_status s i = Some Obx_Reserved"
    using outbox_cas_True [OF assms(1), of i Obx_Reserved ?f] cas by simp
  then obtain r where r: "get_row ob_id i (outbox s) = Some r" "ob_state r = Obx_Reserved"
    by (auto simp: outbox_status_def)
  with get_row_in [OF r(1)] have rt: "get_row ob_id i (outbox t) = Some (?f r)"
    by (simp add: t get_row_update_where)
  have inv: "outbox_inv t"
    using outbox_step_inv [OF outbox_step.releasing [OF assms(2)] assms(1)] .
  obtain c where c: "reserve_candidate now ch (outbox t) = Some c"
    using assms(3) by (cases "reserve_candidate now ch (outbox t)") (auto simp: reserve_next_outbox_def)
  have "oi_id item = ob_id c"
    using assms(3) reserve_exact [OF inv c] by (auto simp: outbox_item_of_def)
  with reserve_candidate_Some(3) [OF inv c] assms(4) rt have "c = ?f r" by simp
  with reserve_candidate_Some(2) [OF inv c] d show ?thesis by (simp add: outbox_due_def)
qed

text \<open>A receipt decides a delivery once: an unknown item or a receipt for another message is an
  error; on a dispatching item the receipt's status fixes the final state; on any other item the
  receipt changes nothing and the call reports the state the item has.\<close>

theorem apply_receipt_verdict:
  assumes "outbox_inv s"
  shows "case get_row ob_id i (outbox s) of
      None \<Rightarrow> apply_receipt now i rc s = Inl KeyError
    | Some r \<Rightarrow>
        if ob_message_id r \<noteq> rc_message_id rc
        then apply_receipt now i rc s = Inl (ValueError ''receipt message_id does not match outbox item'')
        else if ob_state r \<noteq> Obx_Dispatching then apply_receipt now i rc s = Inr (ob_state r, s)
        else \<exists>t. apply_receipt now i rc s = Inr (receipt_state (rc_status rc), t) \<and>
          outbox_status t i = Some (receipt_state (rc_status rc)) \<and>
          (\<forall>j. j \<noteq> i \<longrightarrow> get_row ob_id j (outbox t) = get_row ob_id j (outbox s)) \<and>
          length (audit_log t) = Suc (length (audit_log s)) \<and>
          apply_receipt now' i rc' t = (if rc_message_id rc' = rc_message_id rc
            then Inr (receipt_state (rc_status rc), t)
            else Inl (ValueError ''receipt message_id does not match outbox item''))"
proof (cases "get_row ob_id i (outbox s)")
  case None
  then show ?thesis by (simp add: apply_receipt_def)
next
  case (Some r)
  have id: "ob_id r = i" using get_row_in [OF Some] by (rule conjunct2)
  have fin: "receipt_state (rc_status rc) \<noteq> Obx_Dispatching"
    by (cases "rc_status rc") (simp_all add: receipt_state_def)
  have other: "(if ob_id q = i then f q else q) = q" if "get_row ob_id j (outbox s) = Some q" "j \<noteq> i" for f j q
    using get_row_in [OF that(1)] that(2) by simp
  have same: "map_option (\<lambda>q. if ob_id q = i then f q else q) (get_row ob_id j (outbox s)) =
      get_row ob_id j (outbox s)" if "j \<noteq> i" for f j
    by (cases "get_row ob_id j (outbox s)") (simp_all add: other that)
  show ?thesis
    using Some id fin
    by (simp add: apply_receipt_def get_row_update_where outbox_status_def append_audit_def same frame_simps)
qed

text \<open>An uncertain delivery is settled by the operator only, once and for good: without a usable
  verdict and note the call is refused; on an item that is not unknown it changes nothing; on an
  unknown item it fixes acknowledged or dead, writes one audit entry, and no later operation, crash
  recovery included, changes that state again.\<close>

theorem reconcile_unknown_final:
  assumes "outbox_inv s"
  shows "if outcome \<notin> {lit ''acknowledged'', lit ''dead''} \<or> length (strip note) \<notin> {3..1000}
    then \<exists>e. reconcile_unknown_outbox now i outcome note s = Inl (ValueError e)
    else if outbox_status s i \<noteq> Some Obx_Unknown
    then reconcile_unknown_outbox now i outcome note s = Inr (False, s)
    else \<exists>t. reconcile_unknown_outbox now i outcome note s = Inr (True, t) \<and>
      length (audit_log t) = Suc (length (audit_log s)) \<and>
      (\<forall>ls u. run outbox_step t ls u \<longrightarrow> outbox_status u i =
        Some (if outcome = lit ''acknowledged'' then Obx_Acknowledged else Obx_Dead))"
proof -
  let ?dst = "if outcome = lit ''acknowledged'' then Obx_Acknowledged else Obx_Dead"
  consider (bad) "outcome \<notin> {lit ''acknowledged'', lit ''dead''} \<or> length (strip note) \<notin> {3..1000}"
    | (idle) "outcome \<in> {lit ''acknowledged'', lit ''dead''}" "length (strip note) \<in> {3..1000}"
        "outbox_status s i \<noteq> Some Obx_Unknown"
    | (go) "outcome \<in> {lit ''acknowledged'', lit ''dead''}" "length (strip note) \<in> {3..1000}"
        "outbox_status s i = Some Obx_Unknown" by blast
  then show ?thesis
  proof cases
    case bad
    then show ?thesis by (auto simp: reconcile_unknown_outbox_def)
  next
    case idle
    have "find (\<lambda>r. ob_id r = i \<and> ob_state r = Obx_Unknown) (outbox s) = None"
    proof (rule ccontr)
      assume "find (\<lambda>r. ob_id r = i \<and> ob_state r = Obx_Unknown) (outbox s) \<noteq> None"
      then obtain r where "find (\<lambda>r. ob_id r = i \<and> ob_state r = Obx_Unknown) (outbox s) = Some r"
        by blast
      from find_in [OF this] have "r \<in> set (outbox s)" "ob_id r = i" "ob_state r = Obx_Unknown"
        by blast+
      with get_row_unique [OF outbox_ids [OF assms] this(1)] idle(3) show False
        by (simp add: outbox_status_def)
    qed
    with idle show ?thesis by (auto simp: reconcile_unknown_outbox_def)
  next
    case go
    then obtain r where r: "get_row ob_id i (outbox s) = Some r" "ob_state r = Obx_Unknown"
      by (auto simp: outbox_status_def)
    then have "find (\<lambda>r. ob_id r = i \<and> ob_state r = Obx_Unknown) (outbox s) \<noteq> None"
      using get_row_in [OF r(1)] by (auto simp: find_None_iff)
    with go(1,2) obtain t where t: "reconcile_unknown_outbox now i outcome note s = Inr (True, t)"
      "length (audit_log t) = Suc (length (audit_log s))"
      "outbox_status t i = Some ?dst"
      using r get_row_in [OF r(1)]
      by (auto simp: reconcile_unknown_outbox_def append_audit_def outbox_status_def get_row_update_where)
    have inv: "outbox_inv t" by (rule outbox_step_inv [OF outbox_step.reconciling [OF t(1)] assms])
    have "outbox_status u i = Some ?dst" if "run outbox_step t ls u" for ls u
      by (rule outbox_life.final_run [OF run_rtranclp [OF that] inv t(3)])
        (auto simp: outbox_edge_from_final)
    with t(1,2) go show ?thesis by auto
  qed
qed

lemma draft_conflict_row:
  "om_reply_to_event_id m = Some ev \<Longrightarrow> draft_conflict m ev
     \<lparr>df_id = n, df_draft_id = om_message_id m, df_channel = om_channel m, df_chat_id = om_chat_id m,
      df_text = om_text m, df_reply_to_event_id = ev, df_metadata = om_metadata m,
      df_created_at = om_created_at m, df_updated_at = now\<rparr>"
  by (simp add: draft_conflict_def)

text \<open>Draft mode can send nothing: storing a draft for an event always succeeds, leaves the outbox
  and every other table unchanged, and a second draft for the same event on the channel returns the
  first one and adds nothing.\<close>

theorem create_draft_sends_nothing:
  assumes "om_reply_to_event_id m = Some ev"
  shows "\<exists>row t. create_draft now m s = Inr (row, t) \<and> t = s\<lparr>drafts := drafts t\<rparr> \<and>
    draft_conflict m ev row \<and>
    (om_channel m' = om_channel m \<and> om_reply_to_event_id m' = Some ev \<and>
       om_message_id m' = om_message_id m \<longrightarrow>
     create_draft now' m' t = Inr (row, t))"
proof -
  let ?n = "\<lparr>df_id = next_id df_id (drafts s), df_draft_id = om_message_id m,
      df_channel = om_channel m, df_chat_id = om_chat_id m, df_text = om_text m,
      df_reply_to_event_id = ev, df_metadata = om_metadata m,
      df_created_at = om_created_at m, df_updated_at = now\<rparr>"
  let ?rows = "if exists_row (draft_conflict m ev) (drafts s) then drafts s else drafts s @ [?n]"
  have ex: "exists_row (draft_conflict m ev) ?rows"
    using draft_conflict_row [OF assms] by (simp add: exists_row_def)
  then obtain row where row: "find (draft_conflict m ev) ?rows = Some row"
    by (cases "find (draft_conflict m ev) ?rows") (auto simp: find_None_iff exists_row_def list_ex_iff)
  define t where "t = s\<lparr>drafts := ?rows\<rparr>"
  have c: "create_draft now m s = Inr (row, t)"
    using row by (simp only: create_draft_def assms option.case t_def Let_def)
  have "create_draft now' m' t = Inr (row, t)"
    if "om_channel m' = om_channel m" "om_reply_to_event_id m' = Some ev" "om_message_id m' = om_message_id m"
  proof -
    have same: "draft_conflict m' ev = draft_conflict m ev"
      using that by (simp add: draft_conflict_def fun_eq_iff)
    have d: "drafts t = ?rows" by (simp add: t_def)
    show ?thesis
      unfolding create_draft_def that(2) option.case Let_def same d
      using ex row by (simp add: t_def)
  qed
  with c find_in [OF row] show ?thesis by (auto simp: t_def)
qed

subsection \<open>Concrete runs\<close>

definition demo_reply :: "string \<Rightarrow> outbound_message" where
  "demo_reply x = \<lparr>om_message_id = lit ''m7'', om_channel = lit ''wechat_agent_lab'', om_chat_id = lit ''chat_1'',
     om_text = lit x, om_reply_to_event_id = Some (lit ''e1''), om_created_at = 100, om_metadata = []\<rparr>"

definition demo_row :: "outbox_row" where
  "demo_row = new_outbox_row 100 (demo_reply ''hi'') 1"

definition demo_queued :: db where
  "demo_queued = (case create_outbox 100 (demo_reply ''hi'') empty_db of Inr r \<Rightarrow> snd r | Inl _ \<Rightarrow> empty_db)"

definition demo_reserved :: db where
  "demo_reserved = snd (reserve_next_outbox 110 None demo_queued)"

definition demo_dispatching :: db where
  "demo_dispatching = snd (mark_dispatching 120 1 demo_reserved)"

lemma demo_create:
  "create_outbox 100 (demo_reply ''hi'') empty_db = Inr (outbox_item_of demo_row, demo_queued)"
  by (simp add: demo_queued_def create_outbox_def exists_row_def outbox_conflict_def next_id_def
      demo_row_def new_outbox_row_def demo_reply_def)

lemma demo_queued_outbox: "outbox demo_queued = [demo_row]"
  by (simp add: demo_queued_def create_outbox_def exists_row_def outbox_conflict_def next_id_def
      demo_row_def new_outbox_row_def demo_reply_def add_message_def)

lemma demo_queued_inv: "outbox_inv demo_queued"
  by (rule create_outbox_inv [OF outbox_inv_empty demo_create]) simp

lemma demo_reserve: "map_option oi_id (fst (reserve_next_outbox 110 None demo_queued)) = Some 1"
  "outbox demo_reserved = [demo_row\<lparr>ob_state := Obx_Reserved, ob_reserved_at := Some 110, ob_attempts := 1,
      ob_updated_at := 110\<rparr>]"
  by (simp_all add: demo_reserved_def reserve_next_outbox_def reserve_candidate_def demo_queued_outbox
      demo_row_def new_outbox_row_def select_order_def first_row_def count_where_def update_where_def
      outbox_item_of_def)

lemma demo_dispatch: "mark_dispatching 120 1 demo_reserved = (True, demo_dispatching)"
  "outbox demo_dispatching = [demo_row\<lparr>ob_state := Obx_Dispatching, ob_reserved_at := Some 110,
      ob_attempts := 1, ob_dispatch_started_at := Some 120, ob_updated_at := 120\<rparr>]"
  by (simp_all add: demo_dispatching_def mark_dispatching_def outbox_cas_def demo_reserve count_where_def
      update_where_def demo_row_def new_outbox_row_def)

lemma demo_run: "run outbox_step demo_queued [None, Some 1] demo_dispatching"
  using outbox_step.reserving [of demo_queued 110 None] outbox_step.dispatching [OF demo_dispatch(1)]
  by (auto simp: demo_reserved_def)

lemma demo_dispatching_inv: "outbox_inv demo_dispatching"
  by (rule outbox_calls.run_good [OF demo_run demo_queued_inv])

theorem outbox_delivered_at_most_once_witness:
  "outbox_status demo_dispatching 1 \<in> Some ` {Obx_Dispatching, Obx_Acknowledged, Obx_Unknown, Obx_Dead}"
  using outbox_delivered_at_most_once [OF demo_queued_inv demo_run, of 1] by simp

theorem outbox_content_immutable_witness:
  "\<exists>q. get_row ob_id 1 (outbox demo_dispatching) = Some q \<and> oi_message (outbox_item_of q) = demo_reply ''hi''"
proof -
  have "get_row ob_id 1 (outbox demo_queued) = Some demo_row"
    by (simp add: demo_queued_outbox demo_row_def new_outbox_row_def)
  from outbox_content_immutable [OF demo_queued_inv demo_run this] show ?thesis
    by (simp add: outbox_item_of_def demo_row_def new_outbox_row_def demo_reply_def)
qed

theorem create_outbox_once_per_event_witness:
  "\<exists>item t. create_outbox 130 (demo_reply ''other'') demo_dispatching = Inr (item, t) \<and>
     oi_message item = demo_reply ''hi''"
  using create_outbox_once_per_event [OF outbox_inv_empty demo_create _ demo_run,
      of "lit ''e1''" "demo_reply ''other''" 130]
  by (auto simp: demo_reply_def demo_row_def new_outbox_row_def outbox_item_of_def)

theorem reserve_oldest_due_witness:
  "\<exists>c. get_row ob_id 1 (outbox demo_queued) = Some c \<and> outbox_due 110 None c"
proof -
  obtain item where i: "reserve_next_outbox 110 None demo_queued = (Some item, demo_reserved)" "oi_id item = 1"
    using demo_reserve(1) unfolding demo_reserved_def
    by (cases "reserve_next_outbox 110 None demo_queued") auto
  from reserve_oldest_due [OF demo_queued_inv i(1)] i(2) show ?thesis by auto
qed

definition demo_released :: db where
  "demo_released = demo_reserved\<lparr>outbox := [demo_row\<lparr>ob_state := Obx_Pending, ob_attempts := 1,
     ob_reserved_at := None, ob_next_attempt_at := Some (120 + seconds 60),
     ob_failure_detail := Some (lit ''busy''), ob_updated_at := 120\<rparr>]\<rparr>"

theorem release_backoff_respected_witness:
  "120 + seconds 60 \<le> (120 + seconds 61 :: int)"
proof -
  have inv: "outbox_inv demo_reserved"
    using outbox_step_inv [OF outbox_step.reserving demo_queued_inv] by (simp add: demo_reserved_def)
  have rel: "release_reserved 120 1 (lit ''busy'') 60 demo_reserved = Inr (True, demo_released)"
    by (simp add: release_reserved_def outbox_cas_def demo_reserve count_where_def update_where_def
        demo_row_def new_outbox_row_def demo_released_def)
  obtain item where it: "fst (reserve_next_outbox (120 + seconds 61) None demo_released) = Some item"
      "oi_id item = 1"
    by (auto simp: demo_released_def reserve_next_outbox_def reserve_candidate_def demo_row_def
        new_outbox_row_def select_order_def first_row_def count_where_def update_where_def
        outbox_item_of_def seconds_def)
  from release_backoff_respected [OF inv rel it] show ?thesis by simp
qed

theorem apply_receipt_verdict_witness:
  "\<exists>t. apply_receipt 140 1 \<lparr>rc_message_id = lit ''m7'', rc_status = Dlv_Unknown, rc_external_id = None,
      rc_acknowledged_at = None, rc_detail = Some (lit ''timeout'')\<rparr> demo_dispatching = Inr (Obx_Unknown, t)"
  using apply_receipt_verdict [OF demo_dispatching_inv, where i = 1 and now = 140 and now' = 0 and
      rc' = "\<lparr>rc_message_id = lit ''m7'',
      rc_status = Dlv_Unknown, rc_external_id = None, rc_acknowledged_at = None,
      rc_detail = Some (lit ''timeout'')\<rparr>" and
      rc = "\<lparr>rc_message_id = lit ''m7'',
      rc_status = Dlv_Unknown, rc_external_id = None, rc_acknowledged_at = None,
      rc_detail = Some (lit ''timeout'')\<rparr>"]
  by (auto simp: demo_dispatch demo_row_def new_outbox_row_def demo_reply_def receipt_state_def)

theorem reconcile_unknown_final_witness:
  "\<exists>t. reconcile_unknown_outbox 200 1 (lit ''dead'') (lit ''seen'')
     (snd (mark_outbox_unknown 150 1 (lit ''x'') demo_dispatching)) = Inr (True, t)"
proof -
  let ?s = "snd (mark_outbox_unknown 150 1 (lit ''x'') demo_dispatching)"
  have inv: "outbox_inv ?s" by (rule outbox_step_inv [OF outbox_step.quarantining demo_dispatching_inv])
  have st: "outbox_status ?s 1 = Some Obx_Unknown"
    by (simp add: outbox_status_def mark_outbox_unknown_def outbox_cas_def demo_dispatch
        update_where_def demo_row_def new_outbox_row_def)
  have n: "length (strip (lit ''seen'')) = 4" by code_simp
  from reconcile_unknown_final [OF inv, of "lit ''dead''" "lit ''seen''" 200 1] st n
  show ?thesis by auto
qed

theorem create_draft_sends_nothing_witness:
  "\<exists>row t. create_draft 1 (demo_reply ''hi'') empty_db = Inr (row, t) \<and> outbox t = []"
proof -
  have "om_reply_to_event_id (demo_reply ''hi'') = Some (lit ''e1'')" by (simp add: demo_reply_def)
  from create_draft_sends_nothing [OF this, of 1 empty_db] obtain row t
    where t: "create_draft 1 (demo_reply ''hi'') empty_db = Inr (row, t)"
      "t = empty_db\<lparr>drafts := drafts t\<rparr>" by blast
  from arg_cong [OF t(2), of outbox] t(1) show ?thesis by (auto simp: empty_db_def)
qed

end
