(* ===== verification/Json_Text.thy ===== *)
theory Json_Text
  imports Prelude "HOL-Library.List_Lexorder" "HOL-Library.Multiset"
begin

text \<open>
  The text of a JSON value as \<open>json.dumps(value, ensure_ascii=False, sort_keys=True,
  separators=(",", ":"), allow_nan=False)\<close> writes it, which is the canonical form the digests of tool
  arguments and of persisted payloads are taken over. The shortest decimal text of a float is the
  parameter \<open>flt\<close>.
\<close>

text \<open>\<open>py_encode_basestring\<close>: the short escapes, then \<open>\u00XX\<close> for the other control characters.\<close>

definition json_char :: "nat \<Rightarrow> str" where
  "json_char c =
     (if c = 34 then [92, 34] else if c = 92 then [92, 92]
      else if c = 10 then [92, 110] else if c = 13 then [92, 114] else if c = 9 then [92, 116]
      else if c = 12 then [92, 102] else if c = 8 then [92, 98]
      else if c < 32 then
        [92, 117, 48, 48, 48 + c div 16, (if c mod 16 < 10 then 48 + c mod 16 else 87 + c mod 16)]
      else [c])"

definition json_string :: "str \<Rightarrow> str" where
  "json_string s = 34 # concat (map json_char s) @ [34]"

fun join :: "str \<Rightarrow> str list \<Rightarrow> str" where
  "join sep [] = []"
| "join sep [x] = x"
| "join sep (x # y # xs) = x @ sep @ join sep (y # xs)"

text \<open>\<open>sort_keys\<close>: the items of an object in the order of their keys, code point by code point.\<close>

definition sort_items :: "(str \<times> 'a) list \<Rightarrow> (str \<times> 'a) list" where
  "sort_items kvs = sort_key fst kvs"

fun json_text :: "(rat \<Rightarrow> str) \<Rightarrow> json \<Rightarrow> str" where
  "json_text flt JNull = lit ''null''"
| "json_text flt (JBool b) = (if b then lit ''true'' else lit ''false'')"
| "json_text flt (JInt i) = str_of_int i"
| "json_text flt (JFloat q) = flt q"
| "json_text flt (JStr s) = json_string s"
| "json_text flt (JList xs) = lit ''['' @ join (lit '','') (map (json_text flt) xs) @ lit '']''"
| "json_text flt (JObj kvs) = lit ''{'' @ join (lit '','')
     (map (\<lambda>(k, t). json_string k @ lit '':'' @ t)
        (sort_items (map (\<lambda>(k, v). (k, json_text flt v)) kvs))) @ lit ''}''"

text \<open>The bytes of a text in UTF-8; a surrogate cannot be encoded.\<close>

definition utf8_size :: "str \<Rightarrow> nat" where
  "utf8_size s = sum_list (map (\<lambda>c. if c < 128 then 1 else if c < 2048 then 2 else if c < 65536 then 3 else 4) s)"

definition has_surrogate :: "str \<Rightarrow> bool" where
  "has_surrogate s = list_ex (\<lambda>c. 55296 \<le> c \<and> c \<le> 57343) s"

text \<open>The order in which a caller filled a dictionary does not show in its text.\<close>

lemma sort_items_perm:
  assumes "distinct (map fst kvs)" and "distinct (map fst kvs')" and "set kvs = set kvs'"
  shows "sort_items kvs = sort_items kvs'"
proof -
  have inj: "inj_on fst (set kvs)" using assms(1) by (simp add: distinct_map)
  have "mset kvs = mset kvs'"
    using assms by (simp add: set_eq_iff_mset_eq_distinct distinct_map)
  then show ?thesis
    unfolding sort_items_def by (intro sort_key_inj_key_eq inj) simp_all
qed

end
