(* ===== verification/Tool_Journal.thy ===== *)
theory Tool_Journal
  imports Storage Lifecycle Json_Text
begin

text \<open>
  The durable journal of model-requested tool calls (\<open>begin_tool_execution\<close>, \<open>mark_tool_executing\<close>,
  \<open>resolve_tool_execution\<close> and the recovery statements of
  \<open>lemonbot/storage/repository.py\<close>): one row per call binding, a call that is opened at most once, and
  outcomes that are final.
\<close>

subsection \<open>The value-minimised form of the arguments\<close>

text \<open>Only the shape of every argument and a digest of all of them are stored. The digest
  (\<open>hashlib.sha256(..).hexdigest()\<close>) is the parameter \<open>sha256\<close>, the text of a float is \<open>flt\<close>.\<close>

fun shape :: "json \<Rightarrow> json" where
  "shape (JStr s) = JObj [(lit ''type'', JStr (lit ''string'')), (lit ''length'', JInt (int (length s)))]"
| "shape (JList xs) = JObj [(lit ''type'', JStr (lit ''array'')), (lit ''length'', JInt (int (length xs)))]"
| "shape (JObj kvs) = JObj [(lit ''type'', JStr (lit ''object'')), (lit ''keys'', JInt (int (length kvs)))]"
| "shape JNull = JObj [(lit ''type'', JStr (lit ''null''))]"
| "shape (JBool b) = JObj [(lit ''type'', JStr (lit ''boolean''))]"
| "shape (JInt i) = JObj [(lit ''type'', JStr (lit ''number''))]"
| "shape (JFloat q) = JObj [(lit ''type'', JStr (lit ''number''))]"

definition tool_arguments_metadata :: "(str \<Rightarrow> str) \<Rightarrow> (rat \<Rightarrow> str) \<Rightarrow> dict \<Rightarrow> str \<times> str" where
  "tool_arguments_metadata sha256 flt arguments =
     (let canonical = json_text flt (JObj arguments);
          summary = json_text flt (JObj (map (\<lambda>(k, v). (k, shape v)) (sort_items arguments)))
      in (sha256 canonical, summary))"

subsection \<open>Operations\<close>

record tool_request =
  tq_profile :: str
  tq_channel :: str
  tq_chat_id :: str
  tq_event_id :: str
  tq_call_id :: str
  tq_tool_name :: str
  tq_action_kind :: str
  tq_arguments :: dict
  tq_side_effect :: bool

text \<open>The columns of \<open>uq_tool_executions_call_binding\<close>.\<close>

definition tx_binding :: "tool_execution_row \<Rightarrow> str \<times> str \<times> str \<times> str \<times> str" where
  "tx_binding r = (tx_profile r, tx_channel r, tx_chat_id r, tx_event_id r, tx_call_id r)"

definition tq_binding :: "tool_request \<Rightarrow> str \<times> str \<times> str \<times> str \<times> str" where
  "tq_binding q = (tq_profile q, tq_channel q, tq_chat_id q, tq_event_id q, tq_call_id q)"

definition new_tool_row ::
    "(str \<Rightarrow> str) \<Rightarrow> (rat \<Rightarrow> str) \<Rightarrow> uuid \<Rightarrow> time \<Rightarrow> tool_request \<Rightarrow> tool_execution_row" where
  "new_tool_row sha256 flt eid now q =
     (let (sha, summary) = tool_arguments_metadata sha256 flt (tq_arguments q)
      in \<lparr>tx_execution_id = eid, tx_profile = tq_profile q, tx_channel = tq_channel q,
          tx_chat_id = tq_chat_id q, tx_event_id = tq_event_id q, tx_call_id = tq_call_id q,
          tx_tool_name = tq_tool_name q, tx_action_kind = tq_action_kind q,
          tx_arguments_summary = summary, tx_arguments_sha256 = sha,
          tx_side_effect = tq_side_effect q, tx_state = Tx_Requested, tx_outcome_code = None,
          tx_result_summary = [], tx_created_at = now, tx_started_at = None,
          tx_resolved_at = None, tx_updated_at = now\<rparr>)"

text \<open>\<open>ON CONFLICT (binding) DO NOTHING\<close>; a clash of the fresh primary key \<open>eid\<close> would be an
  \<open>IntegrityError\<close>. An exception rolls the transaction back.\<close>

definition begin_tool_execution ::
    "(str \<Rightarrow> str) \<Rightarrow> (rat \<Rightarrow> str) \<Rightarrow> uuid \<Rightarrow> time \<Rightarrow> tool_request \<Rightarrow> db \<Rightarrow> ((uuid \<times> bool) \<times> db) result"
  where
  "begin_tool_execution sha256 flt eid now q s =
     (let bound = (\<lambda>r. tx_binding r = tq_binding q);
          conflict = exists_row bound (tool_executions s)
      in if \<not> conflict \<and> exists_row (\<lambda>r. tx_execution_id r = eid) (tool_executions s)
         then Inl (OtherException ''IntegrityError'')
         else
           let rows = (if conflict then tool_executions s
                       else tool_executions s @ [new_tool_row sha256 flt eid now q])
           in case find bound rows of
                None \<Rightarrow> Inl (RuntimeError ''tool execution insert failed'')
              | Some row \<Rightarrow>
                  if tx_tool_name row \<noteq> tq_tool_name q \<or> tx_action_kind row \<noteq> tq_action_kind q \<or>
                     tx_arguments_sha256 row \<noteq> fst (tool_arguments_metadata sha256 flt (tq_arguments q)) \<or>
                     tx_side_effect row \<noteq> tq_side_effect q
                  then Inl (ValueError ''tool call id was rebound to a different request'')
                  else Inr ((tx_execution_id row, \<not> conflict), s\<lparr>tool_executions := rows\<rparr>))"

definition mark_tool_executing :: "time \<Rightarrow> uuid \<Rightarrow> db \<Rightarrow> bool \<times> db" where
  "mark_tool_executing now eid s =
     (let P = (\<lambda>r. tx_execution_id r = eid \<and> tx_state r = Tx_Requested)
      in (count_where P (tool_executions s) = 1,
          s\<lparr>tool_executions := update_where P
             (\<lambda>r. r\<lparr>tx_state := Tx_Executing, tx_started_at := Some now, tx_updated_at := now\<rparr>)
             (tool_executions s)\<rparr>))"

text \<open>\<open>terminal_sources.get(state)\<close>.\<close>

definition terminal_sources :: "str \<Rightarrow> (tool_state \<times> tool_state list) option" where
  "terminal_sources state =
     map_of [(lit ''succeeded'', (Tx_Succeeded, [Tx_Executing])),
             (lit ''failed'', (Tx_Failed, [Tx_Requested, Tx_Executing])),
             (lit ''denied'', (Tx_Denied, [Tx_Requested])),
             (lit ''approval_pending'', (Tx_Approval_Pending, [Tx_Requested])),
             (lit ''unknown'', (Tx_Unknown, [Tx_Executing]))] state"

definition resolve_tool_execution ::
    "time \<Rightarrow> uuid \<Rightarrow> str \<Rightarrow> str \<Rightarrow> dict option \<Rightarrow> db \<Rightarrow> (bool \<times> db) result" where
  "resolve_tool_execution now eid state outcome_code result_summary s =
     (case terminal_sources state of
        None \<Rightarrow> Inl (ValueError ''invalid tool execution outcome'')
      | Some (target, sources) \<Rightarrow>
          let P = (\<lambda>r. tx_execution_id r = eid \<and> tx_state r \<in> set sources)
          in Inr (count_where P (tool_executions s) = 1,
               s\<lparr>tool_executions := update_where P
                  (\<lambda>r. r\<lparr>tx_state := target, tx_outcome_code := Some (take 128 outcome_code),
                         tx_result_summary := (case result_summary of None \<Rightarrow> [] | Some d \<Rightarrow> d),
                         tx_resolved_at := (if target = Tx_Approval_Pending then None else Some now),
                         tx_updated_at := now\<rparr>) (tool_executions s)\<rparr>))"

text \<open>The last two statements of \<open>recover_interrupted\<close>.\<close>

definition recover_tools :: "time \<Rightarrow> db \<Rightarrow> (nat \<times> nat) \<times> db" where
  "recover_tools now s =
     (let req = (\<lambda>r. tx_state r = Tx_Requested);
          rows1 = update_where req
            (\<lambda>r. r\<lparr>tx_state := Tx_Failed, tx_outcome_code := Some (lit ''interrupted_before_invoke''),
                   tx_resolved_at := Some now, tx_updated_at := now\<rparr>) (tool_executions s);
          run = (\<lambda>r. tx_state r = Tx_Executing);
          rows2 = update_where run
            (\<lambda>r. r\<lparr>tx_state := Tx_Unknown, tx_outcome_code := Some (lit ''interrupted_during_invoke''),
                   tx_resolved_at := Some now, tx_updated_at := now\<rparr>) rows1
      in ((count_where req (tool_executions s), count_where run rows1), s\<lparr>tool_executions := rows2\<rparr>))"

lemmas tool_op_defs = begin_tool_execution_def mark_tool_executing_def resolve_tool_execution_def
  recover_tools_def

declare tool_op_defs [op_defs]

subsection \<open>Well-formedness and moves\<close>

definition tool_row_ok :: "tool_execution_row \<Rightarrow> bool" where
  "tool_row_ok r \<longleftrightarrow>
     (tx_state r = Tx_Requested \<longrightarrow> tx_started_at r = None \<and> tx_resolved_at r = None) \<and>
     (tx_state r = Tx_Executing \<longrightarrow> tx_started_at r \<noteq> None \<and> tx_resolved_at r = None) \<and>
     (tx_state r \<in> {Tx_Succeeded, Tx_Unknown} \<longrightarrow> tx_started_at r \<noteq> None \<and> tx_resolved_at r \<noteq> None) \<and>
     (tx_state r \<in> {Tx_Denied, Tx_Approval_Pending} \<longrightarrow> tx_started_at r = None)"

definition tool_inv :: "db \<Rightarrow> bool" where
  "tool_inv s \<longleftrightarrow> distinct (map tx_execution_id (tool_executions s)) \<and>
     distinct (map tx_binding (tool_executions s)) \<and> (\<forall>r \<in> set (tool_executions s). tool_row_ok r)"

inductive tool_edge :: "tool_state \<Rightarrow> tool_state \<Rightarrow> bool" where
  opened: "tool_edge Tx_Requested Tx_Executing"
| aborted: "tool_edge Tx_Requested Tx_Failed"
| denied: "tool_edge Tx_Requested Tx_Denied"
| parked: "tool_edge Tx_Requested Tx_Approval_Pending"
| succeeded: "tool_edge Tx_Executing Tx_Succeeded"
| broken: "tool_edge Tx_Executing Tx_Failed"
| lost: "tool_edge Tx_Executing Tx_Unknown"

declare tool_edge.intros [edge_intros, simp]
inductive_cases tool_edge_cases: "tool_edge a b"

definition tool_fixed :: "tool_execution_row \<Rightarrow> tool_execution_row \<Rightarrow> bool" where
  "tool_fixed r q \<longleftrightarrow> tx_execution_id q = tx_execution_id r \<and> tx_binding q = tx_binding r \<and>
     tx_tool_name q = tx_tool_name r \<and> tx_action_kind q = tx_action_kind r \<and>
     tx_arguments_sha256 q = tx_arguments_sha256 r \<and> tx_arguments_summary q = tx_arguments_summary r \<and>
     tx_side_effect q = tx_side_effect r"

definition tool_status :: "db \<Rightarrow> uuid \<Rightarrow> tool_state option" where
  "tool_status s eid = map_option tx_state (get_row tx_execution_id eid (tool_executions s))"

text \<open>A conditional update that keeps the request and moves along edges.\<close>

definition tool_move :: "(tool_execution_row \<Rightarrow> bool) \<Rightarrow> (tool_execution_row \<Rightarrow> tool_execution_row) \<Rightarrow> bool" where
  "tool_move P f \<longleftrightarrow> (\<forall>r. tool_fixed r (f r)) \<and>
     (\<forall>r. P r \<and> tool_row_ok r \<longrightarrow> tool_row_ok (f r) \<and> tool_edge (tx_state r) (tx_state (f r)))"

definition tool_moved :: "db \<Rightarrow> db \<Rightarrow> bool" where
  "tool_moved s t \<longleftrightarrow> (\<exists>P f. tool_move P f \<and> tool_executions t = update_where P f (tool_executions s))"

lemma tool_movedI: "tool_executions t = update_where P f (tool_executions s) \<Longrightarrow> tool_move P f \<Longrightarrow> tool_moved s t"
  by (auto simp: tool_moved_def)

lemma tool_moved_inv:
  assumes "tool_moved s t" and "tool_inv s"
  shows "tool_inv t"
proof -
  from assms(1) obtain P f where f: "tool_move P f" "tool_executions t = update_where P f (tool_executions s)"
    by (auto simp: tool_moved_def)
  then have "\<And>r. tx_execution_id (f r) = tx_execution_id r" "\<And>r. tx_binding (f r) = tx_binding r"
    by (simp_all add: tool_move_def tool_fixed_def)
  with f assms(2) show ?thesis
    by (simp add: tool_inv_def map_update_where ball_update_where tool_move_def)
qed

lemma tool_moved_row:
  assumes "tool_moved s t" and "tool_inv s" and "get_row tx_execution_id i (tool_executions s) = Some r"
  shows "\<exists>q. get_row tx_execution_id i (tool_executions t) = Some q \<and> tool_fixed r q \<and>
    (tx_state q = tx_state r \<or> tool_edge (tx_state r) (tx_state q))"
proof -
  from assms(1) obtain P f where f: "tool_move P f" "tool_executions t = update_where P f (tool_executions s)"
    by (auto simp: tool_moved_def)
  then have k: "\<And>r. tx_execution_id (f r) = tx_execution_id r" by (simp add: tool_move_def tool_fixed_def)
  from get_row_in [OF assms(3)] assms(2) have "tool_row_ok r" by (simp add: tool_inv_def)
  with f(1) k assms(3) show ?thesis
    by (auto simp: f(2) get_row_update_where tool_move_def tool_fixed_def)
qed

lemma mark_tool_moved: "tool_moved s (snd (mark_tool_executing now eid s))"
proof (rule tool_movedI)
  show "tool_executions (snd (mark_tool_executing now eid s)) =
      update_where (\<lambda>r. tx_execution_id r = eid \<and> tx_state r = Tx_Requested)
        (\<lambda>r. r\<lparr>tx_state := Tx_Executing, tx_started_at := Some now, tx_updated_at := now\<rparr>) (tool_executions s)"
    by (simp add: mark_tool_executing_def)
qed (auto simp: tool_move_def tool_fixed_def tx_binding_def tool_row_ok_def)

lemma terminal_sources_Some:
  assumes "terminal_sources state = Some (target, sources)" and "a \<in> set sources"
  shows "tool_edge a target" and "target \<notin> {Tx_Requested, Tx_Executing}"
  using assms by (auto simp: terminal_sources_def split: if_splits)

lemma resolve_tool_moved:
  assumes "resolve_tool_execution now eid state code res s = Inr (b, t)"
  shows "tool_moved s t"
proof -
  from assms obtain target sources where ts: "terminal_sources state = Some (target, sources)"
    by (auto simp: resolve_tool_execution_def split: option.splits)
  note edges = terminal_sources_Some [OF ts]
  show ?thesis
  proof (rule tool_movedI)
    show "tool_executions t = update_where (\<lambda>r. tx_execution_id r = eid \<and> tx_state r \<in> set sources)
        (\<lambda>r. r\<lparr>tx_state := target, tx_outcome_code := Some (take 128 code),
               tx_result_summary := (case res of None \<Rightarrow> [] | Some d \<Rightarrow> d),
               tx_resolved_at := (if target = Tx_Approval_Pending then None else Some now),
               tx_updated_at := now\<rparr>) (tool_executions s)"
      using assms ts by (auto simp: resolve_tool_execution_def)
    show "tool_move (\<lambda>r. tx_execution_id r = eid \<and> tx_state r \<in> set sources)
        (\<lambda>r. r\<lparr>tx_state := target, tx_outcome_code := Some (take 128 code),
               tx_result_summary := (case res of None \<Rightarrow> [] | Some d \<Rightarrow> d),
               tx_resolved_at := (if target = Tx_Approval_Pending then None else Some now),
               tx_updated_at := now\<rparr>)"
      unfolding tool_move_def
    proof (intro conjI allI impI)
      fix r assume "(tx_execution_id r = eid \<and> tx_state r \<in> set sources) \<and> tool_row_ok r"
      then have e: "tool_edge (tx_state r) target" and ok: "tool_row_ok r" using edges(1) by blast+
      from e show "tool_edge (tx_state r) (tx_state (r\<lparr>tx_state := target,
          tx_outcome_code := Some (take 128 code),
          tx_result_summary := (case res of None \<Rightarrow> [] | Some d \<Rightarrow> d),
          tx_resolved_at := (if target = Tx_Approval_Pending then None else Some now),
          tx_updated_at := now\<rparr>))" by simp
      have "target \<notin> {Tx_Requested, Tx_Executing}"
        using edges(2) [of "tx_state r"] \<open>(tx_execution_id r = eid \<and> tx_state r \<in> set sources) \<and> tool_row_ok r\<close>
        by blast
      with e ok show "tool_row_ok (r\<lparr>tx_state := target,
          tx_outcome_code := Some (take 128 code),
          tx_result_summary := (case res of None \<Rightarrow> [] | Some d \<Rightarrow> d),
          tx_resolved_at := (if target = Tx_Approval_Pending then None else Some now),
          tx_updated_at := now\<rparr>)"
        by (cases rule: tool_edge.cases) (simp_all add: tool_row_ok_def)
    qed (simp_all add: tool_fixed_def tx_binding_def)
  qed
qed

lemma recover_tools_moved: "\<exists>u. tool_moved s u \<and> tool_moved u (snd (recover_tools now s))"
proof -
  let ?req = "\<lambda>r. tx_state r = Tx_Requested"
  let ?f = "\<lambda>r. r\<lparr>tx_state := Tx_Failed, tx_outcome_code := Some (lit ''interrupted_before_invoke''),
      tx_resolved_at := Some now, tx_updated_at := now\<rparr>"
  let ?run = "\<lambda>r. tx_state r = Tx_Executing"
  let ?g = "\<lambda>r. r\<lparr>tx_state := Tx_Unknown, tx_outcome_code := Some (lit ''interrupted_during_invoke''),
      tx_resolved_at := Some now, tx_updated_at := now\<rparr>"
  let ?u = "s\<lparr>tool_executions := update_where ?req ?f (tool_executions s)\<rparr>"
  have "tool_moved s ?u"
    by (rule tool_movedI [where P = ?req and f = ?f])
      (simp_all add: tool_move_def tool_fixed_def tx_binding_def tool_row_ok_def)
  moreover have "tool_moved ?u (snd (recover_tools now s))"
    by (rule tool_movedI [where P = ?run and f = ?g])
      (simp_all add: recover_tools_def tool_move_def tool_fixed_def tx_binding_def tool_row_ok_def)
  ultimately show ?thesis by blast
qed

subsection \<open>Steps\<close>

text \<open>The label names the call whose invocation the step opens.\<close>

type_synonym call_binding = "str \<times> str \<times> str \<times> str \<times> str"

inductive tool_step :: "db \<Rightarrow> call_binding option \<Rightarrow> db \<Rightarrow> bool" where
  begun: "begin_tool_execution sha flt eid now q s = Inr (res, t) \<Longrightarrow> tool_step s None t"
| open_call: "mark_tool_executing now eid s = (True, t) \<Longrightarrow>
    get_row tx_execution_id eid (tool_executions s) = Some r \<Longrightarrow> tool_step s (Some (tx_binding r)) t"
| open_refused: "mark_tool_executing now eid s = (False, t) \<Longrightarrow> tool_step s None t"
| resolving: "resolve_tool_execution now eid state code res s = Inr (b, t) \<Longrightarrow> tool_step s None t"
| recovering: "tool_step s None (snd (recover_tools now s))"

lemma begin_cases:
  assumes "begin_tool_execution sha flt eid now q s = Inr ((x, created), t)"
  obtains (old) row where "find (\<lambda>r. tx_binding r = tq_binding q) (tool_executions s) = Some row"
      "x = tx_execution_id row" "\<not> created" "t = s"
      "tx_tool_name row = tq_tool_name q" "tx_action_kind row = tq_action_kind q"
      "tx_arguments_sha256 row = fst (tool_arguments_metadata sha flt (tq_arguments q))"
      "tx_side_effect row = tq_side_effect q"
  | (fresh) "\<not> exists_row (\<lambda>r. tx_binding r = tq_binding q) (tool_executions s)"
      "\<not> exists_row (\<lambda>r. tx_execution_id r = eid) (tool_executions s)"
      "x = eid" "created"
      "t = s\<lparr>tool_executions := tool_executions s @ [new_tool_row sha flt eid now q]\<rparr>"
proof (cases "exists_row (\<lambda>r. tx_binding r = tq_binding q) (tool_executions s)")
  case True
  then obtain row where row: "find (\<lambda>r. tx_binding r = tq_binding q) (tool_executions s) = Some row"
    by (cases "find (\<lambda>r. tx_binding r = tq_binding q) (tool_executions s)")
      (auto simp: find_None_iff exists_row_def list_ex_iff)
  with True assms show ?thesis
    by (intro old) (auto simp: begin_tool_execution_def split: if_splits)
next
  case False
  then have "find (\<lambda>r. tx_binding r = tq_binding q) (tool_executions s) = None"
    by (auto simp: find_None_iff exists_row_def list_ex_iff)
  then have "find (\<lambda>r. tx_binding r = tq_binding q) (tool_executions s @ [new_tool_row sha flt eid now q]) =
      Some (new_tool_row sha flt eid now q)"
    by (simp add: find_append_None new_tool_row_def tx_binding_def tq_binding_def split: prod.splits)
  with False assms show ?thesis
    by (intro fresh) (auto simp: begin_tool_execution_def new_tool_row_def split: if_splits prod.splits)
qed

lemma new_tool_row_simps [simp]:
  "tx_execution_id (new_tool_row sha flt eid now q) = eid"
  "tx_binding (new_tool_row sha flt eid now q) = tq_binding q"
  "tx_state (new_tool_row sha flt eid now q) = Tx_Requested"
  "tool_row_ok (new_tool_row sha flt eid now q)"
  "tx_tool_name (new_tool_row sha flt eid now q) = tq_tool_name q"
  "tx_action_kind (new_tool_row sha flt eid now q) = tq_action_kind q"
  "tx_arguments_sha256 (new_tool_row sha flt eid now q) = fst (tool_arguments_metadata sha flt (tq_arguments q))"
  "tx_side_effect (new_tool_row sha flt eid now q) = tq_side_effect q"
  by (simp_all add: new_tool_row_def tx_binding_def tq_binding_def tool_row_ok_def split: prod.split)

lemma begin_inv:
  assumes "begin_tool_execution sha flt eid now q s = Inr (res, t)" and "tool_inv s"
  shows "tool_inv t"
  using assms(1) [folded surjective_pairing [of res]]
proof -
  obtain x c where res: "res = (x, c)" by (cases res)
  from assms(1) [unfolded res] show ?thesis
  proof (cases rule: begin_cases)
    case (old row)
    with assms(2) show ?thesis by simp
  next
    case fresh
    with assms(2) show ?thesis
      by (auto simp: tool_inv_def exists_row_def list_ex_iff image_iff)
  qed
qed

lemma begin_rows:
  assumes "begin_tool_execution sha flt eid now q s = Inr (res, t)"
    and "get_row key i (tool_executions s) = Some r"
  shows "get_row key i (tool_executions t) = Some r"
proof -
  obtain x c where res: "res = (x, c)" by (cases res)
  from assms(1) [unfolded res] show ?thesis
    by (cases rule: begin_cases) (use assms(2) in simp_all)
qed

lemma tool_moved_trans_row:
  assumes "tool_moved s u" "tool_moved u t" "tool_inv s"
  shows "tool_inv t"
  using assms tool_moved_inv by blast

lemma tool_step_inv:
  assumes "tool_step s l t" and "tool_inv s"
  shows "tool_inv t"
  using assms(1)
proof (cases rule: tool_step.cases)
  case (begun sha flt eid now q res)
  then show ?thesis using begin_inv assms(2) by blast
next
  case (open_call now eid r)
  then show ?thesis using mark_tool_moved [of s now eid] tool_moved_inv assms(2) by simp
next
  case (open_refused now eid)
  then show ?thesis using mark_tool_moved [of s now eid] tool_moved_inv assms(2) by simp
next
  case (resolving now eid state code res b)
  then show ?thesis using resolve_tool_moved tool_moved_inv assms(2) by blast
next
  case (recovering now)
  then show ?thesis using recover_tools_moved [of s now] tool_moved_inv assms(2) by blast
qed

text \<open>What a step does to one row.\<close>

lemma tool_step_row:
  assumes "tool_step s l t" and "tool_inv s" and "get_row tx_execution_id i (tool_executions s) = Some r"
  shows "\<exists>q. get_row tx_execution_id i (tool_executions t) = Some q \<and> tool_fixed r q \<and>
    (tx_state q = tx_state r \<or> tool_edge (tx_state r) (tx_state q))"
  using assms(1)
proof (cases rule: tool_step.cases)
  case (begun sha flt eid now q res)
  from begin_rows [OF begun(2) assms(3)] show ?thesis by (auto simp: tool_fixed_def)
next
  case (open_call now eid r)
  then show ?thesis using mark_tool_moved [of s now eid] tool_moved_row [OF _ assms(2,3)] by simp
next
  case (open_refused now eid)
  then show ?thesis using mark_tool_moved [of s now eid] tool_moved_row [OF _ assms(2,3)] by simp
next
  case (resolving now eid state code res b)
  then show ?thesis using resolve_tool_moved tool_moved_row [OF _ assms(2,3)] by blast
next
  case (recovering now)
  let ?rows = "tool_executions t"
  have "get_row tx_execution_id i ?rows = Some
      (if tx_state r = Tx_Requested then r\<lparr>tx_state := Tx_Failed,
          tx_outcome_code := Some (lit ''interrupted_before_invoke''),
          tx_resolved_at := Some now, tx_updated_at := now\<rparr>
       else if tx_state r = Tx_Executing then r\<lparr>tx_state := Tx_Unknown,
          tx_outcome_code := Some (lit ''interrupted_during_invoke''),
          tx_resolved_at := Some now, tx_updated_at := now\<rparr>
       else r)"
    unfolding recovering by (simp add: recover_tools_def get_row_update_where assms(3))
  then show ?thesis by (simp add: tool_fixed_def tx_binding_def)
qed

lemma tool_step_status:
  assumes "tool_step s l t" and "tool_inv s" and "tool_status s i = Some a"
  shows "\<exists>b. tool_status t i = Some b \<and> (b = a \<or> tool_edge a b)"
  using tool_step_row [OF assms(1,2)] assms(3) by (fastforce simp: tool_status_def)

lemma tool_inv_empty: "tool_executions s = [] \<Longrightarrow> tool_inv s"
  by (simp add: tool_inv_def)

interpretation tool_life: lifecycle "\<lambda>s. tool_executions s = []" "\<lambda>s t. \<exists>l. tool_step s l t" tool_inv
  tool_status tool_edge
  by unfold_locales (auto intro: tool_inv_empty tool_step_inv tool_step_status)

lemma tool_run_row:
  assumes "run tool_step s ls t" and "tool_inv s" and "get_row tx_execution_id i (tool_executions s) = Some r"
  shows "\<exists>q. get_row tx_execution_id i (tool_executions t) = Some q \<and> tool_fixed r q"
  using assms
proof (induction arbitrary: r rule: run.induct)
  case (run_Nil s)
  then show ?case by (auto simp: tool_fixed_def)
next
  case (run_Cons s l t ls u)
  from tool_step_row [OF run_Cons.hyps(1) run_Cons.prems] obtain q
    where q: "get_row tx_execution_id i (tool_executions t) = Some q" "tool_fixed r q" by blast
  from run_Cons.IH [OF tool_step_inv [OF run_Cons.hyps(1) run_Cons.prems(1)] q(1)] q(2)
  show ?case by (auto simp: tool_fixed_def)
qed

text \<open>How many openings a call can still see.\<close>

definition openings_left :: "db \<Rightarrow> call_binding \<Rightarrow> nat" where
  "openings_left s k = (case get_row tx_binding k (tool_executions s) of None \<Rightarrow> 1
     | Some r \<Rightarrow> if tx_state r = Tx_Requested then 1 else 0)"

lemma by_binding:
  assumes "tool_inv s" and "get_row tx_execution_id i (tool_executions s) = Some r"
  shows "get_row tx_binding (tx_binding r) (tool_executions s) = Some r"
  using get_row_in [OF assms(2)] assms(1) by (auto simp: tool_inv_def intro: get_row_unique)

lemma by_id:
  assumes "tool_inv s" and "get_row tx_binding k (tool_executions s) = Some r"
  shows "get_row tx_execution_id (tx_execution_id r) (tool_executions s) = Some r"
  using get_row_in [OF assms(2)] assms(1) by (auto simp: tool_inv_def intro: get_row_unique)

lemma opening_states:
  assumes "tool_inv s" and "mark_tool_executing now eid s = (True, t)"
    and "get_row tx_execution_id eid (tool_executions s) = Some r"
  shows "tx_state r = Tx_Requested" and "tool_status t eid = Some Tx_Executing"
    and "get_row tx_binding (tx_binding r) (tool_executions t) \<noteq> None"
    and "\<forall>q. get_row tx_binding (tx_binding r) (tool_executions t) = Some q \<longrightarrow> tx_state q = Tx_Executing"
proof -
  have d: "distinct (map tx_execution_id (tool_executions s))" using assms(1) by (simp add: tool_inv_def)
  have t: "t = snd (mark_tool_executing now eid s)" using assms(2) by simp
  from assms(2,3) show st: "tx_state r = Tx_Requested"
    by (simp add: mark_tool_executing_def count_where_unique_key [OF d] split: if_splits)
  have id: "tx_execution_id r = eid" using get_row_in [OF assms(3)] by blast
  show "tool_status t eid = Some Tx_Executing"
    unfolding t by (simp add: tool_status_def mark_tool_executing_def get_row_update_where assms(3) st id)
  have keep: "\<And>q. tx_binding (q\<lparr>tx_state := Tx_Executing, tx_started_at := Some now,
      tx_updated_at := now\<rparr>) = tx_binding q" by (simp add: tx_binding_def)
  have b: "get_row tx_binding (tx_binding r) (tool_executions t) =
      Some (r\<lparr>tx_state := Tx_Executing, tx_started_at := Some now, tx_updated_at := now\<rparr>)"
    unfolding t mark_tool_executing_def
    by (simp add: get_row_update_where [where key = tx_binding] keep by_binding [OF assms(1,3)] st id)
  then show "get_row tx_binding (tx_binding r) (tool_executions t) \<noteq> None"
    "\<forall>q. get_row tx_binding (tx_binding r) (tool_executions t) = Some q \<longrightarrow> tx_state q = Tx_Executing"
    by auto
qed

interpretation tool_calls: ranked_machine tool_step "\<lambda>k l. l = Some k" openings_left tool_inv
proof unfold_locales
  show "tool_step s l t \<Longrightarrow> tool_inv s \<Longrightarrow> tool_inv t" for s l t by (rule tool_step_inv)
  show "openings_left t k + (if l = Some k then 1 else 0) \<le> openings_left s k"
    if st: "tool_step s l t" and inv: "tool_inv s" for s l t k
  proof (cases "l = Some k")
    case True
    with st obtain now eid r where r: "mark_tool_executing now eid s = (True, t)"
      "get_row tx_execution_id eid (tool_executions s) = Some r" "k = tx_binding r"
      by (auto elim: tool_step.cases)
    note o = opening_states [OF inv r(1,2)]
    from o(3,4) have "openings_left t k = 0"
      by (auto simp: openings_left_def r(3) split: option.split)
    moreover have "openings_left s k = 1"
      by (simp add: openings_left_def r(3) by_binding [OF inv r(2)] o(1))
    ultimately show ?thesis by simp
  next
    case False
    show ?thesis
    proof (cases "get_row tx_binding k (tool_executions s)")
      case None
      then show ?thesis using False by (simp add: openings_left_def split: option.split)
    next
      case (Some r)
      have k: "tx_binding r = k" using get_row_in [OF Some] by blast
      from tool_step_row [OF st inv by_id [OF inv Some]] obtain q
        where q: "get_row tx_execution_id (tx_execution_id r) (tool_executions t) = Some q" "tool_fixed r q"
          "tx_state q = tx_state r \<or> tool_edge (tx_state r) (tx_state q)" by blast
      from by_binding [OF tool_step_inv [OF st inv] q(1)] q(2) k
      have "get_row tx_binding k (tool_executions t) = Some q" by (simp add: tool_fixed_def)
      with Some False q(3) show ?thesis
        by (auto simp: openings_left_def elim: tool_edge_cases)
    qed
  qed
qed

subsection \<open>Properties\<close>

text \<open>C5. A tool call requested by the model is invoked at most once: whatever journal operations run,
  restarts with recovery included, the invocation of a call (profile, channel, chat, event, call id) is
  opened at most once, and the opened call is never requested again.\<close>

theorem tool_opened_at_most_once:
  assumes "tool_inv s" and "run tool_step s ls t"
  shows "length (filter (\<lambda>l. l = Some k) ls) \<le> 1 \<and>
    (Some k \<in> set ls \<longrightarrow> (\<exists>r. get_row tx_binding k (tool_executions t) = Some r \<and>
       tx_state r \<in> {Tx_Executing, Tx_Succeeded, Tx_Failed, Tx_Unknown}))"
proof
  have "openings_left s k \<le> 1" by (simp add: openings_left_def split: option.split)
  with tool_calls.marked_at_most [OF assms(2,1), of k]
  show "length (filter (\<lambda>l. l = Some k) ls) \<le> 1" by linarith
  show "Some k \<in> set ls \<longrightarrow> (\<exists>r. get_row tx_binding k (tool_executions t) = Some r \<and>
       tx_state r \<in> {Tx_Executing, Tx_Succeeded, Tx_Failed, Tx_Unknown})"
  proof
    assume "Some k \<in> set ls"
    then obtain as bs where "ls = as @ Some k # bs" by (auto simp: in_set_conv_decomp)
    with assms(2) obtain u v where u: "run tool_step s as u" "tool_step u (Some k) v" "run tool_step v bs t"
      by (auto simp: run_append)
    from u(2) obtain now eid r where r: "mark_tool_executing now eid u = (True, v)"
      "get_row tx_execution_id eid (tool_executions u) = Some r" "k = tx_binding r"
      by (auto elim: tool_step.cases)
    have inv_u: "tool_inv u" by (rule tool_calls.run_good [OF u(1) assms(1)])
    have inv_v: "tool_inv v" by (rule tool_step_inv [OF u(2) inv_u])
    have inv_t: "tool_inv t" by (rule tool_calls.run_good [OF u(3) inv_v])
    from tool_step_row [OF u(2) inv_u r(2)] obtain q
      where q: "get_row tx_execution_id eid (tool_executions v) = Some q" "tool_fixed r q" by blast
    from tool_run_row [OF u(3) inv_v q(1)] obtain p
      where p: "get_row tx_execution_id eid (tool_executions t) = Some p" "tool_fixed q p" by blast
    have "\<exists>b. tool_status t eid = Some b \<and> b \<in> {Tx_Executing, Tx_Succeeded, Tx_Failed, Tx_Unknown}"
      by (rule tool_life.closed_run [OF run_rtranclp [OF u(3)] inv_v opening_states(2) [OF inv_u r(1,2)]])
        (auto elim: tool_edge_cases)
    with p(1) have "tx_state p \<in> {Tx_Executing, Tx_Succeeded, Tx_Failed, Tx_Unknown}"
      by (auto simp: tool_status_def)
    moreover have "get_row tx_binding k (tool_executions t) = Some p"
      using by_binding [OF inv_t p(1)] p(2) q(2) r(3) by (simp add: tool_fixed_def)
    ultimately show "\<exists>r. get_row tx_binding k (tool_executions t) = Some r \<and>
       tx_state r \<in> {Tx_Executing, Tx_Succeeded, Tx_Failed, Tx_Unknown}" by blast
  qed
qed

lemma begin_row:
  assumes "tool_inv s" and "begin_tool_execution sha flt eid now q s = Inr ((x, created), t)"
  obtains r where "get_row tx_execution_id x (tool_executions t) = Some r" "tx_binding r = tq_binding q"
    "tx_tool_name r = tq_tool_name q" "tx_action_kind r = tq_action_kind q"
    "tx_arguments_sha256 r = fst (tool_arguments_metadata sha flt (tq_arguments q))"
    "tx_side_effect r = tq_side_effect q"
  using assms(2)
proof (cases rule: begin_cases)
  case (old row)
  note f = find_in [OF old(1)]
  have "get_row tx_execution_id (tx_execution_id row) (tool_executions s) = Some row"
    using assms(1) f by (intro get_row_unique) (auto simp: tool_inv_def)
  with old f that show ?thesis by simp
next
  case fresh
  from fresh(2) have "get_row tx_execution_id eid (tool_executions s) = None"
    by (simp add: exists_key_iff)
  then have "get_row tx_execution_id x (tool_executions t) = Some (new_tool_row sha flt eid now q)"
    by (simp add: fresh(3,5) get_row_append)
  with that show ?thesis by simp
qed

text \<open>A call id stays bound to its first request: after a request has been journaled, the same
  request, at any later time, is reported as already journaled under the same execution id and changes
  nothing, and a request with the same ids but another tool, action kind, argument digest or
  side-effect flag is refused.\<close>

theorem begin_tool_execution_binds:
  assumes "tool_inv s" and "begin_tool_execution sha flt eid now q s = Inr ((x, created), s1)"
    and "run tool_step s1 ls t" and "tq_binding q' = tq_binding q"
  shows "begin_tool_execution sha flt eid' now' q' t =
    (if tq_tool_name q' = tq_tool_name q \<and> tq_action_kind q' = tq_action_kind q \<and>
        tq_side_effect q' = tq_side_effect q \<and>
        fst (tool_arguments_metadata sha flt (tq_arguments q')) =
          fst (tool_arguments_metadata sha flt (tq_arguments q))
     then Inr ((x, False), t)
     else Inl (ValueError ''tool call id was rebound to a different request''))"
proof -
  have inv1: "tool_inv s1" by (rule begin_inv [OF assms(2,1)])
  have inv_t: "tool_inv t" by (rule tool_calls.run_good [OF assms(3) inv1])
  obtain r where r: "get_row tx_execution_id x (tool_executions s1) = Some r" "tx_binding r = tq_binding q"
    "tx_tool_name r = tq_tool_name q" "tx_action_kind r = tq_action_kind q"
    "tx_arguments_sha256 r = fst (tool_arguments_metadata sha flt (tq_arguments q))"
    "tx_side_effect r = tq_side_effect q" by (rule begin_row [OF assms(1,2)])
  from tool_run_row [OF assms(3) inv1 r(1)] obtain p
    where p: "get_row tx_execution_id x (tool_executions t) = Some p" "tool_fixed r p" by blast
  have id: "tx_execution_id p = x" using get_row_in [OF p(1)] by blast
  have fd: "find (\<lambda>r. tx_binding r = tq_binding q) (tool_executions t) = Some p"
    using by_binding [OF inv_t p(1)] p(2) r(2) by (simp add: tool_fixed_def find_key_get_row)
  then have ex: "exists_row (\<lambda>r. tx_binding r = tq_binding q) (tool_executions t)"
    using find_in [OF fd] by (auto simp: exists_row_def list_ex_iff)
  have eq: "tx_tool_name p = tq_tool_name q" "tx_action_kind p = tq_action_kind q"
    "tx_arguments_sha256 p = fst (tool_arguments_metadata sha flt (tq_arguments q))"
    "tx_side_effect p = tq_side_effect q" using p(2) r(3-6) by (simp_all add: tool_fixed_def)
  show ?thesis
    by (simp add: begin_tool_execution_def assms(4) ex fd id eq)
qed

text \<open>The outcome of a tool call is final: an outcome is accepted exactly from the states the table
  of allowed sources names (a call that was opened cannot be denied, a call that was never opened cannot
  succeed), the accepted outcome stays in every later state, and a refused one changes nothing.\<close>

theorem resolve_tool_final:
  assumes "tool_inv s"
  shows "case terminal_sources state of
      None \<Rightarrow> resolve_tool_execution now eid state code res s = Inl (ValueError ''invalid tool execution outcome'')
    | Some (target, sources) \<Rightarrow>
        \<exists>t. resolve_tool_execution now eid state code res s =
              Inr (tool_status s eid \<in> Some ` set sources, t) \<and>
            (if tool_status s eid \<in> Some ` set sources
             then \<forall>ls u. run tool_step t ls u \<longrightarrow> tool_status u eid = Some target
             else tool_executions t = tool_executions s)"
proof (cases "terminal_sources state")
  case None
  then show ?thesis by (simp add: resolve_tool_execution_def)
next
  case (Some ts)
  obtain target sources where ts: "ts = (target, sources)" by (cases ts)
  have d: "distinct (map tx_execution_id (tool_executions s))" using assms by (simp add: tool_inv_def)
  obtain b t where t: "resolve_tool_execution now eid state code res s = Inr (b, t)"
    using Some ts by (simp add: resolve_tool_execution_def)
  have b: "b \<longleftrightarrow> tool_status s eid \<in> Some ` set sources"
  proof -
    have "b \<longleftrightarrow> count_where (\<lambda>r. tx_execution_id r = eid \<and> tx_state r \<in> set sources) (tool_executions s) = 1"
      using t Some ts by (auto simp: resolve_tool_execution_def)
    then show ?thesis
      unfolding count_where_unique_key [OF d]
      by (cases "get_row tx_execution_id eid (tool_executions s)") (auto simp: tool_status_def)
  qed
  have inv_t: "tool_inv t" by (rule tool_step_inv [OF tool_step.resolving [OF t] assms])
  show ?thesis
  proof (cases b)
    case True
    with b obtain r where r: "get_row tx_execution_id eid (tool_executions s) = Some r" "tx_state r \<in> set sources"
      by (auto simp: tool_status_def)
    have id: "tx_execution_id r = eid" using get_row_in [OF r(1)] by blast
    have st: "tool_status t eid = Some target"
      using t Some ts r id by (auto simp: resolve_tool_execution_def tool_status_def get_row_update_where)
    have fin: "\<not> tool_edge target x" for x
      using terminal_sources_Some(2) [OF Some [unfolded ts] r(2)] by (auto elim: tool_edge_cases)
    have "tool_status u eid = Some target" if "run tool_step t ls u" for ls u
      by (rule tool_life.final_run [OF run_rtranclp [OF that] inv_t st fin])
    with t b True Some ts show ?thesis by auto
  next
    case False
    then have "count_where (\<lambda>r. tx_execution_id r = eid \<and> tx_state r \<in> set sources) (tool_executions s) = 0"
      using t Some ts count_where_le_1 [OF d, of eid "\<lambda>r. tx_state r \<in> set sources"]
      by (auto simp: resolve_tool_execution_def)
    then have "tool_executions t = tool_executions s"
      using t Some ts by (auto simp: resolve_tool_execution_def update_where_none)
    with t b False Some ts show ?thesis by auto
  qed
qed

subsection \<open>Concrete runs\<close>

definition demo_call :: "string \<Rightarrow> tool_request" where
  "demo_call tool = \<lparr>tq_profile = lit ''agent'', tq_channel = lit ''wechat_agent_lab'', tq_chat_id = lit ''chat_1'',
     tq_event_id = lit ''e1'', tq_call_id = lit ''call_1'', tq_tool_name = lit tool,
     tq_action_kind = lit ''read_status'', tq_arguments = [(lit ''x'', JInt 1)], tq_side_effect = False\<rparr>"

definition no_digest :: "str \<Rightarrow> str" where "no_digest s = s"
definition no_float :: "rat \<Rightarrow> str" where "no_float q = []"

definition demo_journal :: db where
  "demo_journal = empty_db\<lparr>tool_executions := [new_tool_row no_digest no_float (lit ''x1'') 10 (demo_call ''status'')]\<rparr>"

lemma demo_begin: "begin_tool_execution no_digest no_float (lit ''x1'') 10 (demo_call ''status'') empty_db =
    Inr ((lit ''x1'', True), demo_journal)"
  by (simp add: begin_tool_execution_def exists_row_def demo_journal_def)

lemma demo_journal_inv: "tool_inv demo_journal"
  by (rule begin_inv [OF demo_begin]) (simp add: tool_inv_def)

definition demo_opened :: db where
  "demo_opened = snd (mark_tool_executing 20 (lit ''x1'') demo_journal)"

lemma demo_open: "mark_tool_executing 20 (lit ''x1'') demo_journal = (True, demo_opened)"
  by (simp add: demo_opened_def mark_tool_executing_def demo_journal_def count_where_def)

lemma demo_tool_run: "run tool_step demo_journal [Some (tq_binding (demo_call ''status''))] demo_opened"
  using tool_step.open_call [OF demo_open, of "new_tool_row no_digest no_float (lit ''x1'') 10 (demo_call ''status'')"]
  by (auto simp: demo_journal_def)

theorem tool_opened_at_most_once_witness:
  "\<exists>r. get_row tx_binding (tq_binding (demo_call ''status'')) (tool_executions demo_opened) = Some r \<and>
     tx_state r \<noteq> Tx_Requested"
  using tool_opened_at_most_once [OF demo_journal_inv demo_tool_run, of "tq_binding (demo_call ''status'')"] by auto

theorem begin_tool_execution_binds_witness:
  "begin_tool_execution no_digest no_float (lit ''x2'') 30 (demo_call ''status'') demo_opened =
     Inr ((lit ''x1'', False), demo_opened) \<and>
   begin_tool_execution no_digest no_float (lit ''x2'') 30 (demo_call ''other'') demo_opened =
     Inl (ValueError ''tool call id was rebound to a different request'')"
proof -
  have e: "tool_inv empty_db" by (simp add: tool_inv_def)
  have b: "tq_binding (demo_call ''other'') = tq_binding (demo_call ''status'')"
    by (simp add: tq_binding_def demo_call_def)
  show ?thesis
    using begin_tool_execution_binds [OF e demo_begin demo_tool_run refl, of "lit ''x2''" 30]
      begin_tool_execution_binds [OF e demo_begin demo_tool_run b, of "lit ''x2''" 30]
    by (simp add: demo_call_def)
qed

theorem resolve_tool_final_witness:
  "\<exists>t. resolve_tool_execution 40 (lit ''x1'') (lit ''denied'') (lit ''late'') None demo_opened = Inr (False, t) \<and>
     tool_executions t = tool_executions demo_opened"
proof -
  have inv: "tool_inv demo_opened" by (rule tool_calls.run_good [OF demo_tool_run demo_journal_inv])
  have st: "tool_status demo_opened (lit ''x1'') = Some Tx_Executing"
    by (simp add: tool_status_def demo_opened_def mark_tool_executing_def demo_journal_def update_where_def)
  show ?thesis
    using resolve_tool_final [OF inv, where state = "lit ''denied''" and now = 40 and eid = "lit ''x1''"
      and code = "lit ''late''" and res = None] st
    by (simp add: terminal_sources_def)
qed

end
