(* ===== verification/Broker_State.thy ===== *)
theory Broker_State
  imports Storage Json_Text
begin

text \<open>
  The broker's own state in \<open>CoreRepository\<close> (\<open>lemonbot/storage/repository.py\<close>): the allowlist, the
  pause switches and the other runtime state, the audit log and the conversation. The runtime state is
  a keyed store; its laws are the locale \<open>keyed_store\<close>.
\<close>

subsection \<open>A keyed store\<close>

locale keyed_store =
  fixes get :: "'s \<Rightarrow> 'k \<Rightarrow> 'v option"
    and put :: "'k \<Rightarrow> 'v \<Rightarrow> 's \<Rightarrow> 's"
  assumes get_put: "get (put k v s) k' = (if k' = k then Some v else get s k')"
begin

lemma get_put_same: "get (put k v s) k = Some v"
  by (simp add: get_put)

lemma put_overwrites: "get (put k w (put k v s)) = get (put k w s)"
  by (rule ext) (simp add: get_put)

lemma put_commutes: "k \<noteq> j \<Longrightarrow> get (put k v (put j w s)) = get (put j w (put k v s))"
  by (rule ext) (simp add: get_put)

lemma get_fold_put:
  "get (fold (\<lambda>(k, v). put k v) kvs s) i = (case map_of (rev kvs) i of None \<Rightarrow> get s i | Some v \<Rightarrow> Some v)"
proof (induction kvs arbitrary: s)
  case (Cons kv kvs)
  then show ?case
    by (cases kv) (simp add: get_put map_add_def split: option.split)
qed simp

end

subsection \<open>Runtime state\<close>

definition rt_get :: "db \<Rightarrow> str \<Rightarrow> dict option" where
  "rt_get s key = map_option rs_value (get_row rs_key key (runtime_state s))"

text \<open>\<open>INSERT .. ON CONFLICT (key) DO UPDATE\<close>.\<close>

definition rt_put :: "time \<Rightarrow> str \<Rightarrow> dict \<Rightarrow> db \<Rightarrow> db" where
  "rt_put now key value s =
     s\<lparr>runtime_state :=
       (if exists_row (\<lambda>r. rs_key r = key) (runtime_state s)
        then update_where (\<lambda>r. rs_key r = key) (\<lambda>r. r\<lparr>rs_value := value, rs_updated_at := now\<rparr>) (runtime_state s)
        else runtime_state s @ [\<lparr>rs_key = key, rs_value = value, rs_updated_at = now\<rparr>])\<rparr>"

definition runtime_state_get :: "str \<Rightarrow> db \<Rightarrow> dict option result" where
  "runtime_state_get key s =
     (if key = [] \<or> 512 < length key then Inl (ValueError ''runtime state key is invalid'')
      else Inr (rt_get s key))"

definition set_runtime_state :: "time \<Rightarrow> str \<Rightarrow> dict \<Rightarrow> db \<Rightarrow> (unit \<times> db) result" where
  "set_runtime_state now key value s =
     (if key = [] \<or> 512 < length key then Inl (ValueError ''runtime state key is invalid'')
      else Inr ((), rt_put now key value s))"

text \<open>SQLite's \<open>LIKE\<close> folds the case of ASCII letters, so the prefix does too.\<close>

definition clear_runtime_state_prefix :: "str \<Rightarrow> db \<Rightarrow> (nat \<times> db) result" where
  "clear_runtime_state_prefix pre s =
     (if pre = [] \<or> 256 < length pre then Inl (ValueError ''runtime state prefix is invalid'')
      else
        let hit = (\<lambda>r. prefix (casefold pre) (casefold (rs_key r)))
        in Inr (count_where hit (runtime_state s),
                s\<lparr>runtime_state := filter (\<lambda>r. \<not> hit r) (runtime_state s)\<rparr>))"

lemma rt_get_put: "rt_get (rt_put now k v s) k' = (if k' = k then Some v else rt_get s k')"
proof (cases "exists_row (\<lambda>r. rs_key r = k) (runtime_state s)")
  case True
  then show ?thesis
    by (auto simp: rt_get_def rt_put_def get_row_update_where exists_key_iff option.map_comp comp_def
        dest: get_row_in intro!: map_option_cong split: option.splits)
next
  case False
  then have "get_row rs_key k (runtime_state s) = None" by (simp add: exists_key_iff)
  with False show ?thesis
    by (auto simp: rt_get_def rt_put_def get_row_append split: option.splits)
qed

interpretation runtime: keyed_store rt_get "rt_put now" for now
  by unfold_locales (rule rt_get_put)

subsection \<open>Pausing\<close>

definition pause_key :: "str option \<Rightarrow> str" where
  "pause_key channel = (case channel of None \<Rightarrow> lit ''pause:global'' | Some c \<Rightarrow> lit ''pause:channel:'' @ c)"

definition set_paused :: "time \<Rightarrow> str option \<Rightarrow> bool \<Rightarrow> db \<Rightarrow> db" where
  "set_paused now channel paused s = rt_put now (pause_key channel) [(lit ''paused'', JBool paused)] s"

definition is_paused :: "str option \<Rightarrow> db \<Rightarrow> bool" where
  "is_paused channel s =
     (let keys = lit ''pause:global'' # (case channel of None \<Rightarrow> [] | Some c \<Rightarrow> [pause_key (Some c)])
      in list_ex (\<lambda>r. rs_key r \<in> set keys \<and> dflag (rs_value r) ''paused'') (runtime_state s))"

subsection \<open>The allowlist\<close>

definition al_key :: "allowlist_row \<Rightarrow> str \<times> str" where
  "al_key r = (al_channel r, al_chat_id r)"

text \<open>\<open>INSERT .. ON CONFLICT (channel, chat_id) DO UPDATE\<close>.\<close>

definition upsert_allowlist :: "time \<Rightarrow> str \<Rightarrow> str \<Rightarrow> bool \<Rightarrow> str option \<Rightarrow> allowlist_row list \<Rightarrow> allowlist_row list"
  where
  "upsert_allowlist now channel chat enabled label rows =
     (if exists_row (\<lambda>r. al_key r = (channel, chat)) rows
      then update_where (\<lambda>r. al_key r = (channel, chat))
             (\<lambda>r. r\<lparr>al_enabled := enabled, al_label := label, al_updated_at := now\<rparr>) rows
      else rows @ [\<lparr>al_id = next_id al_id rows, al_channel = channel, al_chat_id = chat,
             al_enabled = enabled, al_label = label, al_created_at = now, al_updated_at = now\<rparr>])"

definition set_allowlisted :: "time \<Rightarrow> str \<Rightarrow> str \<Rightarrow> bool \<Rightarrow> str option \<Rightarrow> db \<Rightarrow> db" where
  "set_allowlisted now channel chat enabled label s =
     s\<lparr>allowlist := upsert_allowlist now channel chat enabled label (allowlist s)\<rparr>"

record reconcile_counts =
  rk_configured :: nat
  rk_disabled :: nat
  rk_upserted :: nat

text \<open>The set argument is a list; \<open>remdups\<close> and \<open>sort\<close> give the set's size and its sorted order.\<close>

definition reconcile_allowlist ::
    "time \<Rightarrow> str \<Rightarrow> str list \<Rightarrow> str \<Rightarrow> db \<Rightarrow> (reconcile_counts \<times> db) result" where
  "reconcile_allowlist now channel chat_ids label s =
     (if channel = [] \<or> [] \<in> set chat_ids
      then Inl (ValueError ''allowlist channel and chat ids must be non-empty'')
      else
        let ids = sort (remdups chat_ids);
            stale = (\<lambda>r. al_channel r = channel \<and> al_enabled r \<and> al_chat_id r \<notin> set chat_ids);
            disabled = count_where stale (allowlist s);
            rows1 = update_where stale (\<lambda>r. r\<lparr>al_enabled := False, al_updated_at := now\<rparr>) (allowlist s);
            rows2 = fold (\<lambda>c rows. upsert_allowlist now channel c True (Some label) rows) ids rows1
        in Inr (\<lparr>rk_configured = length ids, rk_disabled = disabled, rk_upserted = length ids\<rparr>,
             append_audit
               (audit_row ''allowlist.reconcile'' ''applied'' channel None None None
                 [(lit ''configured_count'', JInt (int (length ids))),
                  (lit ''disabled_count'', JInt (int disabled))] now)
               (s\<lparr>allowlist := rows2\<rparr>)))"

definition allowed :: "allowlist_row list \<Rightarrow> str \<times> str \<Rightarrow> bool option" where
  "allowed rows k = map_option al_enabled (get_row al_key k rows)"

definition is_allowlisted :: "str \<Rightarrow> str \<Rightarrow> db \<Rightarrow> bool" where
  "is_allowlisted channel chat s \<longleftrightarrow> allowed (allowlist s) (channel, chat) = Some True"

lemma allowed_upsert:
  "allowed (upsert_allowlist now ch c e label rows) k = (if k = (ch, c) then Some e else allowed rows k)"
proof (cases "exists_row (\<lambda>r. al_key r = (ch, c)) rows")
  case True
  have keep: "\<And>r. al_key (r\<lparr>al_enabled := e, al_label := label, al_updated_at := now\<rparr>) = al_key r"
    by (simp add: al_key_def)
  obtain r where "get_row al_key (ch, c) rows = Some r" using True by (auto simp: exists_key_iff)
  with True get_row_in [OF this] show ?thesis
    by (auto simp: allowed_def upsert_allowlist_def get_row_update_where keep option.map_comp comp_def
        dest: get_row_in intro!: map_option_cong split: option.splits)
next
  case False
  then have "get_row al_key (ch, c) rows = None" by (simp add: exists_key_iff)
  with False show ?thesis
    by (auto simp: allowed_def upsert_allowlist_def get_row_append al_key_def split: option.splits)
qed

interpretation allowlist_rows: keyed_store allowed
  "\<lambda>k e. upsert_allowlist now (fst k) (snd k) e label" for now label
  by unfold_locales (auto simp: allowed_upsert)

subsection \<open>Messages and audit\<close>

definition conversation_message_of :: "message_row \<Rightarrow> conversation_message" where
  "conversation_message_of r =
     \<lparr>cm_id = mg_id r, cm_channel = mg_channel r, cm_chat_id = mg_chat_id r,
      cm_sender_id = mg_sender_id r, cm_role = mg_role r, cm_content = mg_content r,
      cm_external_id = mg_external_id r, cm_occurred_at = mg_occurred_at r, cm_metadata = mg_metadata r\<rparr>"

text \<open>\<open>json_extract(metadata_json, '$.context_scope') = :scope\<close>; the broker only stores text there.\<close>

definition in_scope :: "str option \<Rightarrow> message_row \<Rightarrow> bool" where
  "in_scope scope r = (case scope of None \<Rightarrow> True | Some c \<Rightarrow> dget (mg_metadata r) ''context_scope'' = Some (JStr c))"

definition acknowledged_reply :: "db \<Rightarrow> message_row \<Rightarrow> bool" where
  "acknowledged_reply s r \<longleftrightarrow>
     exists_row (\<lambda>b. ob_channel b = mg_channel r \<and> ob_chat_id b = mg_chat_id r \<and>
       Some (ob_message_id b) = mg_external_id r \<and> ob_state b = Obx_Acknowledged) (outbox s)"

definition recent_messages ::
    "str \<Rightarrow> str \<Rightarrow> int \<Rightarrow> str option \<Rightarrow> str option \<Rightarrow> bool \<Rightarrow> db \<Rightarrow> conversation_message list result" where
  "recent_messages channel chat limit through scope confirmed_only s =
     (if limit < 1 \<or> 500 < limit then Inl (ValueError ''limit must be between 1 and 500'')
      else
        let boundary = (case through of None \<Rightarrow> Inr None
              | Some x \<Rightarrow>
                  (case find (\<lambda>r. mg_channel r = channel \<and> mg_chat_id r = chat \<and> mg_external_id r = Some x)
                          (messages s) of
                     None \<Rightarrow> Inl KeyError
                   | Some r \<Rightarrow> Inr (Some (mg_id r))))
        in case boundary of
             Inl e \<Rightarrow> Inl e
           | Inr b \<Rightarrow>
               let rows = take (nat limit) (rev (select_order (\<lambda>r. (mg_occurred_at r, mg_id r))
                     (\<lambda>r. mg_channel r = channel \<and> mg_chat_id r = chat \<and> in_scope scope r \<and>
                        (confirmed_only \<longrightarrow> mg_role r = Role_User \<or> acknowledged_reply s r) \<and>
                        (case b of None \<Rightarrow> True | Some n \<Rightarrow> mg_id r \<le> n)) (messages s)))
               in Inr (map conversation_message_of (rev rows)))"

text \<open>The full-text match is SQLite's; \<open>fts query rows\<close> stands for the matching rows, best first.\<close>

definition search_messages ::
    "(str \<Rightarrow> message_row list \<Rightarrow> message_row list) \<Rightarrow> str \<Rightarrow> str \<Rightarrow> str \<Rightarrow> int \<Rightarrow> db \<Rightarrow>
     conversation_message list result" where
  "search_messages fts channel chat query limit s =
     (if strip query = [] then Inr []
      else if limit < 1 \<or> 100 < limit then Inl (ValueError ''limit must be between 1 and 100'')
      else
        let safe = 34 # concat (map (\<lambda>c. if c = 34 then [34, 34] else [c]) (strip query)) @ [34]
        in Inr (map conversation_message_of (take (nat limit)
             (filter (\<lambda>r. mg_channel r = channel \<and> mg_chat_id r = chat) (fts safe (messages s))))))"

definition audit_records :: "nat \<Rightarrow> db \<Rightarrow> audit_row list" where
  "audit_records limit s =
     take limit (rev (select_order (\<lambda>r. (ar_occurred_at (au_record r), au_id r)) (\<lambda>_. True) (audit_log s)))"

record runtime_counts =
  rq_queue_depth :: nat
  rq_unknown_outbox :: nat

definition runtime_counts_of :: "db \<Rightarrow> runtime_counts" where
  "runtime_counts_of s =
     \<lparr>rq_queue_depth = count_where (\<lambda>r. ib_state r \<in> {Ibx_Pending, Ibx_Processing}) (inbox s),
      rq_unknown_outbox = count_where (\<lambda>r. ob_state r = Obx_Unknown) (outbox s)\<rparr>"

subsection \<open>Properties\<close>

lemma allowed_update:
  "(\<And>r. al_key (f r) = al_key r) \<Longrightarrow>
   allowed (update_where P f rows) k = map_option (\<lambda>r. al_enabled (if P r then f r else r)) (get_row al_key k rows)"
  by (auto simp: allowed_def get_row_update_where option.map_comp comp_def intro!: map_option_cong)

lemma allowed_fold:
  "allowed (fold (\<lambda>c rows. upsert_allowlist now ch c True (Some label) rows) ids rows) k =
   (if fst k = ch \<and> snd k \<in> set ids then Some True else allowed rows k)"
  by (induction ids arbitrary: rows) (auto simp: allowed_upsert)

text \<open>Reconciling makes the durable allowlist of one channel exactly the configured set, whatever it
  held before, and leaves every other channel's entries alone; a configuration with an empty channel or
  chat id is refused.\<close>

theorem reconcile_allowlist_exact:
  "if channel = [] \<or> [] \<in> set chat_ids
   then reconcile_allowlist now channel chat_ids label s =
          Inl (ValueError ''allowlist channel and chat ids must be non-empty'')
   else \<exists>counts t. reconcile_allowlist now channel chat_ids label s = Inr (counts, t) \<and>
     (\<forall>ch chat. is_allowlisted ch chat t \<longleftrightarrow>
        (if ch = channel then chat \<in> set chat_ids else is_allowlisted ch chat s)) \<and>
     rk_configured counts = card (set chat_ids) \<and> length (audit_log t) = Suc (length (audit_log s)) \<and>
     inbox t = inbox s \<and> outbox t = outbox s \<and> runtime_state t = runtime_state s"
proof (cases "channel = [] \<or> [] \<in> set chat_ids")
  case True
  then show ?thesis by (simp add: reconcile_allowlist_def)
next
  case False
  let ?stale = "\<lambda>r. al_channel r = channel \<and> al_enabled r \<and> al_chat_id r \<notin> set chat_ids"
  let ?off = "\<lambda>r. r\<lparr>al_enabled := False, al_updated_at := now\<rparr>"
  have off: "allowed (update_where ?stale ?off (allowlist s)) (ch, chat) =
      (case get_row al_key (ch, chat) (allowlist s) of None \<Rightarrow> None
       | Some r \<Rightarrow> Some (al_enabled r \<and> \<not> (ch = channel \<and> chat \<notin> set chat_ids)))" for ch chat
    using get_row_in [of al_key "(ch, chat)" "allowlist s"]
    by (subst allowed_update) (auto simp: al_key_def split: option.split)
  have eq: "is_allowlisted ch chat (s'\<lparr>allowlist := fold (\<lambda>c rows. upsert_allowlist now channel c True (Some label) rows)
        (sort (remdups chat_ids)) (update_where ?stale ?off (allowlist s))\<rparr>) \<longleftrightarrow>
      (if ch = channel then chat \<in> set chat_ids else is_allowlisted ch chat s)" for ch chat s'
    by (simp add: is_allowlisted_def allowed_fold off)
      (auto simp: allowed_def split: option.splits)
  have "is_allowlisted ch chat (append_audit a t) = is_allowlisted ch chat t" for ch chat a t
    by (simp add: is_allowlisted_def)
  then show ?thesis
    using False by (simp add: reconcile_allowlist_def eq length_remdups_card_conv append_audit_log)
qed

definition runtime_inv :: "db \<Rightarrow> bool" where
  "runtime_inv s \<longleftrightarrow> distinct (map rs_key (runtime_state s))"

lemma rt_put_inv: "runtime_inv s \<Longrightarrow> runtime_inv (rt_put now k v s)"
  by (auto simp: runtime_inv_def rt_put_def map_update_where exists_row_def list_ex_iff)

definition pause_flag :: "db \<Rightarrow> str option \<Rightarrow> bool" where
  "pause_flag s ch = (case rt_get s (pause_key ch) of None \<Rightarrow> False | Some v \<Rightarrow> dflag v ''paused'')"

lemma pause_key_global: "lit ''pause:global'' \<noteq> lit ''pause:channel:'' @ c"
proof
  assume "lit ''pause:global'' = lit ''pause:channel:'' @ c"
  then have "take 7 (lit ''pause:global'') = take 7 (lit ''pause:channel:'' @ c)" by (rule arg_cong)
  moreover have "take 7 (lit ''pause:channel:'' @ c) = lit (take 7 ''pause:channel:'')"
    by (simp add: lit_def)
  moreover have "take 7 (lit ''pause:global'') = lit (take 7 ''pause:global'')" by (simp add: lit_def)
  ultimately have "take 7 ''pause:global'' = take 7 ''pause:channel:''" by (simp only: lit_eq_iff)
  then show False by simp
qed

lemma pause_key_inj [simp]: "pause_key a = pause_key b \<longleftrightarrow> a = b"
  using pause_key_global pause_key_global [THEN not_sym]
  by (cases a; cases b) (simp_all only: pause_key_def option.case option.inject option.distinct same_append_eq refl not_False_eq_True simp_thms)

lemma is_paused_flag:
  assumes "runtime_inv s"
  shows "is_paused ch s \<longleftrightarrow> pause_flag s None \<or> (ch \<noteq> None \<and> pause_flag s ch)"
proof -
  have one: "list_ex (\<lambda>r. rs_key r = k \<and> dflag (rs_value r) ''paused'') (runtime_state s) \<longleftrightarrow>
      (case rt_get s k of None \<Rightarrow> False | Some v \<Rightarrow> dflag v ''paused'')" for k
  proof (cases "get_row rs_key k (runtime_state s)")
    case None
    then have "k \<notin> rs_key ` set (runtime_state s)" by (rule get_row_None [THEN iffD1])
    then show ?thesis unfolding rt_get_def None list_ex_iff option.map option.case by blast
  next
    case (Some r)
    have d: "distinct (map rs_key (runtime_state s))" using assms by (simp add: runtime_inv_def)
    have "q = r" if "q \<in> set (runtime_state s)" "rs_key q = k" for q
      using get_row_unique [OF d that(1)] that(2) Some by simp
    with Some get_row_in [OF Some] show ?thesis
      unfolding rt_get_def list_ex_iff by (metis option.case(2) option.map(2))
  qed
  have g: "pause_key None = lit ''pause:global''" by (simp add: pause_key_def)
  show ?thesis
    unfolding pause_flag_def one [symmetric] g
    by (cases ch) (auto simp: is_paused_def list_ex_iff)
qed

lemma pause_writes:
  "rt_get (fold (\<lambda>(c, b). set_paused now c b) ws s) (pause_key ch) =
   (case map_of (rev ws) ch of None \<Rightarrow> rt_get s (pause_key ch) | Some b \<Rightarrow> Some [(lit ''paused'', JBool b)])"
proof (induction ws arbitrary: s)
  case (Cons w ws)
  then show ?case
    by (cases w) (simp add: set_paused_def rt_get_put map_add_def split: option.split)
qed simp

lemma pause_writes_inv: "runtime_inv s \<Longrightarrow> runtime_inv (fold (\<lambda>(c, b). set_paused now c b) ws s)"
  by (induction ws arbitrary: s) (auto simp: set_paused_def rt_put_inv)

text \<open>A pause holds until it is lifted where it was set: after any sequence of pause commands a
  channel is paused exactly if the last global command, or the last command for that channel, says so;
  lifting a channel's pause never lifts the global one.\<close>

theorem pause_last_command:
  assumes "runtime_inv s"
  shows "is_paused ch (fold (\<lambda>(c, b). set_paused now c b) ws s) \<longleftrightarrow>
    (case map_of (rev ws) None of Some b \<Rightarrow> b | None \<Rightarrow> pause_flag s None) \<or>
    (ch \<noteq> None \<and> (case map_of (rev ws) ch of Some b \<Rightarrow> b | None \<Rightarrow> pause_flag s ch))"
proof -
  have "pause_flag (fold (\<lambda>(c, b). set_paused now c b) ws s) ch =
      (case map_of (rev ws) ch of Some b \<Rightarrow> b | None \<Rightarrow> pause_flag s ch)" for ch
    by (simp add: pause_flag_def pause_writes dflag_def split: option.split)
  then show ?thesis by (simp add: is_paused_flag [OF pause_writes_inv [OF assms]])
qed

definition message_eligible :: "str \<Rightarrow> str \<Rightarrow> str option \<Rightarrow> bool \<Rightarrow> db \<Rightarrow> message_row \<Rightarrow> bool" where
  "message_eligible channel chat scope confirmed s r \<longleftrightarrow>
     mg_channel r = channel \<and> mg_chat_id r = chat \<and> in_scope scope r \<and>
     (confirmed \<longrightarrow> mg_role r = Role_User \<or> acknowledged_reply s r)"

lemma last_of_sorted:
  fixes k :: "'a \<Rightarrow> 'b::linorder"
  assumes "sorted (map k xs)" and "x \<in> set xs" and "x \<notin> set (rev (take n (rev xs)))"
    and "y \<in> set (rev (take n (rev xs)))"
  shows "k x \<le> k y"
proof -
  have "rev (take n (rev xs)) = drop (length xs - n) xs" by (simp add: take_rev)
  moreover have "xs = take (length xs - n) xs @ drop (length xs - n) xs" by simp
  ultimately obtain as where as: "xs = as @ rev (take n (rev xs))" by metis
  with assms(2,3) have "x \<in> set as" by (metis Un_iff set_append)
  moreover have "sorted (map k as @ map k (rev (take n (rev xs))))"
    using assms(1) as by (metis map_append)
  ultimately show ?thesis using assms(4) by (auto simp: sorted_append)
qed

text \<open>What the model is shown of a conversation: at most the requested number of messages of that
  very chat, in time order, of the requested context scope, none after the event that is answered, and
  in confirmed mode no reply that the connector did not acknowledge; and what is left out of the
  eligible messages is not newer than what is shown.\<close>

theorem recent_messages_window:
  assumes "recent_messages channel chat limit through scope confirmed s = Inr ms"
  shows "\<exists>rows b. ms = map conversation_message_of rows \<and> length rows \<le> nat limit \<and>
    sorted (map (\<lambda>r. (mg_occurred_at r, mg_id r)) rows) \<and>
    (\<forall>x. through = Some x \<longrightarrow> (\<exists>r \<in> set (messages s). mg_external_id r = Some x \<and> mg_channel r = channel \<and>
       mg_chat_id r = chat \<and> mg_id r = b)) \<and>
    set rows \<subseteq> {r \<in> set (messages s). message_eligible channel chat scope confirmed s r \<and>
       (through \<noteq> None \<longrightarrow> mg_id r \<le> b)} \<and>
    (\<forall>r \<in> set (messages s). message_eligible channel chat scope confirmed s r \<and>
       (through \<noteq> None \<longrightarrow> mg_id r \<le> b) \<and> r \<notin> set rows \<longrightarrow>
       (\<forall>q \<in> set rows. (mg_occurred_at r, mg_id r) \<le> (mg_occurred_at q, mg_id q)))"
proof -
  from assms have lim: "\<not> (limit < 1 \<or> 500 < limit)" by (auto simp: recent_messages_def)
  obtain bo where bo: "(case through of None \<Rightarrow> Inr None
        | Some x \<Rightarrow> (case find (\<lambda>r. mg_channel r = channel \<and> mg_chat_id r = chat \<and> mg_external_id r = Some x)
                (messages s) of None \<Rightarrow> Inl KeyError | Some r \<Rightarrow> Inr (Some (mg_id r)))) = (Inr bo :: nat option result)"
    using assms lim unfolding recent_messages_def Let_def by (auto split: sum.splits)
  let ?P = "\<lambda>r. mg_channel r = channel \<and> mg_chat_id r = chat \<and> in_scope scope r \<and>
      (confirmed \<longrightarrow> mg_role r = Role_User \<or> acknowledged_reply s r) \<and>
      (case bo of None \<Rightarrow> True | Some n \<Rightarrow> mg_id r \<le> n)"
  let ?k = "\<lambda>r. (mg_occurred_at r, mg_id r)"
  let ?all = "select_order ?k ?P (messages s)"
  define rows where "rows = rev (take (nat limit) (rev ?all))"
  have ms: "ms = map conversation_message_of rows"
    using assms lim unfolding recent_messages_def Let_def bo rows_def by simp
  have sub: "set rows \<subseteq> set ?all" unfolding rows_def by (auto dest: in_set_takeD)
  have drop: "rows = drop (length ?all - nat limit) ?all" by (simp add: rows_def take_rev)
  have srt: "sorted (map ?k rows)"
    unfolding drop using select_order_sorted [of ?k ?P "messages s"] by (simp add: sorted_wrt_drop drop_map [symmetric])
  have len: "length rows \<le> nat limit" by (simp add: rows_def)
  let ?b = "case bo of None \<Rightarrow> 0 | Some n \<Rightarrow> n"
  have thr: "\<forall>x. through = Some x \<longrightarrow> (\<exists>r \<in> set (messages s). mg_external_id r = Some x \<and> mg_channel r = channel \<and>
       mg_chat_id r = chat \<and> mg_id r = ?b)"
    using bo by (auto split: option.splits dest!: find_in)
  have bnd: "(case bo of None \<Rightarrow> True | Some n \<Rightarrow> m \<le> n) \<longleftrightarrow> (through \<noteq> None \<longrightarrow> m \<le> ?b)" for m
    using bo by (auto split: option.splits)
  have all: "set ?all = {r \<in> set (messages s). message_eligible channel chat scope confirmed s r \<and>
       (through \<noteq> None \<longrightarrow> mg_id r \<le> ?b)}"
    unfolding select_order_set message_eligible_def bnd [symmetric] by auto
  have rest: "\<forall>r \<in> set ?all. r \<notin> set rows \<longrightarrow> (\<forall>q \<in> set rows. ?k r \<le> ?k q)"
    unfolding rows_def by (intro ballI impI) (rule last_of_sorted [OF select_order_sorted])
  show ?thesis
    by (intro exI [of _ rows] exI [of _ ?b] conjI ms len srt thr)
      (use sub all rest in auto)
qed

subsection \<open>Concrete runs\<close>

theorem pause_last_command_witness:
  "is_paused (Some (lit ''c'')) (fold (\<lambda>(c, b). set_paused 5 c b) [(None, True), (Some (lit ''c''), False)] empty_db)"
proof -
  have "runtime_inv empty_db" by (simp add: runtime_inv_def)
  from pause_last_command [OF this, of "Some (lit ''c'')" 5 "[(None, True), (Some (lit ''c''), False)]"]
  show ?thesis by simp
qed

definition demo_said :: "nat \<Rightarrow> time \<Rightarrow> message_role \<Rightarrow> string \<Rightarrow> message_row" where
  "demo_said i w role x = \<lparr>mg_id = i, mg_channel = lit ''c'', mg_chat_id = lit ''chat_1'', mg_sender_id = None,
     mg_role = role, mg_kind = Ev_Text, mg_content = lit x, mg_external_id = Some (lit x),
     mg_occurred_at = w, mg_metadata = []\<rparr>"

definition demo_talk :: db where
  "demo_talk = empty_db\<lparr>messages := [demo_said 1 10 Role_User ''hello'', demo_said 2 20 Role_Assistant ''unsent'',
     demo_said 3 30 Role_User ''again'']\<rparr>"

lemma demo_recent: "recent_messages (lit ''c'') (lit ''chat_1'') 5 (Some (lit ''again'')) None True demo_talk =
    Inr (map conversation_message_of [demo_said 1 10 Role_User ''hello'', demo_said 3 30 Role_User ''again''])"
  by (simp add: recent_messages_def demo_talk_def demo_said_def in_scope_def select_order_def
      acknowledged_reply_def exists_row_def)

theorem recent_messages_window_witness:
  "\<exists>rows. map conversation_message_of rows = map conversation_message_of
      [demo_said 1 10 Role_User ''hello'', demo_said 3 30 Role_User ''again''] \<and> length rows \<le> 5 \<and>
     (\<forall>r \<in> set rows. message_eligible (lit ''c'') (lit ''chat_1'') None True demo_talk r)"
  using recent_messages_window [OF demo_recent] by fastforce

end
