(* ===== verification/Recovery.thy ===== *)
theory Recovery
  imports Inbox Outbox Tool_Journal Broker_State
begin

text \<open>
  \<open>CoreRepository.recover_interrupted\<close> (\<open>lemonbot/storage/repository.py\<close>), the transaction the broker
  runs when it starts, and the joint life of the three durable queues: each operation of one queue
  leaves the other two alone, so the invariants hold together in every reachable database.
\<close>

record recovery_counts =
  rv_inbox_requeued :: nat
  rv_inbox_dead_ambiguous :: nat
  rv_outbox_released :: nat
  rv_outbox_unknown :: nat
  rv_tool_requests_failed :: nat
  rv_tool_calls_unknown :: nat

definition recover_interrupted :: "time \<Rightarrow> int \<Rightarrow> db \<Rightarrow> recovery_counts \<times> db" where
  "recover_interrupted now stale_after s =
     (let cutoff = now - stale_after;
          ((requeued, ambiguous), s1) = recover_inbox now cutoff s;
          ((released, unknown), s2) = recover_outbox now cutoff s1;
          ((failed, lost), s3) = recover_tools now s2
      in (\<lparr>rv_inbox_requeued = requeued, rv_inbox_dead_ambiguous = ambiguous, rv_outbox_released = released,
           rv_outbox_unknown = unknown, rv_tool_requests_failed = failed, rv_tool_calls_unknown = lost\<rparr>, s3))"

lemma recover_inbox_frame [simp]:
  "outbox (snd (recover_inbox now c s)) = outbox s"
  "tool_executions (snd (recover_inbox now c s)) = tool_executions s"
  by (simp_all add: recover_inbox_def)

lemma recover_outbox_frame [simp]:
  "inbox (snd (recover_outbox now c s)) = inbox s"
  "tool_executions (snd (recover_outbox now c s)) = tool_executions s"
  by (simp_all add: recover_outbox_def)

lemma recover_tools_frame [simp]:
  "inbox (snd (recover_tools now s)) = inbox s" "outbox (snd (recover_tools now s)) = outbox s"
  by (simp_all add: recover_tools_def)

lemma recover_interrupted_snd:
  "snd (recover_interrupted now d s) =
     snd (recover_tools now (snd (recover_outbox now (now - d) (snd (recover_inbox now (now - d) s)))))"
  by (simp add: recover_interrupted_def split: prod.split)

lemma recover_interrupted_tables:
  "inbox (snd (recover_interrupted now d s)) = inbox (snd (recover_inbox now (now - d) s))"
  "outbox (snd (recover_interrupted now d s)) = outbox (snd (recover_outbox now (now - d) s))"
  "tool_executions (snd (recover_interrupted now d s)) = tool_executions (snd (recover_tools now s))"
  by (simp_all add: recover_interrupted_snd recover_outbox_def recover_tools_def)

subsection \<open>The joint invariant\<close>

definition repo_inv :: "db \<Rightarrow> bool" where
  "repo_inv s \<longleftrightarrow> inbox_inv s \<and> outbox_inv s \<and> tool_inv s \<and> runtime_inv s"

lemma tool_inv_cong: "tool_executions t = tool_executions s \<Longrightarrow> tool_inv t = tool_inv s"
  by (simp add: tool_inv_def)

lemma runtime_inv_cong: "runtime_state t = runtime_state s \<Longrightarrow> runtime_inv t = runtime_inv s"
  by (simp add: runtime_inv_def)

text \<open>Any operation of the repository.\<close>

inductive repo_step :: "db \<Rightarrow> db \<Rightarrow> bool" where
  on_inbox: "inbox_step s t \<Longrightarrow> repo_step s t"
| on_outbox: "outbox_step s l t \<Longrightarrow> repo_step s t"
| on_tools: "tool_step s l t \<Longrightarrow> repo_step s t"
| drafting: "create_draft now m s = Inr (row, t) \<Longrightarrow> repo_step s t"
| pausing: "repo_step s (set_paused now ch b s)"
| remembering: "set_runtime_state now k v s = Inr (u, t) \<Longrightarrow> repo_step s t"
| forgetting: "clear_runtime_state_prefix p s = Inr (n, t) \<Longrightarrow> repo_step s t"
| allowing: "repo_step s (set_allowlisted now ch chat b label s)"
| configuring: "reconcile_allowlist now ch chats label s = Inr (counts, t) \<Longrightarrow> repo_step s t"
| auditing: "repo_step s (append_audit a s)"
| restarting: "repo_step s (snd (recover_interrupted now d s))"

text \<open>What each group of operations leaves alone.\<close>

lemma inbox_step_frame:
  "inbox_step s t \<Longrightarrow> outbox t = outbox s \<and> tool_executions t = tool_executions s \<and> runtime_state t = runtime_state s"
  by (cases rule: inbox_step.cases)
    (auto simp: record_inbound_def claim_next_inbox_def complete_inbox_def transition_inbox_def
      mark_inbox_model_started_def fail_inbox_def recover_inbox_def split: option.splits if_splits)

lemma apply_receipt_frame:
  "apply_receipt now i rc s = Inr (st, t) \<Longrightarrow>
   inbox t = inbox s \<and> tool_executions t = tool_executions s \<and> runtime_state t = runtime_state s"
  by (auto simp: apply_receipt_def split: option.splits if_splits)

lemma reconcile_frame:
  "reconcile_unknown_outbox now i outcome note s = Inr (b, t) \<Longrightarrow>
   inbox t = inbox s \<and> tool_executions t = tool_executions s \<and> runtime_state t = runtime_state s"
  by (auto simp: reconcile_unknown_outbox_def split: option.splits if_splits)

lemma outbox_cas_frame:
  "inbox (snd (outbox_cas i st f s)) = inbox s"
  "tool_executions (snd (outbox_cas i st f s)) = tool_executions s"
  "runtime_state (snd (outbox_cas i st f s)) = runtime_state s"
  by (simp_all add: outbox_cas_def)

lemma reserve_frame:
  "inbox (snd (reserve_next_outbox now ch s)) = inbox s"
  "tool_executions (snd (reserve_next_outbox now ch s)) = tool_executions s"
  "runtime_state (snd (reserve_next_outbox now ch s)) = runtime_state s"
  by (simp_all add: reserve_next_outbox_def split: option.split)

lemma outbox_step_frame:
  assumes "outbox_step s l t"
  shows "inbox t = inbox s \<and> tool_executions t = tool_executions s \<and> runtime_state t = runtime_state s"
  using assms
proof (cases rule: outbox_step.cases)
  case (created now m item)
  with create_outbox_table [OF created(2)] show ?thesis by simp
next
  case (dispatching now i)
  then show ?thesis using outbox_cas_frame by (metis mark_dispatching_def snd_conv)
next
  case (refused now i)
  then show ?thesis using outbox_cas_frame by (metis mark_dispatching_def snd_conv)
next
  case (releasing now i d n b)
  then show ?thesis using outbox_cas_frame
    by (auto simp: release_reserved_def split: if_splits) (metis snd_conv)+
next
  case (receipt now i rc st)
  then show ?thesis by (blast dest: apply_receipt_frame)
next
  case (reconciling now i outcome nt b)
  then show ?thesis by (blast dest: reconcile_frame)
qed (simp_all add: reserve_frame mark_outbox_unknown_def mark_reserved_dead_def outbox_cas_frame
    recover_outbox_def)

lemma begin_tool_frame:
  assumes "begin_tool_execution sha flt eid now q s = Inr (res, t)"
  shows "inbox t = inbox s \<and> outbox t = outbox s \<and> runtime_state t = runtime_state s"
proof -
  obtain x c where "res = (x, c)" by (cases res)
  with assms have "begin_tool_execution sha flt eid now q s = Inr ((x, c), t)" by simp
  then show ?thesis by (cases rule: begin_cases) simp_all
qed

lemma tool_step_frame:
  "tool_step s l t \<Longrightarrow> inbox t = inbox s \<and> outbox t = outbox s \<and> runtime_state t = runtime_state s"
  by (erule tool_step.cases)
    (auto simp: begin_tool_frame mark_tool_executing_def resolve_tool_execution_def recover_tools_def
      split: option.splits)

lemma repo_inv_runtime:
  assumes "repo_inv s" and "runtime_inv t" and "inbox t = inbox s" "outbox t = outbox s"
    "tool_executions t = tool_executions s"
  shows "repo_inv t"
  using assms(1,2) inbox_inv_cong [OF assms(3)] outbox_inv_cong [OF assms(4)] tool_inv_cong [OF assms(5)]
  by (simp add: repo_inv_def)

lemma repo_inv_same:
  assumes "repo_inv s" and "inbox t = inbox s \<and> outbox t = outbox s \<and> tool_executions t = tool_executions s \<and>
      runtime_state t = runtime_state s"
  shows "repo_inv t"
  using assms runtime_inv_cong [of t s] by (intro repo_inv_runtime [OF assms(1)]) (simp_all add: repo_inv_def)

lemma rt_put_frame [simp]:
  "inbox (rt_put now k v s) = inbox s" "outbox (rt_put now k v s) = outbox s"
  "tool_executions (rt_put now k v s) = tool_executions s"
  by (simp_all add: rt_put_def)

lemma repo_inv_rt_put: "repo_inv s \<Longrightarrow> repo_inv (rt_put now k v s)"
  by (rule repo_inv_runtime) (simp_all add: rt_put_inv repo_inv_def)

lemma repo_inv_empty: "repo_inv empty_db"
  by (simp add: repo_inv_def runtime_inv_def tool_inv_empty inbox_inv_empty outbox_inv_empty)

lemma clear_prefix_inv:
  "clear_runtime_state_prefix p s = Inr (n, t) \<Longrightarrow> runtime_inv s \<Longrightarrow> runtime_inv t"
  by (auto simp: clear_runtime_state_prefix_def runtime_inv_def distinct_map_filter split: if_splits)

lemma recover_interrupted_inv:
  assumes "repo_inv s"
  shows "repo_inv (snd (recover_interrupted now d s))"
proof -
  note eqs = recover_interrupted_tables [of now d s]
  have "inbox_inv (snd (recover_inbox now (now - d) s))"
    using assms by (simp add: repo_inv_def recover_inbox_inv)
  moreover have "outbox_inv (snd (recover_outbox now (now - d) s))"
    using assms outbox_step_inv [OF outbox_step.recovering] by (simp add: repo_inv_def)
  moreover have "tool_inv (snd (recover_tools now s))"
    using assms tool_step_inv [OF tool_step.recovering] by (simp add: repo_inv_def)
  moreover have "runtime_state (snd (recover_interrupted now d s)) = runtime_state s"
    by (simp add: recover_interrupted_snd recover_tools_def recover_outbox_def recover_inbox_def)
  ultimately show ?thesis
    using assms
    by (simp add: repo_inv_def inbox_inv_cong [OF eqs(1)] outbox_inv_cong [OF eqs(2)]
        tool_inv_cong [OF eqs(3)] runtime_inv_def)
qed

lemma repo_step_inv:
  assumes "repo_step s t" and "repo_inv s"
  shows "repo_inv t"
  using assms(1)
proof (cases rule: repo_step.cases)
  case on_inbox
  then show ?thesis
    using assms(2) inbox_step_inv [OF on_inbox] inbox_step_frame [OF on_inbox]
      outbox_inv_cong [of t s] tool_inv_cong [of t s] runtime_inv_cong [of t s]
    by (simp add: repo_inv_def)
next
  case (on_outbox l)
  then show ?thesis
    using assms(2) outbox_step_inv [OF on_outbox] outbox_step_frame [OF on_outbox]
      inbox_inv_cong [of t s] tool_inv_cong [of t s] runtime_inv_cong [of t s]
    by (simp add: repo_inv_def)
next
  case (on_tools l)
  then show ?thesis
    using assms(2) tool_step_inv [OF on_tools] tool_step_frame [OF on_tools]
      inbox_inv_cong [of t s] outbox_inv_cong [of t s] runtime_inv_cong [of t s]
    by (simp add: repo_inv_def)
next
  case (drafting now m row)
  then have "inbox t = inbox s \<and> outbox t = outbox s \<and> tool_executions t = tool_executions s \<and>
      runtime_state t = runtime_state s"
    by (auto simp: create_draft_def split: option.splits if_splits)
  then show ?thesis by (rule repo_inv_same [OF assms(2)])
next
  case (pausing now ch b)
  then show ?thesis using assms(2) by (simp add: set_paused_def repo_inv_rt_put)
next
  case (remembering now k v u)
  then have "t = rt_put now k v s" by (auto simp: set_runtime_state_def split: if_splits)
  then show ?thesis using assms(2) by (simp add: repo_inv_rt_put)
next
  case (forgetting p n)
  then have "inbox t = inbox s \<and> outbox t = outbox s \<and> tool_executions t = tool_executions s"
    by (auto simp: clear_runtime_state_prefix_def split: if_splits)
  then show ?thesis
    using repo_inv_runtime [OF assms(2) clear_prefix_inv [OF forgetting]] assms(2)
    by (simp add: repo_inv_def)
next
  case (configuring now ch chats label counts)
  then have "inbox t = inbox s \<and> outbox t = outbox s \<and> tool_executions t = tool_executions s \<and>
      runtime_state t = runtime_state s"
    by (auto simp: reconcile_allowlist_def split: if_splits)
  then show ?thesis by (rule repo_inv_same [OF assms(2)])
next
  case (allowing now ch chat b label)
  then show ?thesis by (intro repo_inv_same [OF assms(2)]) (simp add: set_allowlisted_def)
next
  case (auditing a)
  then show ?thesis by (intro repo_inv_same [OF assms(2)]) simp
next
  case (restarting now d)
  then show ?thesis by (simp only: recover_interrupted_inv [OF assms(2)])
qed

interpretation repo: invariant_machine "\<lambda>s. s = empty_db" repo_step repo_inv
  by unfold_locales
    (auto intro: repo_inv_empty repo_step_inv)

text \<open>C6. Every database the broker can reach is well formed: starting from an empty database, after
  any sequence of repository operations and restarts, event keys, message ids, reply targets, call
  bindings and runtime keys are unique, and every queue row's timestamps agree with its state.\<close>

theorem repo_reachable_inv:
  "repo_step\<^sup>*\<^sup>* empty_db s \<Longrightarrow> repo_inv s"
  by (rule repo.reachable_inv [OF refl])

text \<open>What a restart makes of one row of each queue, read off the recovery policy: work older than the cutoff
  is given back, unless its model call had begun; a delivery or a tool call under way is not known to have
  happened; everything else stays.\<close>

fun older :: "time \<Rightarrow> time option \<Rightarrow> bool" where
  "older cutoff None = False"
| "older cutoff (Some w) = (w < cutoff)"

definition recovered_inbox :: "time \<Rightarrow> inbox_row \<Rightarrow> inbox_state \<times> bool" where
  "recovered_inbox cutoff r =
     (let began = (ib_model_started_at r \<noteq> None) in
      if ib_state r = Ibx_Processing \<and> older cutoff (ib_claimed_at r)
      then (if began then Ibx_Dead else Ibx_Pending, began) else (ib_state r, began))"

definition recovered_outbox :: "time \<Rightarrow> outbox_row \<Rightarrow> outbox_state" where
  "recovered_outbox cutoff r =
     (if ob_state r = Obx_Dispatching then Obx_Unknown
      else if ob_state r = Obx_Reserved \<and> older cutoff (ob_reserved_at r) then Obx_Pending
      else ob_state r)"

definition recovered_tool :: "tool_execution_row \<Rightarrow> tool_state" where
  "recovered_tool r =
     (if tx_state r = Tx_Requested then Tx_Failed
      else if tx_state r = Tx_Executing then Tx_Unknown else tx_state r)"

lemma older_case [simp]: "(case w of None \<Rightarrow> False | Some x \<Rightarrow> x < cutoff) = older cutoff w"
  by (cases w) simp_all

lemma recovered_inbox_status:
  "inbox_status (snd (recover_interrupted now d s)) i =
     map_option (recovered_inbox (now - d)) (get_row ib_id i (inbox s))"
  unfolding inbox_status_def recover_interrupted_tables recover_inbox_table
  by (cases "get_row ib_id i (inbox s)") (auto simp: get_row_update_where recovered_inbox_def Let_def)

lemma recovered_outbox_status:
  "outbox_status (snd (recover_interrupted now d s)) i =
     map_option (recovered_outbox (now - d)) (get_row ob_id i (outbox s))"
  unfolding outbox_status_def recover_interrupted_tables recover_outbox_table
  by (cases "get_row ob_id i (outbox s)") (auto simp: get_row_update_where recovered_outbox_def)

lemma recovered_tool_status:
  "tool_status (snd (recover_interrupted now d s)) e =
     map_option recovered_tool (get_row tx_execution_id e (tool_executions s))"
  unfolding tool_status_def recover_interrupted_tables
  by (cases "get_row tx_execution_id e (tool_executions s)") (auto simp: recover_tools_def get_row_update_where recovered_tool_def)

text \<open>C7. A restart does to every row exactly what the recovery policy says: an inbox item claimed before
  the cutoff goes back to the queue, or is closed as ambiguous when its model call had begun; an outbox
  reservation made before the cutoff is released; a delivery that had begun becomes unknown, never
  pending; an open tool call becomes failed or unknown; every other row, younger claims and reservations
  included, keeps its state. So no delivery and no tool call is in flight afterwards, an item still being
  processed was claimed at or after the cutoff, and recovering again at the same moment changes nothing.\<close>

theorem recover_interrupted_safe:
  assumes "repo_inv s" and "recover_interrupted now d s = (counts, t)"
  shows "(\<forall>i. inbox_status t i = map_option (recovered_inbox (now - d)) (get_row ib_id i (inbox s))) \<and>
    (\<forall>i. outbox_status t i = map_option (recovered_outbox (now - d)) (get_row ob_id i (outbox s))) \<and>
    (\<forall>e. tool_status t e = map_option recovered_tool (get_row tx_execution_id e (tool_executions s))) \<and>
    (\<forall>r \<in> set (outbox t). ob_state r \<noteq> Obx_Dispatching) \<and>
    (\<forall>r \<in> set (tool_executions t). tx_state r \<notin> {Tx_Requested, Tx_Executing}) \<and>
    (\<forall>r \<in> set (inbox t). ib_state r = Ibx_Processing \<longrightarrow> (\<exists>w. ib_claimed_at r = Some w \<and> now - d \<le> w)) \<and>
    snd (recover_interrupted now d t) = t"
proof -
  have t: "t = snd (recover_interrupted now d s)" using assms(2) by simp
  note eqs = recover_interrupted_tables [of now d s, folded t]
  have inv: "inbox_inv s" "outbox_inv s" using assms(1) by (simp_all add: repo_inv_def)
  have ob: "\<forall>r \<in> set (outbox t). ob_state r \<noteq> Obx_Dispatching \<and>
      \<not> (ob_state r = Obx_Reserved \<and> (case ob_reserved_at r of None \<Rightarrow> False | Some w \<Rightarrow> w < now - d))"
    unfolding eqs(2) recover_outbox_table by (auto simp: ball_update_where split: option.splits)
  have tx: "\<forall>r \<in> set (tool_executions t). tx_state r \<notin> {Tx_Requested, Tx_Executing}"
    unfolding eqs(3) by (auto simp: recover_tools_def set_update_where split: if_splits)
  have ib: "\<forall>r \<in> set (inbox t). \<not> (ib_state r = Ibx_Processing \<and>
      (case ib_claimed_at r of None \<Rightarrow> False | Some w \<Rightarrow> w < now - d))"
    unfolding eqs(1) recover_inbox_table by (auto simp: ball_update_where)
  have claimed: "\<forall>r \<in> set (inbox t). ib_state r = Ibx_Processing \<longrightarrow> (\<exists>w. ib_claimed_at r = Some w \<and> now - d \<le> w)"
  proof (intro ballI impI)
    fix r assume r: "r \<in> set (inbox t)" "ib_state r = Ibx_Processing"
    have "inbox_inv t" using recover_interrupted_inv [OF assms(1)] by (simp add: repo_inv_def t)
    with r have "ib_claimed_at r \<noteq> None" by (auto simp: inbox_inv_def inbox_row_ok_def)
    with ib r show "\<exists>w. ib_claimed_at r = Some w \<and> now - d \<le> w" by force
  qed
  have again: "snd (recover_interrupted now d t) = t"
  proof -
    have "inbox (snd (recover_inbox now (now - d) t)) = inbox t"
      unfolding recover_inbox_table
      by (rule update_where_none) (use ib in \<open>simp only: count_where_0_iff\<close>)
    moreover have "outbox (snd (recover_outbox now (now - d) t)) = outbox t"
      unfolding recover_outbox_table
      by (rule update_where_none) (use ob in \<open>auto simp: count_where_0_iff\<close>)
    moreover have "tool_executions (snd (recover_tools now t)) = tool_executions t"
      using tx by (auto simp: recover_tools_def update_where_def intro!: map_idI)
    ultimately show ?thesis
      using recover_interrupted_tables [of now d t]
      by (intro db.equality) (simp_all add: recover_interrupted_snd recover_tools_def recover_outbox_def recover_inbox_def)
  qed
  show ?thesis
    using ob tx claimed again by (auto simp: t recovered_inbox_status recovered_outbox_status recovered_tool_status)
qed

declare older_case [simp del]

theorem repo_reachable_inv_witness:
  "repo_inv demo_started"
proof -
  have a: "inbox_step empty_db (snd (record_inbound 10 (demo_event ''e1'' 5) empty_db))"
    by (rule inbox_step.recorded)
  have b: "inbox_step (snd (record_inbound 10 (demo_event ''e1'' 5) empty_db)) demo_inbox"
    unfolding demo_inbox_def by (rule inbox_step.recorded)
  have c: "inbox_step demo_inbox demo_claimed" unfolding demo_claimed_def by (rule inbox_step.claim_next)
  have d: "inbox_step demo_claimed demo_started" unfolding demo_started_def by (rule inbox_step.mark)
  have "repo_step\<^sup>*\<^sup>* empty_db demo_started"
    by (meson a b c d repo_step.on_inbox converse_rtranclp_into_rtranclp rtranclp.rtrancl_refl)
  then show ?thesis by (rule repo_reachable_inv)
qed

theorem recover_interrupted_safe_witness:
  "inbox_status (snd (recover_interrupted 1000 10 demo_started)) 1 =
     map_option (recovered_inbox (1000 - 10)) (get_row ib_id 1 (inbox demo_started))"
proof -
  have "inbox_inv demo_started"
    using mark_inbox_inv [OF demo_claimed_inv, of 40 1] by (simp add: demo_started_def)
  moreover have "outbox demo_started = []" "tool_executions demo_started = []" "runtime_state demo_started = []"
    by (simp_all add: demo_started_def demo_claimed_def demo_inbox_def mark_inbox_model_started_def
        claim_next_inbox_def record_inbound_def split: option.split)
  ultimately have inv: "repo_inv demo_started"
    by (simp add: repo_inv_def outbox_inv_empty tool_inv_empty runtime_inv_def)
  obtain c t where ct: "recover_interrupted 1000 10 demo_started = (c, t)" by fastforce
  from recover_interrupted_safe [OF inv ct] ct show ?thesis by simp
qed

end
