(* ===== verification/Approvals.thy ===== *)
theory Approvals
  imports Storage Lifecycle Row_Life Json_Text
begin

text \<open>
  \<open>lemonbot/approvals\<close>: exact, one-use approvals of tool actions. \<open>models.py\<close> gives the records and the
  binding of an approval to its arguments, \<open>repository.py\<close> the transactions, \<open>service.py\<close> the
  profile-scoped operations the broker calls. The digest is the parameter \<open>sha\<close>, the text of a float is
  \<open>flt\<close>.
\<close>

subsection \<open>Binding arguments\<close>

definition is_alpha :: "nat \<Rightarrow> bool" where
  "is_alpha c \<longleftrightarrow> 65 \<le> c \<and> c \<le> 90 \<or> 97 \<le> c \<and> c \<le> 122"

definition is_digit :: "nat \<Rightarrow> bool" where
  "is_digit c \<longleftrightarrow> 48 \<le> c \<and> c \<le> 57"

text \<open>\<open>[A-Za-z0-9_.-]\<close>.\<close>

definition is_code_char :: "nat \<Rightarrow> bool" where
  "is_code_char c \<longleftrightarrow> is_alpha c \<or> is_digit c \<or> c = 95 \<or> c = 46 \<or> c = 45"

definition safe_field_name :: "str \<Rightarrow> bool" where
  "safe_field_name s = (case s of [] \<Rightarrow> False
     | c # cs \<Rightarrow> (is_alpha c \<or> c = 95) \<and> length cs \<le> 63 \<and> list_all is_code_char cs)"

definition sensitive_field_name :: "str \<Rightarrow> bool" where
  "sensitive_field_name s = list_ex (\<lambda>p. sublist (lit p) (casefold s))
     [''authorization'', ''cookie'', ''credential'', ''key'', ''mfa'', ''otp'', ''pass'', ''secret'', ''token'']"

definition arg_shape :: "bool \<Rightarrow> json \<Rightarrow> str" where
  "arg_shape sensitive v =
     (if sensitive then lit ''sensitive''
      else case v of
        JNull \<Rightarrow> lit ''null''
      | JBool b \<Rightarrow> lit ''boolean''
      | JStr s \<Rightarrow> lit ''string('' @ str_of_int (int (length s)) @ lit '' chars)''
      | JInt i \<Rightarrow> lit ''number''
      | JFloat q \<Rightarrow> lit ''number''
      | JList xs \<Rightarrow> lit ''array('' @ str_of_int (int (length xs)) @ lit '' items)''
      | JObj kvs \<Rightarrow> lit ''object('' @ str_of_int (int (length kvs)) @ lit '' fields)'')"

definition field_summary :: "str \<times> json \<Rightarrow> str" where
  "field_summary kv =
     (let name = fst kv;
          display = (if safe_field_name name then name else lit ''<field>'')
      in display @ lit ''=<'' @ arg_shape (sensitive_field_name name) (snd kv) @ lit ''>'')"

definition summarize_arguments :: "dict \<Rightarrow> str" where
  "summarize_arguments arguments =
     (if arguments = [] then lit ''no arguments''
      else
        let items = sort_items arguments;
            fields = map field_summary (take 32 items) @
              (if 32 < length items
               then [8230 # lit '' (+'' @ str_of_int (int (length items - 32)) @ lit '' fields)''] else [])
        in join (lit '', '') fields)"

text \<open>Decoding the canonical text gives the value back with every object's items in key order.\<close>

fun canon :: "json \<Rightarrow> json" where
  "canon (JList xs) = JList (map canon xs)"
| "canon (JObj kvs) = JObj (sort_items (map (\<lambda>(k, v). (k, canon v)) kvs))"
| "canon v = v"

definition canon_dict :: "dict \<Rightarrow> dict" where
  "canon_dict d = sort_items (map (\<lambda>(k, v). (k, canon v)) d)"

definition canonicalize_arguments ::
    "(str \<Rightarrow> str) \<Rightarrow> (rat \<Rightarrow> str) \<Rightarrow> dict \<Rightarrow> (dict \<times> str \<times> str) result" where
  "canonicalize_arguments sha flt arguments =
     (let encoded = json_text flt (JObj arguments)
      in if has_surrogate encoded then Inl (ValueError ''approval arguments must be finite JSON values'')
         else if 262144 < utf8_size encoded then Inl (ValueError ''approval arguments exceed the 256 KiB limit'')
         else Inr (canon_dict arguments, sha encoded, summarize_arguments (canon_dict arguments)))"

subsection \<open>Records\<close>

record approval_request =
  aq_approval_id :: uuid
  aq_profile :: str
  aq_channel :: str
  aq_chat_id :: str
  aq_event_id :: str
  aq_tool_name :: str
  aq_action_kind :: str
  aq_arguments_summary :: str
  aq_arguments_sha256 :: str
  aq_arguments :: dict
  aq_created_at :: time
  aq_expires_at :: time

definition exact_identifier :: "str \<Rightarrow> bool" where
  "exact_identifier s \<longleftrightarrow> s = strip s \<and> 0 \<notin> set s"

text \<open>\<open>^[0-9a-f]{64}$\<close>.\<close>

definition is_digest :: "str \<Rightarrow> bool" where
  "is_digest s \<longleftrightarrow> length s = 64 \<and> list_all (\<lambda>c. is_digit c \<or> 97 \<le> c \<and> c \<le> 102) s"

text \<open>Equality of two dictionaries does not see the order of their items.\<close>

definition binding_ok :: "(str \<Rightarrow> str) \<Rightarrow> (rat \<Rightarrow> str) \<Rightarrow> dict \<Rightarrow> str \<Rightarrow> str \<Rightarrow> bool" where
  "binding_ok sha flt arguments digest summary =
     (case canonicalize_arguments sha flt arguments of
        Inl _ \<Rightarrow> False
      | Inr (normalized, d, t) \<Rightarrow>
          canon_dict normalized = canon_dict arguments \<and> d = digest \<and> t = summary)"

definition approval_request_ok :: "(str \<Rightarrow> str) \<Rightarrow> (rat \<Rightarrow> str) \<Rightarrow> approval_request \<Rightarrow> bool" where
  "approval_request_ok sha flt q \<longleftrightarrow>
     len_between 1 32 (aq_profile q) \<and> len_between 1 64 (aq_channel q) \<and> len_between 1 512 (aq_chat_id q) \<and>
     len_between 1 256 (aq_event_id q) \<and> len_between 1 128 (aq_tool_name q) \<and>
     list_all is_code_char (aq_tool_name q) \<and> len_between 1 128 (aq_action_kind q) \<and>
     len_between 1 2000 (aq_arguments_summary q) \<and> is_digest (aq_arguments_sha256 q) \<and>
     exact_identifier (aq_profile q) \<and> exact_identifier (aq_channel q) \<and> exact_identifier (aq_chat_id q) \<and>
     exact_identifier (aq_event_id q) \<and> exact_identifier (aq_action_kind q) \<and>
     aq_created_at q < aq_expires_at q \<and>
     binding_ok sha flt (aq_arguments q) (aq_arguments_sha256 q) (aq_arguments_summary q)"

record approval_item =
  ai_approval_id :: uuid
  ai_profile :: str
  ai_channel :: str
  ai_chat_id :: str
  ai_event_id :: str
  ai_tool_name :: str
  ai_action_kind :: str
  ai_arguments_summary :: str
  ai_arguments_sha256 :: str
  ai_state :: approval_state
  ai_created_at :: time
  ai_expires_at :: time
  ai_claimed_at :: "time option"
  ai_resolved_at :: "time option"
  ai_outcome_code :: "str option"

record approval_claim = approval_item +
  ac_claim_token :: uuid
  ac_arguments :: dict

subsection \<open>Transactions\<close>

definition list_item :: "approval_row \<Rightarrow> approval_item" where
  "list_item r =
     \<lparr>ai_approval_id = ap_approval_id r, ai_profile = ap_profile r, ai_channel = ap_channel r,
      ai_chat_id = ap_chat_id r, ai_event_id = ap_event_id r, ai_tool_name = ap_tool_name r,
      ai_action_kind = ap_action_kind r, ai_arguments_summary = ap_arguments_summary r,
      ai_arguments_sha256 = ap_arguments_sha256 r, ai_state = ap_state r, ai_created_at = ap_created_at r,
      ai_expires_at = ap_expires_at r, ai_claimed_at = ap_claimed_at r, ai_resolved_at = ap_resolved_at r,
      ai_outcome_code = ap_outcome_code r\<rparr>"

definition claim_of :: "(str \<Rightarrow> str) \<Rightarrow> (rat \<Rightarrow> str) \<Rightarrow> approval_row \<Rightarrow> approval_claim result" where
  "claim_of sha flt r =
     (case ap_claim_token r of
        None \<Rightarrow> Inl (ValueError ''persisted executing approval has no claim token'')
      | Some tok \<Rightarrow>
          if ap_state r \<noteq> Apr_Executing \<or>
             \<not> binding_ok sha flt (ap_arguments r) (ap_arguments_sha256 r) (ap_arguments_summary r)
          then Inl (ValidationError ''ApprovalClaim'')
          else Inr (approval_item.extend (list_item r) (approval_claim.fields tok (ap_arguments r))))"

definition approval_audit :: "approval_row \<Rightarrow> string \<Rightarrow> string \<Rightarrow> audit_record" where
  "approval_audit r action outcome =
     audit_row action outcome (ap_channel r) (Some (ap_chat_id r)) (Some (ap_event_id r)) None
       [(lit ''approval_id'', JStr (ap_approval_id r)), (lit ''profile'', JStr (ap_profile r)),
        (lit ''tool_name'', JStr (ap_tool_name r)), (lit ''action_kind'', JStr (ap_action_kind r)),
        (lit ''arguments_sha256'', JStr (ap_arguments_sha256 r))] (ap_updated_at r)"

definition same_action :: "approval_request \<Rightarrow> approval_row \<Rightarrow> bool" where
  "same_action q r \<longleftrightarrow> ap_profile r = aq_profile q \<and> ap_channel r = aq_channel q \<and> ap_chat_id r = aq_chat_id q \<and>
     ap_event_id r = aq_event_id q \<and> ap_tool_name r = aq_tool_name q \<and> ap_action_kind r = aq_action_kind q \<and>
     ap_arguments_sha256 r = aq_arguments_sha256 q"

definition new_approval_row :: "approval_request \<Rightarrow> approval_row" where
  "new_approval_row q =
     \<lparr>ap_approval_id = aq_approval_id q, ap_profile = aq_profile q, ap_channel = aq_channel q,
      ap_chat_id = aq_chat_id q, ap_event_id = aq_event_id q, ap_tool_name = aq_tool_name q,
      ap_action_kind = aq_action_kind q, ap_arguments_summary = aq_arguments_summary q,
      ap_arguments_sha256 = aq_arguments_sha256 q, ap_arguments = aq_arguments q, ap_state = Apr_Pending,
      ap_claim_token = None, ap_outcome_code = None, ap_created_at = aq_created_at q,
      ap_expires_at = aq_expires_at q, ap_claimed_at = None, ap_resolved_at = None,
      ap_updated_at = aq_created_at q\<rparr>"

definition create_approval :: "approval_request \<Rightarrow> db \<Rightarrow> (approval_item \<times> db) result" where
  "create_approval q s =
     (let conflict = exists_row (\<lambda>r. ap_approval_id r = aq_approval_id q \<or> same_action q r) (approvals s);
          rows = (if conflict then approvals s else approvals s @ [new_approval_row q])
      in case find (same_action q) rows of
           None \<Rightarrow> Inl (RuntimeError ''approval insert conflicted with a different approval id'')
         | Some row \<Rightarrow>
             let s1 = s\<lparr>approvals := rows\<rparr>
             in Inr (list_item row,
                  if conflict then s1 else append_audit (approval_audit row ''approval.request'' ''pending'') s1))"

text \<open>A loop that changes the selected rows and audits each of them.\<close>

definition settle_rows ::
    "(approval_row \<Rightarrow> bool) \<Rightarrow> (approval_row \<Rightarrow> approval_row) \<Rightarrow> string \<Rightarrow> string \<Rightarrow> db \<Rightarrow> nat \<times> db" where
  "settle_rows P f action outcome s =
     (let hit = filter P (approvals s)
      in (length hit,
          fold (\<lambda>r. append_audit (approval_audit (f r) action outcome)) hit
            (s\<lparr>approvals := update_where P f (approvals s)\<rparr>)))"

definition expire_pending :: "str \<Rightarrow> time \<Rightarrow> db \<Rightarrow> nat \<times> db" where
  "expire_pending profile now s =
     settle_rows (\<lambda>r. ap_profile r = profile \<and> ap_state r = Apr_Pending \<and> ap_expires_at r \<le> now)
       (\<lambda>r. r\<lparr>ap_state := Apr_Denied, ap_outcome_code := Some (lit ''expired''), ap_resolved_at := Some now,
              ap_updated_at := now\<rparr>) ''approval.expire'' ''denied'' s"

definition list_pending ::
    "str \<Rightarrow> time \<Rightarrow> str option \<Rightarrow> str option \<Rightarrow> int \<Rightarrow> db \<Rightarrow> (approval_item list \<times> db) result" where
  "list_pending profile now channel chat limit s =
     (if limit < 1 \<or> 500 < limit then Inl (ValueError ''limit must be between 1 and 500'')
      else
        let s1 = snd (expire_pending profile now s)
        in Inr (map list_item (take (nat limit) (select_order (\<lambda>r. (ap_created_at r, ap_approval_id r))
             (\<lambda>r. ap_profile r = profile \<and> ap_state r = Apr_Pending \<and> now < ap_expires_at r \<and>
                (case channel of None \<Rightarrow> True | Some c \<Rightarrow> ap_channel r = c) \<and>
                (case chat of None \<Rightarrow> True | Some c \<Rightarrow> ap_chat_id r = c)) (approvals s1))), s1))"

definition get_safe :: "uuid \<Rightarrow> str \<Rightarrow> db \<Rightarrow> approval_item option" where
  "get_safe i profile s =
     map_option list_item (find (\<lambda>r. ap_approval_id r = i \<and> ap_profile r = profile) (approvals s))"

text \<open>\<open>tok\<close> is the fresh claim token; \<open>uq_approvals_claim_token\<close> refuses a token that is in use.\<close>

definition claim ::
    "(str \<Rightarrow> str) \<Rightarrow> (rat \<Rightarrow> str) \<Rightarrow> uuid \<Rightarrow> uuid \<Rightarrow> str \<Rightarrow> time \<Rightarrow> db \<Rightarrow> (approval_claim option \<times> db) result" where
  "claim sha flt tok i profile now s =
     (let s1 = snd (expire_pending profile now s);
          P = (\<lambda>r. ap_approval_id r = i \<and> ap_profile r = profile \<and> ap_state r = Apr_Pending \<and> now < ap_expires_at r);
          rows = update_where P (\<lambda>r. r\<lparr>ap_state := Apr_Executing, ap_claim_token := Some tok,
                   ap_claimed_at := Some now, ap_updated_at := now\<rparr>) (approvals s1);
          s2 = s1\<lparr>approvals := rows\<rparr>
      in if count_where P (approvals s1) \<noteq> 1 then Inr (None, s2)
         else if exists_row (\<lambda>r. ap_claim_token r = Some tok) (approvals s1)
         then Inl (OtherException ''IntegrityError'')
         else case get_row ap_approval_id i rows of
                None \<Rightarrow> Inl (RuntimeError ''claimed approval disappeared'')
              | Some row \<Rightarrow>
                  if ap_profile row \<noteq> profile then Inl (RuntimeError ''claimed approval disappeared'')
                  else bind_result (claim_of sha flt row) (\<lambda>c.
                    Inr (Some c, append_audit (approval_audit row ''approval.claim'' ''executing'') s2)))"

definition deny_approval :: "uuid \<Rightarrow> str \<Rightarrow> time \<Rightarrow> str \<Rightarrow> db \<Rightarrow> (bool \<times> db) result" where
  "deny_approval i profile now code s =
     (let s1 = snd (expire_pending profile now s);
          P = (\<lambda>r. ap_approval_id r = i \<and> ap_profile r = profile \<and> ap_state r = Apr_Pending);
          rows = update_where P (\<lambda>r. r\<lparr>ap_state := Apr_Denied, ap_outcome_code := Some code,
                   ap_resolved_at := Some now, ap_updated_at := now\<rparr>) (approvals s1);
          s2 = s1\<lparr>approvals := rows\<rparr>
      in if count_where P (approvals s1) \<noteq> 1 then Inr (False, s2)
         else case get_row ap_approval_id i rows of
                None \<Rightarrow> Inl AssertionError
              | Some row \<Rightarrow> Inr (True, append_audit (approval_audit row ''approval.decision'' ''denied'') s2))"

definition resolve_approval ::
    "uuid \<Rightarrow> str \<Rightarrow> uuid \<Rightarrow> approval_state \<Rightarrow> str \<Rightarrow> time \<Rightarrow> db \<Rightarrow> (bool \<times> db) result" where
  "resolve_approval i profile tok outcome code now s =
     (if outcome \<notin> {Apr_Approved, Apr_Denied, Apr_Unknown}
      then Inl (ValueError ''approval outcome must be approved, denied or unknown'')
      else
        let P = (\<lambda>r. ap_approval_id r = i \<and> ap_profile r = profile \<and> ap_state r = Apr_Executing \<and>
                   ap_claim_token r = Some tok);
            rows = update_where P (\<lambda>r. r\<lparr>ap_state := outcome, ap_outcome_code := Some code,
                     ap_resolved_at := Some now, ap_updated_at := now\<rparr>) (approvals s);
            s1 = s\<lparr>approvals := rows\<rparr>
        in if count_where P (approvals s) \<noteq> 1 then Inr (False, s1)
           else case get_row ap_approval_id i rows of
                  None \<Rightarrow> Inl AssertionError
                | Some row \<Rightarrow>
                    Inr (True, append_audit
                      (approval_audit row ''approval.execute'' (approval_state_value outcome)) s1))"

definition recover_executing :: "str \<Rightarrow> time \<Rightarrow> db \<Rightarrow> nat \<times> db" where
  "recover_executing profile now s =
     settle_rows (\<lambda>r. ap_profile r = profile \<and> ap_state r = Apr_Executing)
       (\<lambda>r. r\<lparr>ap_state := Apr_Unknown, ap_outcome_code := Some (lit ''interrupted_execution''),
              ap_resolved_at := Some now, ap_updated_at := now\<rparr>) ''approval.recover'' ''unknown'' s"

subsection \<open>The service\<close>

record approval_service =
  as_profile :: str
  as_default_ttl :: int

definition approval_service :: "str \<Rightarrow> int \<Rightarrow> approval_service result" where
  "approval_service profile ttl =
     (if profile = [] \<or> profile \<noteq> strip profile \<or> 32 < length profile \<or> 0 \<in> set profile
      then Inl (ValueError ''profile must be an exact stable identifier'')
      else if ttl \<le> 0 then Inl (ValueError ''default approval TTL must be positive'')
      else Inr \<lparr>as_profile = profile, as_default_ttl = ttl\<rparr>)"

definition outcome_code_ok :: "str \<Rightarrow> bool" where
  "outcome_code_ok v \<longleftrightarrow> 1 \<le> length v \<and> length v \<le> 128 \<and> list_all is_code_char v"

text \<open>\<open>now\<close> is the service's clock, \<open>aid\<close> the fresh approval id.\<close>

definition request_approval ::
    "(str \<Rightarrow> str) \<Rightarrow> (rat \<Rightarrow> str) \<Rightarrow> uuid \<Rightarrow> time \<Rightarrow> approval_service \<Rightarrow> str \<Rightarrow> str \<Rightarrow> str \<Rightarrow> str \<Rightarrow> str \<Rightarrow> dict \<Rightarrow>
     time option \<Rightarrow> db \<Rightarrow> (approval_item \<times> db) result" where
  "request_approval sha flt aid now sv channel chat event tool kind arguments expires s =
     (let expiry = (case expires of Some e \<Rightarrow> e | None \<Rightarrow> now + as_default_ttl sv)
      in bind_result (canonicalize_arguments sha flt arguments) (\<lambda>(normalized, digest, summary).
           let q = \<lparr>aq_approval_id = aid, aq_profile = as_profile sv, aq_channel = channel, aq_chat_id = chat,
                 aq_event_id = event, aq_tool_name = tool, aq_action_kind = kind, aq_arguments_summary = summary,
                 aq_arguments_sha256 = digest, aq_arguments = normalized, aq_created_at = now,
                 aq_expires_at = expiry\<rparr>
           in if approval_request_ok sha flt q then create_approval q s
              else Inl (ValidationError ''ApprovalRequest'')))"

definition pending_approvals ::
    "time \<Rightarrow> approval_service \<Rightarrow> str option \<Rightarrow> str option \<Rightarrow> int \<Rightarrow> db \<Rightarrow> (approval_item list \<times> db) result" where
  "pending_approvals now sv channel chat limit s = list_pending (as_profile sv) now channel chat limit s"

definition approval_status :: "approval_service \<Rightarrow> uuid \<Rightarrow> db \<Rightarrow> approval_item option" where
  "approval_status sv i s = get_safe i (as_profile sv) s"

definition approve_once ::
    "(str \<Rightarrow> str) \<Rightarrow> (rat \<Rightarrow> str) \<Rightarrow> uuid \<Rightarrow> time \<Rightarrow> approval_service \<Rightarrow> uuid \<Rightarrow> db \<Rightarrow> (approval_claim option \<times> db) result"
  where
  "approve_once sha flt tok now sv i s = claim sha flt tok i (as_profile sv) now s"

definition service_deny :: "time \<Rightarrow> approval_service \<Rightarrow> uuid \<Rightarrow> str \<Rightarrow> db \<Rightarrow> (bool \<times> db) result" where
  "service_deny now sv i code s =
     (if \<not> outcome_code_ok code then Inl (ValueError ''outcome_code must be a non-sensitive stable code'')
      else deny_approval i (as_profile sv) now code s)"

definition service_resolve ::
    "time \<Rightarrow> approval_service \<Rightarrow> approval_claim \<Rightarrow> approval_state \<Rightarrow> str \<Rightarrow> db \<Rightarrow> (bool \<times> db) result" where
  "service_resolve now sv c outcome code s =
     (if ai_profile c \<noteq> as_profile sv then Inl (ValueError ''approval claim belongs to another profile'')
      else if \<not> outcome_code_ok code then Inl (ValueError ''outcome_code must be a non-sensitive stable code'')
      else resolve_approval (ai_approval_id c) (as_profile sv) (ac_claim_token c) outcome code now s)"

definition service_recover :: "time \<Rightarrow> approval_service \<Rightarrow> db \<Rightarrow> nat \<times> db" where
  "service_recover now sv s = recover_executing (as_profile sv) now s"

subsection \<open>Well-formedness and moves\<close>

text \<open>\<open>ck_approvals_lifecycle_fields\<close>.\<close>

definition approval_row_ok :: "approval_row \<Rightarrow> bool" where
  "approval_row_ok r \<longleftrightarrow> (case ap_state r of
     Apr_Pending \<Rightarrow> ap_claim_token r = None \<and> ap_claimed_at r = None \<and> ap_resolved_at r = None
   | Apr_Executing \<Rightarrow> ap_claim_token r \<noteq> None \<and> ap_claimed_at r \<noteq> None \<and> ap_resolved_at r = None
   | Apr_Approved \<Rightarrow> ap_claim_token r \<noteq> None \<and> ap_claimed_at r \<noteq> None \<and> ap_resolved_at r \<noteq> None
   | Apr_Unknown \<Rightarrow> ap_claim_token r \<noteq> None \<and> ap_claimed_at r \<noteq> None \<and> ap_resolved_at r \<noteq> None
   | Apr_Denied \<Rightarrow> ap_resolved_at r \<noteq> None)"

inductive approval_edge :: "approval_state \<Rightarrow> approval_state \<Rightarrow> bool" where
  claimed: "approval_edge Apr_Pending Apr_Executing"
| refused: "approval_edge Apr_Pending Apr_Denied"
| executed: "approval_edge Apr_Executing Apr_Approved"
| failed: "approval_edge Apr_Executing Apr_Denied"
| lost: "approval_edge Apr_Executing Apr_Unknown"

declare approval_edge.intros [edge_intros, simp]
inductive_cases approval_edge_cases: "approval_edge a b"

definition approval_binding :: "approval_row \<Rightarrow> str list" where
  "approval_binding r = [ap_profile r, ap_channel r, ap_chat_id r, ap_event_id r, ap_tool_name r, ap_action_kind r,
     ap_arguments_sha256 r]"

definition approval_fixed :: "approval_row \<Rightarrow> approval_row \<Rightarrow> bool" where
  "approval_fixed r q \<longleftrightarrow> ap_approval_id q = ap_approval_id r \<and> approval_binding q = approval_binding r \<and>
     ap_arguments_summary q = ap_arguments_summary r \<and> ap_arguments q = ap_arguments r \<and>
     ap_created_at q = ap_created_at r \<and> ap_expires_at q = ap_expires_at r"

interpretation approval_rows: row_life ap_approval_id ap_state approval_fixed approval_row_ok approval_edge
  by unfold_locales (simp_all add: approval_fixed_def)

abbreviation approvals_moved :: "db \<Rightarrow> db \<Rightarrow> bool" where
  "approvals_moved s t \<equiv> table_moved ap_state approval_fixed approval_row_ok approval_edge (approvals s) (approvals t)"

definition approvals_inv :: "db \<Rightarrow> bool" where
  "approvals_inv s \<longleftrightarrow> distinct (map ap_approval_id (approvals s)) \<and> distinct (map approval_binding (approvals s)) \<and>
     (\<forall>r \<in> set (approvals s). approval_row_ok r)"

definition approval_state_of :: "db \<Rightarrow> uuid \<Rightarrow> approval_state option" where
  "approval_state_of s i = map_option ap_state (get_row ap_approval_id i (approvals s))"

lemma approvals_moved_inv: "approvals_moved s t \<Longrightarrow> approvals_inv s \<Longrightarrow> approvals_inv t"
  using approval_rows.moved_ok [of "approvals s" "approvals t"]
    approval_rows.moved_column [of "approvals s" "approvals t" ap_approval_id]
    approval_rows.moved_column [of "approvals s" "approvals t" approval_binding]
  by (simp add: approvals_inv_def approval_fixed_def)

lemma fold_audit_frame [simp]: "approvals (fold (\<lambda>r. append_audit (g r)) rs s) = approvals s"
  by (induction rs arbitrary: s) simp_all

lemma settle_rows_table: "approvals (snd (settle_rows P f a out s)) = update_where P f (approvals s)"
  by (simp add: settle_rows_def)

lemma expire_moved: "approvals_moved s (snd (expire_pending profile now s))"
  unfolding expire_pending_def
  by (rule table_movedI [OF settle_rows_table])
    (auto simp: row_move_def approval_fixed_def approval_binding_def approval_row_ok_def)

lemma recover_moved: "approvals_moved s (snd (recover_executing profile now s))"
  unfolding recover_executing_def
  by (rule table_movedI [OF settle_rows_table])
    (auto simp: row_move_def approval_fixed_def approval_binding_def approval_row_ok_def)

text \<open>After expiry, whatever is pending under the profile has time left.\<close>

lemma expired_rows:
  "r \<in> set (approvals (snd (expire_pending profile now s))) \<Longrightarrow> ap_profile r = profile \<Longrightarrow>
   ap_state r = Apr_Pending \<Longrightarrow> now < ap_expires_at r"
  unfolding expire_pending_def settle_rows_table set_update_where
  by (erule imageE) (simp split: if_splits)

lemma pending_row_same:
  assumes "get_row ap_approval_id i (approvals s) = Some r" and "ap_state r = Apr_Pending" and "now < ap_expires_at r"
  shows "get_row ap_approval_id i (approvals (snd (expire_pending profile now s))) = Some r"
  using assms by (simp add: expire_pending_def settle_rows_table get_row_update_where)

subsection \<open>The effect of each operation\<close>

lemma claim_cases:
  assumes "claim sha flt tok i profile now s = Inr (res, t)" and "approvals_inv s"
  obtains (none) "res = None" "approvals t = approvals (snd (expire_pending profile now s))"
  | (some) r c where "res = Some c" "get_row ap_approval_id i (approvals (snd (expire_pending profile now s))) = Some r"
      "ap_profile r = profile" "ap_state r = Apr_Pending" "now < ap_expires_at r"
      "claim_of sha flt (r\<lparr>ap_state := Apr_Executing, ap_claim_token := Some tok, ap_claimed_at := Some now,
          ap_updated_at := now\<rparr>) = Inr c"
      "approvals t = update_where (\<lambda>r. ap_approval_id r = i \<and> ap_profile r = profile \<and> ap_state r = Apr_Pending \<and>
            now < ap_expires_at r)
          (\<lambda>r. r\<lparr>ap_state := Apr_Executing, ap_claim_token := Some tok, ap_claimed_at := Some now,
             ap_updated_at := now\<rparr>) (approvals (snd (expire_pending profile now s)))"
proof -
  let ?s1 = "snd (expire_pending profile now s)"
  let ?Q = "\<lambda>r. ap_profile r = profile \<and> ap_state r = Apr_Pending \<and> now < ap_expires_at r"
  let ?P = "\<lambda>r. ap_approval_id r = i \<and> ?Q r"
  let ?f = "\<lambda>r. r\<lparr>ap_state := Apr_Executing, ap_claim_token := Some tok, ap_claimed_at := Some now, ap_updated_at := now\<rparr>"
  have inv: "approvals_inv ?s1" by (rule approvals_moved_inv [OF expire_moved assms(2)])
  then have d: "distinct (map ap_approval_id (approvals ?s1))" by (simp add: approvals_inv_def)
  note cw = count_where_unique_key [OF d, of i ?Q]
  show ?thesis
  proof (cases "count_where ?P (approvals ?s1) = 1")
    case False
    then have "count_where ?P (approvals ?s1) = 0" using count_where_le_1 [OF d, of i ?Q] by linarith
    then have "update_where ?P ?f (approvals ?s1) = approvals ?s1" by (rule update_where_none)
    with False assms(1) show ?thesis by (intro none) (auto simp: claim_def)
  next
    case True
    then obtain r where r: "get_row ap_approval_id i (approvals ?s1) = Some r" "?Q r"
      unfolding cw by (auto split: option.splits if_splits)
    have id: "ap_approval_id r = i" using get_row_in [OF r(1)] by blast
    have row: "get_row ap_approval_id i (update_where ?P ?f (approvals ?s1)) = Some (?f r)"
      using r id by (simp add: get_row_update_where)
    from assms(1) True row r(2) obtain c where "claim_of sha flt (?f r) = Inr c" "res = Some c"
        "approvals t = update_where ?P ?f (approvals ?s1)"
      by (auto simp: claim_def bind_result_def split: if_splits sum.splits)
    with r show ?thesis by (intro some [of c r]) auto
  qed
qed

lemma claim_update_moved:
  "row_move ap_state approval_fixed approval_row_ok approval_edge
     (\<lambda>r. ap_approval_id r = i \<and> ap_profile r = profile \<and> ap_state r = Apr_Pending \<and> now < ap_expires_at r)
     (\<lambda>r. r\<lparr>ap_state := Apr_Executing, ap_claim_token := Some tok, ap_claimed_at := Some now, ap_updated_at := now\<rparr>)"
  by (auto simp: row_move_def approval_fixed_def approval_binding_def approval_row_ok_def)

lemma deny_table:
  assumes "deny_approval i profile now code s = Inr (b, t)"
  shows "table_moved ap_state approval_fixed approval_row_ok approval_edge
    (approvals (snd (expire_pending profile now s))) (approvals t)"
proof (rule table_movedI)
  show "approvals t = update_where (\<lambda>r. ap_approval_id r = i \<and> ap_profile r = profile \<and> ap_state r = Apr_Pending)
      (\<lambda>r. r\<lparr>ap_state := Apr_Denied, ap_outcome_code := Some code, ap_resolved_at := Some now, ap_updated_at := now\<rparr>)
      (approvals (snd (expire_pending profile now s)))"
    using assms by (auto simp: deny_approval_def split: if_splits option.splits)
qed (auto simp: row_move_def approval_fixed_def approval_binding_def approval_row_ok_def)

lemma resolve_moved:
  assumes "resolve_approval i profile tok outcome code now s = Inr (b, t)"
  shows "approvals_moved s t"
proof (rule table_movedI)
  show "approvals t = update_where (\<lambda>r. ap_approval_id r = i \<and> ap_profile r = profile \<and> ap_state r = Apr_Executing \<and>
        ap_claim_token r = Some tok)
      (\<lambda>r. r\<lparr>ap_state := outcome, ap_outcome_code := Some code, ap_resolved_at := Some now, ap_updated_at := now\<rparr>)
      (approvals s)"
    using assms by (auto simp: resolve_approval_def split: if_splits option.splits)
  have "outcome \<in> {Apr_Approved, Apr_Denied, Apr_Unknown}"
    using assms by (auto simp: resolve_approval_def split: if_splits)
  then show "row_move ap_state approval_fixed approval_row_ok approval_edge
      (\<lambda>r. ap_approval_id r = i \<and> ap_profile r = profile \<and> ap_state r = Apr_Executing \<and> ap_claim_token r = Some tok)
      (\<lambda>r. r\<lparr>ap_state := outcome, ap_outcome_code := Some code, ap_resolved_at := Some now, ap_updated_at := now\<rparr>)"
    by (auto simp: row_move_def approval_fixed_def approval_binding_def approval_row_ok_def)
qed

lemma same_action_binding:
  "same_action q r \<longleftrightarrow> approval_binding r = [aq_profile q, aq_channel q, aq_chat_id q, aq_event_id q, aq_tool_name q,
     aq_action_kind q, aq_arguments_sha256 q]"
  by (auto simp: same_action_def approval_binding_def)

lemma new_approval_row_simps [simp]:
  "ap_approval_id (new_approval_row q) = aq_approval_id q" "ap_state (new_approval_row q) = Apr_Pending"
  "approval_row_ok (new_approval_row q)" "same_action q (new_approval_row q)"
  by (simp_all add: new_approval_row_def approval_row_ok_def same_action_def)

lemma create_approval_cases:
  assumes "create_approval q s = Inr (item, t)"
  obtains (old) row where "find (same_action q) (approvals s) = Some row" "item = list_item row" "t = s"
  | (fresh) "\<not> exists_row (\<lambda>r. ap_approval_id r = aq_approval_id q \<or> same_action q r) (approvals s)"
      "item = list_item (new_approval_row q)" "approvals t = approvals s @ [new_approval_row q]"
proof (cases "exists_row (\<lambda>r. ap_approval_id r = aq_approval_id q \<or> same_action q r) (approvals s)")
  case True
  with assms obtain row where "find (same_action q) (approvals s) = Some row"
    by (cases "find (same_action q) (approvals s)") (auto simp: create_approval_def)
  with True assms show ?thesis by (intro old [of row]) (auto simp: create_approval_def)
next
  case False
  then have "find (same_action q) (approvals s) = None"
    by (auto simp: find_None_iff exists_row_def list_ex_iff)
  then have "find (same_action q) (approvals s @ [new_approval_row q]) = Some (new_approval_row q)"
    by (simp add: find_append_None)
  with False assms show ?thesis by (intro fresh) (auto simp: create_approval_def)
qed

lemma create_approval_inv:
  assumes "create_approval q s = Inr (item, t)" and "approvals_inv s"
  shows "approvals_inv t"
  using assms(1)
proof (cases rule: create_approval_cases)
  case (old row)
  with assms(2) show ?thesis by simp
next
  case fresh
  have "approval_binding (new_approval_row q) \<notin> approval_binding ` set (approvals s)"
    using fresh(1) by (auto simp: exists_row_def list_ex_iff same_action_binding approval_binding_def new_approval_row_def)
  moreover have "aq_approval_id q \<notin> ap_approval_id ` set (approvals s)"
    using fresh(1) by (auto simp: exists_row_def list_ex_iff)
  ultimately show ?thesis using assms(2) by (simp add: approvals_inv_def fresh(3))
qed

subsection \<open>Steps\<close>

text \<open>The label names the approval whose execution the step authorizes.\<close>

inductive approval_step :: "db \<Rightarrow> uuid option \<Rightarrow> db \<Rightarrow> bool" where
  requesting: "request_approval sha flt aid now sv ch chat e tool kind args until s = Inr (item, t) \<Longrightarrow> approval_step s None t"
| listing: "pending_approvals now sv ch chat limit s = Inr (items, t) \<Longrightarrow> approval_step s None t"
| approving: "approve_once sha flt tok now sv i s = Inr (Some c, t) \<Longrightarrow> approval_step s (Some i) t"
| too_late: "approve_once sha flt tok now sv i s = Inr (None, t) \<Longrightarrow> approval_step s None t"
| denying: "service_deny now sv i code s = Inr (b, t) \<Longrightarrow> approval_step s None t"
| settling: "service_resolve now sv c outcome code s = Inr (b, t) \<Longrightarrow> approval_step s None t"
| restarting: "approval_step s None (snd (service_recover now sv s))"

lemma request_creates:
  assumes "request_approval sha flt aid now sv ch chat e tool kind args until s = Inr (item, t)"
  obtains q where "create_approval q s = Inr (item, t)" "approval_request_ok sha flt q"
    "aq_profile q = as_profile sv" "aq_channel q = ch" "aq_chat_id q = chat" "aq_event_id q = e" "aq_tool_name q = tool"
    "aq_action_kind q = kind" "aq_arguments q = canon_dict args" "aq_created_at q = now"
    "aq_expires_at q = (case until of Some x \<Rightarrow> x | None \<Rightarrow> now + as_default_ttl sv)"
    "aq_arguments_sha256 q = sha (json_text flt (JObj args))"
proof -
  from assms obtain normalized digest summary
    where c: "canonicalize_arguments sha flt args = Inr (normalized, digest, summary)"
    by (auto simp: request_approval_def bind_result_def split: sum.splits)
  then have n: "normalized = canon_dict args" "digest = sha (json_text flt (JObj args))"
    by (auto simp: canonicalize_arguments_def split: if_splits)
  show ?thesis
    using assms c n
    by (intro that [of "\<lparr>aq_approval_id = aid, aq_profile = as_profile sv, aq_channel = ch, aq_chat_id = chat,
                 aq_event_id = e, aq_tool_name = tool, aq_action_kind = kind, aq_arguments_summary = summary,
                 aq_arguments_sha256 = digest, aq_arguments = normalized, aq_created_at = now,
                 aq_expires_at = (case until of Some x \<Rightarrow> x | None \<Rightarrow> now + as_default_ttl sv)\<rparr>"])
      (auto simp: request_approval_def split: if_splits)
qed

text \<open>Every step is an insert, or an expiry followed by one conditional update, or one update.\<close>

definition expires_to :: "db \<Rightarrow> approval_row list \<Rightarrow> bool" where
  "expires_to s xs \<longleftrightarrow> xs = approvals s \<or> (\<exists>profile now. xs = approvals (snd (expire_pending profile now s)))"

lemma expires_to_self: "expires_to s (approvals s)"
  by (simp add: expires_to_def)

lemma expires_to_expired: "expires_to s (approvals (snd (expire_pending profile now s)))"
  by (auto simp: expires_to_def)

lemma shapeI:
  "expires_to s xs \<Longrightarrow> table_moved ap_state approval_fixed approval_row_ok approval_edge xs (approvals t) \<Longrightarrow>
   (\<exists>q item. create_approval q s = Inr (item, t)) \<or>
   (\<exists>xs. expires_to s xs \<and> table_moved ap_state approval_fixed approval_row_ok approval_edge xs (approvals t))"
  by blast

lemma approval_step_shape:
  assumes "approval_step s l t" and "approvals_inv s"
  shows "(\<exists>q item. create_approval q s = Inr (item, t)) \<or>
    (\<exists>xs. expires_to s xs \<and> table_moved ap_state approval_fixed approval_row_ok approval_edge xs (approvals t))"
  using assms(1)
proof (cases rule: approval_step.cases)
  case (requesting sha flt aid now sv ch chat e tool kind args until item)
  from requesting(2) show ?thesis by (rule request_creates) blast
next
  case (listing now sv ch chat limit items)
  then have "approvals t = approvals (snd (expire_pending (as_profile sv) now s))"
    by (auto simp: pending_approvals_def list_pending_def split: if_splits)
  then show ?thesis by (intro shapeI [OF expires_to_expired [of s "as_profile sv" now]]) (simp add: approval_rows.moved_same)
next
  case (approving sha flt tok now sv i c)
  from approving(2) [unfolded approve_once_def] assms(2) show ?thesis
  proof (cases rule: claim_cases)
    case (some r c)
    then show ?thesis by (intro shapeI [OF expires_to_expired [of s "as_profile sv" now]] table_movedI [OF some(7) claim_update_moved])
  qed simp
next
  case (too_late sha flt tok now sv i)
  from too_late(2) [unfolded approve_once_def] assms(2) show ?thesis
  proof (cases rule: claim_cases)
    case none
    then show ?thesis by (intro shapeI [OF expires_to_expired [of s "as_profile sv" now]]) (simp add: approval_rows.moved_same)
  qed simp
next
  case (denying now sv i code b)
  then have "deny_approval i (as_profile sv) now code s = Inr (b, t)"
    by (auto simp: service_deny_def split: if_splits)
  from deny_table [OF this] show ?thesis by (rule shapeI [OF expires_to_expired])
next
  case (settling now sv c outcome code b)
  then have "resolve_approval (ai_approval_id c) (as_profile sv) (ac_claim_token c) outcome code now s = Inr (b, t)"
    by (auto simp: service_resolve_def split: if_splits)
  from resolve_moved [OF this] show ?thesis by (rule shapeI [OF expires_to_self])
next
  case (restarting now sv)
  then show ?thesis
    using recover_moved [of s "as_profile sv" now] by (intro shapeI [OF expires_to_self]) (simp add: service_recover_def)
qed

lemma expires_to_inv:
  assumes "expires_to s xs" and "approvals_inv s"
  shows "approvals_inv (s\<lparr>approvals := xs\<rparr>)"
  using assms approvals_moved_inv [OF expire_moved]
  by (auto simp: expires_to_def approvals_inv_def)

lemma approval_step_inv:
  assumes "approval_step s l t" and "approvals_inv s"
  shows "approvals_inv t"
  using approval_step_shape [OF assms]
proof (elim disjE exE conjE)
  fix q item assume "create_approval q s = Inr (item, t)"
  then show ?thesis by (rule create_approval_inv [OF _ assms(2)])
next
  fix xs assume xs: "expires_to s xs" "table_moved ap_state approval_fixed approval_row_ok approval_edge xs (approvals t)"
  have "approvals_moved (s\<lparr>approvals := xs\<rparr>) t" using xs(2) by simp
  from approvals_moved_inv [OF this expires_to_inv [OF xs(1) assms(2)]] show ?thesis .
qed

lemma expires_to_row:
  assumes "expires_to s xs" and "get_row ap_approval_id i (approvals s) = Some r"
  shows "\<exists>q. get_row ap_approval_id i xs = Some q \<and> approval_fixed r q \<and>
    (ap_state q = ap_state r \<or> ap_state r = Apr_Pending \<and> ap_state q = Apr_Denied)"
  using assms
  by (auto simp: expires_to_def expire_pending_def settle_rows_table get_row_update_where approval_fixed_def
      approval_binding_def)

lemma approval_step_row:
  assumes "approval_step s l t" and "approvals_inv s" and "get_row ap_approval_id i (approvals s) = Some r"
  shows "\<exists>q. get_row ap_approval_id i (approvals t) = Some q \<and> approval_fixed r q \<and>
    (ap_state q = ap_state r \<or> approval_edge (ap_state r) (ap_state q))"
  using approval_step_shape [OF assms(1,2)]
proof (elim disjE exE conjE)
  fix q item assume "create_approval q s = Inr (item, t)"
  then have "get_row ap_approval_id i (approvals t) = Some r"
    by (cases rule: create_approval_cases) (use assms(3) in simp_all)
  then show ?thesis by (simp add: approval_fixed_def)
next
  fix xs assume xs: "expires_to s xs" "table_moved ap_state approval_fixed approval_row_ok approval_edge xs (approvals t)"
  from expires_to_row [OF xs(1) assms(3)] obtain p where p: "get_row ap_approval_id i xs = Some p" "approval_fixed r p"
    "ap_state p = ap_state r \<or> ap_state r = Apr_Pending \<and> ap_state p = Apr_Denied" by blast
  have "\<forall>r \<in> set xs. approval_row_ok r" using expires_to_inv [OF xs(1) assms(2)] by (simp add: approvals_inv_def)
  from approval_rows.moved_row [OF xs(2) this p(1)] obtain q
    where q: "get_row ap_approval_id i (approvals t) = Some q" "approval_fixed p q"
      "ap_state q = ap_state p \<or> approval_edge (ap_state p) (ap_state q)" by blast
  have "ap_state q = ap_state r \<or> approval_edge (ap_state r) (ap_state q)"
    using p(3) q(3) by (auto elim: approval_edge_cases)
  moreover have "approval_fixed r q" using p(2) q(2) by (simp add: approval_fixed_def)
  ultimately show ?thesis using q(1) by blast
qed

lemma approvals_inv_empty: "approvals s = [] \<Longrightarrow> approvals_inv s"
  by (simp add: approvals_inv_def)

lemma approval_step_status:
  assumes "approval_step s l t" and "approvals_inv s" and "approval_state_of s i = Some a"
  shows "\<exists>b. approval_state_of t i = Some b \<and> (b = a \<or> approval_edge a b)"
  using approval_step_row [OF assms(1,2)] assms(3) by (fastforce simp: approval_state_of_def)

interpretation approval_life: lifecycle "\<lambda>s. approvals s = []" "\<lambda>s t. \<exists>l. approval_step s l t" approvals_inv
  approval_state_of approval_edge
  by unfold_locales (auto intro: approvals_inv_empty approval_step_inv approval_step_status)

lemma approval_run_row:
  assumes "run approval_step s ls t" and "approvals_inv s" and "get_row ap_approval_id i (approvals s) = Some r"
  shows "\<exists>q. get_row ap_approval_id i (approvals t) = Some q \<and> approval_fixed r q"
  using assms
proof (induction arbitrary: r rule: run.induct)
  case (run_Nil s)
  then show ?case by (auto simp: approval_fixed_def)
next
  case (run_Cons s l t ls u)
  from approval_step_row [OF run_Cons.hyps(1) run_Cons.prems] obtain q
    where q: "get_row ap_approval_id i (approvals t) = Some q" "approval_fixed r q" by blast
  from run_Cons.IH [OF approval_step_inv [OF run_Cons.hyps(1) run_Cons.prems(1)] q(1)] q(2)
  show ?case by (auto simp: approval_fixed_def)
qed

definition approvals_left :: "db \<Rightarrow> uuid \<Rightarrow> nat" where
  "approvals_left s i = (case approval_state_of s i of None \<Rightarrow> 1 | Some st \<Rightarrow> if st = Apr_Pending then 1 else 0)"

lemma approve_states:
  assumes "approve_once sha flt tok now sv i s = Inr (Some c, t)" and "approvals_inv s"
  shows "approval_state_of s i = Some Apr_Pending \<and> approval_state_of t i = Some Apr_Executing"
  using assms(1) [unfolded approve_once_def] assms(2)
proof (cases rule: claim_cases)
  case (some r c)
  have id: "ap_approval_id r = i" using get_row_in [OF some(2)] by blast
  have "approval_state_of t i = Some Apr_Executing"
    using some(2-5) id by (simp add: approval_state_of_def some(7) get_row_update_where)
  have "get_row ap_approval_id i (approvals s) \<noteq> None"
    using some(2) by (auto simp: expire_pending_def settle_rows_table get_row_update_where)
  then obtain q where q: "get_row ap_approval_id i (approvals s) = Some q" by blast
  from some(2,4) q have "approval_state_of s i = Some Apr_Pending"
    by (auto simp: approval_state_of_def expire_pending_def settle_rows_table get_row_update_where split: if_splits)
  with \<open>approval_state_of t i = Some Apr_Executing\<close> show ?thesis by simp
qed simp

interpretation approval_uses: ranked_machine approval_step "\<lambda>i l. l = Some i" approvals_left approvals_inv
proof unfold_locales
  show "approval_step s l t \<Longrightarrow> approvals_inv s \<Longrightarrow> approvals_inv t" for s l t by (rule approval_step_inv)
  show "approvals_left t k + (if l = Some k then 1 else 0) \<le> approvals_left s k"
    if st: "approval_step s l t" and inv: "approvals_inv s" for s l t k
  proof (cases "l = Some k")
    case True
    with st obtain sha flt tok now sv c where "approve_once sha flt tok now sv k s = Inr (Some c, t)"
      by (auto elim: approval_step.cases)
    from approve_states [OF this inv] True show ?thesis by (simp add: approvals_left_def)
  next
    case False
    show ?thesis
    proof (cases "approval_state_of s k")
      case None
      then show ?thesis using False by (simp add: approvals_left_def split: option.split)
    next
      case (Some a)
      from approval_step_status [OF st inv Some] obtain b
        where "approval_state_of t k = Some b" "b = a \<or> approval_edge a b" by blast
      with Some False show ?thesis by (auto simp: approvals_left_def elim: approval_edge_cases)
    qed
  qed
qed

subsection \<open>The binding survives\<close>

lemma sort_items_keyed:
  "sort_items (map (\<lambda>kv. (fst kv, f kv)) kvs) = map (\<lambda>kv. (fst kv, f kv)) (sort_items kvs)"
proof -
  have ins: "insort_key fst (fst kv, f kv) (map (\<lambda>kv. (fst kv, f kv)) xs) =
      map (\<lambda>kv. (fst kv, f kv)) (insort_key fst kv xs)" for kv xs
    by (induction xs) auto
  show ?thesis
    unfolding sort_items_def by (induction kvs) (auto simp: ins)
qed

lemma sort_items_map: "sort_items (map (\<lambda>(k, v). (k, f v)) kvs) = map (\<lambda>(k, v). (k, f v)) (sort_items kvs)"
  using sort_items_keyed [of "\<lambda>kv. f (snd kv)" kvs] by (simp add: case_prod_unfold)

lemma sort_items_idem [simp]: "sort_items (sort_items kvs) = sort_items kvs"
  unfolding sort_items_def by (rule sort_key_id_if_sorted) simp

lemma sort_items_compose:
  "sort_items (map (\<lambda>(k, v). (k, f v)) (sort_items (map (\<lambda>(k, v). (k, g v)) kvs))) =
   sort_items (map (\<lambda>(k, v). (k, f (g v))) kvs)"
proof -
  have eq: "map ((\<lambda>(k, v). (k, f v)) \<circ> (\<lambda>(k, v). (k, g v))) kvs = map (\<lambda>(k, v). (k, f (g v))) kvs" by auto
  show ?thesis unfolding sort_items_map [symmetric] sort_items_idem map_map by (subst eq) (rule refl)
qed

lemma json_text_canon: "json_text flt (canon v) = json_text flt v"
proof (induction v rule: canon.induct)
  case (1 xs)
  then show ?case by (simp cong: map_cong)
next
  case (2 kvs)
  have "map (\<lambda>(k, v). (k, json_text flt (canon v))) kvs = map (\<lambda>(k, v). (k, json_text flt v)) kvs"
    using 2 by (auto cong: map_cong)
  then have "sort_items (map (\<lambda>(k, v). (k, json_text flt v)) (sort_items (map (\<lambda>(k, v). (k, canon v)) kvs))) =
      sort_items (map (\<lambda>(k, v). (k, json_text flt v)) kvs)"
    by (simp only: sort_items_compose)
  then show ?case by simp
qed simp_all

lemma canon_idem: "canon (canon v) = canon v"
proof (induction v rule: canon.induct)
  case (2 kvs)
  have "map (\<lambda>(k, v). (k, canon (canon v))) kvs = map (\<lambda>(k, v). (k, canon v)) kvs"
    using 2 by (auto cong: map_cong)
  then have "sort_items (map (\<lambda>(k, v). (k, canon v)) (sort_items (map (\<lambda>(k, v). (k, canon v)) kvs))) =
      sort_items (map (\<lambda>(k, v). (k, canon v)) kvs)"
    by (simp only: sort_items_compose)
  then show ?case by simp
qed (simp_all cong: map_cong)

lemma canon_dict_JObj: "canon (JObj d) = JObj (canon_dict d)"
  by (simp add: canon_dict_def)

lemma canon_dict_idem [simp]: "canon_dict (canon_dict d) = canon_dict d"
  using canon_idem [of "JObj d"] unfolding canon_dict_JObj by (rule json.inject(6) [THEN iffD1])

text \<open>Canonical arguments bind to the digest and summary that were computed for the original ones.\<close>

lemma canonicalize_twice:
  assumes "canonicalize_arguments sha flt args = Inr (normalized, digest, summary)"
  shows "binding_ok sha flt normalized digest summary"
proof -
  have n: "normalized = canon_dict args" using assms by (auto simp: canonicalize_arguments_def split: if_splits)
  have "json_text flt (JObj normalized) = json_text flt (JObj args)"
    unfolding n canon_dict_JObj [symmetric] by (rule json_text_canon)
  with assms n show ?thesis
    by (auto simp: binding_ok_def canonicalize_arguments_def split: if_splits)
qed

subsection \<open>Properties\<close>

text \<open>C10. An approval authorizes one execution: whatever approval operations run, restarts with recovery
  included, an approval is claimed for execution at most once; and once approved, denied or unknown, it
  stays so.\<close>

theorem approval_used_at_most_once:
  assumes "approvals_inv s" and "run approval_step s ls t"
  shows "length (filter (\<lambda>l. l = Some i) ls) \<le> 1 \<and>
    (\<forall>st. approval_state_of s i = Some st \<and> st \<in> {Apr_Approved, Apr_Denied, Apr_Unknown} \<longrightarrow>
       approval_state_of t i = Some st)"
proof
  have "approvals_left s i \<le> 1" by (simp add: approvals_left_def split: option.split)
  with approval_uses.marked_at_most [OF assms(2,1), of i]
  show "length (filter (\<lambda>l. l = Some i) ls) \<le> 1" by linarith
  show "\<forall>st. approval_state_of s i = Some st \<and> st \<in> {Apr_Approved, Apr_Denied, Apr_Unknown} \<longrightarrow>
       approval_state_of t i = Some st"
  proof (intro allI impI)
    fix st assume st: "approval_state_of s i = Some st \<and> st \<in> {Apr_Approved, Apr_Denied, Apr_Unknown}"
    show "approval_state_of t i = Some st"
      by (rule approval_life.final_run [OF run_rtranclp [OF assms(2)] assms(1)])
        (use st in \<open>auto elim: approval_edge_cases\<close>)
  qed
qed

lemma claim_result:
  assumes "claim_of sha flt r = Inr c"
  shows "ap_claim_token r = Some (ac_claim_token c)" "ac_arguments c = ap_arguments r"
    "approval_item.truncate c = list_item r"
    "binding_ok sha flt (ap_arguments r) (ap_arguments_sha256 r) (ap_arguments_summary r)"
  using assms
  by (auto simp: claim_of_def list_item_def approval_item.defs approval_claim.defs split: option.splits if_splits)

text \<open>What the administrator approves is what is executed: a claim can only be obtained before the
  approval expires and under its own profile, and it carries exactly the channel, chat, event, tool,
  action kind and arguments of the request that created the approval, however the table changed since.\<close>

theorem claim_carries_request:
  assumes "approvals_inv s"
    and "request_approval sha flt aid now sv ch chat e tool kind args until s = Inr (item, s1)"
    and "ai_approval_id item = aid" and "get_row ap_approval_id aid (approvals s) = None"
    and "run approval_step s1 ls t"
    and "approve_once sha flt tok now' sv' aid t = Inr (Some c, u)"
  shows "ac_arguments c = canon_dict args \<and> ai_channel c = ch \<and> ai_chat_id c = chat \<and> ai_event_id c = e \<and>
    ai_tool_name c = tool \<and> ai_action_kind c = kind \<and> ai_profile c = as_profile sv \<and> as_profile sv' = as_profile sv \<and>
    now' < (case until of Some x \<Rightarrow> x | None \<Rightarrow> now + as_default_ttl sv) \<and> ac_claim_token c = tok"
proof -
  obtain q where q: "create_approval q s = Inr (item, s1)" "aq_profile q = as_profile sv" "aq_channel q = ch"
    "aq_chat_id q = chat" "aq_event_id q = e" "aq_tool_name q = tool" "aq_action_kind q = kind"
    "aq_arguments q = canon_dict args" "aq_expires_at q = (case until of Some x \<Rightarrow> x | None \<Rightarrow> now + as_default_ttl sv)"
    by (rule request_creates [OF assms(2)])
  have inv1: "approvals_inv s1" by (rule create_approval_inv [OF q(1) assms(1)])
  have inv_t: "approvals_inv t" by (rule approval_uses.run_good [OF assms(5) inv1])
  from q(1) have r1: "get_row ap_approval_id aid (approvals s1) = Some (new_approval_row q)"
  proof (cases rule: create_approval_cases)
    case (old row)
    then have "row \<in> set (approvals s)" "ap_approval_id row = aid"
      using find_in [OF old(1)] assms(3) by (auto simp: list_item_def)
    with assms(4) show ?thesis by (auto simp: get_row_None)
  next
    case fresh
    then have "aq_approval_id q = aid" using assms(3) by (simp add: list_item_def new_approval_row_def)
    with fresh assms(4) show ?thesis by (simp add: get_row_append)
  qed
  from approval_run_row [OF assms(5) inv1 r1] obtain p
    where p: "get_row ap_approval_id aid (approvals t) = Some p" "approval_fixed (new_approval_row q) p" by blast
  from assms(6) [unfolded approve_once_def] inv_t show ?thesis
  proof (cases rule: claim_cases)
    case (some r c')
    from expires_to_row [OF expires_to_expired p(1), of "as_profile sv'" now'] some(2)
    have f: "approval_fixed p r" by auto
    note cr = claim_result [OF some(6)]
    have items: "approval_item.truncate c' = list_item (r\<lparr>ap_state := Apr_Executing, ap_claim_token := Some tok,
        ap_claimed_at := Some now', ap_updated_at := now'\<rparr>)" by (rule cr(3))
    have b: "approval_binding r = approval_binding (new_approval_row q)" "ap_arguments r = aq_arguments q"
        "ap_expires_at r = aq_expires_at q"
      using p(2) f by (auto simp: approval_fixed_def new_approval_row_def)
    have c: "c' = c" using some(1) by simp
    have "ai_channel c = ap_channel r" "ai_chat_id c = ap_chat_id r" "ai_event_id c = ap_event_id r"
        "ai_tool_name c = ap_tool_name r" "ai_action_kind c = ap_action_kind r" "ai_profile c = ap_profile r"
      using items c by (simp_all add: approval_item.defs list_item_def)
    with b cr(1,2) c q some(3,5) show ?thesis
      by (simp add: approval_binding_def new_approval_row_def)
  qed simp
qed

lemma summary_by_fields:
  "map field_summary (take n (sort_items d)) = take n (map snd (sort_items (map (\<lambda>kv. (fst kv, field_summary kv)) d)))"
  by (simp add: sort_items_keyed take_map comp_def)

lemma sort_items_length [simp]: "length (sort_items d) = length d"
  by (simp add: sort_items_def)

lemma field_summary_eq:
  assumes "fst x = fst y" and "sensitive_field_name (fst x) \<or> arg_shape False (snd x) = arg_shape False (snd y)"
  shows "field_summary x = field_summary y"
proof (cases "sensitive_field_name (fst x)")
  case True
  with assms(1) show ?thesis by (simp add: field_summary_def arg_shape_def)
next
  case False
  with assms show ?thesis by (simp add: field_summary_def)
qed

text \<open>The operator's list shows no argument values: two argument sets with the same field names, whose
  values agree in kind and length wherever the field name is not a sensitive one, have the same summary;
  of a sensitive field not even the kind or length shows.\<close>

theorem summary_hides_values:
  assumes "list_all2 (\<lambda>x y. fst x = fst y \<and>
      (sensitive_field_name (fst x) \<or> arg_shape False (snd x) = arg_shape False (snd y))) a b"
  shows "summarize_arguments a = summarize_arguments b"
proof -
  have "map (\<lambda>kv. (fst kv, field_summary kv)) a = map (\<lambda>kv. (fst kv, field_summary kv)) b"
    using assms
  proof (induction a b rule: list_all2_induct)
    case (Cons x a y b)
    have "field_summary x = field_summary y" by (rule field_summary_eq) (use Cons in blast)+
    with Cons show ?case by simp
  qed simp
  moreover have "length a = length b" using assms by (rule list_all2_lengthD)
  moreover from this have "a = [] \<longleftrightarrow> b = []" by auto
  ultimately show ?thesis by (simp only: summarize_arguments_def summary_by_fields sort_items_length Let_def)
qed

subsection \<open>Concrete runs\<close>

definition demo_hash :: str where
  "demo_hash = replicate 64 97"

definition demo_digest :: "str \<Rightarrow> str" where
  "demo_digest s = demo_hash"

definition demo_service :: approval_service where
  "demo_service = \<lparr>as_profile = lit ''agent'', as_default_ttl = minutes 15\<rparr>"

definition demo_args :: dict where
  "demo_args = [(lit ''mode'', JInt 1)]"

definition demo_request :: "(approval_item \<times> db) result" where
  "demo_request = request_approval demo_digest (\<lambda>_. []) (lit ''a1'') 100 demo_service (lit ''wechat_agent_lab'')
     (lit ''chat_1'') (lit ''e1'') (lit ''fs.write'') (lit ''write_file'') demo_args None empty_db"

definition demo_request_row :: approval_row where
  "demo_request_row = \<lparr>ap_approval_id = lit ''a1'', ap_profile = lit ''agent'', ap_channel = lit ''wechat_agent_lab'',
     ap_chat_id = lit ''chat_1'', ap_event_id = lit ''e1'', ap_tool_name = lit ''fs.write'', ap_action_kind = lit ''write_file'',
     ap_arguments_summary = lit ''mode=<number>'', ap_arguments_sha256 = demo_hash,
     ap_arguments = [(lit ''mode'', JInt 1)], ap_state = Apr_Pending,
     ap_claim_token = None, ap_outcome_code = None, ap_created_at = 100, ap_expires_at = 100 + minutes 15,
     ap_claimed_at = None, ap_resolved_at = None, ap_updated_at = 100\<rparr>"

lemma not_surrogate_lit: "\<not> has_surrogate (lit x)"
proof -
  have "\<And>c. of_char c < (256 :: nat)" by simp
  then have "\<not> (55296 :: nat) \<le> of_char c" for c
    using \<open>of_char c < (256 :: nat)\<close> by linarith
  then show ?thesis by (auto simp: has_surrogate_def lit_def list_ex_iff)
qed

lemma demo_canonical:
  "canonicalize_arguments demo_digest (\<lambda>_. []) demo_args =
     Inr ([(lit ''mode'', JInt 1)], demo_hash,
          lit ''mode=<number>'')"
proof -
  have t: "json_text (\<lambda>_. []) (JObj demo_args) = lit ''{\"mode\":1}''" unfolding demo_args_def by code_simp
  have u: "utf8_size (lit ''{\"mode\":1}'') = 10" by code_simp
  have c: "canon_dict demo_args = [(lit ''mode'', JInt 1)]" unfolding demo_args_def by code_simp
  have m: "summarize_arguments [(lit ''mode'', JInt 1)] = lit ''mode=<number>''" by code_simp
  show ?thesis
    unfolding canonicalize_arguments_def t c m Let_def u
    by (simp add: not_surrogate_lit demo_digest_def)
qed

definition demo_q :: approval_request where
  "demo_q = \<lparr>aq_approval_id = lit ''a1'', aq_profile = lit ''agent'', aq_channel = lit ''wechat_agent_lab'', aq_chat_id = lit ''chat_1'',
     aq_event_id = lit ''e1'', aq_tool_name = lit ''fs.write'', aq_action_kind = lit ''write_file'',
     aq_arguments_summary = lit ''mode=<number>'', aq_arguments_sha256 = demo_hash,
     aq_arguments = [(lit ''mode'', JInt 1)], aq_created_at = 100,
     aq_expires_at = 100 + minutes 15\<rparr>"

lemma demo_request_ok:
  "\<exists>item s1. demo_request = Inr (item, s1) \<and> ai_approval_id item = lit ''a1'' \<and> approvals s1 = [demo_request_row]"
proof -
  have ids: "exact_identifier (lit ''agent'')" "exact_identifier (lit ''wechat_agent_lab'')" "exact_identifier (lit ''chat_1'')"
      "exact_identifier (lit ''e1'')" "exact_identifier (lit ''write_file'')" "list_all is_code_char (lit ''fs.write'')"
      "is_digest demo_hash"
    by (code_simp, code_simp, code_simp, code_simp, code_simp, code_simp, code_simp)
  have "approval_request_ok demo_digest (\<lambda>_. []) demo_q"
    using ids canonicalize_twice [OF demo_canonical]
    by (simp add: approval_request_ok_def demo_q_def len_between_def minutes_def seconds_def)
  then have eq: "demo_request = create_approval demo_q empty_db"
    by (simp add: demo_request_def request_approval_def demo_canonical demo_service_def demo_q_def)
  have row: "new_approval_row demo_q = demo_request_row"
    by (simp add: new_approval_row_def demo_q_def demo_request_row_def)
  have "create_approval demo_q empty_db = Inr (list_item demo_request_row,
      append_audit (approval_audit demo_request_row ''approval.request'' ''pending'')
        (empty_db\<lparr>approvals := [demo_request_row]\<rparr>))"
    unfolding row [symmetric] by (simp add: create_approval_def exists_row_def)
  moreover have "ai_approval_id (list_item demo_request_row) = lit ''a1''"
    by (simp add: list_item_def demo_request_row_def)
  moreover have "approvals (append_audit (approval_audit demo_request_row ''approval.request'' ''pending'')
        (empty_db\<lparr>approvals := [demo_request_row]\<rparr>)) = [demo_request_row]" by simp
  ultimately show ?thesis unfolding eq by blast
qed

theorem claim_carries_request_witness:
  "\<exists>item s1 c u. demo_request = Inr (item, s1) \<and>
     approve_once demo_digest (\<lambda>_. []) (lit ''t1'') 200 demo_service (lit ''a1'') s1 = Inr (Some c, u) \<and>
     ac_arguments c = canon_dict demo_args"
proof -
  from demo_request_ok obtain item s1 where r: "demo_request = Inr (item, s1)" "ai_approval_id item = lit ''a1''"
    "approvals s1 = [demo_request_row]" by blast
  have b: "binding_ok demo_digest (\<lambda>_. []) (ap_arguments demo_request_row) (ap_arguments_sha256 demo_request_row)
      (ap_arguments_summary demo_request_row)"
    unfolding demo_request_row_def using canonicalize_twice [OF demo_canonical] by simp
  obtain c u where c: "approve_once demo_digest (\<lambda>_. []) (lit ''t1'') 200 demo_service (lit ''a1'') s1 = Inr (Some c, u)"
    using b
    by (simp add: approve_once_def claim_def expire_pending_def settle_rows_def r(3) demo_request_row_def demo_service_def
        count_where_def exists_row_def update_where_def claim_of_def minutes_def seconds_def)
  have "approvals_inv empty_db" by (rule approvals_inv_empty) simp
  from claim_carries_request [OF this r(1) [unfolded demo_request_def] r(2) _ run_Nil c]
  have "ac_arguments c = canon_dict demo_args" by simp
  with r(1) c show ?thesis by blast
qed

definition demo_approvals :: db where
  "demo_approvals = empty_db\<lparr>approvals := [demo_request_row\<lparr>ap_state := Apr_Unknown, ap_claim_token := Some (lit ''t1''),
     ap_claimed_at := Some 200, ap_resolved_at := Some 300\<rparr>]\<rparr>"

theorem approval_used_at_most_once_witness:
  "approval_state_of (snd (service_recover 400 demo_service demo_approvals)) (lit ''a1'') = Some Apr_Unknown"
proof -
  have inv: "approvals_inv demo_approvals"
    by (simp add: approvals_inv_def demo_approvals_def approval_row_ok_def)
  have st: "approval_state_of demo_approvals (lit ''a1'') = Some Apr_Unknown"
    by (simp add: approval_state_of_def demo_approvals_def demo_request_row_def)
  have "run approval_step demo_approvals [None] (snd (service_recover 400 demo_service demo_approvals))"
    by (auto intro: approval_step.restarting)
  from approval_used_at_most_once [OF inv this, of "lit ''a1''"] st show ?thesis by blast
qed

theorem summary_hides_values_witness:
  "summarize_arguments [(lit ''password'', JStr (lit ''hunter2''))] = summarize_arguments [(lit ''password'', JNull)]"
proof -
  have "sensitive_field_name (lit ''password'')" by code_simp
  then show ?thesis by (intro summary_hides_values) simp
qed

end
