(* ===== verification/Policy.thy ===== *)
theory Policy
  imports Outbox Broker_State
begin

text \<open>
  \<open>lemonbot/policy\<close>: the deterministic policy engine (\<open>engine.py\<close>) and its configuration
  (\<open>config.py\<close>). Every evaluation reads the repository and appends one audit record; a decision that
  its own model refuses (\<open>PolicyEvaluation\<close> bounds the retry delay) is an exception.
\<close>

subsection \<open>Configuration\<close>

record rate_limits =
  rl_reply_per_10_minutes :: nat
  rl_reply_per_hour :: nat
  rl_reply_per_day :: nat
  rl_global_per_day :: nat
  rl_proactive_cooldown_hours :: nat
  rl_proactive_per_day :: nat
  rl_proactive_global_per_day :: nat
  rl_proactive_enabled :: bool

definition wechat_lab_limits :: rate_limits where
  "wechat_lab_limits = \<lparr>rl_reply_per_10_minutes = 3, rl_reply_per_hour = 10, rl_reply_per_day = 30,
     rl_global_per_day = 50, rl_proactive_cooldown_hours = 12, rl_proactive_per_day = 2,
     rl_proactive_global_per_day = 10, rl_proactive_enabled = False\<rparr>"

text \<open>What \<open>RateLimitProfile\<close> enforces on its fields.\<close>

definition rate_limits_ok :: "rate_limits \<Rightarrow> bool" where
  "rate_limits_ok l \<longleftrightarrow> 1 \<le> rl_reply_per_day l \<and> 1 \<le> rl_global_per_day l \<and>
     1 \<le> rl_proactive_cooldown_hours l \<and> 1 \<le> rl_proactive_per_day l \<and> 1 \<le> rl_proactive_global_per_day l"

text \<open>A time zone: the wall clock of an instant, and the instant of a wall-clock time (\<open>fold = 0\<close>), both
  in microseconds. The zone data base is not part of the program; \<open>fixed_zone\<close> is a zone without
  clock changes, such as the default \<open>Asia/Shanghai\<close>.\<close>

record zone =
  zn_local :: "time \<Rightarrow> int"
  zn_utc :: "int \<Rightarrow> time"

definition fixed_zone :: "int \<Rightarrow> zone" where
  "fixed_zone off = \<lparr>zn_local = (\<lambda>t. t + off), zn_utc = (\<lambda>w. w - off)\<rparr>"

record policy_config =
  pc_quiet_enabled :: bool
  pc_zone :: zone
  pc_quiet_start :: int
  pc_quiet_end :: int
  pc_wechat_lab :: rate_limits
  pc_fallback :: rate_limits
  pc_auto_actions :: "str list"
  pc_approval_actions :: "str list"

definition default_config :: policy_config where
  "default_config = \<lparr>pc_quiet_enabled = True, pc_zone = fixed_zone (hours 8), pc_quiet_start = hours 23,
     pc_quiet_end = hours 8, pc_wechat_lab = wechat_lab_limits, pc_fallback = wechat_lab_limits,
     pc_auto_actions = map lit [''reply'', ''model_call'', ''summarize'', ''memory_read'', ''memory_write'',
       ''browse_public_https'', ''vision_read'', ''read_file'', ''mcp_read''],
     pc_approval_actions = map lit [''write_file'', ''mcp_write'']\<rparr>"

definition limits_for :: "policy_config \<Rightarrow> str \<Rightarrow> rate_limits" where
  "limits_for cfg channel =
     (if casefold channel \<in> set (map lit [''wechat'', ''wechat_lab'', ''personal_wechat'',
            ''wechat_personal_lab'', ''wechat_agent_lab''])
      then pc_wechat_lab cfg else pc_fallback cfg)"

subsection \<open>The fixed tables\<close>

definition hard_denied_actions :: "str list" where
  "hard_denied_actions = map lit
     [''payment'', ''purchase'', ''buy'', ''transfer_money'', ''financial_transaction'', ''subscribe_paid'',
      ''credential_access'', ''read_secret'', ''mfa'', ''oauth_authorize'', ''account_security'',
      ''install_software'', ''elevate'', ''registry_write'', ''security_setting'', ''permanent_delete'',
      ''shell'', ''run_command'', ''arbitrary_code'', ''batch_send'', ''add_contact'', ''create_group'',
      ''mention_all'']"

definition hard_denied :: "str \<Rightarrow> bool" where
  "hard_denied kind \<longleftrightarrow> kind \<in> set hard_denied_actions \<or>
     list_ex (\<lambda>p. prefix p kind)
       (map lit [''payment.'', ''purchase.'', ''shell.'', ''credential.'', ''delete.permanent''])"

definition communication_actions :: "str list" where
  "communication_actions = map lit [''reply'', ''proactive_message'']"

definition contains_secret :: "proposed_action \<Rightarrow> bool" where
  "contains_secret a \<longleftrightarrow>
     (case dget (pa_arguments a) ''data_class'' of
        Some (JStr v) \<Rightarrow> casefold v = casefold (lit ''SECRET'')
      | _ \<Rightarrow> False) \<and>
     casefold (pa_kind a) \<in> set (map lit [''reply'', ''proactive_message'', ''model_call'', ''mcp_tool'',
        ''mcp_read'', ''mcp_write''])"

definition action_message_id :: "proposed_action \<Rightarrow> uuid option" where
  "action_message_id a =
     (case dget (pa_arguments a) ''message_id'' of None \<Rightarrow> None | Some JNull \<Rightarrow> None
      | Some v \<Rightarrow> uuid_of_json v)"

subsection \<open>Quiet hours\<close>

definition time_of_day :: "int \<Rightarrow> int" where
  "time_of_day w = w mod days 1"

definition is_quiet :: "policy_config \<Rightarrow> int \<Rightarrow> bool" where
  "is_quiet cfg wall \<longleftrightarrow> pc_quiet_enabled cfg \<and>
     (let current = time_of_day wall; start = pc_quiet_start cfg; stop = pc_quiet_end cfg
      in if start = stop then True
         else if start < stop then start \<le> current \<and> current < stop
         else current \<ge> start \<or> current < stop)"

text \<open>The wall-clock moment at which the quiet period ends: the date of \<open>wall\<close>, or the next one.\<close>

definition quiet_end_wall :: "policy_config \<Rightarrow> int \<Rightarrow> int" where
  "quiet_end_wall cfg wall =
     (let midnight = wall - time_of_day wall;
          end_date = (if pc_quiet_end cfg \<le> pc_quiet_start cfg \<and> pc_quiet_start cfg \<le> time_of_day wall
                      then midnight + days 1 else midnight)
      in end_date + pc_quiet_end cfg)"

definition quiet_retry_seconds :: "policy_config \<Rightarrow> time \<Rightarrow> int" where
  "quiet_retry_seconds cfg clk =
     (let wall = zn_local (pc_zone cfg) clk;
          secs = total_seconds (zn_utc (pc_zone cfg) (quiet_end_wall cfg wall) - clk)
      in min 86400 (max 1 secs))"

subsection \<open>Decisions\<close>

definition decision ::
    "time \<Rightarrow> proposed_action \<Rightarrow> policy_decision \<Rightarrow> string \<Rightarrow> string \<Rightarrow> int option \<Rightarrow> db \<Rightarrow>
     (policy_evaluation \<times> db) result" where
  "decision now a d rule reason retry s =
     bind_result (policy_evaluation d rule reason retry) (\<lambda>ev.
       Inr (ev, append_audit
         \<lparr>ar_action = lit ''policy.'' @ pa_kind a, ar_outcome = lit (policy_decision_value d),
          ar_channel = pa_channel a, ar_chat_id = pa_chat_id a, ar_event_id = pa_reason_event_id a,
          ar_message_id = None, ar_rule_id = Some (lit rule),
          ar_detail = [(lit ''proactive'', JBool (pa_proactive a)), (lit ''side_effect'', JBool (pa_side_effect a))],
          ar_occurred_at = now\<rparr> s))"

definition show_nat :: "nat \<Rightarrow> string" where
  "show_nat n = map char_of (str_of_int (int n))"

text \<open>The loop over the three reply windows: the first exhausted one.\<close>

definition reply_windows :: "rate_limits \<Rightarrow> (int \<times> nat \<times> string) list" where
  "reply_windows l = [(minutes 10, rl_reply_per_10_minutes l, ''reply_10m''),
     (hours 1, rl_reply_per_hour l, ''reply_hour''), (days 1, rl_reply_per_day l, ''reply_day'')]"

definition exhausted_window ::
    "time \<Rightarrow> str \<Rightarrow> str \<Rightarrow> uuid option \<Rightarrow> db \<Rightarrow> rate_limits \<Rightarrow> (int \<times> nat \<times> string) option" where
  "exhausted_window clk channel chat excluded s l =
     find (\<lambda>(duration, maximum, rule). maximum \<noteq> 0 \<and>
        maximum \<le> count_outbound_since (clk - duration) channel (Some chat) None excluded s) (reply_windows l)"

definition evaluate_reply ::
    "time \<Rightarrow> time \<Rightarrow> proposed_action \<Rightarrow> str \<Rightarrow> str \<Rightarrow> rate_limits \<Rightarrow> db \<Rightarrow> (policy_evaluation \<times> db) result" where
  "evaluate_reply clk now a channel chat l s =
     (let excluded = action_message_id a
      in case exhausted_window clk channel chat excluded s l of
           Some (duration, maximum, rule) \<Rightarrow>
             let count = count_outbound_since (clk - duration) channel (Some chat) None excluded s
             in decision now a Deny (''rate_'' @ rule)
                  (''reply quota reached ('' @ show_nat count @ ''/'' @ show_nat maximum @ '')'')
                  (Some (total_seconds duration)) s
         | None \<Rightarrow>
             let global_count = count_outbound_since (clk - days 1) channel None None excluded s
             in if rl_global_per_day l \<le> global_count
                then decision now a Deny ''rate_global_day''
                  (''channel daily quota reached ('' @ show_nat global_count @ ''/'' @
                     show_nat (rl_global_per_day l) @ '')'') (Some 86400) s
                else decision now a Auto ''reply_allowed'' ''allowlisted reply within quota'' None s)"

definition evaluate_proactive ::
    "policy_config \<Rightarrow> time \<Rightarrow> time \<Rightarrow> proposed_action \<Rightarrow> str \<Rightarrow> str \<Rightarrow> rate_limits \<Rightarrow> db \<Rightarrow>
     (policy_evaluation \<times> db) result" where
  "evaluate_proactive cfg clk now a channel chat l s =
     (let excluded = action_message_id a;
          cooldown = int (rl_proactive_cooldown_hours l)
      in if \<not> rl_proactive_enabled l
         then decision now a Deny ''proactive_disabled''
           ''proactive messaging is disabled for this channel'' None s
         else if pa_reason_event_id a = None \<or> pa_reason_event_id a = Some []
         then decision now a Deny ''proactive_no_reason''
           ''proactive messages require a stored reason event'' None s
         else if is_quiet cfg (zn_local (pc_zone cfg) clk)
         then decision now a Deny ''quiet_hours''
           ''proactive messaging is blocked during quiet hours'' (Some (quiet_retry_seconds cfg clk)) s
         else if count_outbound_since (clk - hours cooldown) channel (Some chat) (Some True) excluded s \<noteq> 0
         then decision now a Deny ''proactive_cooldown''
           ''per-chat proactive cooldown is active'' (Some (cooldown * 3600)) s
         else if rl_proactive_per_day l \<le>
             count_outbound_since (clk - days 1) channel (Some chat) (Some True) excluded s
         then decision now a Deny ''proactive_chat_day''
           ''per-chat proactive daily quota reached'' (Some 86400) s
         else if rl_proactive_global_per_day l \<le>
             count_outbound_since (clk - days 1) channel None (Some True) excluded s
         then decision now a Deny ''proactive_global_day''
           ''global proactive daily quota reached'' (Some 86400) s
         else decision now a Auto ''proactive_allowed'' ''allowlisted proactive message within quota'' None s)"

definition evaluate_communication ::
    "policy_config \<Rightarrow> time \<Rightarrow> time \<Rightarrow> proposed_action \<Rightarrow> str \<Rightarrow> db \<Rightarrow> (policy_evaluation \<times> db) result" where
  "evaluate_communication cfg clk now a kind s =
     (case (pa_channel a, pa_chat_id a) of
        (Some channel, Some chat) \<Rightarrow>
          if \<not> is_allowlisted channel chat s
          then decision now a Enroll ''chat_not_allowlisted'' ''chat is not enrolled in the allowlist'' None s
          else if channel = lit ''wechat_agent_lab'' \<and> \<not> pa_proactive a \<and>
                  is_quiet cfg (zn_local (pc_zone cfg) clk)
          then decision now a Deny ''quiet_hours'' ''canary reply is in quiet hours''
                 (Some (quiet_retry_seconds cfg clk)) s
          else
            let l = limits_for cfg channel
            in if pa_proactive a \<or> kind = lit ''proactive_message''
               then evaluate_proactive cfg clk now a channel chat l s
               else evaluate_reply clk now a channel chat l s
      | _ \<Rightarrow> decision now a Deny ''missing_destination''
               ''communication requires a broker-owned destination'' None s)"

definition evaluate ::
    "policy_config \<Rightarrow> time \<Rightarrow> time \<Rightarrow> proposed_action \<Rightarrow> db \<Rightarrow> (policy_evaluation \<times> db) result" where
  "evaluate cfg clk now a s =
     (let kind = strip (casefold (pa_kind a))
      in if hard_denied kind
         then decision now a Deny ''hard_denial'' ''action is always forbidden'' None s
         else if pa_bound_channel a \<noteq> None \<and> pa_channel a \<noteq> pa_bound_channel a
         then decision now a Deny ''destination_mismatch'' ''channel differs from broker-owned route'' None s
         else if pa_bound_chat_id a \<noteq> None \<and> pa_chat_id a \<noteq> pa_bound_chat_id a
         then decision now a Deny ''destination_mismatch'' ''chat differs from broker-owned route'' None s
         else if contains_secret a
         then decision now a Deny ''secret_boundary'' ''SECRET data cannot enter a model or message'' None s
         else if pa_side_effect a \<and> is_paused (pa_channel a) s
         then decision now a Deny ''runtime_paused'' ''side effects are paused'' (Some 30) s
         else if kind \<in> set communication_actions
         then evaluate_communication cfg clk now a kind s
         else if kind = lit ''mcp_tool''
         then (if \<not> dflag (pa_arguments a) ''enrolled''
               then decision now a Enroll ''mcp_not_enrolled''
                 ''tool must be pinned and enrolled by an administrator'' None s
               else if pa_side_effect a
               then decision now a Approve_Once ''mcp_side_effect''
                 ''enrolled MCP side effect requires one-time approval'' None s
               else decision now a Auto ''mcp_read_enrolled'' ''enrolled read-only MCP tool'' None s)
         else if kind \<in> set (pc_approval_actions cfg)
         then decision now a Approve_Once ''explicit_approval''
           ''action requires one-time administrator approval'' None s
         else if kind \<in> set (pc_auto_actions cfg)
         then decision now a Auto ''safe_capability'' ''action is within an enrolled safe capability'' None s
         else decision now a Deny ''unknown_action'' ''unknown actions are denied by default'' None s)"

subsection \<open>Library\<close>

lemma decision_Inr:
  assumes "decision now a d rule reason retry s = Inr (ev, t)"
  shows "pe_decision ev = d" "pe_rule_id ev = rule" "pe_retry_after ev = retry" "pe_reason ev = reason"
    and "\<exists>ar. t = append_audit ar s \<and> ar_outcome ar = lit (policy_decision_value d) \<and>
      ar_rule_id ar = Some (lit rule) \<and> ar_channel ar = pa_channel a \<and> ar_chat_id ar = pa_chat_id a"
  using assms by (auto simp: decision_def policy_evaluation_def raise_if_def split: if_splits)

lemma decision_ok:
  assumes "rule \<noteq> []" "length rule \<le> 128" "reason \<noteq> []" "length reason \<le> 2000"
    and "\<And>n. retry = Some n \<Longrightarrow> 1 \<le> n \<and> n \<le> 86400"
  shows "\<exists>ev ar. decision now a d rule reason retry s = Inr (ev, append_audit ar s) \<and> pe_decision ev = d \<and>
    pe_rule_id ev = rule \<and> pe_retry_after ev = retry"
  using assms by (auto simp: decision_def policy_evaluation_def raise_if_def split: option.split)

text \<open>The branches of \<open>evaluate\<close> that allow.\<close>

definition reply_within :: "time \<Rightarrow> str \<Rightarrow> str \<Rightarrow> uuid option \<Rightarrow> rate_limits \<Rightarrow> db \<Rightarrow> bool" where
  "reply_within clk channel chat excluded l s \<longleftrightarrow>
     list_all (\<lambda>(duration, maximum, rule). maximum = 0 \<or>
        count_outbound_since (clk - duration) channel (Some chat) None excluded s < maximum) (reply_windows l) \<and>
     count_outbound_since (clk - days 1) channel None None excluded s < rl_global_per_day l"

definition proactive_within ::
    "policy_config \<Rightarrow> time \<Rightarrow> proposed_action \<Rightarrow> str \<Rightarrow> str \<Rightarrow> uuid option \<Rightarrow> rate_limits \<Rightarrow> db \<Rightarrow> bool" where
  "proactive_within cfg clk a channel chat excluded l s \<longleftrightarrow>
     rl_proactive_enabled l \<and> pa_reason_event_id a \<notin> {None, Some []} \<and>
     \<not> is_quiet cfg (zn_local (pc_zone cfg) clk) \<and>
     count_outbound_since (clk - hours (int (rl_proactive_cooldown_hours l))) channel (Some chat) (Some True) excluded s = 0 \<and>
     count_outbound_since (clk - days 1) channel (Some chat) (Some True) excluded s < rl_proactive_per_day l \<and>
     count_outbound_since (clk - days 1) channel None (Some True) excluded s < rl_proactive_global_per_day l"

lemma exhausted_window_None:
  "exhausted_window clk channel chat excluded s l = None \<longleftrightarrow>
   list_all (\<lambda>(duration, maximum, rule). maximum = 0 \<or>
        count_outbound_since (clk - duration) channel (Some chat) None excluded s < maximum) (reply_windows l)"
  by (auto simp: exhausted_window_def find_None_iff list_all_iff not_le)

lemma evaluate_reply_auto:
  assumes "evaluate_reply clk now a channel chat l s = Inr (ev, t)" and "pe_decision ev = Auto"
  shows "reply_within clk channel chat (action_message_id a) l s"
proof (cases "exhausted_window clk channel chat (action_message_id a) s l")
  case None
  with assms have "count_outbound_since (clk - days 1) channel None None (action_message_id a) s < rl_global_per_day l"
    by (auto simp: evaluate_reply_def not_le dest: decision_Inr(1) split: if_splits)
  with None show ?thesis by (simp only: reply_within_def exhausted_window_None)
next
  case (Some w)
  obtain dur mx rule where "w = (dur, mx, rule)" by (cases w)
  with Some assms show ?thesis by (auto simp: evaluate_reply_def dest: decision_Inr(1))
qed

lemma evaluate_proactive_auto:
  assumes "evaluate_proactive cfg clk now a channel chat l s = Inr (ev, t)" and "pe_decision ev = Auto"
  shows "proactive_within cfg clk a channel chat (action_message_id a) l s"
  using assms
  by (auto simp: evaluate_proactive_def proactive_within_def not_le dest: decision_Inr(1) split: if_splits)

definition communication_allowed :: "policy_config \<Rightarrow> time \<Rightarrow> proposed_action \<Rightarrow> str \<Rightarrow> db \<Rightarrow> bool" where
  "communication_allowed cfg clk a kind s \<longleftrightarrow>
     (\<exists>channel chat. pa_channel a = Some channel \<and> pa_chat_id a = Some chat \<and> is_allowlisted channel chat s \<and>
        (channel = lit ''wechat_agent_lab'' \<longrightarrow> \<not> is_quiet cfg (zn_local (pc_zone cfg) clk)) \<and>
        (if pa_proactive a \<or> kind = lit ''proactive_message''
         then proactive_within cfg clk a channel chat (action_message_id a) (limits_for cfg channel) s
         else reply_within clk channel chat (action_message_id a) (limits_for cfg channel) s))"

lemma evaluate_communication_auto:
  assumes "evaluate_communication cfg clk now a kind s = Inr (ev, t)" and "pe_decision ev = Auto"
  shows "communication_allowed cfg clk a kind s"
proof -
  from assms obtain channel chat where c: "pa_channel a = Some channel" "pa_chat_id a = Some chat"
    by (auto simp: evaluate_communication_def dest: decision_Inr(1) split: option.splits)
  with assms have al: "is_allowlisted channel chat s"
    by (auto simp: evaluate_communication_def dest: decision_Inr(1) split: if_splits)
  have q: "channel = lit ''wechat_agent_lab'' \<Longrightarrow> \<not> pa_proactive a \<Longrightarrow> \<not> is_quiet cfg (zn_local (pc_zone cfg) clk)"
    using assms c al by (auto simp: evaluate_communication_def dest: decision_Inr(1) split: if_splits)
  show ?thesis
  proof (cases "pa_proactive a \<or> kind = lit ''proactive_message''")
    case True
    with assms c al q have "evaluate_proactive cfg clk now a channel chat (limits_for cfg channel) s = Inr (ev, t)"
      by (auto simp: evaluate_communication_def dest: decision_Inr(1) split: if_splits)
    from evaluate_proactive_auto [OF this assms(2)] c al True show ?thesis
      by (auto simp: communication_allowed_def proactive_within_def)
  next
    case False
    with assms c al q have "evaluate_reply clk now a channel chat (limits_for cfg channel) s = Inr (ev, t)"
      by (auto simp: evaluate_communication_def dest: decision_Inr(1) split: if_splits)
    from evaluate_reply_auto [OF this assms(2)] c al q False show ?thesis
      by (auto simp: communication_allowed_def)
  qed
qed

text \<open>What an automatic decision rests on, for any action.\<close>

definition auto_allowed :: "policy_config \<Rightarrow> time \<Rightarrow> proposed_action \<Rightarrow> db \<Rightarrow> bool" where
  "auto_allowed cfg clk a s \<longleftrightarrow>
     (let kind = strip (casefold (pa_kind a))
      in \<not> hard_denied kind \<and>
         (pa_bound_channel a \<noteq> None \<longrightarrow> pa_channel a = pa_bound_channel a) \<and>
         (pa_bound_chat_id a \<noteq> None \<longrightarrow> pa_chat_id a = pa_bound_chat_id a) \<and>
         \<not> contains_secret a \<and> (pa_side_effect a \<longrightarrow> \<not> is_paused (pa_channel a) s) \<and>
         (if kind \<in> set communication_actions then communication_allowed cfg clk a kind s
          else if kind = lit ''mcp_tool'' then dflag (pa_arguments a) ''enrolled'' \<and> \<not> pa_side_effect a
          else kind \<in> set (pc_auto_actions cfg) \<and> kind \<notin> set (pc_approval_actions cfg)))"

lemma evaluate_auto:
  assumes "evaluate cfg clk now a s = Inr (ev, t)" and "pe_decision ev = Auto"
  shows "auto_allowed cfg clk a s"
  using assms unfolding evaluate_def auto_allowed_def Let_def
  by (auto dest: decision_Inr(1) evaluate_communication_auto split: if_splits)

lemma digits_of_length:
  assumes "n < 10 ^ Suc k"
  shows "length (digits_of 10 n) \<le> Suc k"
  using assms
proof (induction k arbitrary: n)
  case 0
  then show ?case by (simp add: digits_of.simps [of 10 n])
next
  case (Suc k)
  then have "n div 10 < 10 ^ Suc k" by (simp add: less_mult_imp_div_less mult.commute)
  from Suc.IH [OF this] show ?case by (simp add: digits_of.simps [of 10 n])
qed

text \<open>More rows than an SQLite table can number (\<open>2 ^ 63 - 1\<close>).\<close>

definition max_rows :: nat where
  "max_rows = 10 ^ Suc 18"

lemma show_nat_length: "n < max_rows \<Longrightarrow> length (show_nat n) \<le> 900"
  using digits_of_length [of n 18] by (simp add: show_nat_def str_of_int_def max_rows_def)

lemma count_outbound_le: "count_outbound_since since channel chat p x s \<le> length (outbox s)"
  by (simp add: count_outbound_since_def count_where_def)

lemma quiet_retry_bounds: "1 \<le> quiet_retry_seconds cfg clk" "quiet_retry_seconds cfg clk \<le> 86400"
  by (simp_all add: quiet_retry_seconds_def)

lemma window_seconds:
  "(dur, mx, rule) \<in> set (reply_windows l) \<Longrightarrow>
     1 \<le> total_seconds dur \<and> total_seconds dur \<le> 86400 \<and> rule \<noteq> [] \<and> length rule \<le> 10"
  by (auto simp: reply_windows_def minutes_def hours_def days_def)

text \<open>The decision of one branch, as the only audit record written.\<close>

definition decides :: "(policy_evaluation \<times> db) result \<Rightarrow> db \<Rightarrow> bool" where
  "decides r s \<longleftrightarrow> (\<exists>ev ar. r = Inr (ev, append_audit ar s) \<and>
     ar_outcome ar = lit (policy_decision_value (pe_decision ev)) \<and> ar_rule_id ar = Some (lit (pe_rule_id ev)))"

lemma decision_decides:
  assumes "rule \<noteq> []" "length rule \<le> 128" "reason \<noteq> []" "length reason \<le> 2000"
  shows "decides (decision now a d rule reason None s) s"
    and "1 \<le> n \<Longrightarrow> n \<le> 86400 \<Longrightarrow> decides (decision now a d rule reason (Some n) s) s"
  using assms by (auto simp: decides_def decision_def policy_evaluation_def raise_if_def)

lemma evaluate_reply_decides:
  assumes "length (outbox s) < max_rows"
  shows "decides (evaluate_reply clk now a channel chat l s) s"
proof (cases "exhausted_window clk channel chat (action_message_id a) s l")
  case None
  let ?n = "count_outbound_since (clk - days 1) channel None None (action_message_id a) s"
  have n: "length (show_nat ?n) \<le> 900"
    by (rule show_nat_length) (rule le_less_trans [OF count_outbound_le assms])
  have "length (show_nat (rl_global_per_day l)) \<le> 900" if "rl_global_per_day l \<le> ?n"
    by (rule show_nat_length) (rule le_less_trans [OF that le_less_trans [OF count_outbound_le assms]])
  with n None show ?thesis by (auto simp: evaluate_reply_def intro!: decision_decides)
next
  case (Some w)
  obtain dur mx rule where w: "w = (dur, mx, rule)" by (cases w)
  let ?n = "count_outbound_since (clk - dur) channel (Some chat) None (action_message_id a) s"
  from Some w have win: "(dur, mx, rule) \<in> set (reply_windows l)" "mx \<le> ?n"
    by (auto simp: exhausted_window_def dest!: find_in)
  have "length (show_nat ?n) \<le> 900"
    by (rule show_nat_length) (rule le_less_trans [OF count_outbound_le assms])
  moreover have "length (show_nat mx) \<le> 900"
    by (rule show_nat_length) (rule le_less_trans [OF win(2) le_less_trans [OF count_outbound_le assms]])
  ultimately show ?thesis
    using Some w window_seconds [OF win(1)] by (auto simp: evaluate_reply_def intro!: decision_decides)
qed

lemma evaluate_proactive_decides:
  assumes "1 \<le> rl_proactive_cooldown_hours l" "rl_proactive_cooldown_hours l \<le> 24"
  shows "decides (evaluate_proactive cfg clk now a channel chat l s) s"
proof -
  have "1 \<le> int (rl_proactive_cooldown_hours l) * 3600" "int (rl_proactive_cooldown_hours l) * 3600 \<le> 86400"
    using assms by linarith+
  then show ?thesis
    unfolding evaluate_proactive_def Let_def
    by (simp add: decision_decides quiet_retry_bounds)
qed

definition config_ok :: "policy_config \<Rightarrow> bool" where
  "config_ok cfg \<longleftrightarrow> rate_limits_ok (pc_wechat_lab cfg) \<and> rate_limits_ok (pc_fallback cfg) \<and>
     rl_proactive_cooldown_hours (pc_wechat_lab cfg) \<le> 24 \<and> rl_proactive_cooldown_hours (pc_fallback cfg) \<le> 24"

lemma evaluate_communication_decides:
  assumes "config_ok cfg" "length (outbox s) < max_rows"
  shows "decides (evaluate_communication cfg clk now a kind s) s"
proof -
  have l: "1 \<le> rl_proactive_cooldown_hours (limits_for cfg ch)" "rl_proactive_cooldown_hours (limits_for cfg ch) \<le> 24" for ch
    using assms(1) by (auto simp: limits_for_def config_ok_def rate_limits_ok_def)
  show ?thesis
    unfolding evaluate_communication_def
    by (simp add: decision_decides quiet_retry_bounds evaluate_reply_decides [OF assms(2)]
        evaluate_proactive_decides [OF l] split: option.split)
qed

lemma evaluate_decides:
  assumes "config_ok cfg" "length (outbox s) < max_rows"
  shows "decides (evaluate cfg clk now a s) s"
  unfolding evaluate_def Let_def
  by (simp add: decision_decides evaluate_communication_decides [OF assms])

lemma evaluate_frame:
  assumes "evaluate cfg clk now a s = Inr (ev, t)"
  shows "\<exists>ar. t = append_audit ar s"
proof -
  have d: "\<exists>ar. t = append_audit ar s" if "decision now a d rule reason retry s = Inr (ev, t)" for d rule reason retry
    using decision_Inr(5) [OF that] by blast
  have r: "\<exists>ar. t = append_audit ar s" if "evaluate_reply clk now a ch c l s = Inr (ev, t)" for ch c l
    using that by (auto simp: evaluate_reply_def split: option.splits prod.splits if_splits dest: d)
  have p: "\<exists>ar. t = append_audit ar s" if "evaluate_proactive cfg clk now a ch c l s = Inr (ev, t)" for ch c l
    using that unfolding evaluate_proactive_def Let_def by (auto split: if_splits dest: d)
  have c: "\<exists>ar. t = append_audit ar s" if "evaluate_communication cfg clk now a kind s = Inr (ev, t)" for kind
    using that by (auto simp: evaluate_communication_def split: option.splits if_splits dest: d r p)
  show ?thesis using assms unfolding evaluate_def Let_def by (auto split: if_splits dest: d c)
qed

subsection \<open>The gate contract\<close>

text \<open>
  What the rest of the broker relies on: an evaluation changes nothing but the audit log, to which it
  adds one record, and an automatic decision is justified.
\<close>

locale policy_gate =
  fixes gate :: "proposed_action \<Rightarrow> db \<Rightarrow> (policy_evaluation \<times> db) result"
    and justified :: "proposed_action \<Rightarrow> db \<Rightarrow> bool"
  assumes gate_frame: "gate a s = Inr (ev, t) \<Longrightarrow> \<exists>ar. t = append_audit ar s"
    and gate_sound: "gate a s = Inr (ev, t) \<Longrightarrow> pe_decision ev = Auto \<Longrightarrow> justified a s"
begin

lemma gate_tables:
  assumes "gate a s = Inr (ev, t)"
  shows "inbox t = inbox s" "outbox t = outbox s" "messages t = messages s"
    "tool_executions t = tool_executions s" "runtime_state t = runtime_state s" "allowlist t = allowlist s"
    "approvals t = approvals s" "drafts t = drafts s"
  using gate_frame [OF assms] by auto

lemma gate_audited: "gate a s = Inr (ev, t) \<Longrightarrow> length (audit_log t) = Suc (length (audit_log s))"
  using gate_frame by (fastforce simp: append_audit_log)

text \<open>A second evaluation of the same action sees the same tables.\<close>

lemma gate_twice:
  assumes "gate a s = Inr (ev, t)" and "gate a t = Inr (ev', u)" and "pe_decision ev' = Auto"
  shows "justified a t" "outbox u = outbox s" "inbox u = inbox s"
  using gate_sound [OF assms(2,3)] gate_tables [OF assms(1)] gate_tables [OF assms(2)] by auto

end

interpretation engine: policy_gate "evaluate cfg clk now" "auto_allowed cfg clk" for cfg clk now
  by unfold_locales (auto intro: evaluate_frame evaluate_auto)

subsection \<open>Properties\<close>

text \<open>The hard-denial list cannot be configured away: whatever the configuration, the database, the
  route and the arguments, and however the kind is spelled in upper or lower case or padded with blanks,
  such an action is denied, and the denial is recorded.\<close>

theorem policy_hard_denial:
  assumes "hard_denied (strip (casefold (pa_kind a)))"
  shows "\<exists>ev t. evaluate cfg clk now a s = Inr (ev, t) \<and> pe_decision ev = Deny \<and>
    pe_rule_id ev = ''hard_denial'' \<and> pe_retry_after ev = None \<and>
    audit_log t = audit_log s @ [\<lparr>au_id = next_id au_id (audit_log s), au_record =
      \<lparr>ar_action = lit ''policy.'' @ pa_kind a, ar_outcome = lit ''DENY'', ar_channel = pa_channel a,
       ar_chat_id = pa_chat_id a, ar_event_id = pa_reason_event_id a, ar_message_id = None,
       ar_rule_id = Some (lit ''hard_denial''),
       ar_detail = [(lit ''proactive'', JBool (pa_proactive a)), (lit ''side_effect'', JBool (pa_side_effect a))],
       ar_occurred_at = now\<rparr>\<rparr>]"
  using assms
  by (simp add: evaluate_def decision_def policy_evaluation_def raise_if_def append_audit_log)

text \<open>Every path through the engine ends in one recorded decision.\<close>

definition is_decision ::
    "time \<Rightarrow> proposed_action \<Rightarrow> db \<Rightarrow> (policy_evaluation \<times> db) result \<Rightarrow> bool" where
  "is_decision now a s x \<longleftrightarrow> (\<exists>d rule reason retry. x = decision now a d rule reason retry s)"

lemma is_decisionI [intro!]: "is_decision now a s (decision now a d rule reason retry s)"
  by (auto simp: is_decision_def)

lemma evaluate_reply_is_decision: "is_decision now a s (evaluate_reply clk now a ch c l s)"
  by (auto simp: evaluate_reply_def Let_def split: option.split)

lemma evaluate_proactive_is_decision: "is_decision now a s (evaluate_proactive cfg clk now a ch c l s)"
  unfolding evaluate_proactive_def Let_def by (simp add: is_decisionI split del: if_split split: if_split)

lemma evaluate_communication_is_decision: "is_decision now a s (evaluate_communication cfg clk now a kind s)"
  by (auto simp: evaluate_communication_def Let_def evaluate_reply_is_decision evaluate_proactive_is_decision
      split: option.split)

lemma evaluate_is_decision: "is_decision now a s (evaluate cfg clk now a s)"
  unfolding evaluate_def Let_def by (simp add: is_decisionI evaluate_communication_is_decision)

text \<open>What an evaluation may carry, and the audit record of one.\<close>

definition evaluation_ok :: "policy_evaluation \<Rightarrow> bool" where
  "evaluation_ok ev \<longleftrightarrow> length (pe_reason ev) \<in> {1..2000} \<and> length (pe_rule_id ev) \<in> {1..128} \<and>
     pe_retry_after ev \<in> insert None (Some ` {1..86400})"

definition recorded_decision :: "time \<Rightarrow> proposed_action \<Rightarrow> policy_evaluation \<Rightarrow> audit_record" where
  "recorded_decision now a ev =
     \<lparr>ar_action = lit ''policy.'' @ pa_kind a, ar_outcome = lit (policy_decision_value (pe_decision ev)),
      ar_channel = pa_channel a, ar_chat_id = pa_chat_id a, ar_event_id = pa_reason_event_id a,
      ar_message_id = None, ar_rule_id = Some (lit (pe_rule_id ev)),
      ar_detail = [(lit ''proactive'', JBool (pa_proactive a)), (lit ''side_effect'', JBool (pa_side_effect a))],
      ar_occurred_at = now\<rparr>"

lemma decision_verdict:
  "case decision now a d rule reason retry s of
     Inl e \<Rightarrow> e = ValidationError ''PolicyEvaluation''
   | Inr (ev, t) \<Rightarrow> evaluation_ok ev \<and> t = append_audit (recorded_decision now a ev) s"
  by (cases retry)
    (auto simp: decision_def policy_evaluation_def raise_if_def evaluation_ok_def recorded_decision_def
      Suc_le_eq)

lemma evaluate_answers:
  assumes "config_ok cfg" and "length (outbox s) < max_rows"
  shows "evaluate cfg clk now a s \<noteq> Inl e"
  using evaluate_decides [OF assms, of clk now a] by (auto simp: decides_def)

text \<open>C9. The policy answers with a well-formed, recorded decision: whatever the configuration, the action
  and the database, either the evaluation has a reason of 1 to 2,000 characters, a rule of 1 to 128 and, if
  it has a retry delay, one between one second and one day, and the database changes by exactly one audit
  record, that of this decision; or it raises the validation error of an evaluation that would carry
  something else and records nothing. It never raises when the cooldown of both limit profiles is between
  one hour and one day and the outbox holds fewer than \<open>max_rows\<close> rows (ten to the nineteenth, a number no database reaches: it
  keeps the counts quoted in a reason below its length limit).\<close>

theorem policy_total:
  "case evaluate cfg clk now a s of
     Inl e \<Rightarrow> e = ValidationError ''PolicyEvaluation'' \<and> \<not> (config_ok cfg \<and> length (outbox s) < max_rows)
   | Inr (ev, t) \<Rightarrow> evaluation_ok ev \<and> t = append_audit (recorded_decision now a ev) s"
proof -
  obtain d rule reason retry where eq: "evaluate cfg clk now a s = decision now a d rule reason retry s"
    using evaluate_is_decision [of now a s cfg clk] by (auto simp: is_decision_def)
  show ?thesis
  proof (cases "evaluate cfg clk now a s")
    case (Inl e)
    with decision_verdict [of now a s d rule reason retry] show ?thesis
      using evaluate_answers by (fastforce simp: eq)
  next
    case (Inr p)
    with decision_verdict [of now a s d rule reason retry] show ?thesis by (simp add: eq)
  qed
qed

text \<open>A limit profile with a proactive cooldown of more than 24 hours, which the configuration
  accepts, breaks the policy exactly when the cooldown should bite: instead of denying the second
  proactive message, the evaluation raises, because the retry delay exceeds what an evaluation may
  carry.\<close>

theorem proactive_cooldown_overflow:
  assumes "strip (casefold (pa_kind a)) = lit ''proactive_message''" and "\<not> contains_secret a"
    and "pa_bound_channel a = pa_channel a" "pa_bound_chat_id a = pa_chat_id a"
    and "\<not> is_paused (pa_channel a) s" and "pa_channel a = Some ch" "pa_chat_id a = Some chat"
    and "is_allowlisted ch chat s" and "\<not> is_quiet cfg (zn_local (pc_zone cfg) clk)"
    and "rl_proactive_enabled (limits_for cfg ch)" and "25 \<le> rl_proactive_cooldown_hours (limits_for cfg ch)"
    and "pa_reason_event_id a = Some ev" "ev \<noteq> []"
    and "count_outbound_since (clk - hours (int (rl_proactive_cooldown_hours (limits_for cfg ch)))) ch (Some chat)
      (Some True) (action_message_id a) s \<noteq> 0"
  shows "evaluate cfg clk now a s = Inl (ValidationError ''PolicyEvaluation'')"
proof -
  have hd: "\<not> hard_denied (lit ''proactive_message'')"
    by (simp add: hard_denied_def hard_denied_actions_def)
  have long: "86400 < int (rl_proactive_cooldown_hours (limits_for cfg ch)) * 3600" using assms(11) by linarith
  have "evaluate_proactive cfg clk now a ch chat (limits_for cfg ch) s = Inl (ValidationError ''PolicyEvaluation'')"
    using assms(9,10,12-14) long
    by (simp add: evaluate_proactive_def decision_def policy_evaluation_def raise_if_def)
  moreover have "evaluate cfg clk now a s = evaluate_proactive cfg clk now a ch chat (limits_for cfg ch) s"
    using assms(1-9) hd
    by (simp add: evaluate_def communication_actions_def evaluate_communication_def)
  ultimately show ?thesis by simp
qed

lemma count_exclude_bound:
  assumes "distinct (map ob_message_id rows)"
  shows "count_where (\<lambda>r. Q r) rows \<le> Suc (count_where (\<lambda>r. Q r \<and> ob_message_id r \<noteq> x) rows)"
proof -
  have "count_where Q rows = count_where (\<lambda>r. Q r \<and> ob_message_id r \<noteq> x) rows +
      count_where (\<lambda>r. ob_message_id r = x \<and> Q r) rows"
    by (induction rows) (auto simp: count_where_def)
  also have "count_where (\<lambda>r. ob_message_id r = x \<and> Q r) rows \<le> 1"
    by (rule count_where_le_1 [OF assms])
  finally show ?thesis by simp
qed

lemma count_outbound_commit:
  assumes "outbox_inv s" and "create_outbox now m s = Inr (item, t)"
  shows "count_outbound_since since ch chat p None t \<le>
    Suc (count_outbound_since since ch chat p (Some (om_message_id m)) s)"
proof -
  have inv: "outbox_inv t" by (rule create_outbox_inv [OF assms])
  then have d: "distinct (map ob_message_id (outbox t))" by (simp add: outbox_inv_def)
  let ?Q = "\<lambda>r. ob_channel r = ch \<and> since \<le> ob_created_at r \<and> counted_state (ob_state r) \<and>
      (case chat of None \<Rightarrow> True | Some c \<Rightarrow> ob_chat_id r = c) \<and>
      (case p of None \<Rightarrow> True | Some b \<Rightarrow> ob_proactive r = b)"
  have "count_where (\<lambda>r. ?Q r \<and> ob_message_id r \<noteq> om_message_id m) (outbox t) =
      count_where (\<lambda>r. ?Q r \<and> ob_message_id r \<noteq> om_message_id m) (outbox s)"
    unfolding create_outbox_table(1) [OF assms(2)] by (simp add: count_where_def new_outbox_row_def)
  with count_exclude_bound [OF d, of ?Q "om_message_id m"] show ?thesis
    by (simp add: count_outbound_since_def conj_ac)
qed
text \<open>A quota holds after the reply is committed: when a reply is allowed and the very message it was
  evaluated for is then put in the outbox, the messages counted for the chat in every enabled window, and
  for the channel in a day, do not exceed the limit.\<close>

theorem reply_quota_after_commit:
  assumes "outbox_inv s" and "evaluate cfg clk now a s = Inr (ev, s1)" and "pe_decision ev = Auto"
    and "strip (casefold (pa_kind a)) = lit ''reply''" and "\<not> pa_proactive a"
    and "pa_channel a = Some (om_channel m)" "pa_chat_id a = Some (om_chat_id m)"
    and "action_message_id a = Some (om_message_id m)"
    and "create_outbox now' m s1 = Inr (item, t)"
  shows "list_all (\<lambda>(duration, maximum, rule). maximum = 0 \<or>
      count_outbound_since (clk - duration) (om_channel m) (Some (om_chat_id m)) None None t \<le> maximum)
      (reply_windows (limits_for cfg (om_channel m))) \<and>
    count_outbound_since (clk - days 1) (om_channel m) None None None t \<le>
      rl_global_per_day (limits_for cfg (om_channel m))"
proof -
  have ob: "outbox s1 = outbox s" by (rule engine.gate_tables(2) [OF assms(2)])
  have inv: "outbox_inv s1" using assms(1) outbox_inv_cong [OF ob] by simp
  have same: "count_outbound_since x c ch p e s1 = count_outbound_since x c ch p e s" for x c ch p e
    by (simp add: count_outbound_since_def ob)
  have "auto_allowed cfg clk a s" by (rule engine.gate_sound [OF assms(2,3)])
  then have "reply_within clk (om_channel m) (om_chat_id m) (Some (om_message_id m))
      (limits_for cfg (om_channel m)) s"
    using assms(4-8) by (auto simp: auto_allowed_def communication_actions_def communication_allowed_def)
  then show ?thesis
    using count_outbound_commit [OF inv assms(9)] unfolding reply_within_def same list_all_iff
    by (fastforce simp: less_eq_Suc_le intro: order_trans)
qed

text \<open>The converse of soundness: what is justified is allowed.\<close>

definition allows :: "(policy_evaluation \<times> db) result \<Rightarrow> bool" where
  "allows r \<longleftrightarrow> (\<exists>ev t. r = Inr (ev, t) \<and> pe_decision ev = Auto)"

lemma decision_auto: "rule \<noteq> [] \<Longrightarrow> length rule \<le> 128 \<Longrightarrow> reason \<noteq> [] \<Longrightarrow> length reason \<le> 2000 \<Longrightarrow>
   allows (decision now a Auto rule reason None s)"
  using decision_ok [of rule reason None now a Auto s] by (auto simp: allows_def)

lemma evaluate_reply_complete:
  assumes "reply_within clk ch chat (action_message_id a) l s"
  shows "allows (evaluate_reply clk now a ch chat l s)"
proof -
  have "exhausted_window clk ch chat (action_message_id a) s l = None"
    using assms unfolding reply_within_def exhausted_window_None by (rule conjunct1)
  moreover have "\<not> rl_global_per_day l \<le> count_outbound_since (clk - days 1) ch None None (action_message_id a) s"
    using assms by (simp add: reply_within_def)
  ultimately show ?thesis by (simp add: evaluate_reply_def decision_auto)
qed

lemma evaluate_proactive_complete:
  assumes "proactive_within cfg clk a ch chat (action_message_id a) l s"
  shows "allows (evaluate_proactive cfg clk now a ch chat l s)"
proof -
  from assms have "\<not> (pa_reason_event_id a = None \<or> pa_reason_event_id a = Some [])"
    "rl_proactive_enabled l" "\<not> is_quiet cfg (zn_local (pc_zone cfg) clk)"
    "\<not> rl_proactive_per_day l \<le> count_outbound_since (clk - days 1) ch (Some chat) (Some True) (action_message_id a) s"
    "\<not> rl_proactive_global_per_day l \<le> count_outbound_since (clk - days 1) ch None (Some True) (action_message_id a) s"
    "\<not> count_outbound_since (clk - hours (int (rl_proactive_cooldown_hours l))) ch (Some chat) (Some True)
      (action_message_id a) s \<noteq> 0"
    by (simp_all add: proactive_within_def)
  then show ?thesis
    unfolding evaluate_proactive_def Let_def by (simp only: if_False not_True_eq_False) (simp add: decision_auto)
qed

lemma evaluate_communication_complete:
  assumes "communication_allowed cfg clk a kind s"
  shows "allows (evaluate_communication cfg clk now a kind s)"
proof -
  from assms obtain ch chat where c: "pa_channel a = Some ch" "pa_chat_id a = Some chat" "is_allowlisted ch chat s"
    "ch = lit ''wechat_agent_lab'' \<longrightarrow> \<not> is_quiet cfg (zn_local (pc_zone cfg) clk)"
    "if pa_proactive a \<or> kind = lit ''proactive_message''
     then proactive_within cfg clk a ch chat (action_message_id a) (limits_for cfg ch) s
     else reply_within clk ch chat (action_message_id a) (limits_for cfg ch) s"
    unfolding communication_allowed_def by blast
  show ?thesis
  proof (cases "pa_proactive a \<or> kind = lit ''proactive_message''")
    case True
    with c have "evaluate_communication cfg clk now a kind s = evaluate_proactive cfg clk now a ch chat (limits_for cfg ch) s"
      by (auto simp: evaluate_communication_def)
    with True c(5) evaluate_proactive_complete show ?thesis by simp
  next
    case False
    with c have "evaluate_communication cfg clk now a kind s = evaluate_reply clk now a ch chat (limits_for cfg ch) s"
      by (auto simp: evaluate_communication_def)
    with False c(5) evaluate_reply_complete show ?thesis by simp
  qed
qed

lemma evaluate_complete:
  assumes "auto_allowed cfg clk a s"
  shows "allows (evaluate cfg clk now a s)"
proof -
  let ?k = "strip (casefold (pa_kind a))"
  have "\<not> hard_denied ?k" "\<not> (pa_bound_channel a \<noteq> None \<and> pa_channel a \<noteq> pa_bound_channel a)"
    "\<not> (pa_bound_chat_id a \<noteq> None \<and> pa_chat_id a \<noteq> pa_bound_chat_id a)" "\<not> contains_secret a"
    "\<not> (pa_side_effect a \<and> is_paused (pa_channel a) s)"
    using assms by (auto simp: auto_allowed_def)
  note go = this
  have eq: "evaluate cfg clk now a s =
    (if ?k \<in> set communication_actions then evaluate_communication cfg clk now a ?k s
     else if ?k = lit ''mcp_tool''
     then (if \<not> dflag (pa_arguments a) ''enrolled''
           then decision now a Enroll ''mcp_not_enrolled'' ''tool must be pinned and enrolled by an administrator'' None s
           else if pa_side_effect a
           then decision now a Approve_Once ''mcp_side_effect'' ''enrolled MCP side effect requires one-time approval'' None s
           else decision now a Auto ''mcp_read_enrolled'' ''enrolled read-only MCP tool'' None s)
     else if ?k \<in> set (pc_approval_actions cfg)
     then decision now a Approve_Once ''explicit_approval'' ''action requires one-time administrator approval'' None s
     else if ?k \<in> set (pc_auto_actions cfg)
     then decision now a Auto ''safe_capability'' ''action is within an enrolled safe capability'' None s
     else decision now a Deny ''unknown_action'' ''unknown actions are denied by default'' None s)"
    unfolding evaluate_def Let_def by (simp only: go if_False)
  show ?thesis
    using assms unfolding eq auto_allowed_def Let_def
    by (auto simp: decision_auto evaluate_communication_complete split: if_splits)
qed

subsection \<open>Quiet hours\<close>

lemma time_of_day_shift: "days 1 dvd m \<Longrightarrow> 0 \<le> x \<Longrightarrow> x < days 1 \<Longrightarrow> time_of_day (m + x) = x"
  by (auto simp: time_of_day_def elim!: dvdE)

lemma midnight_dvd: "days 1 dvd w - time_of_day w"
  by (simp add: time_of_day_def minus_mod_eq_mult_div)

lemma time_of_day_range: "0 \<le> time_of_day w" "time_of_day w < days 1"
  by (simp_all add: time_of_day_def days_def seconds_def)

lemma time_of_day_plus:
  assumes "0 \<le> k" "time_of_day w + k < days 1"
  shows "time_of_day (w + k) = time_of_day w + k"
  using time_of_day_shift [OF midnight_dvd [of w], of "time_of_day w + k"] assms time_of_day_range [of w]
  by (simp add: algebra_simps)

lemma time_of_day_wrap:
  assumes "days 1 \<le> time_of_day w + k" "time_of_day w + k < 2 * days 1"
  shows "time_of_day (w + k) = time_of_day w + k - days 1"
proof -
  have "time_of_day ((w - time_of_day w + days 1) + (time_of_day w + k - days 1)) = time_of_day w + k - days 1"
    using assms midnight_dvd [of w] by (intro time_of_day_shift) auto
  then show ?thesis by (simp add: algebra_simps)
qed

lemma quiet_until_end:
  assumes "is_quiet cfg w" and "pc_quiet_start cfg \<noteq> pc_quiet_end cfg"
    and "0 \<le> pc_quiet_start cfg" "pc_quiet_start cfg < days 1" "0 \<le> pc_quiet_end cfg" "pc_quiet_end cfg < days 1"
  shows "w < quiet_end_wall cfg w" "quiet_end_wall cfg w \<le> w + days 1"
    "\<not> is_quiet cfg (quiet_end_wall cfg w)"
    "\<And>x. w \<le> x \<Longrightarrow> x < quiet_end_wall cfg w \<Longrightarrow> is_quiet cfg x"
proof -
  let ?c = "time_of_day w" and ?a = "pc_quiet_start cfg" and ?b = "pc_quiet_end cfg"
  note r = time_of_day_range [of w]
  define gap where "gap = (if ?b \<le> ?a \<and> ?a \<le> ?c then days 1 + ?b - ?c else ?b - ?c)"
  have e: "quiet_end_wall cfg w = w + gap" by (simp add: quiet_end_wall_def gap_def)
  have on: "pc_quiet_enabled cfg" using assms(1) by (simp add: is_quiet_def)
  have q: "(?a < ?b \<and> ?a \<le> ?c \<and> ?c < ?b) \<or> (?b < ?a \<and> (?a \<le> ?c \<or> ?c < ?b))"
    using assms(1,2) by (auto simp: is_quiet_def split: if_splits)
  then have gap: "0 < gap" "gap \<le> days 1" using assms(3-6) r by (auto simp: gap_def)
  show "w < quiet_end_wall cfg w" "quiet_end_wall cfg w \<le> w + days 1" using gap e by auto
  have tod: "time_of_day (w + gap) = ?b"
  proof (cases "?b \<le> ?a \<and> ?a \<le> ?c")
    case True
    then have g: "gap = days 1 + ?b - ?c" unfolding gap_def by (simp only: if_True simp_thms)
    then show ?thesis using time_of_day_wrap [of w gap] assms(5,6) by simp
  next
    case False
    then have g: "gap = ?b - ?c" unfolding gap_def by (simp only: if_False)
    then show ?thesis using time_of_day_plus [of gap w] gap(1) assms(6) by simp
  qed
  show "\<not> is_quiet cfg (quiet_end_wall cfg w)"
    using assms(2) by (auto simp: e is_quiet_def tod)
  show "is_quiet cfg x" if x: "w \<le> x" "x < quiet_end_wall cfg w" for x
  proof -
    define k where "k = x - w"
    have k: "x = w + k" "0 \<le> k" "k < gap" using x e by (simp_all add: k_def)
    show ?thesis
    proof (cases "?c + k < days 1")
      case True
      from time_of_day_plus [OF k(2) True] q k on show ?thesis
        by (auto simp: is_quiet_def gap_def split: if_splits)
    next
      case False
      with k gap r have "?c + k < 2 * days 1" by linarith
      with False time_of_day_wrap [of w k] q k on assms(6) show ?thesis
        by (auto simp: is_quiet_def gap_def split: if_splits)
    qed
  qed
qed

text \<open>C8. The policy allows exactly what is justified: an action is decided \<open>AUTO\<close> if and only if it is not
  on the hard-denial list, its destination is the broker's own route, it carries no secret data, side
  effects are not paused, and it is either a message to an allowlisted chat within every quota and outside
  quiet hours, an enrolled read-only tool, or a configured automatic action that needs no approval.\<close>

theorem policy_auto_iff_justified:
  "allows (evaluate cfg clk now a s) \<longleftrightarrow> auto_allowed cfg clk a s"
  using evaluate_complete [of cfg clk a s now] by (auto simp: allows_def intro: engine.gate_sound)

text \<open>Quiet hours end when the policy says they do: in a zone without clock changes, a reply on the
  agent channel during quiet hours is denied with a retry delay that names the end of the quiet period to
  the second; every moment up to that end is quiet and the end itself is not.\<close>

theorem quiet_hours_retry:
  assumes "pc_zone cfg = fixed_zone off" and "pc_quiet_start cfg \<noteq> pc_quiet_end cfg"
    and "0 \<le> pc_quiet_start cfg" "pc_quiet_start cfg < days 1" "0 \<le> pc_quiet_end cfg" "pc_quiet_end cfg < days 1"
    and "is_quiet cfg (clk + off)"
  shows "\<exists>stop. clk < stop \<and> stop \<le> clk + days 1 \<and> \<not> is_quiet cfg (stop + off) \<and>
    (\<forall>x. clk \<le> x \<longrightarrow> x < stop \<longrightarrow> is_quiet cfg (x + off)) \<and>
    quiet_retry_seconds cfg clk = max 1 ((stop - clk) div 1000000) \<and>
    (pa_channel a = Some (lit ''wechat_agent_lab'') \<and> pa_chat_id a = Some chat \<and>
       is_allowlisted (lit ''wechat_agent_lab'') chat s \<and> \<not> pa_proactive a \<longrightarrow>
     (\<exists>ev t. evaluate_communication cfg clk now a kind s = Inr (ev, t) \<and> pe_decision ev = Deny \<and>
       pe_rule_id ev = ''quiet_hours'' \<and> pe_retry_after ev = Some (quiet_retry_seconds cfg clk)))"
proof -
  let ?stop = "quiet_end_wall cfg (clk + off) - off"
  note q = quiet_until_end [OF assms(7,2-6)]
  have ran: "clk < ?stop" "?stop \<le> clk + days 1" using q(1,2) by auto
  have still: "\<forall>x. clk \<le> x \<longrightarrow> x < ?stop \<longrightarrow> is_quiet cfg (x + off)" using q(4) by auto
  have secs: "quiet_retry_seconds cfg clk = max 1 ((?stop - clk) div 1000000)"
  proof -
    have "(?stop - clk) div 1000000 \<le> days 1 div 1000000" using ran(2) by (intro zdiv_mono1) auto
    then have "(?stop - clk) div 1000000 \<le> 86400" by (simp add: days_def seconds_def)
    then show ?thesis
      using ran(1) by (simp add: quiet_retry_seconds_def assms(1) fixed_zone_def total_seconds_def)
  qed
  have wall: "zn_local (pc_zone cfg) clk = clk + off" by (simp add: assms(1) fixed_zone_def)
  have deny: "\<exists>ev t. evaluate_communication cfg clk now a kind s = Inr (ev, t) \<and> pe_decision ev = Deny \<and>
       pe_rule_id ev = ''quiet_hours'' \<and> pe_retry_after ev = Some (quiet_retry_seconds cfg clk)"
    if "pa_channel a = Some (lit ''wechat_agent_lab'')" "pa_chat_id a = Some chat"
      "is_allowlisted (lit ''wechat_agent_lab'') chat s" "\<not> pa_proactive a"
  proof -
    have "evaluate_communication cfg clk now a kind s =
        decision now a Deny ''quiet_hours'' ''canary reply is in quiet hours'' (Some (quiet_retry_seconds cfg clk)) s"
      using that assms(7) by (simp add: evaluate_communication_def wall)
    moreover obtain ev ar where "decision now a Deny ''quiet_hours'' ''canary reply is in quiet hours''
        (Some (quiet_retry_seconds cfg clk)) s = Inr (ev, append_audit ar s)" "pe_decision ev = Deny"
        "pe_rule_id ev = ''quiet_hours''" "pe_retry_after ev = Some (quiet_retry_seconds cfg clk)"
      using decision_ok [of "''quiet_hours''" "''canary reply is in quiet hours''"
          "Some (quiet_retry_seconds cfg clk)" now a Deny s] quiet_retry_bounds [of cfg clk] by auto
    ultimately show ?thesis by auto
  qed
  show ?thesis using ran q(3) still secs deny by (intro exI [of _ ?stop]) auto
qed

text \<open>The secret boundary and its gap: an action of a guarded kind that carries secret data is never
  allowed; but the boundary compares the kind without stripping blanks while every other rule strips them,
  so that a reply that would be allowed is still allowed when its kind is written with a leading blank and
  its data class is \<open>SECRET\<close>.\<close>

theorem secret_boundary_gap:
  assumes "auto_allowed cfg clk a s" and "pa_kind a = lit ''reply''"
  shows "\<not> allows (evaluate cfg clk now
      (a\<lparr>pa_arguments := (lit ''data_class'', JStr (lit ''SECRET'')) # pa_arguments a\<rparr>) s) \<and>
    allows (evaluate cfg clk now
      (a\<lparr>pa_kind := 32 # pa_kind a, pa_arguments := (lit ''data_class'', JStr (lit ''SECRET'')) # pa_arguments a\<rparr>) s)"
proof
  let ?b = "a\<lparr>pa_arguments := (lit ''data_class'', JStr (lit ''SECRET'')) # pa_arguments a\<rparr>"
  let ?c = "a\<lparr>pa_kind := 32 # pa_kind a, pa_arguments := (lit ''data_class'', JStr (lit ''SECRET'')) # pa_arguments a\<rparr>"
  have cf: "casefold (lit ''reply'') = lit ''reply''" by code_simp
  have st: "strip (lit ''reply'') = lit ''reply''" "strip (casefold (32 # lit ''reply'')) = lit ''reply''"
    by code_simp+
  have pad: "casefold (32 # lit ''reply'') = 32 # lit ''reply''" by code_simp
  have ne: "32 # lit ''reply'' \<notin> set (map lit [''reply'', ''proactive_message'', ''model_call'', ''mcp_tool'',
        ''mcp_read'', ''mcp_write''])" by code_simp
  have "contains_secret ?b" by (simp add: contains_secret_def assms(2) cf)
  then show "\<not> allows (evaluate cfg clk now ?b s)"
    by (auto simp: allows_def auto_allowed_def dest: evaluate_auto)
  have nc: "\<not> contains_secret ?c" using ne by (simp add: contains_secret_def assms(2) pad)
  have mid: "action_message_id ?c = action_message_id a" by (simp add: action_message_id_def)
  have comm: "communication_allowed cfg clk a (lit ''reply'') s"
    using assms by (simp add: auto_allowed_def cf st communication_actions_def)
  have "proactive_within cfg clk ?c ch chat e l s = proactive_within cfg clk a ch chat e l s" for ch chat e l
    by (simp add: proactive_within_def)
  with comm have "communication_allowed cfg clk ?c (lit ''reply'') s"
    unfolding communication_allowed_def mid by (auto split: if_splits)
  then have "auto_allowed cfg clk ?c s"
    using assms nc st by (simp add: auto_allowed_def cf communication_actions_def)
  then show "allows (evaluate cfg clk now ?c s)" by (rule evaluate_complete)
qed

subsection \<open>Concrete runs\<close>

definition demo_policy_db :: db where
  "demo_policy_db = set_allowlisted 1 (lit ''wechat_agent_lab'') (lit ''chat_1'') True None empty_db"

definition demo_mid :: uuid where
  "demo_mid = lit ''00000000-0000-0000-0000-000000000007''"

definition demo_action :: "string \<Rightarrow> proposed_action" where
  "demo_action k = \<lparr>pa_kind = lit k, pa_channel = Some (lit ''wechat_agent_lab''), pa_chat_id = Some (lit ''chat_1''),
     pa_bound_channel = Some (lit ''wechat_agent_lab''), pa_bound_chat_id = Some (lit ''chat_1''),
     pa_reason_event_id = Some (lit ''e1''), pa_proactive = False, pa_side_effect = True, pa_tool_name = None,
     pa_arguments = [(lit ''message_id'', JStr demo_mid)]\<rparr>"

theorem policy_hard_denial_witness:
  "\<exists>ev t. evaluate default_config 0 0 (demo_action ''  PAYMENT.now'') demo_policy_db = Inr (ev, t) \<and>
     pe_decision ev = Deny"
proof -
  have "hard_denied (strip (casefold (pa_kind (demo_action ''  PAYMENT.now''))))"
    unfolding demo_action_def by code_simp
  from policy_hard_denial [OF this] show ?thesis by blast
qed

lemma default_config_ok: "config_ok default_config"
  by (simp add: config_ok_def default_config_def wechat_lab_limits_def rate_limits_ok_def)

lemma demo_allowlisted: "is_allowlisted (lit ''wechat_agent_lab'') (lit ''chat_1'') demo_policy_db"
  by (simp add: is_allowlisted_def demo_policy_db_def set_allowlisted_def allowed_upsert)

lemma demo_not_quiet: "\<not> is_quiet default_config (hours 12)"
  by (simp add: is_quiet_def default_config_def time_of_day_def hours_def days_def seconds_def)

lemma demo_reply_kind: "strip (casefold (lit ''reply'')) = lit ''reply''" "\<not> hard_denied (lit ''reply'')"
    "casefold (lit ''wechat_agent_lab'') = lit ''wechat_agent_lab''"
  by code_simp+

lemma demo_message_id: "action_message_id (demo_action k) = Some demo_mid"
proof -
  have "uuid_of_json (JStr demo_mid) = Some demo_mid" unfolding demo_mid_def by code_simp
  then show ?thesis by (simp add: action_message_id_def demo_action_def)
qed

lemma demo_tables [simp]: "outbox demo_policy_db = []" "runtime_state demo_policy_db = []"
  by (simp_all add: demo_policy_db_def set_allowlisted_def)

lemma demo_auto_allowed: "auto_allowed default_config (hours 4) (demo_action ''reply'') demo_policy_db"
proof -
  have "zn_local (pc_zone default_config) (hours 4) = hours 12"
    by (simp add: default_config_def fixed_zone_def hours_def seconds_def)
  moreover have "\<not> contains_secret (demo_action ''reply'')" by (simp add: contains_secret_def demo_action_def)
  moreover have "\<not> is_paused ch demo_policy_db" for ch by (simp add: is_paused_def)
  moreover have "count_outbound_since x c ch p e demo_policy_db = 0" for x c ch p e
    by (simp add: count_outbound_since_def count_where_def)
  moreover have "limits_for default_config (lit ''wechat_agent_lab'') = wechat_lab_limits"
    by (simp add: limits_for_def default_config_def demo_reply_kind)
  ultimately show ?thesis
    using demo_allowlisted demo_not_quiet demo_message_id [of "''reply''"]
    by (simp add: auto_allowed_def demo_reply_kind communication_actions_def communication_allowed_def
        reply_within_def reply_windows_def wechat_lab_limits_def demo_action_def)
qed

theorem secret_boundary_gap_witness:
  "allows (evaluate default_config (hours 4) 0
      ((demo_action ''reply'')\<lparr>pa_kind := 32 # lit ''reply'',
         pa_arguments := (lit ''data_class'', JStr (lit ''SECRET'')) # pa_arguments (demo_action ''reply'')\<rparr>) demo_policy_db)"
  using secret_boundary_gap [OF demo_auto_allowed, of 0] by (simp add: demo_action_def)

theorem quiet_hours_retry_witness:
  "\<exists>stop. hours (- 8) < stop \<and> \<not> is_quiet default_config (stop + hours 8) \<and>
     quiet_retry_seconds default_config (hours (- 8)) = max 1 ((stop - hours (- 8)) div 1000000)"
proof -
  have z: "pc_zone default_config = fixed_zone (hours 8)" by (simp add: default_config_def)
  have c: "pc_quiet_start default_config \<noteq> pc_quiet_end default_config" "0 \<le> pc_quiet_start default_config"
    "pc_quiet_start default_config < days 1" "0 \<le> pc_quiet_end default_config" "pc_quiet_end default_config < days 1"
    by (simp_all add: default_config_def hours_def days_def seconds_def)
  have q: "is_quiet default_config (hours (- 8) + hours 8)"
    by (simp add: is_quiet_def default_config_def time_of_day_def hours_def days_def seconds_def)
  from quiet_hours_retry [OF z c q, where a = "demo_action ''reply''" and chat = "lit ''chat_1''" and s = empty_db
      and now = 0 and kind = "lit ''reply''"]
  show ?thesis by (elim exE conjE) (intro exI conjI; assumption)
qed

definition demo_answer :: outbound_message where
  "demo_answer = \<lparr>om_message_id = demo_mid, om_channel = lit ''wechat_agent_lab'', om_chat_id = lit ''chat_1'',
     om_text = lit ''hi'', om_reply_to_event_id = Some (lit ''e1''), om_created_at = hours 4, om_metadata = []\<rparr>"

theorem reply_quota_after_commit_witness:
  "\<exists>ev s1 item t. evaluate default_config (hours 4) 0 (demo_action ''reply'') demo_policy_db = Inr (ev, s1) \<and>
     create_outbox 0 demo_answer s1 = Inr (item, t) \<and>
     count_outbound_since (hours 4 - days 1) (lit ''wechat_agent_lab'') None None None t \<le> 50"
proof -
  from evaluate_complete [OF demo_auto_allowed, of 0] obtain ev s1
    where ev: "evaluate default_config (hours 4) 0 (demo_action ''reply'') demo_policy_db = Inr (ev, s1)"
      "pe_decision ev = Auto" by (auto simp: allows_def)
  obtain item t where c: "create_outbox 0 demo_answer s1 = Inr (item, t)" by (rule create_outbox_ok)
  have "outbox_inv demo_policy_db" by (rule outbox_inv_empty) simp
  note q = reply_quota_after_commit [OF this ev, of demo_answer 0 item t]
  have "rl_global_per_day (limits_for default_config (lit ''wechat_agent_lab'')) = 50"
    by (simp add: limits_for_def default_config_def demo_reply_kind wechat_lab_limits_def)
  with q c demo_message_id show ?thesis
    using ev by (auto simp: demo_answer_def demo_action_def demo_reply_kind)
qed

definition slow_config :: policy_config where
  "slow_config = default_config\<lparr>pc_wechat_lab := wechat_lab_limits\<lparr>rl_proactive_enabled := True,
     rl_proactive_cooldown_hours := 48\<rparr>\<rparr>"

definition demo_sent_db :: db where
  "demo_sent_db = demo_policy_db\<lparr>outbox := [new_outbox_row 0 (demo_answer\<lparr>om_message_id := lit ''m0'',
     om_metadata := [(lit ''proactive'', JBool True)]\<rparr>) 1]\<rparr>"

theorem proactive_cooldown_overflow_witness:
  "config_ok (slow_config\<lparr>pc_wechat_lab := wechat_lab_limits\<rparr>) \<and> rate_limits_ok (pc_wechat_lab slow_config) \<and>
   evaluate slow_config (hours 4) 0 (demo_action ''proactive_message'') demo_sent_db =
     Inl (ValidationError ''PolicyEvaluation'')"
proof (intro conjI)
  show "config_ok (slow_config\<lparr>pc_wechat_lab := wechat_lab_limits\<rparr>)" "rate_limits_ok (pc_wechat_lab slow_config)"
    by (simp_all add: config_ok_def slow_config_def default_config_def wechat_lab_limits_def rate_limits_ok_def)
  have kind: "strip (casefold (lit ''proactive_message'')) = lit ''proactive_message''" by code_simp
  have lim: "rl_proactive_enabled (limits_for slow_config (lit ''wechat_agent_lab''))"
    "rl_proactive_cooldown_hours (limits_for slow_config (lit ''wechat_agent_lab'')) = 48"
    by (simp_all add: limits_for_def demo_reply_kind slow_config_def)
  have np: "\<not> is_paused ch demo_sent_db" for ch by (simp add: is_paused_def demo_sent_db_def)
  have al: "is_allowlisted (lit ''wechat_agent_lab'') (lit ''chat_1'') demo_sent_db"
    using demo_allowlisted by (simp add: demo_sent_db_def is_allowlisted_def)
  have nq: "\<not> is_quiet slow_config (zn_local (pc_zone slow_config) (hours 4))"
    by (simp add: slow_config_def is_quiet_def default_config_def fixed_zone_def time_of_day_def hours_def
        days_def seconds_def)
  have cnt: "count_outbound_since (hours 4 - hours 48) (lit ''wechat_agent_lab'') (Some (lit ''chat_1''))
      (Some True) (Some demo_mid) demo_sent_db \<noteq> 0"
    by (simp add: count_outbound_since_def count_where_def demo_sent_db_def new_outbox_row_def demo_answer_def
        counted_state_def dflag_def demo_mid_def hours_def seconds_def)
  show "evaluate slow_config (hours 4) 0 (demo_action ''proactive_message'') demo_sent_db =
     Inl (ValidationError ''PolicyEvaluation'')"
    by (rule proactive_cooldown_overflow [where ch = "lit ''wechat_agent_lab''" and chat = "lit ''chat_1''" and ev = "lit ''e1''"])
      (use kind al nq cnt demo_message_id [of "''proactive_message''"] in
        \<open>simp_all add: demo_action_def contains_secret_def np lim\<close>)
qed

end
