(* ===== verification/Budget.thy ===== *)
theory Budget
  imports Policy Lifecycle
begin

text \<open>
  \<open>lemonbot/models/budget.py\<close> and \<open>lemonbot/models/persistent_budget.py\<close>: the money budget of cloud model
  calls and its SQLite ledger. An amount is an exact rational (the code's decimals keep 28 digits). The
  operations hold a lock, so each is one step; an operation that raises after it has changed the state
  returns both the error and the changed state.
\<close>

subsection \<open>Calendar keys\<close>

text \<open>The proleptic Gregorian date of a day number (days since 1970-01-01).\<close>

definition civil :: "int \<Rightarrow> int \<times> int \<times> int" where
  "civil n =
     (let z = n + 719468; era = z div 146097; doe = z mod 146097;
          yoe = (doe - doe div 1460 + doe div 36524 - doe div 146096) div 365;
          doy = doe - (365 * yoe + yoe div 4 - yoe div 100);
          mp = (5 * doy + 2) div 153;
          d = doy - (153 * mp + 2) div 5 + 1;
          m = (if mp < 10 then mp + 3 else mp - 9)
      in ((yoe + era * 400) + (if m \<le> 2 then 1 else 0), m, d))"

definition padded :: "nat \<Rightarrow> int \<Rightarrow> str" where
  "padded w i = (let t = str_of_int i in replicate (w - length t) 48 @ t)"

definition month_key :: "zone \<Rightarrow> time \<Rightarrow> str" where
  "month_key z t = (case civil (zn_local z t div days 1) of (y, m, d) \<Rightarrow> padded 4 y @ lit ''-'' @ padded 2 m)"

definition day_key :: "zone \<Rightarrow> time \<Rightarrow> str" where
  "day_key z t = (case civil (zn_local z t div days 1) of (y, m, d) \<Rightarrow>
     padded 4 y @ lit ''-'' @ padded 2 m @ lit ''-'' @ padded 2 d)"

subsection \<open>Prices and limits\<close>

record model_price =
  mp_input :: rat
  mp_output :: rat
  mp_cached :: "rat option"

definition model_price_ok :: "model_price \<Rightarrow> bool" where
  "model_price_ok p \<longleftrightarrow> 0 \<le> mp_input p \<and> 0 \<le> mp_output p \<and> (case mp_cached p of None \<Rightarrow> True | Some c \<Rightarrow> 0 \<le> c)"

text \<open>\<open>cached_input_per_million or input_per_million\<close>: a cached price of zero is falsy.\<close>

definition cached_price :: "model_price \<Rightarrow> rat" where
  "cached_price p = (case mp_cached p of None \<Rightarrow> mp_input p | Some c \<Rightarrow> if c = 0 then mp_input p else c)"

definition cost :: "model_price \<Rightarrow> int \<Rightarrow> int \<Rightarrow> int \<Rightarrow> rat result" where
  "cost p prompt completion cached_prompt =
     (if min prompt (min completion cached_prompt) < 0
      then Inl (ValueError ''token counts cannot be negative'')
      else
        let cached = min prompt cached_prompt; uncached = prompt - cached
        in Inr ((of_int uncached * mp_input p + of_int cached * cached_price p +
                 of_int completion * mp_output p) / 1000000))"

record budget_limits =
  bl_daily :: rat
  bl_monthly :: rat

definition budget_limits_ok :: "budget_limits \<Rightarrow> bool" where
  "budget_limits_ok l \<longleftrightarrow> 0 < bl_daily l \<and> 0 < bl_monthly l \<and> bl_daily l \<le> bl_monthly l"

subsection \<open>The manager\<close>

record reservation =
  br_id :: uuid
  br_provider :: str
  br_model :: str
  br_amount :: rat
  br_day :: str
  br_month :: str
  br_created_at :: time

record settlement =
  bs_reservation_id :: uuid
  bs_reserved :: rat
  bs_charged :: rat
  bs_over :: bool

record budget_manager =
  bm_limits :: budget_limits
  bm_prices :: "((str \<times> str) \<times> model_price) list"
  bm_zone :: zone
  bm_daily :: "str \<rightharpoonup> rat"
  bm_monthly :: "str \<rightharpoonup> rat"
  bm_reservations :: "reservation list"

definition spend_get :: "(str \<rightharpoonup> rat) \<Rightarrow> str \<Rightarrow> rat" where
  "spend_get d k = (case d k of None \<Rightarrow> 0 | Some v \<Rightarrow> v)"

definition spend_add :: "str \<Rightarrow> rat \<Rightarrow> (str \<rightharpoonup> rat) \<Rightarrow> (str \<rightharpoonup> rat)" where
  "spend_add k v d = d(k \<mapsto> spend_get d k + v)"

definition new_manager ::
    "budget_limits \<Rightarrow> ((str \<times> str) \<times> model_price) list \<Rightarrow> zone \<Rightarrow> time \<Rightarrow> rat \<Rightarrow> rat \<Rightarrow> budget_manager result" where
  "new_manager l prices z now daily monthly =
     (if daily < 0 \<or> monthly < 0 then Inl (ValueError ''initial spend cannot be negative'')
      else Inr \<lparr>bm_limits = l, bm_prices = prices, bm_zone = z, bm_daily = [day_key z now \<mapsto> daily],
             bm_monthly = [month_key z now \<mapsto> monthly], bm_reservations = []\<rparr>)"

definition price_for :: "budget_manager \<Rightarrow> str \<Rightarrow> str \<Rightarrow> model_price result" where
  "price_for m provider model =
     (case map_of (bm_prices m) (provider, model) of None \<Rightarrow> Inl PriceNotConfiguredError | Some p \<Rightarrow> Inr p)"

definition sum_amounts :: "(reservation \<Rightarrow> bool) \<Rightarrow> reservation list \<Rightarrow> rat" where
  "sum_amounts P rs = sum_list (map br_amount (filter P rs))"

definition reserved_day :: "budget_manager \<Rightarrow> str \<Rightarrow> rat" where
  "reserved_day m d = sum_amounts (\<lambda>r. br_day r = d) (bm_reservations m)"

definition reserved_month :: "budget_manager \<Rightarrow> str \<Rightarrow> rat" where
  "reserved_month m d = sum_amounts (\<lambda>r. br_month r = d) (bm_reservations m)"

text \<open>\<open>rid\<close> is the fresh reservation id; assigning a dictionary key replaces an entry of that key.\<close>

definition put_reservation :: "reservation \<Rightarrow> reservation list \<Rightarrow> reservation list" where
  "put_reservation r rs = filter (\<lambda>q. br_id q \<noteq> br_id r) rs @ [r]"

definition reserve ::
    "uuid \<Rightarrow> time \<Rightarrow> str \<Rightarrow> str \<Rightarrow> int \<Rightarrow> int \<Rightarrow> budget_manager \<Rightarrow> reservation result \<times> budget_manager" where
  "reserve rid now provider model prompt max_completion m =
     (if prompt < 0 \<or> max_completion < 0 then (Inl (ValueError ''token counts cannot be negative''), m)
      else case bind_result (price_for m provider model) (\<lambda>p. cost p prompt max_completion 0) of
        Inl e \<Rightarrow> (Inl e, m)
      | Inr amount \<Rightarrow>
          let dk = day_key (bm_zone m) now; mk = month_key (bm_zone m) now
          in if bl_daily (bm_limits m) < spend_get (bm_daily m) dk + reserved_day m dk + amount
             then (Inl (BudgetExceededError ''daily model API budget would be exceeded''), m)
             else if bl_monthly (bm_limits m) < spend_get (bm_monthly m) mk + reserved_month m mk + amount
             then (Inl (BudgetExceededError ''monthly model API budget would be exceeded''), m)
             else
               let r = \<lparr>br_id = rid, br_provider = provider, br_model = model, br_amount = amount, br_day = dk,
                        br_month = mk, br_created_at = now\<rparr>
               in (Inr r, m\<lparr>bm_reservations := put_reservation r (bm_reservations m)\<rparr>))"

definition pop_reservation :: "uuid \<Rightarrow> budget_manager \<Rightarrow> budget_manager" where
  "pop_reservation rid m = m\<lparr>bm_reservations := filter (\<lambda>r. br_id r \<noteq> rid) (bm_reservations m)\<rparr>"

definition find_reservation :: "uuid \<Rightarrow> budget_manager \<Rightarrow> reservation option" where
  "find_reservation rid m = get_row br_id rid (bm_reservations m)"

definition charge :: "reservation \<Rightarrow> rat \<Rightarrow> budget_manager \<Rightarrow> budget_manager" where
  "charge r amount m = m\<lparr>bm_daily := spend_add (br_day r) amount (bm_daily m),
     bm_monthly := spend_add (br_month r) amount (bm_monthly m)\<rparr>"

definition release :: "uuid \<Rightarrow> budget_manager \<Rightarrow> unit result \<times> budget_manager" where
  "release rid m =
     (case find_reservation rid m of None \<Rightarrow> (Inl KeyError, m) | Some _ \<Rightarrow> (Inr (), pop_reservation rid m))"

definition settle :: "uuid \<Rightarrow> int \<Rightarrow> int \<Rightarrow> int \<Rightarrow> budget_manager \<Rightarrow> settlement result \<times> budget_manager" where
  "settle rid prompt completion cached_prompt m =
     (case find_reservation rid m of
        None \<Rightarrow> (Inl KeyError, m)
      | Some r \<Rightarrow>
          let m1 = pop_reservation rid m
          in case bind_result (price_for m1 (br_provider r) (br_model r))
                    (\<lambda>p. cost p prompt completion cached_prompt) of
               Inl e \<Rightarrow> (Inl e, m1)
             | Inr charged \<Rightarrow>
                 (Inr \<lparr>bs_reservation_id = rid, bs_reserved = br_amount r, bs_charged = charged,
                       bs_over = (br_amount r < charged)\<rparr>, charge r charged m1))"

definition settle_unknown :: "uuid \<Rightarrow> budget_manager \<Rightarrow> settlement result \<times> budget_manager" where
  "settle_unknown rid m =
     (case find_reservation rid m of
        None \<Rightarrow> (Inl KeyError, m)
      | Some r \<Rightarrow>
          (Inr \<lparr>bs_reservation_id = rid, bs_reserved = br_amount r, bs_charged = br_amount r, bs_over = False\<rparr>,
           charge r (br_amount r) (pop_reservation rid m)))"

record budget_snapshot =
  bn_day_key :: str
  bn_month_key :: str
  bn_daily_spent :: rat
  bn_monthly_spent :: rat
  bn_daily_reserved :: rat
  bn_monthly_reserved :: rat

definition snapshot :: "time \<Rightarrow> budget_manager \<Rightarrow> budget_snapshot" where
  "snapshot now m =
     (let dk = day_key (bm_zone m) now; mk = month_key (bm_zone m) now
      in \<lparr>bn_day_key = dk, bn_month_key = mk, bn_daily_spent = spend_get (bm_daily m) dk,
          bn_monthly_spent = spend_get (bm_monthly m) mk, bn_daily_reserved = reserved_day m dk,
          bn_monthly_reserved = reserved_month m mk\<rparr>)"

subsection \<open>The ledger\<close>

datatype ledger_state = Lg_Reserved | Lg_Released | Lg_Settled | Lg_Unknown

record ledger_row =
  lg_reservation_id :: uuid
  lg_provider :: str
  lg_model :: str
  lg_day :: str
  lg_month :: str
  lg_reserved :: rat
  lg_charged :: "rat option"
  lg_state :: ledger_state
  lg_created_at :: time
  lg_settled_at :: "time option"

definition recover_ledger :: "time \<Rightarrow> ledger_row list \<Rightarrow> ledger_row list" where
  "recover_ledger now rows = update_where (\<lambda>r. lg_state r = Lg_Reserved)
     (\<lambda>r. r\<lparr>lg_state := Lg_Unknown, lg_charged := Some (lg_reserved r), lg_settled_at := Some now\<rparr>) rows"

definition charged_sum :: "(ledger_row \<Rightarrow> bool) \<Rightarrow> ledger_row list \<Rightarrow> rat" where
  "charged_sum P rows = sum_list (map (\<lambda>r. case lg_charged r of None \<Rightarrow> 0 | Some c \<Rightarrow> c)
     (filter (\<lambda>r. P r \<and> lg_state r \<in> {Lg_Settled, Lg_Unknown}) rows))"

definition initialize_and_recover :: "zone \<Rightarrow> time \<Rightarrow> ledger_row list \<Rightarrow> (rat \<times> rat) \<times> ledger_row list" where
  "initialize_and_recover z now rows =
     (let rows1 = recover_ledger now rows
      in ((charged_sum (\<lambda>r. lg_day r = day_key z now) rows1,
           charged_sum (\<lambda>r. lg_month r = month_key z now) rows1), rows1))"

record persistent_manager =
  pm_memory :: budget_manager
  pm_ledger :: "ledger_row list"

text \<open>The clock is read once for the recovery and once by the constructor.\<close>

definition create_manager ::
    "budget_limits \<Rightarrow> ((str \<times> str) \<times> model_price) list \<Rightarrow> zone \<Rightarrow> time \<Rightarrow> time \<Rightarrow> ledger_row list \<Rightarrow>
     persistent_manager result" where
  "create_manager l prices z recovery_now now rows =
     (let ((daily, monthly), rows1) = initialize_and_recover z recovery_now rows
      in bind_result (new_manager l prices z now daily monthly) (\<lambda>m.
           Inr \<lparr>pm_memory = m, pm_ledger = rows1\<rparr>))"

text \<open>\<open>io\<close> says whether the write reaches the database; a duplicate primary key is refused by it.\<close>

definition insert_reservation :: "bool \<Rightarrow> reservation \<Rightarrow> ledger_row list \<Rightarrow> ledger_row list result" where
  "insert_reservation io r rows =
     (if \<not> io then Inl (OtherException ''OperationalError'')
      else if exists_row (\<lambda>q. lg_reservation_id q = br_id r) rows then Inl (OtherException ''IntegrityError'')
      else Inr (rows @ [\<lparr>lg_reservation_id = br_id r, lg_provider = br_provider r, lg_model = br_model r,
             lg_day = br_day r, lg_month = br_month r, lg_reserved = br_amount r, lg_charged = None,
             lg_state = Lg_Reserved, lg_created_at = br_created_at r, lg_settled_at = None\<rparr>]))"

definition update_settlement ::
    "bool \<Rightarrow> time \<Rightarrow> uuid \<Rightarrow> ledger_state \<Rightarrow> rat \<Rightarrow> ledger_row list \<Rightarrow> ledger_row list result" where
  "update_settlement io now rid state charged rows =
     (let P = (\<lambda>r. lg_reservation_id r = rid \<and> lg_state r = Lg_Reserved)
      in if \<not> io then Inl (OtherException ''OperationalError'')
         else if count_where P rows \<noteq> 1
         then Inl (RuntimeError ''budget ledger transition was not applied exactly once'')
         else Inr (update_where P
                (\<lambda>r. r\<lparr>lg_state := state, lg_charged := Some charged, lg_settled_at := Some now\<rparr>) rows))"

definition pm_reserve ::
    "bool \<Rightarrow> uuid \<Rightarrow> time \<Rightarrow> str \<Rightarrow> str \<Rightarrow> int \<Rightarrow> int \<Rightarrow> persistent_manager \<Rightarrow>
     reservation result \<times> persistent_manager" where
  "pm_reserve io rid now provider model prompt max_completion pm =
     (case reserve rid now provider model prompt max_completion (pm_memory pm) of
        (Inl e, m) \<Rightarrow> (Inl e, pm\<lparr>pm_memory := m\<rparr>)
      | (Inr r, m) \<Rightarrow>
          (case insert_reservation io r (pm_ledger pm) of
             Inl e \<Rightarrow> (Inl e, pm\<lparr>pm_memory := snd (release (br_id r) m)\<rparr>)
           | Inr rows \<Rightarrow> (Inr r, \<lparr>pm_memory = m, pm_ledger = rows\<rparr>)))"

definition record_settlement ::
    "bool \<Rightarrow> time \<Rightarrow> uuid \<Rightarrow> ledger_state \<Rightarrow> rat \<Rightarrow> 'a \<Rightarrow> persistent_manager \<Rightarrow> 'a result \<times> persistent_manager" where
  "record_settlement io now rid state charged res pm =
     (case update_settlement io now rid state charged (pm_ledger pm) of
        Inl e \<Rightarrow> (Inl e, pm)
      | Inr rows \<Rightarrow> (Inr res, pm\<lparr>pm_ledger := rows\<rparr>))"

definition pm_release :: "bool \<Rightarrow> time \<Rightarrow> uuid \<Rightarrow> persistent_manager \<Rightarrow> unit result \<times> persistent_manager" where
  "pm_release io now rid pm =
     (case release rid (pm_memory pm) of
        (Inl e, m) \<Rightarrow> (Inl e, pm\<lparr>pm_memory := m\<rparr>)
      | (Inr u, m) \<Rightarrow> record_settlement io now rid Lg_Released 0 u (pm\<lparr>pm_memory := m\<rparr>))"

definition pm_settle ::
    "bool \<Rightarrow> time \<Rightarrow> uuid \<Rightarrow> int \<Rightarrow> int \<Rightarrow> int \<Rightarrow> persistent_manager \<Rightarrow> settlement result \<times> persistent_manager" where
  "pm_settle io now rid prompt completion cached_prompt pm =
     (case settle rid prompt completion cached_prompt (pm_memory pm) of
        (Inl e, m) \<Rightarrow> (Inl e, pm\<lparr>pm_memory := m\<rparr>)
      | (Inr st, m) \<Rightarrow> record_settlement io now rid Lg_Settled (bs_charged st) st (pm\<lparr>pm_memory := m\<rparr>))"

definition pm_settle_unknown :: "bool \<Rightarrow> time \<Rightarrow> uuid \<Rightarrow> persistent_manager \<Rightarrow> settlement result \<times> persistent_manager" where
  "pm_settle_unknown io now rid pm =
     (case settle_unknown rid (pm_memory pm) of
        (Inl e, m) \<Rightarrow> (Inl e, pm\<lparr>pm_memory := m\<rparr>)
      | (Inr st, m) \<Rightarrow> record_settlement io now rid Lg_Unknown (bs_charged st) st (pm\<lparr>pm_memory := m\<rparr>))"

subsection \<open>Amounts\<close>

definition manager_ok :: "budget_manager \<Rightarrow> bool" where
  "manager_ok m \<longleftrightarrow> (\<forall>q \<in> set (bm_prices m). model_price_ok (snd q)) \<and> (\<forall>r \<in> set (bm_reservations m). 0 \<le> br_amount r)"

lemma price_for_ok: "manager_ok m \<Longrightarrow> price_for m p md = Inr pr \<Longrightarrow> model_price_ok pr"
  by (auto simp: price_for_def manager_ok_def split: option.splits dest!: map_of_SomeD)

lemma cached_price_nonneg: "model_price_ok p \<Longrightarrow> 0 \<le> cached_price p"
  by (auto simp: model_price_ok_def cached_price_def split: option.splits)

lemma cost_nonneg:
  assumes "model_price_ok p" and "cost p a b c = Inr x"
  shows "0 \<le> x"
proof -
  from assms(2) have nn: "0 \<le> a" "0 \<le> b" "0 \<le> c"
    and x: "x = (of_int (a - min a c) * mp_input p + of_int (min a c) * cached_price p + of_int b * mp_output p) / 1000000"
    by (auto simp: cost_def split: if_splits)
  have "0 \<le> of_int (a - min a c) * mp_input p" "0 \<le> of_int (min a c) * cached_price p" "0 \<le> of_int b * mp_output p"
    using nn assms(1) cached_price_nonneg [OF assms(1)] by (simp_all add: model_price_ok_def zero_le_mult_iff)
  then show ?thesis unfolding x by simp
qed

lemma priced_nonneg:
  "manager_ok m \<Longrightarrow> bind_result (price_for m p md) (\<lambda>pr. cost pr a b c) = Inr x \<Longrightarrow> 0 \<le> x"
  by (auto simp: bind_result_Inr_iff dest: price_for_ok cost_nonneg)

lemma sum_amounts_nonneg: "\<forall>r \<in> set rs. 0 \<le> br_amount r \<Longrightarrow> 0 \<le> sum_amounts P rs"
  by (induction rs) (auto simp: sum_amounts_def)

lemma sum_amounts_simps [simp]:
  "sum_amounts P [] = 0"
  "sum_amounts P (r # rs) = (if P r then br_amount r else 0) + sum_amounts P rs"
  "sum_amounts P (rs @ ss) = sum_amounts P rs + sum_amounts P ss"
  by (simp_all add: sum_amounts_def)

lemma sum_amounts_filter_le:
  "\<forall>r \<in> set rs. 0 \<le> br_amount r \<Longrightarrow> sum_amounts P (filter Q rs) \<le> sum_amounts P rs"
  by (induction rs) auto

lemma sum_amounts_pop:
  assumes "\<forall>r \<in> set rs. 0 \<le> br_amount r" and "r \<in> set rs" and "\<not> Q r"
  shows "sum_amounts P (filter Q rs) + (if P r then br_amount r else 0) \<le> sum_amounts P rs"
  using assms
proof (induction rs)
  case (Cons a rs)
  show ?case
  proof (cases "a = r")
    case True
    with Cons.prems sum_amounts_filter_le [of rs P Q] show ?thesis by simp
  next
    case False
    with Cons.prems Cons.IH show ?thesis by (cases "Q a") (auto simp: add.assoc intro: add_nonneg_nonneg)
  qed
qed simp

subsection \<open>Committed money\<close>

text \<open>What is spent or reserved in a period; the two periods differ in the columns read.\<close>

definition committed_day :: "budget_manager \<Rightarrow> str \<Rightarrow> rat" where
  "committed_day m d = spend_get (bm_daily m) d + reserved_day m d"

definition committed_month :: "budget_manager \<Rightarrow> str \<Rightarrow> rat" where
  "committed_month m d = spend_get (bm_monthly m) d + reserved_month m d"

lemmas committed_defs = committed_day_def committed_month_def reserved_day_def reserved_month_def

text \<open>The amount by which a settlement exceeds its reservation.\<close>

definition overrun :: "settlement result \<times> 'm \<Rightarrow> rat" where
  "overrun res = (case fst res of Inr st \<Rightarrow> (if bs_over st then bs_charged st - bs_reserved st else 0) | Inl _ \<Rightarrow> 0)"

lemma overrun_nonneg: "0 \<le> overrun (settle rid a b c m)" "overrun (settle_unknown rid m) = 0"
  by (auto simp: overrun_def settle_def settle_unknown_def split: option.splits sum.splits)

lemma spend_get_add [simp]: "spend_get (spend_add k v d) j = spend_get d j + (if j = k then v else 0)"
  by (auto simp: spend_get_def spend_add_def)

lemma find_reservation_in: "find_reservation rid m = Some r \<Longrightarrow> r \<in> set (bm_reservations m) \<and> br_id r = rid"
  by (auto simp: find_reservation_def dest: get_row_in)

lemma pop_charge_committed:
  assumes "manager_ok m" and "find_reservation rid m = Some r"
  shows "committed_day (charge r c (pop_reservation rid m)) d \<le> committed_day m d + max 0 (c - br_amount r)"
    and "committed_month (charge r c (pop_reservation rid m)) d \<le> committed_month m d + max 0 (c - br_amount r)"
proof -
  note fr = find_reservation_in [OF assms(2)]
  have *: "sum_amounts P (filter (\<lambda>q. br_id q \<noteq> rid) (bm_reservations m)) + (if P r then br_amount r else 0)
      \<le> sum_amounts P (bm_reservations m)" for P
    using assms(1) fr by (intro sum_amounts_pop) (auto simp: manager_ok_def)
  show "committed_day (charge r c (pop_reservation rid m)) d \<le> committed_day m d + max 0 (c - br_amount r)"
    using * [of "\<lambda>q. br_day q = d"] by (auto simp: committed_defs charge_def pop_reservation_def max_def split: if_splits)
  show "committed_month (charge r c (pop_reservation rid m)) d \<le> committed_month m d + max 0 (c - br_amount r)"
    using * [of "\<lambda>q. br_month q = d"] by (auto simp: committed_defs charge_def pop_reservation_def max_def split: if_splits)
qed

lemma pop_committed:
  assumes "manager_ok m"
  shows "committed_day (pop_reservation rid m) d \<le> committed_day m d"
    and "committed_month (pop_reservation rid m) d \<le> committed_month m d"
  using assms sum_amounts_filter_le [of "bm_reservations m"]
  by (auto simp: committed_defs pop_reservation_def manager_ok_def)

lemma pop_ok [simp]: "manager_ok m \<Longrightarrow> manager_ok (pop_reservation rid m)"
  by (auto simp: manager_ok_def pop_reservation_def)

lemma charge_ok [simp]: "manager_ok (charge r c m) = manager_ok m"
  by (simp add: manager_ok_def charge_def)

lemma pop_reservation_limits [simp]: "bm_limits (pop_reservation rid m) = bm_limits m"
  by (simp add: pop_reservation_def)

lemma charge_limits [simp]: "bm_limits (charge r c m) = bm_limits m"
  by (simp add: charge_def)

text \<open>The limits bound the committed money of every period, up to what start and overruns add.\<close>

definition bounded :: "rat \<Rightarrow> rat \<Rightarrow> budget_manager \<Rightarrow> bool" where
  "bounded day month m \<longleftrightarrow> manager_ok m \<and> bl_daily (bm_limits m) \<le> day \<and> bl_monthly (bm_limits m) \<le> month \<and>
     (\<forall>d. committed_day m d \<le> day) \<and> (\<forall>d. committed_month m d \<le> month)"

lemma bounded_mono: "bounded a b m \<Longrightarrow> 0 \<le> x \<Longrightarrow> bounded (a + x) (b + x) m"
  by (auto simp: bounded_def intro: order_trans add_increasing2)

lemma charge_bounded:
  assumes "bounded a b m" and "find_reservation rid m = Some r"
  shows "bounded (a + max 0 (c - br_amount r)) (b + max 0 (c - br_amount r)) (charge r c (pop_reservation rid m))"
proof -
  let ?x = "max 0 (c - br_amount r)"
  have ok: "manager_ok m" and d: "committed_day m k \<le> a" and mo: "committed_month m k \<le> b" for k
    using assms(1) by (simp_all add: bounded_def)
  have "committed_day (charge r c (pop_reservation rid m)) k \<le> a + ?x" for k
    using pop_charge_committed(1) [OF ok assms(2), of c k] d [of k] by linarith
  moreover have "committed_month (charge r c (pop_reservation rid m)) k \<le> b + ?x" for k
    using pop_charge_committed(2) [OF ok assms(2), of c k] mo [of k] by linarith
  moreover have "0 \<le> ?x" by simp
  ultimately show ?thesis using assms(1) ok by (auto simp: bounded_def intro: add_increasing2)
qed

lemma reserve_bounded:
  assumes "bounded a b m"
  shows "bounded a b (snd (reserve rid now p md pt ct m))"
proof (cases "fst (reserve rid now p md pt ct m)")
  case (Inl e)
  then have "snd (reserve rid now p md pt ct m) = m"
    by (auto simp: reserve_def split: if_splits sum.splits)
  with assms show ?thesis by simp
next
  case (Inr r)
  then obtain amount where am: "bind_result (price_for m p md) (\<lambda>pr. cost pr pt ct 0) = Inr amount"
    and r: "r = \<lparr>br_id = rid, br_provider = p, br_model = md, br_amount = amount, br_day = day_key (bm_zone m) now,
        br_month = month_key (bm_zone m) now, br_created_at = now\<rparr>"
    and fits: "committed_day m (br_day r) + amount \<le> bl_daily (bm_limits m)"
        "committed_month m (br_month r) + amount \<le> bl_monthly (bm_limits m)"
    and t: "snd (reserve rid now p md pt ct m) = m\<lparr>bm_reservations := put_reservation r (bm_reservations m)\<rparr>"
    by (auto simp: reserve_def committed_day_def committed_month_def not_less split: if_splits sum.splits)
  have ok: "manager_ok m" using assms by (simp add: bounded_def)
  have pos: "0 \<le> amount" by (rule priced_nonneg [OF ok am])
  have le: "sum_amounts P (filter (\<lambda>q. br_id q \<noteq> rid) (bm_reservations m)) \<le> sum_amounts P (bm_reservations m)" for P
    using ok by (intro sum_amounts_filter_le) (simp add: manager_ok_def)
  have day: "committed_day (snd (reserve rid now p md pt ct m)) d \<le> a" for d
    using assms fits le [of "\<lambda>q. br_day q = d"] unfolding t
    by (cases "br_day r = d") (force simp: bounded_def committed_defs put_reservation_def r dest: spec [of _ d])+
  have month: "committed_month (snd (reserve rid now p md pt ct m)) d \<le> b" for d
    using assms fits le [of "\<lambda>q. br_month q = d"] unfolding t
    by (cases "br_month r = d") (force simp: bounded_def committed_defs put_reservation_def r dest: spec [of _ d])+
  from assms day month pos show ?thesis by (auto simp: bounded_def manager_ok_def put_reservation_def t r)
qed

lemma pop_bounded: "bounded a b m \<Longrightarrow> bounded a b (pop_reservation rid m)"
  using pop_committed [of m rid] unfolding bounded_def
  by (metis order_trans pop_ok pop_reservation_limits)

lemma release_bounded: "bounded a b m \<Longrightarrow> bounded a b (snd (release rid m))"
  by (simp add: release_def pop_bounded split: option.split)

lemma settle_bounded:
  assumes "bounded a b m"
  shows "bounded (a + overrun (settle rid pt ct ch m)) (b + overrun (settle rid pt ct ch m)) (snd (settle rid pt ct ch m))"
proof (cases "find_reservation rid m")
  case None
  with assms show ?thesis by (simp add: settle_def overrun_def)
next
  case (Some r)
  show ?thesis
  proof (cases "bind_result (price_for (pop_reservation rid m) (br_provider r) (br_model r)) (\<lambda>p. cost p pt ct ch)")
    case (Inl e)
    with Some assms show ?thesis by (simp add: settle_def overrun_def pop_bounded)
  next
    case (Inr c)
    then have "overrun (settle rid pt ct ch m) = max 0 (c - br_amount r)"
      "snd (settle rid pt ct ch m) = charge r c (pop_reservation rid m)"
      using Some by (auto simp: settle_def overrun_def max_def)
    with charge_bounded [OF assms Some] show ?thesis by simp
  qed
qed

lemma settle_unknown_bounded:
  assumes "bounded a b m"
  shows "bounded a b (snd (settle_unknown rid m))"
proof (cases "find_reservation rid m")
  case None
  with assms show ?thesis by (simp add: settle_unknown_def)
next
  case (Some r)
  with charge_bounded [OF assms Some, of "br_amount r"] show ?thesis by (simp add: settle_unknown_def)
qed

subsection \<open>The manager and its ledger\<close>

text \<open>One call on the persistent manager. The label is the amount by which a settlement exceeded its
  reservation.\<close>

inductive budget_step :: "persistent_manager \<Rightarrow> rat \<Rightarrow> persistent_manager \<Rightarrow> bool" where
  bst_reserve: "budget_step pm 0 (snd (pm_reserve io rid now p md pt ct pm))"
| bst_release: "budget_step pm 0 (snd (pm_release io now rid pm))"
| bst_settle: "budget_step pm (overrun (settle rid pt ct ch (pm_memory pm))) (snd (pm_settle io now rid pt ct ch pm))"
| bst_unknown: "budget_step pm 0 (snd (pm_settle_unknown io now rid pm))"

lemma record_settlement_memory [simp]:
  "pm_memory (snd (record_settlement io now rid st c res pm)) = pm_memory pm"
  by (simp add: record_settlement_def split: sum.split)

lemma pm_memory_simps:
  "pm_memory (snd (pm_release io now rid pm)) = snd (release rid (pm_memory pm))"
  "pm_memory (snd (pm_settle io now rid pt ct ch pm)) = snd (settle rid pt ct ch (pm_memory pm))"
  "pm_memory (snd (pm_settle_unknown io now rid pm)) = snd (settle_unknown rid (pm_memory pm))"
  by (auto simp: pm_release_def pm_settle_def pm_settle_unknown_def split: prod.split sum.split)

lemma pm_reserve_memory:
  "pm_memory (snd (pm_reserve io rid now p md pt ct pm)) = snd (reserve rid now p md pt ct (pm_memory pm)) \<or>
   (\<exists>k. pm_memory (snd (pm_reserve io rid now p md pt ct pm)) = snd (release k (snd (reserve rid now p md pt ct (pm_memory pm)))))"
  by (auto simp: pm_reserve_def split: prod.split sum.split)

lemma budget_step_bounded:
  assumes "budget_step pm x pm'" and "bounded a b (pm_memory pm)"
  shows "bounded (a + x) (b + x) (pm_memory pm')"
  using assms
proof (cases rule: budget_step.cases)
  case (bst_reserve io rid now p md pt ct)
  with pm_reserve_memory [of io rid now p md pt ct pm] assms(2) show ?thesis
    by (auto intro!: release_bounded reserve_bounded)
qed (simp_all add: pm_memory_simps release_bounded settle_bounded settle_unknown_bounded)

lemma budget_run_bounded:
  "run budget_step pm xs pm' \<Longrightarrow> bounded a b (pm_memory pm) \<Longrightarrow>
   bounded (a + sum_list xs) (b + sum_list xs) (pm_memory pm')"
proof (induction arbitrary: a b rule: run.induct)
  case (run_Cons s l t ls u)
  from run_Cons.IH [OF budget_step_bounded [OF run_Cons.hyps(1) run_Cons.prems]] show ?case
    by (simp add: add.assoc)
qed simp

lemma create_manager_bounded:
  assumes "\<forall>q \<in> set prices. model_price_ok (snd q)" and "create_manager l prices z t0 t1 rows = Inr pm"
    and "initialize_and_recover z t0 rows = ((daily, monthly), rows1)" and "budget_limits_ok l"
  shows "bounded (max (bl_daily l) daily) (max (bl_monthly l) monthly) (pm_memory pm)"
proof -
  from assms(2,3) have nn: "0 \<le> daily" "0 \<le> monthly" and pm: "pm_memory pm = \<lparr>bm_limits = l, bm_prices = prices, bm_zone = z,
     bm_daily = [day_key z t1 \<mapsto> daily], bm_monthly = [month_key z t1 \<mapsto> monthly], bm_reservations = []\<rparr>"
    by (auto simp: create_manager_def new_manager_def split: if_splits)
  with assms(1) nn show ?thesis
    by (auto simp: bounded_def manager_ok_def committed_defs spend_get_def)
qed

subsection \<open>Both periods at once\<close>

datatype period = Daily | Monthly

fun br_period :: "period \<Rightarrow> reservation \<Rightarrow> str" where
  "br_period Daily r = br_day r" | "br_period Monthly r = br_month r"

fun lg_period :: "period \<Rightarrow> ledger_row \<Rightarrow> str" where
  "lg_period Daily r = lg_day r" | "lg_period Monthly r = lg_month r"

fun bm_spend :: "period \<Rightarrow> budget_manager \<Rightarrow> (str \<rightharpoonup> rat)" where
  "bm_spend Daily m = bm_daily m" | "bm_spend Monthly m = bm_monthly m"

definition committed :: "period \<Rightarrow> budget_manager \<Rightarrow> str \<Rightarrow> rat" where
  "committed p m d = spend_get (bm_spend p m) d + sum_amounts (\<lambda>r. br_period p r = d) (bm_reservations m)"

lemma committed_period: "committed Daily = committed_day" "committed Monthly = committed_month"
  by (rule ext, rule ext, simp add: committed_def committed_defs)+

text \<open>What a ledger row stands for after a restart.\<close>

definition row_owed :: "ledger_row \<Rightarrow> rat" where
  "row_owed r = (case lg_state r of Lg_Reserved \<Rightarrow> lg_reserved r | Lg_Released \<Rightarrow> 0
     | _ \<Rightarrow> (case lg_charged r of None \<Rightarrow> 0 | Some c \<Rightarrow> c))"

definition owed :: "period \<Rightarrow> str \<Rightarrow> ledger_row list \<Rightarrow> rat" where
  "owed p d rows = sum_list (map (\<lambda>r. if lg_period p r = d then row_owed r else 0) rows)"

definition ledger_row_ok :: "ledger_row \<Rightarrow> bool" where
  "ledger_row_ok r \<longleftrightarrow> 0 \<le> lg_reserved r \<and> (case lg_charged r of None \<Rightarrow> True | Some c \<Rightarrow> 0 \<le> c)"

definition ledger_ok :: "ledger_row list \<Rightarrow> bool" where
  "ledger_ok rows \<longleftrightarrow> distinct (map lg_reservation_id rows) \<and> (\<forall>r \<in> set rows. ledger_row_ok r)"

lemma owed_simps [simp]:
  "owed p d [] = 0" "owed p d (rows @ rows') = owed p d rows + owed p d rows'"
  "owed p d [r] = (if lg_period p r = d then row_owed r else 0)"
  by (simp_all add: owed_def)

lemma owed_nonneg: "\<forall>r \<in> set rows. ledger_row_ok r \<Longrightarrow> 0 \<le> owed p d rows"
  unfolding owed_def
  by (rule sum_list_nonneg) (auto simp: row_owed_def ledger_row_ok_def split: ledger_state.splits option.splits)

lemma lg_period_update [simp]:
  "lg_period p (r\<lparr>lg_state := st\<rparr>) = lg_period p r" "lg_period p (r\<lparr>lg_charged := c\<rparr>) = lg_period p r"
  "lg_period p (r\<lparr>lg_settled_at := t\<rparr>) = lg_period p r"
  by (cases p; simp)+

lemma charged_sum_recover: "charged_sum (\<lambda>r. lg_period p r = d) (recover_ledger now rows) = owed p d rows"
  by (induction rows)
    (auto simp: charged_sum_def recover_ledger_def update_where_def owed_def row_owed_def split: ledger_state.splits option.splits)

lemma owed_recover: "owed p d (recover_ledger now rows) = owed p d rows"
  by (induction rows) (auto simp: recover_ledger_def update_where_def owed_def row_owed_def)

lemma recover_ledger_ok: "ledger_ok rows \<Longrightarrow> ledger_ok (recover_ledger now rows)"
  by (auto simp: ledger_ok_def recover_ledger_def ball_update_where map_update_where ledger_row_ok_def split: option.splits)

lemma initialize_owed:
  "initialize_and_recover z now rows =
   ((owed Daily (day_key z now) rows, owed Monthly (month_key z now) rows), recover_ledger now rows)"
  using charged_sum_recover [of Daily "day_key z now" now rows] charged_sum_recover [of Monthly "month_key z now" now rows]
  by (simp add: initialize_and_recover_def)

lemma owed_update:
  assumes "distinct (map lg_reservation_id rows)" and "get_row lg_reservation_id rid rows = Some q"
    and "lg_state q = Lg_Reserved" and "\<And>r. lg_period p (f r) = lg_period p r"
  shows "owed p d (update_where (\<lambda>r. lg_reservation_id r = rid \<and> lg_state r = Lg_Reserved) f rows) =
    owed p d rows + (if lg_period p q = d then row_owed (f q) - lg_reserved q else 0)"
  using assms
proof (induction rows)
  case (Cons a rows)
  show ?case
  proof (cases "lg_reservation_id a = rid")
    case True
    with Cons.prems have "a = q" by simp
    moreover have "update_where (\<lambda>r. lg_reservation_id r = rid \<and> lg_state r = Lg_Reserved) f rows = rows"
      using Cons.prems(1) True by (intro update_where_none) (auto simp: count_where_0_iff image_iff)
    ultimately show ?thesis using Cons.prems True by (simp add: owed_def update_where_def row_owed_def)
  next
    case False
    with Cons show ?thesis by (simp add: owed_def update_where_def)
  qed
qed simp

lemma sum_amounts_remove:
  assumes "distinct (map br_id rs)" and "get_row br_id rid rs = Some r"
  shows "sum_amounts P (filter (\<lambda>q. br_id q \<noteq> rid) rs) = sum_amounts P rs - (if P r then br_amount r else 0)"
  using assms
proof (induction rs)
  case (Cons a rs)
  show ?case
  proof (cases "br_id a = rid")
    case True
    with Cons.prems have "filter (\<lambda>q. br_id q \<noteq> rid) rs = rs" by (auto simp: filter_id_conv image_iff)
    with True Cons.prems show ?thesis by simp
  next
    case False
    with Cons show ?thesis by simp
  qed
qed simp

subsection \<open>Reservations and their rows\<close>

definition reservation_row :: "reservation \<Rightarrow> ledger_row \<Rightarrow> bool" where
  "reservation_row r q \<longleftrightarrow> lg_state q = Lg_Reserved \<and> lg_reserved q = br_amount r \<and> lg_day q = br_day r \<and> lg_month q = br_month r"

lemma reservation_row_period: "reservation_row r q \<Longrightarrow> lg_period p q = br_period p r"
  by (cases p) (simp_all add: reservation_row_def)

lemma bm_spend_update [simp]: "bm_spend p (m\<lparr>bm_reservations := rs\<rparr>) = bm_spend p m"
  by (cases p) simp_all

lemma bm_spend_charge [simp]: "bm_spend p (charge r c m) = spend_add (br_period p r) c (bm_spend p m)"
  by (cases p) (simp_all add: charge_def)

lemma charge_reservations [simp]: "bm_reservations (charge r c m) = bm_reservations m"
  by (simp add: charge_def)

lemma reserve_Inr:
  assumes "reserve rid now p md pt ct m = (Inr r, m')"
  shows "br_id r = rid" and "m' = m\<lparr>bm_reservations := put_reservation r (bm_reservations m)\<rparr>"
    and "bind_result (price_for m p md) (\<lambda>pr. cost pr pt ct 0) = Inr (br_amount r)"
  using assms by (auto simp: reserve_def split: if_splits sum.splits)

lemma reserve_Inl: "reserve rid now p md pt ct m = (Inl e, m') \<Longrightarrow> m' = m"
  by (auto simp: reserve_def split: if_splits sum.splits)

lemma insert_reservation_Inr:
  "insert_reservation io r rows = Inr rows' \<Longrightarrow> get_row lg_reservation_id (br_id r) rows = None \<and>
   (\<exists>q. rows' = rows @ [q] \<and> lg_reservation_id q = br_id r \<and> reservation_row r q \<and> lg_charged q = None)"
  by (auto simp: insert_reservation_def reservation_row_def exists_key_iff split: if_splits)

text \<open>C11.
  Hard limits of the model budget (\<open>BudgetManager\<close>, \<open>PersistentBudgetManager\<close>): start a manager on any ledger
  and make any calls on it, with or without database failures. For every day and month, money spent plus money
  reserved never exceeds the larger of the configured limit and the amount found at the start, plus the amounts by
  which the provider's reported usage exceeded the worst case that was reserved.
\<close>

theorem budget_limit_respected:
  assumes "budget_limits_ok l" and "\<forall>q \<in> set prices. model_price_ok (snd q)"
    and "create_manager l prices z t0 t1 rows = Inr pm" and "run budget_step pm xs pm'"
    and "initialize_and_recover z t0 rows = ((daily, monthly), rows1)"
  shows "committed_day (pm_memory pm') d \<le> max (bl_daily l) daily + sum_list xs \<and>
    committed_month (pm_memory pm') mo \<le> max (bl_monthly l) monthly + sum_list xs"
proof -
  from create_manager_bounded [OF assms(2,3,5,1)]
  have "bounded (max (bl_daily l) daily) (max (bl_monthly l) monthly) (pm_memory pm)" .
  from budget_run_bounded [OF assms(4) this] show ?thesis by (simp add: bounded_def)
qed

text \<open>A settlement with a negative token count is refused after the reservation has been dropped
  (\<open>BudgetManager.settle\<close> pops before it prices): the call is never charged in this process and its reserved money
  becomes available again at once.
\<close>

theorem settle_refusal_drops_reservation:
  assumes "find_reservation rid m = Some r" and "price_for m (br_provider r) (br_model r) = Inr p"
    and "pt < 0 \<or> ct < 0 \<or> ch < 0"
  shows "settle rid pt ct ch m = (Inl (ValueError ''token counts cannot be negative''), pop_reservation rid m) \<and>
    find_reservation rid (pop_reservation rid m) = None \<and>
    spend_get (bm_daily (pop_reservation rid m)) d = spend_get (bm_daily m) d"
proof -
  have "price_for (pop_reservation rid m) (br_provider r) (br_model r) = Inr p"
    using assms(2) by (simp add: price_for_def pop_reservation_def)
  moreover have "min pt (min ct ch) < 0" using assms(3) by linarith
  moreover have "find_reservation rid (pop_reservation rid m) = None"
    by (auto simp: find_reservation_def get_row_None pop_reservation_def image_iff)
  ultimately show ?thesis using assms(1) by (simp add: settle_def cost_def pop_reservation_def)
qed

subsection \<open>Witnesses\<close>

definition demo_prices :: "((str \<times> str) \<times> model_price) list" where
  "demo_prices = [((lit ''deepseek'', lit ''flash''), \<lparr>mp_input = 2, mp_output = 8, mp_cached = None\<rparr>)]"

definition demo_limits :: budget_limits where
  "demo_limits = \<lparr>bl_daily = 10, bl_monthly = 100\<rparr>"

definition demo_ledger :: "ledger_row list" where
  "demo_ledger = [\<lparr>lg_reservation_id = [1], lg_provider = lit ''deepseek'', lg_model = lit ''flash'', lg_day = day_key (fixed_zone 0) 0,
     lg_month = month_key (fixed_zone 0) 0, lg_reserved = 3, lg_charged = None, lg_state = Lg_Reserved, lg_created_at = 0,
     lg_settled_at = None\<rparr>]"

definition demo_manager :: persistent_manager where
  "demo_manager = (case create_manager demo_limits demo_prices (fixed_zone 0) 0 0 demo_ledger of Inr pm \<Rightarrow> pm | Inl _ \<Rightarrow> undefined)"

definition demo_reserve_call :: "reservation result \<times> persistent_manager" where
  "demo_reserve_call = pm_reserve True [2] 0 (lit ''deepseek'') (lit ''flash'') 500000 500000 demo_manager"

lemma demo_manager_created: "create_manager demo_limits demo_prices (fixed_zone 0) 0 0 demo_ledger = Inr demo_manager"
  "pm_memory demo_manager = \<lparr>bm_limits = demo_limits, bm_prices = demo_prices, bm_zone = fixed_zone 0,
     bm_daily = [day_key (fixed_zone 0) 0 \<mapsto> 3], bm_monthly = [month_key (fixed_zone 0) 0 \<mapsto> 3], bm_reservations = []\<rparr>"
  by (simp_all add: demo_manager_def create_manager_def initialize_owed demo_ledger_def owed_def row_owed_def new_manager_def
      recover_ledger_def)

lemma demo_initialized: "initialize_and_recover (fixed_zone 0) 0 demo_ledger = ((3, 3), recover_ledger 0 demo_ledger)"
  by (simp add: initialize_owed demo_ledger_def owed_def row_owed_def)

lemma demo_prices_ok: "\<forall>q \<in> set demo_prices. model_price_ok (snd q)"
  by (simp add: demo_prices_def model_price_ok_def)

lemma demo_budget_run: "run budget_step demo_manager [0] (snd demo_reserve_call)"
  by (auto simp: demo_reserve_call_def intro: run.intros bst_reserve)

lemma demo_reserve_accepted: "is_ok (fst demo_reserve_call)"
  by (simp add: demo_reserve_call_def pm_reserve_def reserve_def demo_manager_created price_for_def demo_prices_def cost_def
      cached_price_def spend_get_def reserved_day_def reserved_month_def demo_limits_def insert_reservation_def
      exists_row_def demo_manager_def create_manager_def initialize_owed demo_ledger_def owed_def row_owed_def new_manager_def
      recover_ledger_def update_where_def)

theorem budget_limit_respected_witness:
  "is_ok (fst demo_reserve_call) \<and> run budget_step demo_manager [0] (snd demo_reserve_call) \<and>
   committed_day (pm_memory (snd demo_reserve_call)) (day_key (fixed_zone 0) 0) \<le> 10"
  using budget_limit_respected [OF _ demo_prices_ok demo_manager_created(1) demo_budget_run demo_initialized,
      of "day_key (fixed_zone 0) 0" "month_key (fixed_zone 0) 0"] demo_budget_run demo_reserve_accepted
  by (simp add: budget_limits_ok_def demo_limits_def)

theorem settle_refusal_drops_reservation_witness:
  "find_reservation [2] (pm_memory (snd demo_reserve_call)) \<noteq> None \<and>
   find_reservation [2] (snd (settle [2] (- 1) 0 0 (pm_memory (snd demo_reserve_call)))) = None"
proof -
  obtain r m where call: "reserve [2] 0 (lit ''deepseek'') (lit ''flash'') 500000 500000 (pm_memory demo_manager) = (Inr r, m)"
    by (auto simp: reserve_def demo_manager_created price_for_def demo_prices_def cost_def
      cached_price_def spend_get_def reserved_day_def reserved_month_def demo_limits_def)
  have mem: "pm_memory (snd demo_reserve_call) = m"
    using demo_reserve_accepted call by (auto simp: demo_reserve_call_def pm_reserve_def split: sum.splits)
  have r: "br_id r = [2]" "br_provider r = lit ''deepseek''" "br_model r = lit ''flash''" "find_reservation [2] m = Some r"
    using call by (auto simp: reserve_def demo_manager_created find_reservation_def put_reservation_def split: if_splits sum.splits)
  have "price_for m (br_provider r) (br_model r) = Inr \<lparr>mp_input = 2, mp_output = 8, mp_cached = None\<rparr>"
    by (simp add: reserve_Inr(2) [OF call] r price_for_def demo_manager_created demo_prices_def)
  from settle_refusal_drops_reservation [OF r(4) this, of "-1" 0 0] r(4) show ?thesis by (simp add: mem)
qed

end
