(* ===== verification/Framing.thy ===== *)
theory Framing
  imports Prelude "HOL-Library.Word"
begin

text \<open>
  \<open>lemonbot/ipc/framing.py\<close>: length-prefixed frames on the pipes between the core and its worker processes. A
  byte is an 8-bit word. A blocking pipe answers one \<open>read(n)\<close> with at least one and at most \<open>n\<close> bytes unless it
  is at its end; how many is up to the operating system and is the schedule of the model. The JSON text of an
  envelope is written by pydantic, which is not part of the program: \<open>dump\<close> and \<open>decode\<close> are parameters.
\<close>

type_synonym byte = "8 word"

record envelope =
  env_protocol_version :: int
  env_request_id :: str
  env_message_type :: str
  env_payload :: dict

definition max_frame_bytes :: nat where
  "max_frame_bytes = 1024 * 1024"

definition ipc_error :: "string \<Rightarrow> exn" where
  "ipc_error msg = OtherException (''IPCError: '' @ msg)"

subsection \<open>The header\<close>

text \<open>\<open>struct.Struct("!I")\<close>: four bytes, most significant first; a larger number raises.\<close>

definition header_pack :: "nat \<Rightarrow> byte list result" where
  "header_pack n = (if n < 2 ^ 32
     then Inr [of_nat (n div 2 ^ 24), of_nat (n div 2 ^ 16), of_nat (n div 2 ^ 8), of_nat n]
     else Inl (OtherException ''struct.error''))"

fun header_unpack :: "byte list \<Rightarrow> nat" where
  "header_unpack [a, b, c, d] = unat a * 2 ^ 24 + unat b * 2 ^ 16 + unat c * 2 ^ 8 + unat d"
| "header_unpack _ = 0"

subsection \<open>Writing\<close>

definition write_frame :: "('e \<Rightarrow> byte list) \<Rightarrow> nat \<Rightarrow> 'e \<Rightarrow> byte list \<Rightarrow> byte list result" where
  "write_frame dump limit e out =
     (let payload = dump e
      in if limit < length payload then Inl (ipc_error ''worker frame exceeds limit'')
         else bind_result (header_pack (length payload)) (\<lambda>h. Inr (out @ h @ payload)))"

subsection \<open>Reading\<close>

record pipe =
  pp_data :: "byte list"
  pp_chunks :: "nat list"

definition pipe_read :: "nat \<Rightarrow> pipe \<Rightarrow> byte list \<times> pipe" where
  "pipe_read n p =
     (let k = (case pp_chunks p of [] \<Rightarrow> n | c # _ \<Rightarrow> min n (Suc c))
      in (take k (pp_data p), p\<lparr>pp_data := drop k (pp_data p), pp_chunks := tl (pp_chunks p)\<rparr>))"

function read_exactly_loop :: "nat \<Rightarrow> byte list \<Rightarrow> pipe \<Rightarrow> byte list \<times> pipe" where
  "read_exactly_loop len chunks p =
     (if length chunks < len then
        case pipe_read (len - length chunks) p of (chunk, p1) \<Rightarrow>
          if chunk = [] then (chunks, p1) else read_exactly_loop len (chunks @ chunk) p1
      else (chunks, p))"
  by auto
termination
  by (relation "measure (\<lambda>(len, chunks, p). len - length chunks)") (simp, simp add: diff_less_mono2)

declare read_exactly_loop.simps [simp del]

definition read_exactly :: "nat \<Rightarrow> pipe \<Rightarrow> byte list \<times> pipe" where
  "read_exactly len p = read_exactly_loop len [] p"

definition read_frame_sync ::
    "(byte list \<Rightarrow> 'e result) \<Rightarrow> nat \<Rightarrow> pipe \<Rightarrow> 'e result \<times> pipe" where
  "read_frame_sync decode limit p =
     (case read_exactly 4 p of (header, p1) \<Rightarrow>
        if length header \<noteq> 4 then (Inl (ipc_error ''worker pipe closed while reading frame header''), p1)
        else
          let len = header_unpack header
          in if len = 0 \<or> limit < len then (Inl (ipc_error ''invalid worker frame length''), p1)
             else case read_exactly len p1 of (payload, p2) \<Rightarrow>
               if length payload \<noteq> len then (Inl (ipc_error ''worker pipe closed while reading frame body''), p2)
               else (decode payload, p2))"

text \<open>\<open>read_frame\<close> on an \<open>asyncio.StreamReader\<close>: \<open>readexactly\<close> takes the bytes or, at the end of the stream,
  raises and consumes what was left.\<close>

definition stream_readexactly :: "nat \<Rightarrow> byte list \<Rightarrow> byte list option \<times> byte list" where
  "stream_readexactly n data = (if length data < n then (None, []) else (Some (take n data), drop n data))"

definition read_frame :: "(byte list \<Rightarrow> 'e result) \<Rightarrow> nat \<Rightarrow> byte list \<Rightarrow> 'e result \<times> byte list" where
  "read_frame decode limit data =
     (case stream_readexactly 4 data of
        (None, rest) \<Rightarrow> (Inl (ipc_error ''worker pipe closed while reading frame header''), rest)
      | (Some header, rest) \<Rightarrow>
          let len = header_unpack header
          in if len = 0 \<or> limit < len then (Inl (ipc_error ''invalid worker frame length''), rest)
             else case stream_readexactly len rest of
               (None, rest1) \<Rightarrow> (Inl (ipc_error ''worker pipe closed while reading frame body''), rest1)
             | (Some payload, rest1) \<Rightarrow> (decode payload, rest1))"

subsection \<open>Decoding\<close>

text \<open>\<open>json.loads\<close> with \<open>object_pairs_hook\<close> and \<open>parse_constant\<close>: \<open>parse\<close> is the syntax analysis of the standard
  library, its objects the pairs in the order of the text and its constants \<open>NaN\<close> and the infinities; the
  hooks then run from the inside out, in the order of the text.\<close>

datatype raw_json =
    RNull | RBool bool | RInt int | RFloat rat | RConst string | RStr str
  | RList "raw_json list"
  | RObj "(str \<times> raw_json) list"

fun reject_duplicate_keys_from :: "(str \<times> json) list \<Rightarrow> (str \<times> json) list \<Rightarrow> dict result" where
  "reject_duplicate_keys_from res [] = Inr res"
| "reject_duplicate_keys_from res ((k, v) # pairs) =
     (if k \<in> fst ` set res then Inl (ValueError ''duplicate JSON object key'')
      else reject_duplicate_keys_from (res @ [(k, v)]) pairs)"

definition reject_duplicate_keys :: "(str \<times> json) list \<Rightarrow> dict result" where
  "reject_duplicate_keys pairs = reject_duplicate_keys_from [] pairs"

fun run_hooks :: "raw_json \<Rightarrow> json result"
  and run_hooks_list :: "raw_json list \<Rightarrow> json list result"
  and run_hooks_pairs :: "(str \<times> raw_json) list \<Rightarrow> (str \<times> json) list result" where
  "run_hooks RNull = Inr JNull"
| "run_hooks (RBool b) = Inr (JBool b)"
| "run_hooks (RInt i) = Inr (JInt i)"
| "run_hooks (RFloat q) = Inr (JFloat q)"
| "run_hooks (RConst _) = Inl (ValueError ''non-finite JSON number is forbidden'')"
| "run_hooks (RStr s) = Inr (JStr s)"
| "run_hooks (RList vs) = bind_result (run_hooks_list vs) (\<lambda>js. Inr (JList js))"
| "run_hooks (RObj kvs) = bind_result (run_hooks_pairs kvs) (\<lambda>ps.
     bind_result (reject_duplicate_keys ps) (\<lambda>d. Inr (JObj d)))"
| "run_hooks_list [] = Inr []"
| "run_hooks_list (v # vs) = bind_result (run_hooks v) (\<lambda>j. bind_result (run_hooks_list vs) (\<lambda>js. Inr (j # js)))"
| "run_hooks_pairs [] = Inr []"
| "run_hooks_pairs ((k, v) # kvs) =
     bind_result (run_hooks v) (\<lambda>j. bind_result (run_hooks_pairs kvs) (\<lambda>ps. Inr ((k, j) # ps)))"

definition json_loads :: "('t \<Rightarrow> raw_json result) \<Rightarrow> 't \<Rightarrow> json result" where
  "json_loads parse text = bind_result (parse text) run_hooks"

text \<open>\<open>validate\<close> is \<open>Envelope.model_validate\<close>.\<close>

definition decode_envelope ::
    "(byte list \<Rightarrow> raw_json result) \<Rightarrow> (json \<Rightarrow> envelope result) \<Rightarrow> byte list \<Rightarrow> envelope result" where
  "decode_envelope parse validate payload =
     (case json_loads parse payload of
        Inl _ \<Rightarrow> Inl (ipc_error ''worker sent invalid UTF-8 JSON'')
      | Inr v \<Rightarrow> (case validate v of
          Inl _ \<Rightarrow> Inl (ipc_error ''worker envelope failed schema validation'') | Inr e \<Rightarrow> Inr e))"

subsection \<open>Library\<close>

lemma base_256:
  "x = a * 2 ^ 24 + b * 2 ^ 16 + c * 2 ^ 8 + d \<Longrightarrow> p = a * 256 + b \<Longrightarrow> q = p * 256 + c \<Longrightarrow> n = q * 256 + d \<Longrightarrow> x = (n :: nat)"
  by simp

lemma header_unpack_pack:
  assumes "n < 2 ^ 32"
  shows "header_unpack [of_nat (n div 2 ^ 24), of_nat (n div 2 ^ 16), of_nat (n div 2 ^ 8), of_nat n] = n"
proof -
  have "n div 2 ^ 24 < 256" using assms by (simp add: less_mult_imp_div_less)
  then have "header_unpack [of_nat (n div 2 ^ 24), of_nat (n div 2 ^ 16), of_nat (n div 2 ^ 8), of_nat n] =
      n div 2 ^ 24 * 2 ^ 24 + n div 2 ^ 16 mod 256 * 2 ^ 16 + n div 2 ^ 8 mod 256 * 2 ^ 8 + n mod 256"
    by (simp add: unat_of_nat)
  moreover have "n div 2 ^ 16 = n div 2 ^ 24 * 256 + n div 2 ^ 16 mod 256"
    using div_mult_mod_eq [of "n div 2 ^ 16" 256] by (simp add: div_mult2_eq [symmetric])
  moreover have "n div 2 ^ 8 = n div 2 ^ 16 * 256 + n div 2 ^ 8 mod 256"
    using div_mult_mod_eq [of "n div 2 ^ 8" 256] by (simp add: div_mult2_eq [symmetric])
  moreover have "n = n div 2 ^ 8 * 256 + n mod 256" by simp
  ultimately show ?thesis by (rule base_256)
qed

text \<open>Whatever the schedule, \<open>read_exactly\<close> takes the first bytes, or all that are left.\<close>

lemma read_exactly_loop_data:
  "length chunks \<le> len \<Longrightarrow>
   fst (read_exactly_loop len chunks p) = chunks @ take (len - length chunks) (pp_data p) \<and>
   pp_data (snd (read_exactly_loop len chunks p)) = drop (len - length chunks) (pp_data p)"
proof (induction len chunks p rule: read_exactly_loop.induct)
  case (1 len chunks p)
  show ?case
  proof (cases "length chunks < len")
    case False
    with "1.prems" show ?thesis by (simp add: read_exactly_loop.simps [of len chunks p])
  next
    case True
    define n where "n = len - length chunks"
    define k where "k = (case pp_chunks p of [] \<Rightarrow> n | c # _ \<Rightarrow> min n (Suc c))"
    define p1 where "p1 = p\<lparr>pp_data := drop k (pp_data p), pp_chunks := tl (pp_chunks p)\<rparr>"
    have k: "k \<le> n" "0 < k" using True by (auto simp: k_def n_def split: list.split)
    have rd: "pipe_read n p = (take k (pp_data p), p1)" by (simp add: pipe_read_def k_def p1_def Let_def)
    show ?thesis
    proof (cases "take k (pp_data p) = []")
      case empty: True
      with k True have "pp_data p = []" by simp
      with empty True rd show ?thesis
        by (simp add: read_exactly_loop.simps [of len chunks p] n_def [symmetric] p1_def)
    next
      case False
      have len: "length (chunks @ take k (pp_data p)) \<le> len" using k True by (auto simp: n_def)
      have "len - length (chunks @ take k (pp_data p)) = n - min (length (pp_data p)) k" by (simp add: n_def)
      with "1.IH" [OF True rd [unfolded n_def, symmetric] False len] True False k rd show ?thesis
        by (simp add: read_exactly_loop.simps [of len chunks p] n_def [symmetric] p1_def min_def split: if_splits)
          (metis append_take_drop_id le_add_diff_inverse take_add)
    qed
  qed
qed

lemma read_exactly_data:
  "read_exactly len p = (take len (pp_data p), snd (read_exactly len p))"
  "pp_data (snd (read_exactly len p)) = drop len (pp_data p)"
  using read_exactly_loop_data [of "[]" len p] by (simp_all add: read_exactly_def prod_eq_iff)

text \<open>The blocking reader agrees with the asynchronous one, on the result and on the bytes left.\<close>

lemma read_frame_sync_eq:
  "fst (read_frame_sync decode limit p) = fst (read_frame decode limit (pp_data p)) \<and>
   pp_data (snd (read_frame_sync decode limit p)) = snd (read_frame decode limit (pp_data p))"
proof -
  define p1 where "p1 = snd (read_exactly 4 p)"
  have h: "read_exactly 4 p = (take 4 (pp_data p), p1)" "pp_data p1 = drop 4 (pp_data p)"
    using read_exactly_data [of 4 p] by (simp_all add: p1_def)
  define n where "n = header_unpack (take 4 (pp_data p))"
  define p2 where "p2 = snd (read_exactly n p1)"
  have b: "read_exactly n p1 = (take n (drop 4 (pp_data p)), p2)" "pp_data p2 = drop n (drop 4 (pp_data p))"
    using read_exactly_data [of n p1] by (simp_all add: p2_def h)
  show ?thesis
  proof (cases "length (pp_data p) < 4")
    case True
    with h show ?thesis by (simp add: read_frame_sync_def read_frame_def stream_readexactly_def)
  next
    case False
    then have l4: "length (take 4 (pp_data p)) = 4" by simp
    show ?thesis
    proof (cases "length (drop 4 (pp_data p)) < n")
      case True
      with False h b l4 show ?thesis
        by (simp add: read_frame_sync_def read_frame_def stream_readexactly_def n_def [symmetric])
    next
      case enough: False
      then have "length (take n (drop 4 (pp_data p))) = n" by simp
      with enough False h b l4 show ?thesis
        by (simp add: read_frame_sync_def read_frame_def stream_readexactly_def n_def [symmetric])
    qed
  qed
qed

definition frame :: "byte list \<Rightarrow> byte list" where
  "frame payload = [of_nat (length payload div 2 ^ 24), of_nat (length payload div 2 ^ 16),
     of_nat (length payload div 2 ^ 8), of_nat (length payload)] @ payload"

lemma write_frame_eq:
  "length (dump e) \<le> limit \<Longrightarrow> limit < 2 ^ 32 \<Longrightarrow> write_frame dump limit e out = Inr (out @ frame (dump e))"
  by (simp add: write_frame_def header_pack_def frame_def)

lemma read_frame_frame:
  assumes "0 < length payload" and "length payload \<le> limit" and "limit < 2 ^ 32"
  shows "read_frame decode limit (frame payload @ rest) = (decode payload, rest)"
proof -
  have "take 4 (frame payload @ rest) = [of_nat (length payload div 2 ^ 24), of_nat (length payload div 2 ^ 16),
     of_nat (length payload div 2 ^ 8), of_nat (length payload)]" by (simp add: frame_def)
  with assms header_unpack_pack [of "length payload"] show ?thesis
    by (simp add: read_frame_def stream_readexactly_def frame_def)
qed

lemma read_frame_cut:
  assumes "length payload \<le> limit" and "limit < 2 ^ 32" and "k < length (frame payload)"
  shows "\<exists>msg. read_frame decode limit (take k (frame payload)) = (Inl (ipc_error msg), [])"
proof (cases "k < 4")
  case True
  with assms(3) show ?thesis by (auto simp: read_frame_def stream_readexactly_def)
next
  case False
  with assms(3) have "take 4 (take k (frame payload)) = [of_nat (length payload div 2 ^ 24),
      of_nat (length payload div 2 ^ 16), of_nat (length payload div 2 ^ 8), of_nat (length payload)]"
    "drop 4 (take k (frame payload)) = take (k - 4) payload" "length (take k (frame payload)) = k"
    by (simp_all add: frame_def min_def drop_take)
  with False assms header_unpack_pack [of "length payload"] show ?thesis
    by (auto simp: read_frame_def stream_readexactly_def frame_def)
qed

subsection \<open>Properties\<close>

fun write_frames :: "('e \<Rightarrow> byte list) \<Rightarrow> nat \<Rightarrow> 'e list \<Rightarrow> byte list \<Rightarrow> byte list result" where
  "write_frames dump limit [] out = Inr out"
| "write_frames dump limit (e # es) out = bind_result (write_frame dump limit e out) (write_frames dump limit es)"

fun read_frames :: "(byte list \<Rightarrow> 'e result) \<Rightarrow> nat \<Rightarrow> nat \<Rightarrow> pipe \<Rightarrow> 'e result list \<times> pipe" where
  "read_frames decode limit 0 p = ([], p)"
| "read_frames decode limit (Suc n) p =
     (case read_frame_sync decode limit p of (r, p1) \<Rightarrow>
        case read_frames decode limit n p1 of (rs, p2) \<Rightarrow> (r # rs, p2))"

lemma write_frames_eq:
  assumes "\<And>e. e \<in> set es \<Longrightarrow> length (dump e) \<le> limit" and "limit < 2 ^ 32"
  shows "write_frames dump limit es out = Inr (out @ concat (map (\<lambda>e. frame (dump e)) es))"
  using assms(1) by (induction es arbitrary: out) (simp_all add: write_frame_eq [OF _ assms(2)])

lemma read_frames_eq:
  assumes "\<And>e. e \<in> set es \<Longrightarrow> 0 < length (dump e) \<and> length (dump e) \<le> limit \<and> decode (dump e) = Inr e"
    and "limit < 2 ^ 32" and "pp_data p = concat (map (\<lambda>e. frame (dump e)) es) @ rest"
  shows "fst (read_frames decode limit (length es) p) = map Inr es \<and>
    pp_data (snd (read_frames decode limit (length es) p)) = rest"
  using assms(1,3)
proof (induction es arbitrary: p)
  case (Cons e es)
  obtain r p1 where rp: "read_frame_sync decode limit p = (r, p1)" by force
  have "read_frame decode limit (pp_data p) = (Inr e, concat (map (\<lambda>e. frame (dump e)) es) @ rest)"
    using read_frame_frame [of "dump e" limit decode] Cons.prems assms(2) by simp
  with read_frame_sync_eq [of decode limit p] rp
  have "r = Inr e" "pp_data p1 = concat (map (\<lambda>e. frame (dump e)) es) @ rest" by simp_all
  with Cons.IH [of p1] Cons.prems(1) rp show ?case by (simp split: prod.split) force
qed simp

text \<open>C14.
  Frames survive the pipe (\<open>write_frame_sync\<close>, \<open>read_frame_sync\<close>): envelopes written one after the other are read
  back unchanged and in order, however the pipe splits its reads, and the bytes behind them are left in place; a
  stream that ends inside a frame raises and delivers no envelope. The JSON text of an envelope is assumed to be
  read back as that envelope.
\<close>

theorem frames_round_trip:
  assumes "\<And>e. e \<in> set es \<Longrightarrow> 0 < length (dump e) \<and> length (dump e) \<le> limit"
    and "\<And>e. e \<in> set es \<Longrightarrow> decode_envelope parse validate (dump e) = Inr e" and "limit < 2 ^ 32"
  shows "\<exists>out. write_frames dump limit es [] = Inr out \<and>
    (\<forall>p rest. pp_data p = out @ rest \<longrightarrow>
       fst (read_frames (decode_envelope parse validate) limit (length es) p) = map Inr es \<and>
       pp_data (snd (read_frames (decode_envelope parse validate) limit (length es) p)) = rest) \<and>
    (\<forall>e p k. e \<in> set es \<and> k < length (frame (dump e)) \<and> pp_data p = take k (frame (dump e)) \<longrightarrow>
       (\<exists>msg. fst (read_frame_sync (decode_envelope parse validate) limit p) = Inl (ipc_error msg)))"
proof -
  have w: "write_frames dump limit es [] = Inr (concat (map (\<lambda>e. frame (dump e)) es))"
    using write_frames_eq [of es dump limit "[]"] assms(1,3) by simp
  have cut: "\<exists>msg. fst (read_frame_sync (decode_envelope parse validate) limit p) = Inl (ipc_error msg)"
    if e: "e \<in> set es" "k < length (frame (dump e))" "pp_data p = take k (frame (dump e))" for e p k
    using read_frame_cut [of "dump e" limit k "decode_envelope parse validate"] assms(1) [OF e(1)] assms(3) e
      read_frame_sync_eq [of "decode_envelope parse validate" limit p] by auto
  have "\<forall>p rest. pp_data p = concat (map (\<lambda>e. frame (dump e)) es) @ rest \<longrightarrow>
       fst (read_frames (decode_envelope parse validate) limit (length es) p) = map Inr es \<and>
       pp_data (snd (read_frames (decode_envelope parse validate) limit (length es) p)) = rest"
    using read_frames_eq [of es dump limit "decode_envelope parse validate"] assms by blast
  with w cut show ?thesis by blast
qed

definition demo_envelope :: envelope where
  "demo_envelope = \<lparr>env_protocol_version = 1, env_request_id = lit ''r'', env_message_type = lit ''ping'', env_payload = []\<rparr>"

theorem frames_round_trip_witness:
  "\<exists>out. write_frames (\<lambda>e. [123, 125]) max_frame_bytes [demo_envelope, demo_envelope] [] = Inr out \<and>
     fst (read_frames (decode_envelope (\<lambda>b. Inr (RObj [])) (\<lambda>j. Inr demo_envelope)) max_frame_bytes 2
       \<lparr>pp_data = out @ [7], pp_chunks = [0, 2]\<rparr>) = [Inr demo_envelope, Inr demo_envelope]"
proof -
  have "\<exists>out. write_frames (\<lambda>e. [123, 125]) max_frame_bytes [demo_envelope, demo_envelope] [] = Inr out \<and>
     (\<forall>p rest. pp_data p = out @ rest \<longrightarrow>
       fst (read_frames (decode_envelope (\<lambda>b. Inr (RObj [])) (\<lambda>j. Inr demo_envelope)) max_frame_bytes
         (length [demo_envelope, demo_envelope]) p) = map Inr [demo_envelope, demo_envelope])"
    using frames_round_trip [of "[demo_envelope, demo_envelope]" "\<lambda>e. [123, 125]" max_frame_bytes
        "\<lambda>b. Inr (RObj [])" "\<lambda>j. Inr demo_envelope"]
    by (simp add: max_frame_bytes_def decode_envelope_def json_loads_def reject_duplicate_keys_def) blast
  then show ?thesis by (metis (no_types, lifting) One_nat_def Suc_1 list.map(1,2) list.size(3,4) pipe.select_convs(1) plus_1_eq_Suc add.commute)
qed

end
