(* ===== verification/Dedup.thy ===== *)
theory Dedup
  imports Prelude
begin

text \<open>
  \<open>lemonbot/connectors/_dedup.py\<close>: the bounded memory of recently accepted identifiers. An \<open>OrderedDict\<close> is the
  list of its keys, oldest first.
\<close>

record deduplicator =
  dd_capacity :: nat
  dd_keys :: "str list"

definition new_deduplicator :: "int \<Rightarrow> deduplicator result" where
  "new_deduplicator capacity =
     (if capacity < 1 then Inl (ValueError ''deduplication capacity must be positive'')
      else Inr \<lparr>dd_capacity = nat capacity, dd_keys = []\<rparr>)"

definition move_to_end :: "'a \<Rightarrow> 'a list \<Rightarrow> 'a list" where
  "move_to_end k ks = filter (\<lambda>x. x \<noteq> k) ks @ [k]"

definition dedup_add :: "str \<Rightarrow> deduplicator \<Rightarrow> (bool \<times> deduplicator) result" where
  "dedup_add key d =
     (if key = [] then Inl (ValueError ''deduplication key must not be empty'')
      else if key \<in> set (dd_keys d)
      then Inr (False, d\<lparr>dd_keys := move_to_end key (dd_keys d)\<rparr>)
      else
        let ks = dd_keys d @ [key]
        in Inr (True, d\<lparr>dd_keys := (if dd_capacity d < length ks then tl ks else ks)\<rparr>))"

definition dedup_contains :: "str \<Rightarrow> deduplicator \<Rightarrow> bool" where
  "dedup_contains key d \<longleftrightarrow> key \<in> set (dd_keys d)"

definition dedup_len :: "deduplicator \<Rightarrow> nat" where
  "dedup_len d = length (dd_keys d)"

text \<open>A sequence of deliveries; what each \<open>add\<close> answers.\<close>

fun dedup_feed :: "str list \<Rightarrow> deduplicator \<Rightarrow> (bool list \<times> deduplicator) result" where
  "dedup_feed [] d = Inr ([], d)"
| "dedup_feed (k # ks) d =
     bind_result (dedup_add k d) (\<lambda>(b, d1). bind_result (dedup_feed ks d1) (\<lambda>(bs, d2). Inr (b # bs, d2)))"

subsection \<open>The specification: a window on the history\<close>

text \<open>The distinct keys of a history in the order of their last delivery, cut to the newest \<open>n\<close>.\<close>

definition newest :: "nat \<Rightarrow> 'a list \<Rightarrow> 'a list" where
  "newest n hist = drop (length (remdups hist) - n) (remdups hist)"

lemma remdups_snoc: "remdups (hist @ [k]) = filter (\<lambda>x. x \<noteq> k) (remdups hist) @ [k]"
  by (induction hist) auto

lemma filter_other [simp]: "k \<notin> set xs \<Longrightarrow> filter (\<lambda>x. x \<noteq> k) xs = xs"
  by (induction xs) auto

lemma filter_split: "filter P r = filter P (take j r) @ filter P (drop j r)"
  by (metis append_take_drop_id filter_append)

lemma length_remove_distinct:
  "distinct xs \<Longrightarrow> k \<in> set xs \<Longrightarrow> Suc (length (filter (\<lambda>x. x \<noteq> k) xs)) = length xs"
  by (induction xs) auto

lemma newest_hit:
  assumes "k \<in> set (newest n hist)"
  shows "newest n (hist @ [k]) = move_to_end k (newest n hist)"
proof -
  define r where "r = remdups hist"
  define j where "j = length r - n"
  from assms have k: "k \<in> set (drop j r)" by (simp add: newest_def r_def j_def)
  have d: "distinct r" by (simp add: r_def)
  then have split: "set (take j r) \<inter> set (drop j r) = {}" by (simp add: set_take_disj_set_drop_if_distinct)
  define g where "g = filter (\<lambda>x. x \<noteq> k) (drop j r)"
  have "k \<notin> set (take j r)" using k split by blast
  then have f: "filter (\<lambda>x. x \<noteq> k) r = take j r @ g" using filter_split [of _ r j] by (simp add: g_def)
  have "Suc (length (filter (\<lambda>x. x \<noteq> k) r)) = length r"
    by (rule length_remove_distinct [OF d]) (use k in \<open>auto dest: in_set_dropD\<close>)
  then have l: "length (take j r @ g @ [k]) = length r" unfolding f by simp
  have "newest n (hist @ [k]) = drop j (take j r @ g @ [k])"
    unfolding newest_def remdups_snoc r_def [symmetric] f append_assoc l by (simp only: j_def)
  moreover have "length (take j r) = j" by (simp add: j_def)
  moreover have "newest n hist = drop j r" by (simp add: newest_def r_def j_def)
  ultimately show ?thesis by (simp add: move_to_end_def g_def)
qed

lemma newest_miss:
  assumes "k \<notin> set (newest n hist)" and "0 < n"
  shows "newest n (hist @ [k]) = drop (Suc (length (newest n hist)) - n) (newest n hist @ [k])"
proof -
  define r where "r = remdups hist"
  define j where "j = length r - n"
  have k: "k \<notin> set (drop j r)" using assms(1) by (simp add: newest_def r_def j_def)
  have lj: "length (drop j r) = min n (length r)" by (simp add: j_def)
  have f: "filter (\<lambda>x. x \<noteq> k) r = filter (\<lambda>x. x \<noteq> k) (take j r) @ drop j r"
    using k filter_split [of _ r j] by simp
  show ?thesis
  proof (cases "n \<le> length r")
    case True
    define f1 where "f1 = filter (\<lambda>x. x \<noteq> k) (take j r)"
    have "newest n (hist @ [k]) = drop (length f1 + 1) (f1 @ drop j r @ [k])"
      using True lj by (simp add: newest_def remdups_snoc r_def [symmetric] f f1_def [symmetric] Suc_diff_le)
    also have "\<dots> = drop 1 (drop j r @ [k])" by simp
    finally show ?thesis using True lj by (simp add: newest_def r_def [symmetric] j_def [symmetric])
  next
    case False
    then have "j = 0" by (simp add: j_def)
    with k have "k \<notin> set r" by simp
    then have "filter (\<lambda>x. x \<noteq> k) r = r" by (auto simp: filter_id_conv)
    with False show ?thesis by (simp add: newest_def remdups_snoc r_def [symmetric])
  qed
qed

lemma newest_length: "length (newest n hist) \<le> n"
  by (simp add: newest_def)

lemma newest_set: "set (newest n hist) \<subseteq> set hist"
  by (auto simp: newest_def dest: in_set_dropD)

lemma dedup_add_window:
  assumes "dd_keys d = newest (dd_capacity d) hist" and "0 < dd_capacity d" and "k \<noteq> []"
  shows "dedup_add k d = Inr (k \<notin> set (newest (dd_capacity d) hist),
    d\<lparr>dd_keys := newest (dd_capacity d) (hist @ [k])\<rparr>)"
proof (cases "k \<in> set (newest (dd_capacity d) hist)")
  case True
  with assms newest_hit [OF True] show ?thesis by (simp add: dedup_add_def)
next
  case False
  have "length (newest (dd_capacity d) hist) \<le> dd_capacity d" by (rule newest_length)
  then consider (full) "length (newest (dd_capacity d) hist) = dd_capacity d"
    | (room) "length (newest (dd_capacity d) hist) < dd_capacity d" by linarith
  then show ?thesis
  proof cases
    case full
    then have "newest (dd_capacity d) (hist @ [k]) = tl (newest (dd_capacity d) hist @ [k])"
      unfolding newest_miss [OF False assms(2)] full by (simp only: Suc_diff_le [OF order_refl] diff_self_eq_0 drop_Suc drop0)
    with assms False full show ?thesis by (simp add: dedup_add_def)
  next
    case room
    with assms False newest_miss [OF False assms(2)] show ?thesis by (simp add: dedup_add_def)
  qed
qed

text \<open>What the specification answers to a sequence of deliveries.\<close>

fun spec_answers :: "nat \<Rightarrow> str list \<Rightarrow> str list \<Rightarrow> bool list" where
  "spec_answers n hist [] = []"
| "spec_answers n hist (k # ks) = (k \<notin> set (newest n hist)) # spec_answers n (hist @ [k]) ks"

lemma dedup_feed_window:
  assumes "dd_keys d = newest (dd_capacity d) hist" and "0 < dd_capacity d" and "[] \<notin> set ks"
  shows "dedup_feed ks d =
    Inr (spec_answers (dd_capacity d) hist ks, d\<lparr>dd_keys := newest (dd_capacity d) (hist @ ks)\<rparr>)"
  using assms
proof (induction ks arbitrary: d hist)
  case Nil
  then show ?case by simp
next
  case (Cons k ks)
  then have "dedup_add k d = Inr (k \<notin> set (newest (dd_capacity d) hist),
      d\<lparr>dd_keys := newest (dd_capacity d) (hist @ [k])\<rparr>)" by (intro dedup_add_window) auto
  with Cons.IH [of "d\<lparr>dd_keys := newest (dd_capacity d) (hist @ [k])\<rparr>" "hist @ [k]"] Cons.prems show ?case by simp
qed

text \<open>C15.
  The bounded deduplicator implements a sliding window (\<open>BoundedDeduplicator.add\<close>): after any deliveries it holds
  exactly the most recently seen distinct keys, at most its capacity, and \<open>add\<close> answers \<open>True\<close> exactly for a key
  outside that window. In particular the first delivery of a key is always accepted.
\<close>

theorem deduplicator_refines_window:
  assumes "new_deduplicator capacity = Inr d" and "[] \<notin> set ks"
  shows "dedup_feed ks d = Inr (spec_answers (nat capacity) [] ks, d\<lparr>dd_keys := newest (nat capacity) ks\<rparr>) \<and>
    dedup_len (d\<lparr>dd_keys := newest (nat capacity) ks\<rparr>) \<le> nat capacity \<and>
    (k \<notin> set ks \<longrightarrow> \<not> dedup_contains k (d\<lparr>dd_keys := newest (nat capacity) ks\<rparr>))"
proof -
  have d: "d = \<lparr>dd_capacity = nat capacity, dd_keys = []\<rparr>" "1 \<le> capacity"
    using assms(1) by (auto simp: new_deduplicator_def split: if_splits)
  have "newest (nat capacity) ([] :: str list) = []" by (simp add: newest_def)
  with d dedup_feed_window [of d "[]" ks] assms(2)
  have "dedup_feed ks d = Inr (spec_answers (nat capacity) [] ks, d\<lparr>dd_keys := newest (nat capacity) ks\<rparr>)" by simp
  then show ?thesis
    using newest_set [of "nat capacity" ks] by (auto simp: dedup_contains_def dedup_len_def newest_length)
qed

theorem deduplicator_refines_window_witness:
  "dedup_feed [[1], [2], [1], [3], [2]] \<lparr>dd_capacity = 2, dd_keys = []\<rparr> =
     Inr ([True, True, False, True, True], \<lparr>dd_capacity = 2, dd_keys = [[3], [2]]\<rparr>)"
  using deduplicator_refines_window [of 2 "\<lparr>dd_capacity = 2, dd_keys = []\<rparr>" "[[1], [2], [1], [3], [2]]"]
  by (simp add: new_deduplicator_def newest_def)

end
