(* ===== verification/Memory.thy ===== *)
theory Memory
  imports Sql_Table Json_Text Domain
begin

text \<open>
  \<open>lemonbot/memory\<close>: memory records (\<open>models.py\<close>), the reference store (\<open>store.py\<close>) and the SQLite store
  (\<open>sqlite_store.py\<close>). A dictionary of records is the list of its values in insertion order. Scores are exact
  rationals; the logarithm of the term frequency, the full-text engine and the clock are parameters.
\<close>

subsection \<open>Records\<close>

datatype memory_kind = Mk_Summary | Mk_Fact | Mk_Preference | Mk_Commitment | Mk_Episode

fun memory_kind_value :: "memory_kind \<Rightarrow> string" where
  "memory_kind_value Mk_Summary = ''summary''"
| "memory_kind_value Mk_Fact = ''fact''"
| "memory_kind_value Mk_Preference = ''preference''"
| "memory_kind_value Mk_Commitment = ''commitment''"
| "memory_kind_value Mk_Episode = ''episode''"

record provenance =
  pv_source_message_ids :: "str list"
  pv_source_event_ids :: "str list"
  pv_model :: str
  pv_prompt_version :: str
  pv_confidence :: rat
  pv_supersedes :: "uuid list"
  pv_derived_at :: time

text \<open>The field bounds of \<open>Provenance\<close> and its validator \<open>identifiers_must_be_unique\<close>.\<close>

definition identifiers_ok :: "str list \<Rightarrow> bool" where
  "identifiers_ok xs \<longleftrightarrow> list_all (\<lambda>x. strip x \<noteq> []) xs \<and> distinct xs"

definition provenance_ok :: "provenance \<Rightarrow> bool" where
  "provenance_ok p \<longleftrightarrow> pv_source_message_ids p \<noteq> [] \<and> identifiers_ok (pv_source_message_ids p) \<and>
     identifiers_ok (pv_source_event_ids p) \<and> len_between 1 256 (pv_model p) \<and>
     len_between 1 128 (pv_prompt_version p) \<and> 0 \<le> pv_confidence p \<and> pv_confidence p \<le> 1"

record memory_record =
  me_id :: uuid
  me_channel :: str
  me_chat_id :: str
  me_kind :: memory_kind
  me_text :: str
  me_provenance :: provenance
  me_importance :: rat
  me_data_class :: data_class
  me_created_at :: time
  me_active :: bool

definition memory_record_ok :: "memory_record \<Rightarrow> bool" where
  "memory_record_ok r \<longleftrightarrow> len_between 1 64 (me_channel r) \<and> len_between 1 512 (me_chat_id r) \<and>
     len_between 1 100000 (me_text r) \<and> provenance_ok (me_provenance r) \<and> 0 \<le> me_importance r \<and>
     me_importance r \<le> 1 \<and> me_data_class r \<in> {Dc_Public, Dc_Conversation}"

record search_hit =
  sh_record :: memory_record
  sh_score :: rat
  sh_matched_terms :: "str list"

definition in_memory_scope :: "str \<Rightarrow> str \<Rightarrow> memory_record \<Rightarrow> bool" where
  "in_memory_scope channel chat r \<longleftrightarrow> me_channel r = channel \<and> me_chat_id r = chat"

subsection \<open>Terms\<close>

definition is_word_char :: "nat \<Rightarrow> bool" where
  "is_word_char c \<longleftrightarrow> 97 \<le> c \<and> c \<le> 122 \<or> 65 \<le> c \<and> c \<le> 90 \<or> 48 \<le> c \<and> c \<le> 57 \<or> c = 95"

text \<open>The two blocks of the regular expressions; the range of the filter also covers what lies between.\<close>

definition is_cjk :: "nat \<Rightarrow> bool" where
  "is_cjk c \<longleftrightarrow> 13312 \<le> c \<and> c \<le> 19903 \<or> 19968 \<le> c \<and> c \<le> 40959"

definition in_cjk_range :: "nat \<Rightarrow> bool" where
  "in_cjk_range c \<longleftrightarrow> 13312 \<le> c \<and> c \<le> 40959"

text \<open>\<open>_WORD_RE.finditer\<close>: maximal runs of word characters and single characters of the two blocks.\<close>

fun words_from :: "str \<Rightarrow> str \<Rightarrow> str list" where
  "words_from run [] = (if run = [] then [] else [run])"
| "words_from run (c # cs) =
     (if is_word_char c then words_from (run @ [c]) cs
      else (if run = [] then [] else [run]) @ (if is_cjk c then [[c]] else []) @ words_from [] cs)"

definition bigrams :: "str list \<Rightarrow> str list" where
  "bigrams ks = map (\<lambda>(a, b). a @ b) (zip ks (tl ks))"

definition terms :: "str \<Rightarrow> str list" where
  "terms text =
     (let base = map casefold (words_from [] text);
          cjk = filter (\<lambda>w. case w of [c] \<Rightarrow> in_cjk_range c | _ \<Rightarrow> False) base
      in base @ bigrams cjk)"

subsection \<open>The reference store\<close>

definition superseded_fault :: "memory_record \<Rightarrow> memory_record option \<Rightarrow> exn option" where
  "superseded_fault r old =
     (case old of
        None \<Rightarrow> Some (ValueError ''superseded memory does not exist'')
      | Some o1 \<Rightarrow>
          if (me_channel o1, me_chat_id o1) \<noteq> (me_channel r, me_chat_id r)
          then Some (MemoryScopeError ''a memory cannot supersede another conversation'')
          else if \<not> me_active o1 then Some (ValueError ''superseded memory is already inactive'')
          else None)"

text \<open>The loop that collects the replaced records, or the first error.\<close>

fun replacements :: "(uuid \<Rightarrow> memory_record option) \<Rightarrow> memory_record \<Rightarrow> uuid list \<Rightarrow> memory_record list result" where
  "replacements look r [] = Inr []"
| "replacements look r (i # is) =
     (case superseded_fault r (look i) of
        Some e \<Rightarrow> Inl e
      | None \<Rightarrow> bind_result (replacements look r is) (\<lambda>olds. Inr (the (look i) # olds)))"

definition deactivate :: "memory_record \<Rightarrow> memory_record list \<Rightarrow> memory_record list" where
  "deactivate old recs = update_where (\<lambda>q. me_id q = me_id old) (\<lambda>q. old\<lparr>me_active := False\<rparr>) recs"

definition store_add :: "memory_record \<Rightarrow> memory_record list \<Rightarrow> memory_record list result" where
  "store_add r recs =
     (if get_row me_id (me_id r) recs \<noteq> None then Inl (ValueError ''memory already exists'')
      else bind_result (replacements (\<lambda>i. get_row me_id i recs) r (pv_supersedes (me_provenance r))) (\<lambda>olds.
        Inr (fold deactivate olds recs @ [r])))"

definition store_get :: "uuid \<Rightarrow> str \<Rightarrow> str \<Rightarrow> memory_record list \<Rightarrow> memory_record option result" where
  "store_get i channel chat recs =
     (if channel = [] \<or> chat = [] then Inl (MemoryScopeError ''channel and chat_id are mandatory'')
      else Inr (case get_row me_id i recs of
         None \<Rightarrow> None | Some r \<Rightarrow> if (me_channel r, me_chat_id r) = (channel, chat) then Some r else None))"

definition score :: "(nat \<Rightarrow> rat) \<Rightarrow> memory_record \<Rightarrow> str list \<Rightarrow> time \<Rightarrow> search_hit" where
  "score logf r query_terms now =
     (let counts = (\<lambda>t. count_list (terms (me_text r)) t);
          unique_query = rev (remdups (rev query_terms));
          matched = filter (\<lambda>t. counts t \<noteq> 0) unique_query;
          lexical = (if unique_query = [] then 0
            else sum_list (map (\<lambda>t. 1 + logf (counts t)) matched) / of_nat (length unique_query));
          age_days = max 0 (of_int (now - me_created_at r) / 86400000000);
          recency = 1 / (1 + age_days / 30);
          kind_bonus = (if me_kind r = Mk_Commitment then 15 / 100 else 0);
          total = lexical * (75 / 100) + me_importance r * (15 / 100) + recency * (1 / 10) + kind_bonus
      in \<lparr>sh_record = r, sh_score = max 0 total, sh_matched_terms = matched\<rparr>)"

text \<open>\<open>sort(key=.., reverse=True)\<close> keeps the order of equal keys.\<close>

definition sort_desc :: "('a \<Rightarrow> 'k::linorder) \<Rightarrow> 'a list \<Rightarrow> 'a list" where
  "sort_desc k xs = rev (sort_key k (rev xs))"

definition by_score :: "search_hit \<Rightarrow> rat \<times> time" where
  "by_score h = (sh_score h, me_created_at (sh_record h))"

definition kind_allowed :: "memory_kind list option \<Rightarrow> memory_record \<Rightarrow> bool" where
  "kind_allowed kinds r = (case kinds of None \<Rightarrow> True | Some ks \<Rightarrow> me_kind r \<in> set ks)"

definition store_search ::
    "(nat \<Rightarrow> rat) \<Rightarrow> time \<Rightarrow> str \<Rightarrow> str \<Rightarrow> str \<Rightarrow> memory_kind list option \<Rightarrow> int \<Rightarrow> memory_record list \<Rightarrow>
     search_hit list result" where
  "store_search logf now channel chat query kinds limit recs =
     (if channel = [] \<or> chat = [] then Inl (MemoryScopeError ''channel and chat_id are mandatory'')
      else if limit < 1 \<or> 100 < limit then Inl (ValueError ''search limit must be between 1 and 100'')
      else
        let query_terms = terms query;
            candidates = filter (\<lambda>r. me_active r \<and> me_channel r = channel \<and> me_chat_id r = chat \<and>
              kind_allowed kinds r) recs;
            hits = map (\<lambda>r. score logf r query_terms now) candidates;
            kept = (if query_terms \<noteq> []
              then filter (\<lambda>h. sh_matched_terms h \<noteq> [] \<or> me_kind (sh_record h) = Mk_Commitment) hits
              else hits)
        in Inr (take (nat limit) (sort_desc by_score kept)))"

subsection \<open>The SQLite store\<close>

text \<open>A row of \<open>memory_records\<close>; \<open>record_json\<close> holds the whole record, which validation reads back.\<close>

record memory_row =
  mw_memory_id :: uuid
  mw_channel :: str
  mw_chat_id :: str
  mw_kind :: memory_kind
  mw_text :: str
  mw_active :: bool
  mw_importance :: rat
  mw_created_at :: time
  mw_record :: memory_record

definition memory_row_of :: "memory_record \<Rightarrow> memory_row" where
  "memory_row_of r = \<lparr>mw_memory_id = me_id r, mw_channel = me_channel r, mw_chat_id = me_chat_id r,
     mw_kind = me_kind r, mw_text = me_text r, mw_active = me_active r, mw_importance = me_importance r,
     mw_created_at = me_created_at r, mw_record = r\<rparr>"

definition sql_deactivate :: "memory_record \<Rightarrow> memory_row list \<Rightarrow> memory_row list" where
  "sql_deactivate old rows = update_where (\<lambda>w. mw_memory_id w = me_id old)
     (\<lambda>w. w\<lparr>mw_active := False, mw_record := old\<lparr>me_active := False\<rparr>\<rparr>) rows"

text \<open>\<open>_add_sync\<close>: the transaction is rolled back when it raises.\<close>

definition sql_add :: "memory_record \<Rightarrow> memory_row list \<Rightarrow> memory_row list result" where
  "sql_add r rows =
     (if exists_row (\<lambda>w. mw_memory_id w = me_id r) rows then Inl (ValueError ''memory already exists'')
      else bind_result (replacements (\<lambda>i. map_option mw_record (get_row mw_memory_id i rows)) r
                          (pv_supersedes (me_provenance r))) (\<lambda>olds.
        Inr (fold sql_deactivate olds rows @ [memory_row_of r])))"

definition sql_get :: "uuid \<Rightarrow> str \<Rightarrow> str \<Rightarrow> memory_row list \<Rightarrow> memory_record option result" where
  "sql_get i channel chat rows =
     (if channel = [] \<or> chat = [] then Inl (MemoryScopeError ''channel and chat_id are mandatory'')
      else Inr (map_option mw_record
        (find (\<lambda>w. mw_memory_id w = i \<and> mw_channel w = channel \<and> mw_chat_id w = chat) rows)))"

text \<open>\<open>_FTS_TOKEN_RE.finditer\<close>: runs of at least three word characters or at least three characters of the blocks.\<close>

fun fts_runs :: "bool \<Rightarrow> str \<Rightarrow> str \<Rightarrow> str list" where
  "fts_runs word run [] = (if length run < 3 then [] else [run])"
| "fts_runs word run (c # cs) =
     (if (if word then is_word_char c else is_cjk c) then fts_runs word (run @ [c]) cs
      else (if length run < 3 then [] else [run]) @
        (if is_word_char c then fts_runs True [c] cs else if is_cjk c then fts_runs False [c] cs
         else fts_runs word [] cs))"

definition fts_candidates :: "str \<Rightarrow> str list" where
  "fts_candidates token =
     (if list_all in_cjk_range token
      then map (\<lambda>i. take 3 (drop i token)) [0..<length token - 2]
      else [token])"

text \<open>The nested loops with their two breaks at 64 tokens.\<close>

fun add_candidates :: "str list \<Rightarrow> str list \<Rightarrow> str list" where
  "add_candidates tokens [] = tokens"
| "add_candidates tokens (c # cs) =
     (let tokens1 = (if c \<in> set tokens then tokens else tokens @ [c])
      in if 64 \<le> length tokens1 then tokens1 else add_candidates tokens1 cs)"

fun collect_tokens :: "str list \<Rightarrow> str list \<Rightarrow> str list" where
  "collect_tokens tokens [] = tokens"
| "collect_tokens tokens (m # ms) =
     (let tokens1 = add_candidates tokens (fts_candidates (casefold m))
      in if 64 \<le> length tokens1 then tokens1 else collect_tokens tokens1 ms)"

definition fts_query :: "str \<Rightarrow> str option" where
  "fts_query query =
     (let tokens = collect_tokens [] (fts_runs True [] query)
      in if tokens = [] then None
         else Some (join (lit '' OR '') (map (\<lambda>t. [34] @ t @ [34]) tokens)))"

text \<open>The two statements of \<open>_search_sync\<close>; \<open>fts match rows w\<close> is the rank the full-text engine gives a matching
  row, lower is better.\<close>

definition wanted_row :: "str \<Rightarrow> str \<Rightarrow> memory_kind list option \<Rightarrow> memory_row \<Rightarrow> bool" where
  "wanted_row channel chat kinds w \<longleftrightarrow> mw_channel w = channel \<and> mw_chat_id w = chat \<and> mw_active w \<and>
     (case kinds of None \<Rightarrow> True | Some ks \<Rightarrow> mw_kind w \<in> set ks)"

definition select_rows ::
    "(str \<Rightarrow> memory_row list \<Rightarrow> memory_row \<Rightarrow> rat option) \<Rightarrow> str \<Rightarrow> str \<Rightarrow> str \<Rightarrow> memory_kind list option \<Rightarrow> int \<Rightarrow>
     memory_row list \<Rightarrow> (rat \<times> memory_row) list" where
  "select_rows fts channel chat query kinds limit rows =
     (case fts_query query of
        Some m \<Rightarrow>
          take (nat limit) (map (\<lambda>w. (the (fts m rows w), w))
            (select_order (\<lambda>w. (the (fts m rows w), - mw_created_at w))
               (\<lambda>w. fts m rows w \<noteq> None \<and> wanted_row channel chat kinds w) rows))
      | None \<Rightarrow>
          take (nat (min 500 (max (limit * 10) limit))) (map (\<lambda>w. (0, w))
            (select_order (\<lambda>w. - mw_created_at w) (wanted_row channel chat kinds) rows)))"

definition sql_search ::
    "(str \<Rightarrow> memory_row list \<Rightarrow> memory_row \<Rightarrow> rat option) \<Rightarrow> (nat \<Rightarrow> rat) \<Rightarrow> time \<Rightarrow> str \<Rightarrow> str \<Rightarrow> str \<Rightarrow>
     memory_kind list option \<Rightarrow> int \<Rightarrow> memory_row list \<Rightarrow> search_hit list result" where
  "sql_search fts logf now channel chat query kinds limit rows =
     (if channel = [] \<or> chat = [] then Inl (MemoryScopeError ''channel and chat_id are mandatory'')
      else if limit < 1 \<or> 100 < limit then Inl (ValueError ''search limit must be between 1 and 100'')
      else if kinds = Some [] then Inr []
      else
        let query_terms = terms query;
            hits = map (\<lambda>(rank, w). let h = score logf (mw_record w) query_terms now
                     in h\<lparr>sh_score := sh_score h + max 0 (- rank)\<rparr>)
                   (select_rows fts channel chat query kinds limit rows);
            kept = (if fts_query query = None \<and> query_terms \<noteq> []
                    then filter (\<lambda>h. sh_matched_terms h \<noteq> []) hits else hits)
        in Inr (take (nat limit) (sort_desc by_score kept)))"

subsection \<open>The store interface\<close>

text \<open>What \<open>MemoryStore\<close> promises its clients: lookups and searches stay in the scope they were asked for,
  searches only show active records and at most as many as wanted, and storing a record changes nothing that
  belongs to another conversation.\<close>

locale memory_store =
  fixes ok :: "'s \<Rightarrow> bool"
    and contents :: "'s \<Rightarrow> memory_record list"
    and add :: "memory_record \<Rightarrow> 's \<Rightarrow> 's result"
    and lookup :: "uuid \<Rightarrow> str \<Rightarrow> str \<Rightarrow> 's \<Rightarrow> memory_record option result"
    and search :: "str \<Rightarrow> str \<Rightarrow> str \<Rightarrow> memory_kind list option \<Rightarrow> int \<Rightarrow> 's \<Rightarrow> search_hit list result"
  assumes add_ok: "ok s \<Longrightarrow> add r s = Inr t \<Longrightarrow> ok t"
    and add_frame: "ok s \<Longrightarrow> add r s = Inr t \<Longrightarrow> \<not> in_memory_scope (me_channel r) (me_chat_id r) q \<Longrightarrow>
      q \<in> set (contents t) \<longleftrightarrow> q \<in> set (contents s)"
    and lookup_scope: "ok s \<Longrightarrow> lookup i channel chat s = Inr (Some r) \<Longrightarrow>
      in_memory_scope channel chat r \<and> me_id r = i \<and> r \<in> set (contents s)"
    and search_scope: "ok s \<Longrightarrow> search channel chat query kinds limit s = Inr hits \<Longrightarrow> h \<in> set hits \<Longrightarrow>
      in_memory_scope channel chat (sh_record h) \<and> me_active (sh_record h) \<and> kind_allowed kinds (sh_record h) \<and>
      sh_record h \<in> set (contents s)"
    and search_limit: "ok s \<Longrightarrow> search channel chat query kinds limit s = Inr hits \<Longrightarrow> int (length hits) \<le> limit"
begin

lemma add_all_frame:
  assumes "ok s" and "fold (\<lambda>r st. bind_result st (add r)) rs (Inr s) = Inr t"
    and "\<And>r. r \<in> set rs \<Longrightarrow> \<not> in_memory_scope (me_channel r) (me_chat_id r) q"
  shows "ok t \<and> (q \<in> set (contents t) \<longleftrightarrow> q \<in> set (contents s))"
  using assms
proof (induction rs arbitrary: s)
  case (Cons r rs)
  have err: "fold (\<lambda>r st. bind_result st (add r)) ys (Inl e) = Inl e" for ys e by (induction ys) simp_all
  from Cons.prems(2) err obtain u where u: "add r s = Inr u" by (cases "add r s") auto
  with Cons.prems(2) have "fold (\<lambda>r st. bind_result st (add r)) rs (Inr u) = Inr t" by simp
  from Cons.IH [OF add_ok [OF Cons.prems(1) u] this] Cons.prems(3) add_frame [OF Cons.prems(1) u, of q]
  show ?case by simp
qed simp

end

subsection \<open>Both stores keep the promise\<close>

lemma set_sort_desc [simp]: "set (sort_desc k xs) = set xs"
  by (simp add: sort_desc_def)

lemma score_record [simp]: "sh_record (score logf r q now) = r"
  by (simp add: score_def)

lemma replacements_found:
  "replacements look r is = Inr olds \<Longrightarrow> old \<in> set olds \<Longrightarrow>
   \<exists>i \<in> set is. look i = Some old \<and> me_active old \<and> in_memory_scope (me_channel r) (me_chat_id r) old"
proof (induction "is" arbitrary: olds)
  case (Cons i "is")
  then obtain o1 olds1 where o1: "look i = Some o1" "superseded_fault r (Some o1) = None"
    "replacements look r is = Inr olds1" "olds = o1 # olds1"
    by (auto simp: superseded_fault_def bind_result_Inr_iff split: option.splits if_splits)
  moreover from o1(2) have "me_active o1" "in_memory_scope (me_channel r) (me_chat_id r) o1"
    by (auto simp: superseded_fault_def in_memory_scope_def split: if_splits)
  ultimately show ?case using Cons by auto
qed simp

definition records_ok :: "memory_record list \<Rightarrow> bool" where
  "records_ok recs \<longleftrightarrow> distinct (map me_id recs)"

lemma deactivate_ids [simp]: "map me_id (deactivate old recs) = map me_id recs"
  by (simp add: deactivate_def update_where_def)

lemma fold_deactivate_ids [simp]: "map me_id (fold deactivate olds recs) = map me_id recs"
  by (induction olds arbitrary: recs) simp_all

text \<open>Deactivating known records touches no record of another scope.\<close>

lemma deactivate_frame:
  assumes "\<And>x. x \<in> set recs \<Longrightarrow> me_id x = me_id old \<Longrightarrow> in_memory_scope c ch x"
    and "in_memory_scope c ch old" and "\<not> in_memory_scope c ch q"
  shows "q \<in> set (deactivate old recs) \<longleftrightarrow> q \<in> set recs"
proof
  have act: "in_memory_scope c ch (old\<lparr>me_active := False\<rparr>)" using assms(2) by (simp add: in_memory_scope_def)
  assume "q \<in> set (deactivate old recs)"
  then obtain x where "x \<in> set recs" "q = (if me_id x = me_id old then old\<lparr>me_active := False\<rparr> else x)"
    by (auto simp: deactivate_def set_update_where)
  with act assms(3) show "q \<in> set recs" by (auto split: if_splits)
next
  assume "q \<in> set recs"
  with assms(1) [of q] assms(3) have "me_id q \<noteq> me_id old" by blast
  with \<open>q \<in> set recs\<close> show "q \<in> set (deactivate old recs)"
    unfolding deactivate_def set_update_where by (intro image_eqI [of _ _ q]) simp_all
qed

lemma deactivate_scope:
  assumes "\<And>x. x \<in> set recs \<Longrightarrow> me_id x = i \<Longrightarrow> in_memory_scope c ch x" and "in_memory_scope c ch old"
  shows "x \<in> set (deactivate old recs) \<Longrightarrow> me_id x = i \<Longrightarrow> in_memory_scope c ch x"
  using assms by (auto simp: deactivate_def set_update_where in_memory_scope_def split: if_splits)

lemma fold_deactivate_frame:
  assumes "\<And>old. old \<in> set olds \<Longrightarrow> in_memory_scope c ch old"
    and "\<And>old x. old \<in> set olds \<Longrightarrow> x \<in> set recs \<Longrightarrow> me_id x = me_id old \<Longrightarrow> in_memory_scope c ch x"
    and "\<not> in_memory_scope c ch q"
  shows "q \<in> set (fold deactivate olds recs) \<longleftrightarrow> q \<in> set recs"
  using assms(1,2)
proof (induction olds arbitrary: recs)
  case (Cons old olds)
  have here: "q \<in> set (deactivate old recs) \<longleftrightarrow> q \<in> set recs"
    by (rule deactivate_frame [OF _ _ assms(3)]) (use Cons.prems in auto)
  have "in_memory_scope c ch x" if "o1 \<in> set olds" "x \<in> set (deactivate old recs)" "me_id x = me_id o1" for o1 x
    by (rule deactivate_scope [OF _ _ that(2,3)]) (use Cons.prems that in auto)
  with Cons.IH [of "deactivate old recs"] Cons.prems(1) have
    "q \<in> set (fold deactivate olds (deactivate old recs)) \<longleftrightarrow> q \<in> set (deactivate old recs)" by simp
  with here show ?case by simp
qed simp

lemma store_add_laws:
  assumes "records_ok recs" and "store_add r recs = Inr recs'"
  shows "records_ok recs'"
    and "\<not> in_memory_scope (me_channel r) (me_chat_id r) q \<Longrightarrow> q \<in> set recs' \<longleftrightarrow> q \<in> set recs"
proof -
  from assms(2) obtain olds where olds:
    "replacements (\<lambda>i. get_row me_id i recs) r (pv_supersedes (me_provenance r)) = Inr olds"
    and new: "get_row me_id (me_id r) recs = None" and r': "recs' = fold deactivate olds recs @ [r]"
    by (auto simp: store_add_def bind_result_Inr_iff split: if_splits)
  have "me_id r \<notin> set (map me_id (fold deactivate olds recs))"
    using new by (simp add: get_row_None)
  with assms(1) show "records_ok recs'" by (simp add: records_ok_def r' flip: set_map)
  assume q: "\<not> in_memory_scope (me_channel r) (me_chat_id r) q"
  have scope: "in_memory_scope (me_channel r) (me_chat_id r) old \<and> get_row me_id (me_id old) recs = Some old"
    if "old \<in> set olds" for old
    using replacements_found [OF olds that] get_row_in by metis
  have "in_memory_scope (me_channel r) (me_chat_id r) x" if "old \<in> set olds" "x \<in> set recs" "me_id x = me_id old" for old x
    using scope [OF that(1)] get_row_unique [of me_id recs x] assms(1) that by (simp add: records_ok_def)
  from fold_deactivate_frame [of olds "me_channel r" "me_chat_id r" recs q] scope this q
  have "q \<in> set (fold deactivate olds recs) \<longleftrightarrow> q \<in> set recs" by blast
  with q show "q \<in> set recs' \<longleftrightarrow> q \<in> set recs" by (auto simp: r' in_memory_scope_def)
qed

interpretation reference: memory_store records_ok "\<lambda>recs. recs" store_add store_get "store_search logf now" for logf now
proof unfold_locales
  fix s r t assume "records_ok s" "store_add r s = Inr t"
  then show "records_ok t" by (rule store_add_laws)
next
  fix s r t q assume "records_ok s" "store_add r s = Inr t" "\<not> in_memory_scope (me_channel r) (me_chat_id r) q"
  then show "q \<in> set t \<longleftrightarrow> q \<in> set s" by (rule store_add_laws)
next
  fix s i channel chat r assume "store_get i channel chat s = Inr (Some r)"
  then show "in_memory_scope channel chat r \<and> me_id r = i \<and> r \<in> set s"
    by (auto simp: store_get_def in_memory_scope_def dest: get_row_in split: if_splits option.splits)
next
  fix s channel chat query kinds limit hits h
  assume "store_search logf now channel chat query kinds limit s = Inr hits" "h \<in> set hits"
  then show "in_memory_scope channel chat (sh_record h) \<and> me_active (sh_record h) \<and> kind_allowed kinds (sh_record h) \<and>
      sh_record h \<in> set s"
    by (auto simp: store_search_def in_memory_scope_def split: if_splits dest!: in_set_takeD)
next
  fix s channel chat query kinds limit hits
  assume "store_search logf now channel chat query kinds limit s = Inr hits"
  then show "int (length hits) \<le> limit" by (auto simp: store_search_def split: if_splits)
qed

subsection \<open>The SQLite store refines the reference store\<close>

definition memory_rows_ok :: "memory_row list \<Rightarrow> bool" where
  "memory_rows_ok rows \<longleftrightarrow> distinct (map mw_memory_id rows) \<and> (\<forall>w \<in> set rows. w = memory_row_of (mw_record w))"

definition stored_records :: "memory_row list \<Rightarrow> memory_record list" where
  "stored_records rows = map mw_record rows"

lemma memory_row_of_simps [simp]:
  "mw_memory_id (memory_row_of r) = me_id r" "mw_channel (memory_row_of r) = me_channel r"
  "mw_chat_id (memory_row_of r) = me_chat_id r" "mw_active (memory_row_of r) = me_active r"
  "mw_kind (memory_row_of r) = me_kind r" "mw_record (memory_row_of r) = r"
  by (simp_all add: memory_row_of_def)

text \<open>Every column of a well-formed row is the field of its record.\<close>

lemma rows_as_records: "memory_rows_ok rows \<Longrightarrow> rows = map memory_row_of (stored_records rows)"
  unfolding memory_rows_ok_def stored_records_def map_map by (intro map_idI [symmetric]) simp

lemma memory_rows_ok_of [simp]: "memory_rows_ok (map memory_row_of recs) \<longleftrightarrow> records_ok recs"
  by (simp add: memory_rows_ok_def records_ok_def comp_def)

lemma stored_records_of [simp]: "stored_records (map memory_row_of recs) = recs"
  by (simp add: stored_records_def comp_def)

lemma get_row_rows: "get_row mw_memory_id i (map memory_row_of recs) = map_option memory_row_of (get_row me_id i recs)"
  by (induction recs) simp_all

lemma deactivate_rows:
  assumes "\<And>q. q \<in> set recs \<Longrightarrow> me_id q = me_id old \<Longrightarrow> q\<lparr>me_active := False\<rparr> = old\<lparr>me_active := False\<rparr>"
  shows "sql_deactivate old (map memory_row_of recs) = map memory_row_of (deactivate old recs)"
proof -
  have "(memory_row_of q)\<lparr>mw_active := False, mw_record := old\<lparr>me_active := False\<rparr>\<rparr> = memory_row_of (old\<lparr>me_active := False\<rparr>)"
    if "q \<in> set recs" "me_id q = me_id old" for q
    using assms [OF that] by (cases q; cases old) (simp add: memory_row_of_def)
  then show ?thesis by (simp add: sql_deactivate_def deactivate_def update_where_def)
qed

lemma fold_deactivate_rows:
  assumes "\<And>old q. old \<in> set olds \<Longrightarrow> q \<in> set recs \<Longrightarrow> me_id q = me_id old \<Longrightarrow>
      q\<lparr>me_active := False\<rparr> = old\<lparr>me_active := False\<rparr>"
    and "\<And>old o1. old \<in> set olds \<Longrightarrow> o1 \<in> set olds \<Longrightarrow> me_id o1 = me_id old \<Longrightarrow> o1 = old"
  shows "fold sql_deactivate olds (map memory_row_of recs) = map memory_row_of (fold deactivate olds recs)"
  using assms
proof (induction olds arbitrary: recs)
  case (Cons old olds)
  have step: "sql_deactivate old (map memory_row_of recs) = map memory_row_of (deactivate old recs)"
    by (rule deactivate_rows, rule Cons.prems(1)) simp_all
  have keep: "q\<lparr>me_active := False\<rparr> = o1\<lparr>me_active := False\<rparr>"
    if o1: "o1 \<in> set olds" and q: "q \<in> set (deactivate old recs)" and i: "me_id q = me_id o1" for o1 q
  proof -
    from q obtain x where x: "x \<in> set recs" "q = (if me_id x = me_id old then old\<lparr>me_active := False\<rparr> else x)"
      by (auto simp: deactivate_def set_update_where)
    show ?thesis
    proof (cases "me_id x = me_id old")
      case True
      then have q': "q = old\<lparr>me_active := False\<rparr>" using x(2) by simp
      then have "me_id o1 = me_id old" using i by simp
      then have "o1 = old" using Cons.prems(2) [of old o1] o1 by simp
      then show ?thesis using q' by simp
    next
      case False
      then have "q = x" using x(2) by simp
      with Cons.prems(1) [of o1 x] o1 x(1) i show ?thesis by (metis list.set_intros(2))
    qed
  qed
  have "fold sql_deactivate olds (map memory_row_of (deactivate old recs)) =
      map memory_row_of (fold deactivate olds (deactivate old recs))"
    by (rule Cons.IH) (rule keep, assumption+, rule Cons.prems(2), simp_all)
  then show ?case by (simp add: step)
qed simp

lemma sql_add_rows:
  assumes "records_ok recs"
  shows "sql_add r (map memory_row_of recs) = bind_result (store_add r recs) (\<lambda>recs'. Inr (map memory_row_of recs'))"
proof -
  have look: "map_option mw_record (get_row mw_memory_id i (map memory_row_of recs)) = get_row me_id i recs" for i
    by (simp add: get_row_rows option.map_comp comp_def option.map_ident)
  have new: "exists_row (\<lambda>w. mw_memory_id w = me_id r) (map memory_row_of recs) \<longleftrightarrow> get_row me_id (me_id r) recs \<noteq> None"
    by (simp add: exists_key_iff get_row_rows)
  show ?thesis
  proof (cases "replacements (\<lambda>i. get_row me_id i recs) r (pv_supersedes (me_provenance r))")
    case (Inl e)
    then show ?thesis by (simp add: sql_add_def store_add_def look new)
  next
    case (Inr olds)
    have found: "get_row me_id (me_id old) recs = Some old" if "old \<in> set olds" for old
      using replacements_found [OF Inr that] get_row_in by metis
    have "fold sql_deactivate olds (map memory_row_of recs) = map memory_row_of (fold deactivate olds recs)"
    proof (rule fold_deactivate_rows)
      fix old q assume "old \<in> set olds" "q \<in> set recs" "me_id q = me_id old"
      with found [of old] get_row_unique [of me_id recs q] assms
      show "q\<lparr>me_active := False\<rparr> = old\<lparr>me_active := False\<rparr>" by (simp add: records_ok_def)
    next
      fix old o1 assume "old \<in> set olds" "o1 \<in> set olds" "me_id o1 = me_id old"
      with found [of old] found [of o1] show "o1 = old" by simp
    qed
    with Inr show ?thesis by (simp add: sql_add_def store_add_def look new)
  qed
qed

lemma sql_get_rows:
  assumes "records_ok recs"
  shows "sql_get i channel chat (map memory_row_of recs) = store_get i channel chat recs"
proof -
  have "map_option mw_record (find (\<lambda>w. mw_memory_id w = i \<and> mw_channel w = channel \<and> mw_chat_id w = chat) (map memory_row_of recs)) =
    (case get_row me_id i recs of None \<Rightarrow> None | Some r \<Rightarrow> if (me_channel r, me_chat_id r) = (channel, chat) then Some r else None)"
    using assms unfolding records_ok_def
  proof (induction recs)
    case (Cons a recs)
    show ?case
    proof (cases "me_id a = i")
      case True
      with Cons.prems have "i \<notin> me_id ` set recs" by auto
      then have "find (\<lambda>w. mw_memory_id w = i \<and> mw_channel w = channel \<and> mw_chat_id w = chat) (map memory_row_of recs) = None"
        by (auto simp: find_None_iff)
      with True show ?thesis by simp
    next
      case False
      with Cons show ?thesis by simp
    qed
  qed simp
  then show ?thesis by (simp add: sql_get_def store_get_def)
qed

lemma select_rows_wanted:
  "(rank, w) \<in> set (select_rows fts channel chat query kinds limit rows) \<Longrightarrow> w \<in> set rows \<and> wanted_row channel chat kinds w"
  by (cases "fts_query query") (auto simp: select_rows_def select_order_set dest!: in_set_takeD)

lemma sql_search_selected:
  assumes "sql_search fts logf now channel chat query kinds limit rows = Inr hits" and "h \<in> set hits"
  shows "\<exists>rank w. (rank, w) \<in> set (select_rows fts channel chat query kinds limit rows) \<and> sh_record h = mw_record w"
proof -
  from assms obtain rank w where "(rank, w) \<in> set (select_rows fts channel chat query kinds limit rows)"
    "sh_record h = mw_record w"
    by (auto simp: sql_search_def Let_def split: if_splits dest!: in_set_takeD)
  then show ?thesis by blast
qed

lemma sql_search_hit:
  assumes "sql_search fts logf now channel chat query kinds limit rows = Inr hits" and "h \<in> set hits"
  shows "\<exists>w \<in> set rows. wanted_row channel chat kinds w \<and> sh_record h = mw_record w"
proof -
  from sql_search_selected [OF assms] obtain rank w where
    "(rank, w) \<in> set (select_rows fts channel chat query kinds limit rows)" "sh_record h = mw_record w" by blast
  then show ?thesis using select_rows_wanted by blast
qed

lemma sql_search_laws:
  assumes "records_ok recs" and "sql_search fts logf now channel chat query kinds limit (map memory_row_of recs) = Inr hits"
  shows "h \<in> set hits \<Longrightarrow> in_memory_scope channel chat (sh_record h) \<and> me_active (sh_record h) \<and>
      kind_allowed kinds (sh_record h) \<and> sh_record h \<in> set recs"
    and "int (length hits) \<le> limit"
proof -
  show "int (length hits) \<le> limit" using assms(2) by (auto simp: sql_search_def split: if_splits)
  assume "h \<in> set hits"
  from sql_search_hit [OF assms(2) this] show "in_memory_scope channel chat (sh_record h) \<and> me_active (sh_record h) \<and>
      kind_allowed kinds (sh_record h) \<and> sh_record h \<in> set recs"
    by (auto simp: wanted_row_def in_memory_scope_def kind_allowed_def split: option.splits)
qed

interpretation sqlite: memory_store memory_rows_ok stored_records sql_add sql_get "sql_search fts logf now" for fts logf now
proof unfold_locales
  fix s r t assume s: "memory_rows_ok s" "sql_add r s = Inr t"
  obtain recs where recs: "s = map memory_row_of recs" "records_ok recs" using rows_as_records s(1) by (metis memory_rows_ok_of)
  with s(2) obtain recs' where "store_add r recs = Inr recs'" "t = map memory_row_of recs'"
    by (auto simp: sql_add_rows bind_result_Inr_iff)
  with recs show "memory_rows_ok t" by (simp add: reference.add_ok)
next
  fix s r t q assume s: "memory_rows_ok s" "sql_add r s = Inr t" and q: "\<not> in_memory_scope (me_channel r) (me_chat_id r) q"
  obtain recs where recs: "s = map memory_row_of recs" "records_ok recs" using rows_as_records s(1) by (metis memory_rows_ok_of)
  with s(2) obtain recs' where "store_add r recs = Inr recs'" "t = map memory_row_of recs'"
    by (auto simp: sql_add_rows bind_result_Inr_iff)
  with recs reference.add_frame [OF recs(2) _ q] show "q \<in> set (stored_records t) \<longleftrightarrow> q \<in> set (stored_records s)" by simp
next
  fix s i channel chat r assume s: "memory_rows_ok s" "sql_get i channel chat s = Inr (Some r)"
  obtain recs where "s = map memory_row_of recs" "records_ok recs" using rows_as_records s(1) by (metis memory_rows_ok_of)
  with s(2) show "in_memory_scope channel chat r \<and> me_id r = i \<and> r \<in> set (stored_records s)"
    using reference.lookup_scope [of recs i channel chat r] by (simp add: sql_get_rows)
next
  fix s channel chat query kinds limit hits h
  assume s: "memory_rows_ok s" "sql_search fts logf now channel chat query kinds limit s = Inr hits" "h \<in> set hits"
  obtain recs where "s = map memory_row_of recs" "records_ok recs" using rows_as_records s(1) by (metis memory_rows_ok_of)
  with s(2,3) sql_search_laws(1) show "in_memory_scope channel chat (sh_record h) \<and> me_active (sh_record h) \<and>
      kind_allowed kinds (sh_record h) \<and> sh_record h \<in> set (stored_records s)" by simp
next
  fix s channel chat query kinds limit hits
  assume s: "memory_rows_ok s" "sql_search fts logf now channel chat query kinds limit s = Inr hits"
  obtain recs where "s = map memory_row_of recs" "records_ok recs" using rows_as_records s(1) by (metis memory_rows_ok_of)
  with s(2) sql_search_laws(2) show "int (length hits) \<le> limit" by simp
qed

lemma filter_update_where_other:
  "(\<And>x. x \<in> set xs \<Longrightarrow> Q x \<Longrightarrow> \<not> P x \<and> \<not> P (f x)) \<Longrightarrow> filter P (update_where Q f xs) = filter P xs"
proof (induction xs)
  case (Cons x xs)
  from Cons.prems [of x] Cons.IH Cons.prems show ?case by (cases "Q x") (simp_all add: update_where_def)
qed simp

lemma insort_key_cong:
  "k x = j x \<Longrightarrow> \<forall>y \<in> set xs. k y = j y \<Longrightarrow> insort_key k x xs = insort_key j x xs"
  by (induction xs) simp_all

lemma sort_key_cong:
  assumes "\<And>x. x \<in> set xs \<Longrightarrow> k x = j x"
  shows "sort_key k xs = sort_key j xs"
  using assms
proof (induction xs)
  case (Cons x xs)
  then have "sort_key k xs = sort_key j xs" by simp
  moreover have "insort_key k x (sort_key j xs) = insort_key j x (sort_key j xs)"
    by (rule insort_key_cong) (simp_all add: Cons.prems)
  ultimately show ?case by simp
qed simp

lemma find_filter_head: "find P xs = first_row (filter P xs)"
  by (induction xs) (simp_all add: first_row_def)

text \<open>Storing a record leaves the list of another conversation's records as it is.\<close>

lemma fold_deactivate_filter:
  assumes "\<And>old. old \<in> set olds \<Longrightarrow> in_memory_scope c ch old"
    and "\<And>old x. old \<in> set olds \<Longrightarrow> x \<in> set recs \<Longrightarrow> me_id x = me_id old \<Longrightarrow> in_memory_scope c ch x"
    and "\<And>x. P x \<Longrightarrow> \<not> in_memory_scope c ch x"
  shows "filter P (fold deactivate olds recs) = filter P recs"
  using assms(1,2)
proof (induction olds arbitrary: recs)
  case (Cons old olds)
  have old: "in_memory_scope c ch old" by (rule Cons.prems(1)) simp
  have "in_memory_scope c ch (old\<lparr>me_active := False\<rparr>)" using Cons.prems(1) [of old] by (simp add: in_memory_scope_def)
  then have "\<not> P (old\<lparr>me_active := False\<rparr>)" using assms(3) by blast
  moreover have "\<not> P x" if "x \<in> set recs" "me_id x = me_id old" for x
    using assms(3) Cons.prems(2) [OF list.set_intros(1) that] by blast
  ultimately have here: "filter P (deactivate old recs) = filter P recs"
    unfolding deactivate_def by (intro filter_update_where_other) simp
  have scope: "in_memory_scope c ch x" if "o1 \<in> set olds" "x \<in> set (deactivate old recs)" "me_id x = me_id o1" for o1 x
    using that(1) by (intro deactivate_scope [OF Cons.prems(2) old that(2,3)]) simp_all
  have "filter P (fold deactivate olds (deactivate old recs)) = filter P (deactivate old recs)"
    by (rule Cons.IH, rule Cons.prems(1), simp, rule scope)
  with here show ?case by simp
qed simp

lemma store_add_filter:
  assumes "records_ok recs" and "store_add r recs = Inr recs'"
    and "\<And>x. P x \<Longrightarrow> \<not> in_memory_scope (me_channel r) (me_chat_id r) x"
  shows "filter P recs' = filter P recs"
proof -
  from assms(2) obtain olds where olds:
    "replacements (\<lambda>i. get_row me_id i recs) r (pv_supersedes (me_provenance r)) = Inr olds"
    and r': "recs' = fold deactivate olds recs @ [r]"
    by (auto simp: store_add_def bind_result_Inr_iff split: if_splits)
  have scope: "in_memory_scope (me_channel r) (me_chat_id r) old \<and> get_row me_id (me_id old) recs = Some old"
    if "old \<in> set olds" for old
    using replacements_found [OF olds that] get_row_in by metis
  have "in_memory_scope (me_channel r) (me_chat_id r) x" if "old \<in> set olds" "x \<in> set recs" "me_id x = me_id old" for old x
    using scope [OF that(1)] get_row_unique [of me_id recs x] assms(1) that by (simp add: records_ok_def)
  then have "filter P (fold deactivate olds recs) = filter P recs"
    using fold_deactivate_filter [of olds "me_channel r" "me_chat_id r" recs P] scope assms(3) by blast
  moreover have "\<not> P r" using assms(3) by (auto simp: in_memory_scope_def)
  ultimately show ?thesis by (simp add: r')
qed

lemma sql_add_filter:
  assumes "memory_rows_ok rows" and "sql_add r rows = Inr rows'" and "(channel, chat) \<noteq> (me_channel r, me_chat_id r)"
    and "\<And>w. P w \<Longrightarrow> mw_channel w = channel \<and> mw_chat_id w = chat"
  shows "filter P rows' = filter P rows"
proof -
  obtain recs where recs: "rows = map memory_row_of recs" "records_ok recs"
    using rows_as_records assms(1) by (metis memory_rows_ok_of)
  with assms(2) obtain recs' where "store_add r recs = Inr recs'" "rows' = map memory_row_of recs'"
    by (auto simp: sql_add_rows bind_result_Inr_iff)
  moreover have "\<not> in_memory_scope (me_channel r) (me_chat_id r) x" if "(P \<circ> memory_row_of) x" for x
    using assms(3) assms(4) [of "memory_row_of x"] that by (auto simp: in_memory_scope_def)
  ultimately show ?thesis
    using store_add_filter [OF recs(2), of r recs' "P \<circ> memory_row_of"] by (simp add: recs(1) filter_map)
qed

subsection \<open>Properties\<close>

text \<open>C16.
  The SQLite store implements the reference store (\<open>SQLiteMemoryStore.add\<close>, \<open>get\<close> against \<open>InMemoryMemoryStore\<close>): on
  the records its rows hold, storing gives the same records or the same error and a scoped lookup the same answer,
  and the columns keep agreeing with the stored JSON.
\<close>

theorem sqlite_memory_refines_reference:
  assumes "memory_rows_ok rows"
  shows "bind_result (sql_add r rows) (\<lambda>rows'. Inr (stored_records rows')) = store_add r (stored_records rows) \<and>
    (\<forall>rows'. sql_add r rows = Inr rows' \<longrightarrow> memory_rows_ok rows') \<and>
    sql_get i channel chat rows = store_get i channel chat (stored_records rows)"
proof -
  obtain recs where recs: "rows = map memory_row_of recs" "records_ok recs"
    using rows_as_records assms by (metis memory_rows_ok_of)
  then show ?thesis
    using sqlite.add_ok [OF assms] by (simp add: sql_add_rows sql_get_rows bind_result_def split: sum.split)
qed

text \<open>The rows a search chooses from: the active ones of the conversation and of the kinds asked for, and, when the
  query has a match expression, those the full-text index finds.\<close>

definition candidates ::
    "(str \<Rightarrow> memory_row list \<Rightarrow> memory_row \<Rightarrow> rat option) \<Rightarrow> str \<Rightarrow> str \<Rightarrow> str \<Rightarrow> memory_kind list option \<Rightarrow>
     memory_row list \<Rightarrow> memory_row list" where
  "candidates fts channel chat query kinds rows =
     filter (\<lambda>w. wanted_row channel chat kinds w \<and>
       (case fts_query query of None \<Rightarrow> True | Some m \<Rightarrow> fts m rows w \<noteq> None)) rows"

lemma candidates_None: "fts_query query = None \<Longrightarrow> candidates fts channel chat query kinds rows = filter (wanted_row channel chat kinds) rows"
  by (simp add: candidates_def)

lemma select_rows_candidates:
  "snd ` set (select_rows fts channel chat query kinds limit rows) \<subseteq> set (candidates fts channel chat query kinds rows)"
  by (cases "fts_query query") (auto simp: select_rows_def candidates_def select_order_set dest!: in_set_takeD)

lemma select_rows_all:
  assumes "fts_query query = Some m" and "int (length (candidates fts channel chat query kinds rows)) \<le> limit"
  shows "snd ` set (select_rows fts channel chat query kinds limit rows) = set (candidates fts channel chat query kinds rows)"
    and "length (select_rows fts channel chat query kinds limit rows) = length (candidates fts channel chat query kinds rows)"
proof -
  let ?P = "\<lambda>w. fts m rows w \<noteq> None \<and> wanted_row channel chat kinds w"
  let ?sel = "select_order (\<lambda>w. (the (fts m rows w), - mw_created_at w)) ?P rows"
  have c: "candidates fts channel chat query kinds rows = filter ?P rows"
    by (simp add: candidates_def assms(1) conj_commute)
  have l: "length ?sel = length (candidates fts channel chat query kinds rows)" by (simp add: select_order_def c)
  then have "select_rows fts channel chat query kinds limit rows = map (\<lambda>w. (the (fts m rows w), w)) ?sel"
    using assms by (simp add: select_rows_def)
  with l c show "snd ` set (select_rows fts channel chat query kinds limit rows) = set (candidates fts channel chat query kinds rows)"
    "length (select_rows fts channel chat query kinds limit rows) = length (candidates fts channel chat query kinds rows)"
    by (simp_all add: image_image select_order_set)
qed

lemma sql_search_records:
  assumes "sql_search fts logf now channel chat query kinds limit rows = Inr hits"
  shows "sh_record ` set hits \<subseteq> mw_record ` set (candidates fts channel chat query kinds rows)"
    and "fts_query query = Some m \<Longrightarrow> int (length (candidates fts channel chat query kinds rows)) \<le> limit \<Longrightarrow>
      sh_record ` set hits = mw_record ` set (candidates fts channel chat query kinds rows)"
proof -
  let ?hit = "\<lambda>(rank, w). let h = score logf (mw_record w) (terms query) now in h\<lparr>sh_score := sh_score h + max 0 (- rank)\<rparr>"
  let ?sel = "select_rows fts channel chat query kinds limit rows"
  have rec: "sh_record ` ?hit ` A = mw_record ` snd ` A" for A
    by (simp add: image_image Let_def case_prod_beta)
  have none: "candidates fts channel chat query kinds rows = []" if "kinds = Some []"
    by (simp add: candidates_def wanted_row_def that)
  show "sh_record ` set hits \<subseteq> mw_record ` set (candidates fts channel chat query kinds rows)"
  proof
    fix x assume "x \<in> sh_record ` set hits"
    then obtain h where h: "h \<in> set hits" "x = sh_record h" by blast
    from sql_search_selected [OF assms h(1)] h(2) have "x \<in> mw_record ` snd ` set ?sel" by force
    with select_rows_candidates show "x \<in> mw_record ` set (candidates fts channel chat query kinds rows)" by blast
  qed
  assume m: "fts_query query = Some m" and few: "int (length (candidates fts channel chat query kinds rows)) \<le> limit"
  note all = select_rows_all [OF m few]
  show "sh_record ` set hits = mw_record ` set (candidates fts channel chat query kinds rows)"
  proof (cases "kinds = Some []")
    case True
    with assms none show ?thesis by (auto simp: sql_search_def split: if_splits)
  next
    case False
    with assms m have "hits = take (nat limit) (sort_desc by_score (map ?hit ?sel))"
      by (auto simp: sql_search_def Let_def split: if_splits)
    moreover have "length (sort_desc by_score (map ?hit ?sel)) \<le> nat limit" using all(2) few by (simp add: sort_desc_def)
    ultimately have "set hits = ?hit ` set ?sel" by simp
    then show ?thesis by (simp only: rec all(1))
  qed
qed


subsection \<open>Witnesses\<close>

definition demo_memory :: "uuid \<Rightarrow> string \<Rightarrow> memory_kind \<Rightarrow> uuid list \<Rightarrow> memory_record" where
  "demo_memory i chat kind olds = \<lparr>me_id = i, me_channel = lit ''lab'', me_chat_id = lit chat, me_kind = kind,
     me_text = lit ''call bob'', me_provenance = \<lparr>pv_source_message_ids = [lit ''m1''], pv_source_event_ids = [],
       pv_model = lit ''m'', pv_prompt_version = lit ''v'', pv_confidence = 1, pv_supersedes = olds, pv_derived_at = 0\<rparr>,
     me_importance = 1, me_data_class = Dc_Conversation, me_created_at = 0, me_active = True\<rparr>"

definition demo_rows :: "memory_row list" where
  "demo_rows = [memory_row_of (demo_memory [1] ''a'' Mk_Commitment [])]"

lemma demo_rows_ok: "memory_rows_ok demo_rows"
  by (simp add: demo_rows_def memory_rows_ok_def)

lemma demo_sql_add:
  "sql_add (demo_memory [2] ''b'' Mk_Fact []) demo_rows = Inr (demo_rows @ [memory_row_of (demo_memory [2] ''b'' Mk_Fact [])])"
  by (simp add: sql_add_def demo_rows_def exists_row_def demo_memory_def memory_row_of_def)

theorem sqlite_memory_refines_reference_witness:
  "store_add (demo_memory [2] ''b'' Mk_Fact []) (stored_records demo_rows) =
     Inr [demo_memory [1] ''a'' Mk_Commitment [], demo_memory [2] ''b'' Mk_Fact []] \<and>
   sql_get [1] (lit ''lab'') (lit ''a'') demo_rows = store_get [1] (lit ''lab'') (lit ''a'') (stored_records demo_rows)"
  using sqlite_memory_refines_reference [OF demo_rows_ok, of "demo_memory [2] ''b'' Mk_Fact []" "[1]" "lit ''lab''" "lit ''a''"]
  by (simp add: demo_sql_add stored_records_def) (simp add: demo_rows_def)


text \<open>A query too short for the full-text index loses an unmatched commitment that the reference store returns.\<close>

lemma short_query_drops_commitment:
  "store_search (\<lambda>n. 0) 0 (lit ''lab'') (lit ''a'') (lit ''hi'') None 5 (stored_records demo_rows) =
     Inr [score (\<lambda>n. 0) (demo_memory [1] ''a'' Mk_Commitment []) [lit ''hi''] 0]"
  "sql_search fts (\<lambda>n. 0) 0 (lit ''lab'') (lit ''a'') (lit ''hi'') None 5 demo_rows = Inr []"
proof -
  have t: "terms (lit ''hi'') = [lit ''hi'']" "terms (lit ''call bob'') = [lit ''call'', lit ''bob'']" "fts_query (lit ''hi'') = None"
    by code_simp+
  have "count_list [lit ''call'', lit ''bob''] (lit ''hi'') = 0" by code_simp
  then have m: "sh_matched_terms (score (\<lambda>n. 0) (demo_memory [1] ''a'' Mk_Commitment []) [lit ''hi''] 0) = []"
    by (simp add: score_def t demo_memory_def)
  show "store_search (\<lambda>n. 0) 0 (lit ''lab'') (lit ''a'') (lit ''hi'') None 5 (stored_records demo_rows) =
     Inr [score (\<lambda>n. 0) (demo_memory [1] ''a'' Mk_Commitment []) [lit ''hi''] 0]"
    by (simp add: store_search_def t stored_records_def demo_rows_def sort_desc_def kind_allowed_def) (simp add: demo_memory_def)
  show "sql_search fts (\<lambda>n. 0) 0 (lit ''lab'') (lit ''a'') (lit ''hi'') None 5 demo_rows = Inr []"
    using m by (simp add: sql_search_def select_rows_def t select_order_def demo_rows_def wanted_row_def sort_desc_def Let_def)
qed

end
