(* ===== verification/Effects.thy ===== *)
theory Effects
  imports Recovery Approvals Policy Context
begin

text \<open>
  The broker process seen from its pipeline: the database plus what has been handed to the outside world (messages
  given to a connector, tools invoked, requests given to the model). An operation that awaits something outside may
  return in a world that other tasks have changed. An operation either returns or raises, and keeps what it has
  written in both cases: \<open>'a eff\<close>. The combinators are the sequencing, raising and catching of the source.
\<close>

record world =
  wd_db :: db
  wd_sent :: "(nat \<times> outbound_message) list"
  wd_invoked :: "(uuid \<times> str \<times> dict) list"
  wd_requests :: "(nat \<times> model_request) list"

type_synonym 'a eff = "world \<Rightarrow> 'a result \<times> world"

definition eff_return :: "'a \<Rightarrow> 'a eff" where
  "eff_return a w = (Inr a, w)"

definition eff_raise :: "exn \<Rightarrow> 'a eff" where
  "eff_raise e w = (Inl e, w)"

definition eff_bind :: "'a eff \<Rightarrow> ('a \<Rightarrow> 'b eff) \<Rightarrow> 'b eff" where
  "eff_bind m f w = (case m w of (Inl e, w1) \<Rightarrow> (Inl e, w1) | (Inr a, w1) \<Rightarrow> f a w1)"

definition eff_seq :: "'a eff \<Rightarrow> 'b eff \<Rightarrow> 'b eff" where
  "eff_seq m n = eff_bind m (\<lambda>_. n)"

definition eff_catch :: "'a eff \<Rightarrow> (exn \<Rightarrow> 'a eff) \<Rightarrow> 'a eff" where
  "eff_catch m h w = (case m w of (Inl e, w1) \<Rightarrow> h e w1 | (Inr a, w1) \<Rightarrow> (Inr a, w1))"

text \<open>A transaction that cannot raise, one that may raise and is then rolled back, and a read.\<close>

definition eff_db :: "(db \<Rightarrow> 'a \<times> db) \<Rightarrow> 'a eff" where
  "eff_db f w = (case f (wd_db w) of (a, t) \<Rightarrow> (Inr a, w\<lparr>wd_db := t\<rparr>))"

definition eff_try :: "(db \<Rightarrow> ('a \<times> db) result) \<Rightarrow> 'a eff" where
  "eff_try f w = (case f (wd_db w) of Inl e \<Rightarrow> (Inl e, w) | Inr (a, t) \<Rightarrow> (Inr a, w\<lparr>wd_db := t\<rparr>))"

definition eff_read :: "(world \<Rightarrow> 'a result) \<Rightarrow> 'a eff" where
  "eff_read f w = (f w, w)"

definition eff_when :: "bool \<Rightarrow> unit eff \<Rightarrow> unit eff" where
  "eff_when b m = (if b then m else eff_return ())"

definition eff_audit :: "audit_record \<Rightarrow> unit eff" where
  "eff_audit a = eff_db (\<lambda>s. ((), append_audit a s))"

text \<open>The class name of an exception, as \<open>type(exc).__name__\<close> gives it.\<close>

fun exn_name :: "exn \<Rightarrow> string" where
  "exn_name (ValueError _) = ''ValueError''"
| "exn_name KeyError = ''KeyError''"
| "exn_name (RuntimeError _) = ''RuntimeError''"
| "exn_name (ValidationError _) = ''ValidationError''"
| "exn_name AssertionError = ''AssertionError''"
| "exn_name TimeoutError = ''TimeoutError''"
| "exn_name (LabPaused _) = ''LabPaused''"
| "exn_name (PermanentPipelineError _) = ''PermanentPipelineError''"
| "exn_name PriceNotConfiguredError = ''PriceNotConfiguredError''"
| "exn_name (BudgetExceededError _) = ''BudgetExceededError''"
| "exn_name (ModelGatewayError _) = ''ModelGatewayError''"
| "exn_name (ModelTransportError _) = ''ModelTransportError''"
| "exn_name (ModelProtocolError _) = ''ModelProtocolError''"
| "exn_name (ToolCallValidationError _) = ''ToolCallValidationError''"
| "exn_name (ToolSchemaError _) = ''ToolSchemaError''"
| "exn_name (MemoryScopeError _) = ''MemoryScopeError''"
| "exn_name (ContextOverflowError _) = ''ContextOverflowError''"
| "exn_name (OtherException n) = n"

text \<open>\<open>asyncio.CancelledError\<close> is no \<open>Exception\<close>: the handlers of the pipeline let it pass.\<close>

definition cancelled :: exn where
  "cancelled = OtherException ''CancelledError''"

subsection \<open>Guarantees\<close>

text \<open>
  What a component guarantees about every world it leaves behind, whether it returned or raised. The rules carry a
  guarantee through the combinators; a component proves it for its transactions only.
\<close>

definition guaranteed :: "(world \<Rightarrow> world \<Rightarrow> bool) \<Rightarrow> 'a eff \<Rightarrow> bool" where
  "guaranteed G m \<longleftrightarrow> (\<forall>w. G w (snd (m w)))"

locale guarantee =
  fixes G :: "world \<Rightarrow> world \<Rightarrow> bool"
  assumes refl: "G w w"
    and trans: "G u v \<Longrightarrow> G v w \<Longrightarrow> G u w"
begin

lemma guaranteedD: "guaranteed G m \<Longrightarrow> m w = (r, w') \<Longrightarrow> G w w'"
  unfolding guaranteed_def by (metis snd_conv)

lemma guaranteed_return: "guaranteed G (eff_return a)" "guaranteed G (eff_raise e)" "guaranteed G (eff_read f)"
  by (simp_all add: guaranteed_def eff_return_def eff_raise_def eff_read_def refl)

lemma guaranteed_bind:
  assumes "guaranteed G m" and "\<And>a. guaranteed G (f a)"
  shows "guaranteed G (eff_bind m f)"
  unfolding guaranteed_def
proof
  fix w
  obtain r w1 where m: "m w = (r, w1)" by force
  from guaranteedD [OF assms(1) m] have "G w w1" .
  moreover have "G w1 (snd (f a w1))" for a using assms(2) by (simp add: guaranteed_def)
  ultimately show "G w (snd (eff_bind m f w))"
    by (cases r) (auto simp: eff_bind_def m intro: trans)
qed

lemma guaranteed_seq: "guaranteed G m \<Longrightarrow> guaranteed G n \<Longrightarrow> guaranteed G (eff_seq m n)"
  by (simp add: eff_seq_def guaranteed_bind)

lemma guaranteed_catch:
  assumes "guaranteed G m" and "\<And>e. guaranteed G (h e)"
  shows "guaranteed G (eff_catch m h)"
  unfolding guaranteed_def
proof
  fix w
  obtain r w1 where m: "m w = (r, w1)" by force
  from guaranteedD [OF assms(1) m] have "G w w1" .
  moreover have "G w1 (snd (h e w1))" for e using assms(2) by (simp add: guaranteed_def)
  ultimately show "G w (snd (eff_catch m h w))"
    by (cases r) (auto simp: eff_catch_def m intro: trans)
qed

lemma guaranteed_when: "guaranteed G m \<Longrightarrow> guaranteed G (eff_when b m)"
  by (simp add: eff_when_def guaranteed_return)

lemma guaranteed_at: "(\<And>w. guaranteed G (m w)) \<Longrightarrow> guaranteed G (\<lambda>w. m w w)"
  by (simp add: guaranteed_def)

lemma guaranteed_db:
  assumes "\<And>w a t. f (wd_db w) = (a, t) \<Longrightarrow> G w (w\<lparr>wd_db := t\<rparr>)"
  shows "guaranteed G (eff_db f)"
  using assms by (simp add: guaranteed_def eff_db_def split: prod.split)

lemma guaranteed_try:
  assumes "\<And>w a t. f (wd_db w) = Inr (a, t) \<Longrightarrow> G w (w\<lparr>wd_db := t\<rparr>)"
  shows "guaranteed G (eff_try f)"
  using assms by (auto simp: guaranteed_def eff_try_def refl split: sum.split)

lemmas guaranteed_rules = guaranteed_return guaranteed_bind guaranteed_seq guaranteed_catch guaranteed_when

end

end
