(* ===== verification/Pipeline.thy ===== *)
theory Pipeline
  imports Tool_Loop
begin

text \<open>
  \<open>EventPipeline\<close> of \<open>lemonbot/orchestration/pipeline.py\<close>: from a claimed inbox item to a queued reply, and from a
  queued message to its delivery. The connector is a parameter that may answer or raise anything; memory
  derivation is a parameter as well. A time limit that strikes while the pipeline waits for the model, a tool or the
  connector is an exception of that wait.
\<close>

datatype pipeline_status =
  Ps_Idle | Ps_Queued | Ps_Completed | Ps_Skipped | Ps_Retry | Ps_Dead | Ps_Acknowledged | Ps_Unknown | Ps_Deferred

record pipeline_result =
  pr_status :: pipeline_status
  pr_item_id :: "nat option"
  pr_detail :: "str option"

definition outcome :: "pipeline_status \<Rightarrow> nat \<Rightarrow> str \<Rightarrow> pipeline_result" where
  "outcome st i detail = \<lparr>pr_status = st, pr_item_id = Some i, pr_detail = Some detail\<rparr>"

subsection \<open>Ingest\<close>

definition ingest :: "services \<Rightarrow> inbound_event \<Rightarrow> pipeline_result eff" where
  "ingest sv e = eff_bind (\<lambda>w. eff_db (record_inbound (sv_clock sv w) e) w) (\<lambda>inserted.
     eff_return \<lparr>pr_status = (if inserted then Ps_Queued else Ps_Skipped), pr_item_id = None,
       pr_detail = (if inserted then None else Some (lit ''duplicate event''))\<rparr>)"

subsection \<open>Replies\<close>

definition bounded_reply :: "pipeline_config \<Rightarrow> str \<Rightarrow> str result" where
  "bounded_reply cfg value =
     (let v = strip value
      in if v = [] then Inl (PermanentPipelineError ''empty reply'')
         else if length v \<le> pl_max_reply_chars cfg then Inr v
         else Inr (rstrip (take (pl_max_reply_chars cfg - 1) v) @ [8230]))"

definition is_conversation :: "dict \<Rightarrow> bool" where
  "is_conversation md \<longleftrightarrow> dget md ''wechat_mode'' = Some (JStr (lit ''conversation''))"

text \<open>\<open>context_[a-f0-9]{64}\<close>, the whole text.\<close>

definition is_context_scope :: "str \<Rightarrow> bool" where
  "is_context_scope s \<longleftrightarrow> length s = 72 \<and> prefix (lit ''context_'') s \<and>
     list_all (\<lambda>c. 97 \<le> c \<and> c \<le> 102 \<or> 48 \<le> c \<and> c \<le> 57) (drop 8 s)"

definition context_scope :: "dict \<Rightarrow> str option" where
  "context_scope md = (case dget md ''context_scope'' of Some (JStr s) \<Rightarrow> if is_context_scope s then Some s else None | _ \<Rightarrow> None)"

definition memory_scope :: "inbound_event \<Rightarrow> str result" where
  "memory_scope e =
     (if is_conversation (ev_metadata e)
      then (case context_scope (ev_metadata e) of
              None \<Rightarrow> Inl (PermanentPipelineError ''invalid memory context binding'') | Some s \<Rightarrow> Inr s)
      else Inr (ev_chat_id e))"

text \<open>A positive \<open>attachment_failures\<close>; a Python \<open>bool\<close> is an \<open>int\<close>.\<close>

definition attachment_failures :: "dict \<Rightarrow> str option" where
  "attachment_failures md =
     (case dget md ''attachment_failures'' of
        Some (JInt n) \<Rightarrow> if 0 < n then Some (str_of_int n) else None
      | Some (JBool True) \<Rightarrow> Some (lit ''True'')
      | _ \<Rightarrow> None)"

text \<open>The notice appended to a reply, in Chinese: how many attachments could not be received.\<close>

definition failure_notice :: "str \<Rightarrow> str" where
  "failure_notice n = [10, 10, 65288, 26377, 32] @ n @
     [32, 20010, 38468, 20214, 26410, 33021, 23433, 20840, 25509, 25910, 25110, 20445, 23384, 65292, 22240, 27492, 26412, 27425,
      22238, 31572, 21487, 33021, 19981, 21253, 21547, 20854, 20013, 30340, 20449, 24687, 12290, 65289]"

definition with_notice :: "dict \<Rightarrow> str \<Rightarrow> str" where
  "with_notice md text = (case attachment_failures md of None \<Rightarrow> text | Some n \<Rightarrow> text @ failure_notice n)"

subsection \<open>Preparing the context\<close>

record prepared_context =
  pp_messages :: "model_message list"
  pp_source_turns :: "conversation_turn list"
  pp_truncated :: bool

definition source_message_id :: "conversation_message \<Rightarrow> str" where
  "source_message_id m = (case cm_external_id m of
     Some x \<Rightarrow> if x \<noteq> [] then x else lit ''message:'' @ str_of_int (int (cm_id m))
   | None \<Rightarrow> lit ''message:'' @ str_of_int (int (cm_id m)))"

definition json_texts :: "json list \<Rightarrow> str list option" where
  "json_texts xs = those (map (\<lambda>v. case v of JStr s \<Rightarrow> Some s | _ \<Rightarrow> None) xs)"

definition attachment_hint :: "conversation_message \<Rightarrow> str" where
  "attachment_hint m =
     (let ids = (case dget (cm_metadata m) ''attachment_ids'' of
            Some (JList xs) \<Rightarrow> (case json_texts xs of Some ts \<Rightarrow> join (lit '', '') (take 10 ts) | None \<Rightarrow> [])
          | _ \<Rightarrow> []);
          hints = (if ids \<noteq> [] then [lit ''UNTRUSTED ATTACHMENTS bound to this event: '' @ ids] else []) @
            (case attachment_failures (cm_metadata m) of None \<Rightarrow> []
             | Some n \<Rightarrow> [lit ''ATTACHMENT INTAKE FAILURE: '' @ n @
                 lit '' item(s) were unavailable; do not claim to have inspected them''])
      in if hints = [] then [] else [10] @ lit ''['' @ join (lit '']'' @ [10] @ lit ''['') hints @ lit '']'')"

definition turn_of :: "inbound_event \<Rightarrow> conversation_message \<Rightarrow> conversation_turn result" where
  "turn_of e m =
     (if (cm_channel m, cm_chat_id m) \<noteq> (ev_channel e, ev_chat_id e)
      then Inl (PermanentPipelineError ''repository returned cross-conversation history'')
      else bind_result (memory_scope e) (\<lambda>scope.
        let t = \<lparr>ct_message_id = source_message_id m,
              ct_event_id = (if cm_role m = Role_User then cm_external_id m else None), ct_channel = cm_channel m,
              ct_chat_id = scope, ct_role = cm_role m, ct_content = cm_content m, ct_occurred_at = cm_occurred_at m\<rparr>
        in raise_if (\<not> conversation_turn_ok t) (ValidationError ''ConversationTurn'') (Inr t)))"

fun turns_of :: "inbound_event \<Rightarrow> conversation_message list \<Rightarrow> conversation_turn list result" where
  "turns_of e [] = Inr []"
| "turns_of e (m # ms) = bind_result (turn_of e m) (\<lambda>t. bind_result (turns_of e ms) (\<lambda>ts. Inr (t # ts)))"

text \<open>The last entry with the event's id is the current one.\<close>

definition current_entry :: "inbound_event \<Rightarrow> (conversation_message \<times> conversation_turn) list \<Rightarrow>
    (conversation_message \<times> conversation_turn) option" where
  "current_entry e entries = find (\<lambda>(m, t). cm_external_id m = Some (ev_event_id e)) (rev entries)"

definition audit_memory_event :: "services \<Rightarrow> inbox_item \<Rightarrow> string \<Rightarrow> string \<Rightarrow> dict \<Rightarrow> unit eff" where
  "audit_memory_event sv item action result detail =
     (\<lambda>w. eff_audit (audit_row action result (ev_channel (ii_event item)) (Some (ev_chat_id (ii_event item)))
        (Some (ev_event_id (ii_event item))) None detail (sv_clock sv w)) w)"

definition prepare_context ::
    "services \<Rightarrow> inbox_item \<Rightarrow> conversation_message list \<Rightarrow> prepared_context eff" where
  "prepare_context sv item recent =
     (let e = ii_event item
      in eff_bind (eff_read (\<lambda>w. turns_of e recent)) (\<lambda>turns.
         case current_entry e (zip recent turns) of
           None \<Rightarrow> permanent ''current event is missing from conversation history''
         | Some (m, source) \<Rightarrow>
             let current = source\<lparr>ct_content := ct_content source @ attachment_hint m\<rparr>;
                 others = filter (\<lambda>t. ct_message_id t \<noteq> ct_message_id source) turns;
                 system = [plain_message Role_System (pl_system_prompt (sv_config sv))];
                 maximum = maximum_context_tokens sv;
                 reserved = reserved_context_tokens sv;
                 without_memory = (\<lambda>w. build (bk_count_tokens (sv_model sv)) current others [] maximum reserved system);
                 bundle = (case sv_memory sv of
                     Some mem \<Rightarrow>
                       if pl_memory_limit (sv_config sv) \<noteq> 0
                       then eff_catch (eff_read (\<lambda>w. mem current others maximum reserved system (pl_memory_limit (sv_config sv))))
                         (\<lambda>x. eff_seq (audit_memory_event sv item ''memory.context'' ''fallback''
                                  [(lit ''error_type'', JStr (lit (exn_name x)))])
                                (eff_read without_memory))
                       else eff_read without_memory
                   | None \<Rightarrow> eff_read without_memory)
             in eff_bind bundle (\<lambda>b.
                eff_bind (eff_read (\<lambda>w. ensure_context_fits sv (cb_messages b))) (\<lambda>_.
                  eff_return \<lparr>pp_messages = cb_messages b, pp_source_turns = turns, pp_truncated = cb_truncated b\<rparr>))))"

subsection \<open>Memory upkeep\<close>

definition maintain_memory_best_effort ::
    "services \<Rightarrow> inbox_item \<Rightarrow> prepared_context \<Rightarrow> str \<Rightarrow> uuid \<Rightarrow> model_run \<Rightarrow> unit eff" where
  "maintain_memory_best_effort sv item prepared reply mid mrun =
     (let cfg = sv_config sv; e = ii_event item;
          remaining_input = pl_max_task_input_tokens cfg - mu_input_tokens mrun;
          remaining_output = pl_max_task_output_tokens cfg - mu_output_tokens mrun
      in case sv_derive sv of
           None \<Rightarrow> eff_return ()
         | Some derive \<Rightarrow>
             if pl_max_model_turns cfg \<le> mu_turns_used mrun \<or> remaining_input < 2 \<or> remaining_output < 1
             then eff_return ()
             else eff_bind (eff_read (\<lambda>w. memory_scope e)) (\<lambda>scope.
               \<lambda>w. (let turns = pp_source_turns prepared @
                       [\<lparr>ct_message_id = mid, ct_event_id = Some (ev_event_id e), ct_channel = ev_channel e, ct_chat_id = scope,
                         ct_role = Role_Assistant, ct_content = reply, ct_occurred_at = sv_clock sv w\<rparr>];
                     include_summary = (pp_truncated prepared \<or> pl_memory_summary_turn_threshold cfg \<le> length turns);
                     output_tokens = min (pl_memory_derivation_max_tokens cfg) (min (pl_model_max_tokens cfg) remaining_output);
                     context_tokens = min (maximum_context_tokens sv) (remaining_input + output_tokens)
                 in eff_catch
                      (eff_bind (derive turns include_summary context_tokens output_tokens) (\<lambda>records.
                         audit_memory_event sv item ''memory.derive'' ''stored''
                           [(lit ''count'', JInt (int (length records))),
                            (lit ''kinds'', JList (map JStr (sort (remdups (map (\<lambda>r. lit (memory_kind_value (me_kind r))) records))))),
                            (lit ''summary_requested'', JBool include_summary)]))
                      (\<lambda>x. if x = cancelled then eff_raise x
                           else audit_memory_event sv item ''memory.derive'' ''ignored_failure''
                             [(lit ''error_type'', JStr (lit (exn_name x)))])) w))"

subsection \<open>A claimed item\<close>

definition complete :: "services \<Rightarrow> inbox_item \<Rightarrow> bool eff" where
  "complete sv item = (\<lambda>w. eff_db (complete_inbox (sv_clock sv w) (ii_id item)) w)"

definition pipeline_audit :: "services \<Rightarrow> inbound_event \<Rightarrow> string \<Rightarrow> string \<Rightarrow> uuid option \<Rightarrow> dict \<Rightarrow> unit eff" where
  "pipeline_audit sv e action result mid detail =
     (\<lambda>w. eff_audit (audit_row action result (ev_channel e) (Some (ev_chat_id e)) (Some (ev_event_id e)) mid detail
        (sv_clock sv w)) w)"

definition reply_id :: "services \<Rightarrow> inbound_event \<Rightarrow> uuid" where
  "reply_id sv e = sv_uuid5 sv (lit ''lemonbot:'' @ ev_channel e @ lit '':'' @ ev_event_id e)"

definition reply_action :: "services \<Rightarrow> inbound_event \<Rightarrow> proposed_action" where
  "reply_action sv e = \<lparr>pa_kind = lit ''reply'', pa_channel = Some (ev_channel e), pa_chat_id = Some (ev_chat_id e),
     pa_bound_channel = Some (ev_channel e), pa_bound_chat_id = Some (ev_chat_id e),
     pa_reason_event_id = Some (ev_event_id e), pa_proactive = False, pa_side_effect = True, pa_tool_name = None,
     pa_arguments = [(lit ''message_id'', JStr (reply_id sv e))]\<rparr>"

definition skipped :: "inbox_item \<Rightarrow> policy_evaluation \<Rightarrow> pipeline_result" where
  "skipped item ev = outcome Ps_Skipped (ii_id item) (lit (policy_decision_value (pe_decision ev) @ '':'' @ pe_rule_id ev))"

text \<open>\<open>COMMAND\<close> of the laboratory connector: \<open>LB26_E2E_\<close> and 24 upper-case hexadecimal digits.\<close>

definition canary_code :: "str option \<Rightarrow> str option" where
  "canary_code text = (case text of None \<Rightarrow> None
     | Some t \<Rightarrow> if length t = 33 \<and> prefix (lit ''LB26_E2E_'') t \<and>
         list_all (\<lambda>c. 65 \<le> c \<and> c \<le> 70 \<or> 48 \<le> c \<and> c \<le> 57) (drop 9 t) then Some (drop 9 t) else None)"

text \<open>What the item is answered with: a text with the model run it came from, or an early result.\<close>

datatype answer = Early pipeline_result | Reply str "(prepared_context \<times> model_run) option"

definition generate_answer :: "services \<Rightarrow> inbox_item \<Rightarrow> answer eff" where
  "generate_answer sv item =
     (let cfg = sv_config sv; e = ii_event item
      in if pl_canary_only cfg then
           (case canary_code (ev_text e) of
              Some code \<Rightarrow>
                if ev_channel e = lit ''wechat_agent_lab'' \<and> ev_kind e = Ev_Text
                then eff_return (Reply (lit ''LB26_ACK_'' @ code) None)
                else eff_seq (complete sv item) (eff_return (Early (outcome Ps_Skipped (ii_id item) (lit ''unsupported_canary''))))
            | None \<Rightarrow> eff_seq (complete sv item) (eff_return (Early (outcome Ps_Skipped (ii_id item) (lit ''unsupported_canary'')))))
         else if ev_kind e = Ev_Enter_Chat then
           (case pl_welcome_text cfg of
              None \<Rightarrow> eff_seq (complete sv item) (eff_seq (pipeline_audit sv e ''pipeline.welcome'' ''disabled'' None [])
                (eff_return (Early (outcome Ps_Skipped (ii_id item) (lit ''welcome disabled'')))))
            | Some t \<Rightarrow> eff_bind (eff_read (\<lambda>w. bounded_reply cfg t)) (\<lambda>r. eff_return (Reply r None)))
         else if is_conversation (ev_metadata e) \<and> context_scope (ev_metadata e) = None
         then permanent ''invalid conversation context binding''
         else
           eff_bind (eff_read (\<lambda>w. recent_messages (ev_channel e) (ev_chat_id e) (pl_recent_messages cfg)
              (Some (ev_event_id e)) (if is_conversation (ev_metadata e) then context_scope (ev_metadata e) else None)
              (is_conversation (ev_metadata e)) (wd_db w))) (\<lambda>recent.
           eff_bind (prepare_context sv item recent) (\<lambda>prepared.
           eff_bind (run_model_and_tools sv item (pp_messages prepared)) (\<lambda>mrun.
           eff_bind (eff_read (\<lambda>w. bounded_reply cfg (with_notice (ev_metadata e) (mu_reply mrun)))) (\<lambda>r.
             eff_return (Reply r (Some (prepared, mrun))))))))"

definition outbound_of :: "services \<Rightarrow> inbound_event \<Rightarrow> str \<Rightarrow> dict \<Rightarrow> time \<Rightarrow> outbound_message result" where
  "outbound_of sv e reply md now =
     (let m = \<lparr>om_message_id = reply_id sv e, om_channel = ev_channel e, om_chat_id = ev_chat_id e, om_text = reply,
            om_reply_to_event_id = Some (ev_event_id e), om_created_at = now, om_metadata = md\<rparr>
      in raise_if (\<not> outbound_message_ok m) (ValidationError ''OutboundMessage'') (Inr m))"

definition welcome_flag :: "inbound_event \<Rightarrow> dict" where
  "welcome_flag e = (if ev_kind e = Ev_Enter_Chat then [(lit ''welcome'', JBool True)] else [])"

definition upkeep :: "services \<Rightarrow> inbox_item \<Rightarrow> str \<Rightarrow> (prepared_context \<times> model_run) option \<Rightarrow> unit eff" where
  "upkeep sv item reply mrun =
     (case mrun of None \<Rightarrow> eff_return ()
      | Some (prepared, r) \<Rightarrow> maintain_memory_best_effort sv item prepared reply (reply_id sv (ii_event item)) r)"

definition store_draft :: "services \<Rightarrow> inbox_item \<Rightarrow> str \<Rightarrow> (prepared_context \<times> model_run) option \<Rightarrow> pipeline_result eff" where
  "store_draft sv item reply mrun =
     (let e = ii_event item;
          md = [(lit ''proactive'', JBool False), (lit ''draft'', JBool True)] @ welcome_flag e
      in eff_bind (\<lambda>w. eff_read (\<lambda>_. outbound_of sv e reply md (sv_clock sv w)) w) (\<lambda>m.
         eff_bind (\<lambda>w. eff_try (create_draft (sv_clock sv w) m) w) (\<lambda>d.
         eff_seq (upkeep sv item reply mrun)
        (eff_seq (complete sv item)
        (eff_seq (pipeline_audit sv e ''pipeline.draft'' ''stored'' (Some (df_draft_id d)) [(lit ''outbox_created'', JBool False)])
          (eff_return (outcome Ps_Completed (ii_id item) (lit ''draft stored without dispatch''))))))))"

definition reply_metadata :: "services \<Rightarrow> inbound_event \<Rightarrow> (prepared_context \<times> model_run) option \<Rightarrow> dict" where
  "reply_metadata sv e mrun =
     [(lit ''proactive'', JBool False)] @ welcome_flag e @
     (if is_conversation (ev_metadata e)
      then (case dget (ev_metadata e) ''context_scope'' of Some v \<Rightarrow> [(lit ''context_scope'', v)] | None \<Rightarrow> []) else []) @
     [(lit ''chunk_chars'', JInt (pl_chunk_chars (sv_config sv))), (lit ''max_chunks'', JInt 2)] @
     (case mrun of
        Some (prepared, r) \<Rightarrow>
          if sv_derive sv \<noteq> None \<and> is_conversation (ev_metadata e)
          then [(lit ''memory_usage'', JObj [(lit ''turns'', JInt (int (mu_turns_used r))),
                  (lit ''input'', JInt (mu_input_tokens r)), (lit ''output'', JInt (mu_output_tokens r))])]
          else []
      | None \<Rightarrow> [])"

text \<open>\<open>event.metadata["context_scope"]\<close> raises when the key is missing, which only a canary or a welcome can reach.\<close>

definition scope_present :: "inbound_event \<Rightarrow> unit result" where
  "scope_present e = raise_if (is_conversation (ev_metadata e) \<and> dget (ev_metadata e) ''context_scope'' = None) KeyError (Inr ())"

text \<open>The commit section, under the shared lock: evaluate again, then insert.\<close>

definition commit_reply ::
    "services \<Rightarrow> inbox_item \<Rightarrow> str \<Rightarrow> (prepared_context \<times> model_run) option \<Rightarrow> (pipeline_result + outbox_item) eff" where
  "commit_reply sv item reply mrun =
     (let e = ii_event item
      in eff_bind (policy_evaluate sv (reply_action sv e)) (\<lambda>final.
         if pe_decision final \<noteq> Auto
         then eff_seq (complete sv item) (eff_return (Inl (skipped item final)))
         else eff_bind (eff_read (\<lambda>w. scope_present e)) (\<lambda>_.
              eff_bind (\<lambda>w. eff_read (\<lambda>_. outbound_of sv e reply (reply_metadata sv e mrun) (sv_clock sv w)) w) (\<lambda>m.
              eff_bind (\<lambda>w. eff_try (create_outbox (sv_clock sv w) m) w) (\<lambda>ob. eff_return (Inr ob))))))"

definition queue_reply :: "services \<Rightarrow> inbox_item \<Rightarrow> str \<Rightarrow> (prepared_context \<times> model_run) option \<Rightarrow> pipeline_result eff" where
  "queue_reply sv item reply mrun =
     (let e = ii_event item
      in eff_bind (commit_reply sv item reply mrun) (\<lambda>committed.
         case committed of
           Inl result \<Rightarrow> eff_return result
         | Inr ob \<Rightarrow>
             eff_seq (if is_conversation (ev_metadata e) then eff_return () else upkeep sv item reply mrun)
            (eff_seq (complete sv item)
            (eff_seq (pipeline_audit sv e (if ev_kind e = Ev_Enter_Chat then ''pipeline.welcome'' else ''pipeline.reply'') ''queued''
                        (Some (om_message_id (oi_message ob))) [])
              (eff_return \<lparr>pr_status = Ps_Completed, pr_item_id = Some (ii_id item), pr_detail = None\<rparr>)))))"

definition process_claimed :: "services \<Rightarrow> inbox_item \<Rightarrow> pipeline_result eff" where
  "process_claimed sv item =
     (let cfg = sv_config sv; e = ii_event item;
          untouched = [(lit ''model_called'', JBool False), (lit ''outbox_created'', JBool False)]
      in if (case sv_event_eligible sv of None \<Rightarrow> False | Some f \<Rightarrow> \<not> f e)
         then eff_seq (complete sv item) (eff_return (outcome Ps_Skipped (ii_id item) (lit ''target_paused'')))
         else if pl_output_mode cfg = Observe
         then eff_seq (complete sv item) (eff_seq (pipeline_audit sv e ''pipeline.observe'' ''recorded'' None untouched)
                (eff_return (outcome Ps_Completed (ii_id item) (lit ''observed without model generation''))))
         else if dget (ev_metadata e) ''connector_allowlisted'' = Some (JBool False)
         then eff_seq (complete sv item) (eff_seq (pipeline_audit sv e ''pipeline.connector_enrollment'' ''blocked'' None untouched)
                (eff_return (outcome Ps_Skipped (ii_id item) (lit ''connector_not_enrolled''))))
         else eff_bind (policy_evaluate sv (reply_action sv e)) (\<lambda>preflight.
           if pe_decision preflight \<noteq> Auto
           then eff_seq (complete sv item) (eff_return (skipped item preflight))
           else eff_bind (generate_answer sv item) (\<lambda>a.
             case a of
               Early result \<Rightarrow> eff_return result
             | Reply reply mrun \<Rightarrow>
                 if pl_output_mode cfg = Draft_Mode then store_draft sv item reply mrun
                 else queue_reply sv item reply mrun)))"

text \<open>The default of \<open>max_attempts\<close> in \<open>fail_inbox\<close>.\<close>

definition fail_item :: "services \<Rightarrow> inbox_item \<Rightarrow> string \<Rightarrow> bool \<Rightarrow> inbox_state eff" where
  "fail_item sv item error retryable =
     (\<lambda>w. eff_try (fail_inbox (sv_clock sv w) (ii_id item) (lit error) retryable 3) w)"

definition process_once :: "services \<Rightarrow> str option \<Rightarrow> pipeline_result eff" where
  "process_once sv channel =
     eff_bind (\<lambda>w. eff_db (claim_next_inbox (sv_clock sv w) channel) w) (\<lambda>claimed.
       case claimed of
         None \<Rightarrow> eff_return \<lparr>pr_status = Ps_Idle, pr_item_id = None, pr_detail = None\<rparr>
       | Some item \<Rightarrow>
           eff_catch (process_claimed sv item) (\<lambda>x.
             case x of
               PermanentPipelineError msg \<Rightarrow>
                 eff_bind (fail_item sv item msg False) (\<lambda>_. eff_return (outcome Ps_Dead (ii_id item) (lit msg)))
             | _ \<Rightarrow>
                 if x = cancelled then eff_raise x
                 else eff_bind (fail_item sv item (exn_name x) (\<not> is_conversation (ev_metadata (ii_event item)))) (\<lambda>next_state.
                   eff_return (outcome (if next_state = Ibx_Pending then Ps_Retry else Ps_Dead) (ii_id item) (lit (exn_name x))))))"

subsection \<open>Dispatch\<close>

text \<open>\<open>connector.deliver\<close>: handing the message over is recorded when the call starts; it answers with a receipt or
  raises, in whatever world other tasks have made meanwhile.\<close>

type_synonym connector = "outbound_message \<Rightarrow> delivery_receipt eff"

definition deliver_logged :: "connector \<Rightarrow> outbox_item \<Rightarrow> delivery_receipt eff" where
  "deliver_logged cn item = (\<lambda>w. cn (oi_message item) (w\<lparr>wd_sent := wd_sent w @ [(oi_id item, oi_message item)]\<rparr>))"

text \<open>\<open>str(metadata.get("reason_event_id", ""))\<close> for the texts the broker stores there.\<close>

definition reason_event_id :: "outbound_message \<Rightarrow> str option" where
  "reason_event_id m =
     (if dflag (om_metadata m) ''proactive''
      then Some (case dget (om_metadata m) ''reason_event_id'' of Some (JStr s) \<Rightarrow> s | _ \<Rightarrow> [])
      else om_reply_to_event_id m)"

definition dispatch_action :: "outbound_message \<Rightarrow> proposed_action" where
  "dispatch_action m =
     (let proactive = dflag (om_metadata m) ''proactive''
      in \<lparr>pa_kind = lit (if proactive then ''proactive_message'' else ''reply''), pa_channel = Some (om_channel m),
          pa_chat_id = Some (om_chat_id m), pa_bound_channel = Some (om_channel m), pa_bound_chat_id = Some (om_chat_id m),
          pa_reason_event_id = reason_event_id m, pa_proactive = proactive, pa_side_effect = True, pa_tool_name = None,
          pa_arguments = [(lit ''message_id'', JStr (om_message_id m))]\<rparr>)"

definition transient_rule :: "string \<Rightarrow> bool" where
  "transient_rule rule \<longleftrightarrow> prefix ''rate_'' rule \<or>
     rule \<in> {''runtime_paused'', ''quiet_hours'', ''proactive_cooldown'', ''proactive_chat_day'', ''proactive_global_day''}"

definition put_back :: "services \<Rightarrow> outbox_item \<Rightarrow> policy_evaluation \<Rightarrow> pipeline_result eff" where
  "put_back sv item ev =
     (if transient_rule (pe_rule_id ev)
      then eff_bind (\<lambda>w. eff_try (release_reserved (sv_clock sv w) (oi_id item) (lit (pe_reason ev))
               (case pe_retry_after ev of Some n \<Rightarrow> if n = 0 then 300 else n | None \<Rightarrow> 300)) w) (\<lambda>_.
             eff_return (outcome Ps_Deferred (oi_id item) (lit (pe_rule_id ev))))
      else eff_bind (\<lambda>w. eff_db (mark_reserved_dead (sv_clock sv w) (oi_id item) (lit (pe_reason ev))) w) (\<lambda>_.
             eff_return (outcome Ps_Dead (oi_id item) (lit (pe_rule_id ev)))))"

text \<open>Once the connector has been entered the outcome may be unknowable: quarantine.\<close>

definition quarantine :: "services \<Rightarrow> outbox_item \<Rightarrow> exn \<Rightarrow> pipeline_result eff" where
  "quarantine sv item x =
     (let m = oi_message item
      in eff_bind (\<lambda>w. eff_db (mark_outbox_unknown (sv_clock sv w) (oi_id item) (lit (exn_name x))) w) (\<lambda>_.
         eff_seq (\<lambda>w. eff_audit (audit_row ''outbox.deliver'' (outbox_state_value Obx_Unknown) (om_channel m) (Some (om_chat_id m))
             (om_reply_to_event_id m) (Some (om_message_id m)) [(lit ''error_type'', JStr (lit (exn_name x)))] (sv_clock sv w)) w)
           (eff_return (outcome Ps_Unknown (oi_id item) (lit (exn_name x))))))"

text \<open>\<open>_maintain_confirmed_memory\<close>: the acknowledgement is durable, so nothing here may raise.\<close>

definition usage_of :: "outbound_message \<Rightarrow> model_run result" where
  "usage_of m =
     (case dget (om_metadata m) ''memory_usage'' of
        Some (JObj d) \<Rightarrow>
          (case (dget d ''turns'', dget d ''input'', dget d ''output'') of
             (Some (JInt t), Some (JInt i), Some (JInt o1)) \<Rightarrow>
               Inr \<lparr>mu_reply = om_text m, mu_turns_used = nat t, mu_input_tokens = i, mu_output_tokens = o1\<rparr>
           | _ \<Rightarrow> Inl KeyError)
      | _ \<Rightarrow> Inl KeyError)"

definition confirmed_upkeep :: "services \<Rightarrow> outbound_message \<Rightarrow> inbound_event \<Rightarrow> unit eff" where
  "confirmed_upkeep sv m e =
     (let item = \<lparr>ii_id = 0, ii_event = e, ii_state = Ibx_Completed, ii_attempts = 1, ii_claimed_at = None\<rparr>
      in eff_bind (eff_read (\<lambda>w. memory_scope e)) (\<lambda>scope.
         eff_bind (eff_read (\<lambda>w. recent_messages (ev_channel e) (ev_chat_id e) (pl_recent_messages (sv_config sv))
           (Some (ev_event_id e)) (Some scope) True (wd_db w))) (\<lambda>recent.
         eff_bind (prepare_context sv item recent) (\<lambda>prepared.
         eff_bind (eff_read (\<lambda>w. usage_of m)) (\<lambda>u.
           maintain_memory_best_effort sv item prepared (om_text m) (om_message_id m) u)))))"

definition maintain_confirmed_memory :: "services \<Rightarrow> outbound_message \<Rightarrow> unit eff" where
  "maintain_confirmed_memory sv m =
     eff_catch (\<lambda>w.
       case stored_inbound_event (om_channel m) (om_chat_id m) (case om_reply_to_event_id m of None \<Rightarrow> [] | Some x \<Rightarrow> x) (wd_db w) of
         None \<Rightarrow> eff_return () w
       | Some e \<Rightarrow>
           if \<not> is_conversation (ev_metadata e) \<or> is_paused (Some (ev_channel e)) (wd_db w) \<or>
              (case sv_event_eligible sv of None \<Rightarrow> False | Some f \<Rightarrow> \<not> f e)
           then eff_return () w
           else confirmed_upkeep sv m e w)
      (\<lambda>x. if x = cancelled then eff_raise x
           else (\<lambda>w. eff_audit (audit_row ''memory.derive'' ''ignored_failure'' (om_channel m) (Some (om_chat_id m))
             (om_reply_to_event_id m) None [(lit ''error_type'', JStr (lit (exn_name x)))] (sv_clock sv w)) w))"

definition settle_delivery :: "services \<Rightarrow> outbox_item \<Rightarrow> outbox_state \<Rightarrow> pipeline_result eff" where
  "settle_delivery sv item st =
     (let finished = eff_return (outcome (if st = Obx_Acknowledged then Ps_Acknowledged
            else if st = Obx_Unknown then Ps_Unknown else Ps_Dead) (oi_id item) (lit (outbox_state_value st)))
      in if st = Obx_Acknowledged \<and> sv_derive sv \<noteq> None \<and> dget (om_metadata (oi_message item)) ''memory_usage'' \<noteq> None
         then eff_seq (maintain_confirmed_memory sv (oi_message item)) finished else finished)"

definition deliver_and_record :: "services \<Rightarrow> connector \<Rightarrow> outbox_item \<Rightarrow> outbox_state eff" where
  "deliver_and_record sv cn item =
     eff_bind (deliver_logged cn item) (\<lambda>receipt.
       (\<lambda>w. eff_try (apply_receipt (sv_clock sv w) (oi_id item) receipt) w))"

definition dispatch_reserved :: "services \<Rightarrow> connector \<Rightarrow> outbox_item \<Rightarrow> pipeline_result eff" where
  "dispatch_reserved sv cn item =
     eff_bind (policy_evaluate sv (dispatch_action (oi_message item))) (\<lambda>ev.
       if pe_decision ev \<noteq> Auto then put_back sv item ev
       else eff_bind (\<lambda>w. eff_db (mark_dispatching (sv_clock sv w) (oi_id item)) w) (\<lambda>marked.
         if \<not> marked then eff_return (outcome Ps_Unknown (oi_id item) (lit ''outbox state changed before dispatch''))
         else (\<lambda>w. case deliver_and_record sv cn item w of
                (Inr st, w1) \<Rightarrow> settle_delivery sv item st w1
              | (Inl x, w1) \<Rightarrow> if x = cancelled then (Inl x, w1) else quarantine sv item x w1)))"

definition dispatch_once :: "services \<Rightarrow> connector \<Rightarrow> str \<Rightarrow> pipeline_result eff" where
  "dispatch_once sv cn channel =
     eff_bind (\<lambda>w. eff_db (reserve_next_outbox (sv_clock sv w) (Some channel)) w) (\<lambda>reserved.
       case reserved of
         None \<Rightarrow> eff_return \<lparr>pr_status = Ps_Idle, pr_item_id = None, pr_detail = None\<rparr>
       | Some item \<Rightarrow> dispatch_reserved sv cn item)"

end
