(* ===== verification/Pipeline_Safety.thy ===== *)
theory Pipeline_Safety
  imports Pipeline
begin

text \<open>
  The broker as a whole: every pipeline operation is a sequence of atomic steps (\<open>world_step\<close>), so the invariants
  of the tables carry over to what the outside world sees. A guarantee that holds of the atomic steps holds of every
  operation (locale \<open>pipeline_guarantee\<close>).
\<close>

subsection \<open>What the outside world has seen, against the database\<close>

text \<open>A message that was handed over is a stored one, and its row cannot be dispatched again; an invoked tool has a
  journal row that cannot be opened again.\<close>

definition delivered_row :: "db \<Rightarrow> nat \<times> outbound_message \<Rightarrow> bool" where
  "delivered_row s x \<longleftrightarrow> (\<exists>r. get_row ob_id (fst x) (outbox s) = Some r \<and> oi_message (outbox_item_of r) = snd x \<and>
     ob_state r \<notin> {Obx_Pending, Obx_Reserved})"

definition invoked_row :: "db \<Rightarrow> uuid \<times> str \<times> dict \<Rightarrow> bool" where
  "invoked_row s x \<longleftrightarrow> (\<exists>r. get_row tx_execution_id (fst x) (tool_executions s) = Some r \<and> tx_state r \<noteq> Tx_Requested)"

definition world_inv :: "world \<Rightarrow> bool" where
  "world_inv w \<longleftrightarrow> repo_inv (wd_db w) \<and>
     distinct (map fst (wd_sent w)) \<and> (\<forall>x \<in> set (wd_sent w). delivered_row (wd_db w) x) \<and>
     distinct (map fst (wd_invoked w)) \<and> (\<forall>x \<in> set (wd_invoked w). invoked_row (wd_db w) x)"

definition keeps_inv :: "world \<Rightarrow> world \<Rightarrow> bool" where
  "keeps_inv w w' \<longleftrightarrow> (world_inv w \<longrightarrow> world_inv w')"

lemma delivered_row_cong: "outbox t = outbox s \<Longrightarrow> delivered_row t x = delivered_row s x"
  by (simp add: delivered_row_def)

lemma invoked_row_cong: "tool_executions t = tool_executions s \<Longrightarrow> invoked_row t x = invoked_row s x"
  by (simp add: invoked_row_def)

lemma outbox_step_delivered:
  assumes "outbox_step s l t" and "outbox_inv s" and "delivered_row s x"
  shows "delivered_row t x"
proof -
  obtain r where r: "get_row ob_id (fst x) (outbox s) = Some r" "oi_message (outbox_item_of r) = snd x"
    "ob_state r \<notin> {Obx_Pending, Obx_Reserved}" using assms(3) by (auto simp: delivered_row_def)
  have "run outbox_step s [l] t" using assms(1) by simp
  from outbox_row_kept [OF this assms(2) r(1)] obtain q
    where q: "get_row ob_id (fst x) (outbox t) = Some q" "outbox_fixed r q" by blast
  have "outbox_status s (fst x) = Some (ob_state r)" by (simp add: outbox_status_def r(1))
  from outbox_step_edge [OF assms(1,2) this] q(1) have "ob_state q = ob_state r \<or> outbox_edge (ob_state r) (ob_state q)"
    by (auto simp: outbox_status_def)
  then have "ob_state q \<notin> {Obx_Pending, Obx_Reserved}" using r(3) by (auto elim: outbox_edge.cases)
  moreover have "oi_message (outbox_item_of q) = snd x"
    using r(2) q(2) by (simp add: outbox_item_of_def outbox_fixed_def)
  ultimately show ?thesis using q(1) by (auto simp: delivered_row_def)
qed

lemma tool_step_invoked:
  assumes "tool_step s l t" and "tool_inv s" and "invoked_row s x"
  shows "invoked_row t x"
proof -
  obtain r where r: "get_row tx_execution_id (fst x) (tool_executions s) = Some r" "tx_state r \<noteq> Tx_Requested"
    using assms(3) by (auto simp: invoked_row_def)
  from tool_step_row [OF assms(1,2) r(1)] obtain q where
    q: "get_row tx_execution_id (fst x) (tool_executions t) = Some q" "tx_state q = tx_state r \<or> tool_edge (tx_state r) (tx_state q)"
    by blast
  then have "tx_state q \<noteq> Tx_Requested" using r(2) by (auto elim: tool_edge.cases)
  with q(1) show ?thesis by (auto simp: invoked_row_def)
qed

lemma repo_step_frame:
  assumes "repo_step s t"
  shows "(\<exists>l. outbox_step s l t) \<or> (\<exists>l. tool_step s l t) \<or> (\<exists>now d. t = snd (recover_interrupted now d s)) \<or>
    outbox t = outbox s \<and> tool_executions t = tool_executions s"
  using assms
proof (cases rule: repo_step.cases)
  case on_inbox
  then show ?thesis using inbox_step_frame by blast
next
  case (drafting now m row)
  then have "outbox t = outbox s \<and> tool_executions t = tool_executions s"
    by (auto simp: create_draft_def split: option.splits if_splits)
  then show ?thesis by blast
next
  case (remembering now k v u)
  then have "outbox t = outbox s \<and> tool_executions t = tool_executions s"
    by (auto simp: set_runtime_state_def split: if_splits)
  then show ?thesis by blast
next
  case (forgetting p n)
  then have "outbox t = outbox s \<and> tool_executions t = tool_executions s"
    by (auto simp: clear_runtime_state_prefix_def split: if_splits)
  then show ?thesis by blast
next
  case (configuring now ch chats label counts)
  then have "outbox t = outbox s \<and> tool_executions t = tool_executions s"
    by (auto simp: reconcile_allowlist_def split: if_splits)
  then show ?thesis by blast
qed (auto simp: set_paused_def set_allowlisted_def)

lemma repo_step_rows:
  assumes "repo_step s t" and "repo_inv s"
  shows repo_step_delivered: "delivered_row s x \<Longrightarrow> delivered_row t x"
    and repo_step_invoked: "invoked_row s y \<Longrightarrow> invoked_row t y"
proof -
  have inv: "outbox_inv s" "tool_inv s" using assms(2) by (simp_all add: repo_inv_def)
  have "(delivered_row s x \<longrightarrow> delivered_row t x) \<and> (invoked_row s y \<longrightarrow> invoked_row t y)"
    using repo_step_frame [OF assms(1)]
  proof (elim disjE exE)
    fix l assume st: "outbox_step s l t"
    then have "tool_executions t = tool_executions s" using outbox_step_frame by blast
    then show ?thesis using outbox_step_delivered [OF st inv(1)] by (simp add: invoked_row_cong [of t s])
  next
    fix l assume st: "tool_step s l t"
    then have "outbox t = outbox s" using tool_step_frame by blast
    then show ?thesis using tool_step_invoked [OF st inv(2)] by (simp add: delivered_row_cong [of t s])
  next
    fix now d assume t: "t = snd (recover_interrupted now d s)"
    note eqs = recover_interrupted_tables [of now d s, folded t]
    show ?thesis
      using outbox_step_delivered [OF outbox_step.recovering inv(1), of x now "now - d"]
        tool_step_invoked [OF tool_step.recovering inv(2), of y now]
      by (simp add: delivered_row_cong [OF eqs(2)] invoked_row_cong [OF eqs(3)])
  next
    assume "outbox t = outbox s \<and> tool_executions t = tool_executions s"
    then show ?thesis by (simp add: delivered_row_cong [of t s] invoked_row_cong [of t s])
  qed
  then show "delivered_row s x \<Longrightarrow> delivered_row t x" "invoked_row s y \<Longrightarrow> invoked_row t y" by blast+
qed

lemma repo_step_keeps:
  assumes "repo_step (wd_db w) t"
  shows "keeps_inv w (w\<lparr>wd_db := t\<rparr>)"
  unfolding keeps_inv_def
proof
  assume w: "world_inv w"
  then have inv: "repo_inv (wd_db w)" by (simp add: world_inv_def)
  note d = repo_step_delivered [OF assms inv] and i = repo_step_invoked [OF assms inv] and r = repo_step_inv [OF assms inv]
  show "world_inv (w\<lparr>wd_db := t\<rparr>)"
    using w r by (simp add: world_inv_def) (blast intro: d i)
qed

lemma frame_keeps:
  assumes "inbox t = inbox (wd_db w) \<and> outbox t = outbox (wd_db w) \<and> tool_executions t = tool_executions (wd_db w) \<and>
    runtime_state t = runtime_state (wd_db w)"
  shows "keeps_inv w (w\<lparr>wd_db := t\<rparr>)"
proof -
  have "repo_inv t" if "repo_inv (wd_db w)" by (rule repo_inv_same [OF that assms])
  moreover have "delivered_row t x = delivered_row (wd_db w) x" "invoked_row t y = invoked_row (wd_db w) y" for x y
    using assms by (simp_all add: delivered_row_cong [of t "wd_db w"] invoked_row_cong [of t "wd_db w"])
  ultimately show ?thesis by (simp add: keeps_inv_def world_inv_def)
qed

definition same_queues :: "db \<Rightarrow> db \<Rightarrow> bool" where
  "same_queues s t \<longleftrightarrow> inbox t = inbox s \<and> outbox t = outbox s \<and> tool_executions t = tool_executions s \<and>
     runtime_state t = runtime_state s"

lemma settle_rows_same: "same_queues s (snd (settle_rows P f action result s))"
proof -
  have "same_queues u (fold (\<lambda>r. append_audit (g r)) rs u)" for g rs u
    by (induction rs arbitrary: u) (simp_all add: same_queues_def)
  from this [of "s\<lparr>approvals := update_where P f (approvals s)\<rparr>"] show ?thesis
    by (simp add: settle_rows_def same_queues_def Let_def)
qed

lemma expire_same [simp]:
  "inbox (snd (expire_pending p now s)) = inbox s" "outbox (snd (expire_pending p now s)) = outbox s"
  "tool_executions (snd (expire_pending p now s)) = tool_executions s"
  "runtime_state (snd (expire_pending p now s)) = runtime_state s"
  using settle_rows_same by (simp_all add: expire_pending_def same_queues_def)

lemma claim_same: "claim sha flt tok i p now s = Inr (c, t) \<Longrightarrow> same_queues s t"
  by (auto simp: claim_def same_queues_def Let_def bind_result_Inr_iff split: if_splits option.splits)

lemma deny_same: "deny_approval i p now code s = Inr (b, t) \<Longrightarrow> same_queues s t"
  by (auto simp: deny_approval_def same_queues_def Let_def split: if_splits option.splits)

lemma resolve_same: "resolve_approval i p tok outc code now s = Inr (b, t) \<Longrightarrow> same_queues s t"
  by (auto simp: resolve_approval_def same_queues_def Let_def split: if_splits option.splits)

lemma request_same: "request_approval sha flt aid now sv ch chat e tool kind args until s = Inr (item, t) \<Longrightarrow> same_queues s t"
  by (auto simp: request_approval_def create_approval_def same_queues_def bind_result_Inr_iff
      split: if_splits option.splits)

lemma approval_step_same:
  assumes "approval_step s l t"
  shows "same_queues s t"
  using assms
proof (cases rule: approval_step.cases)
  case (listing now sv ch chat limit items)
  then show ?thesis by (auto simp: pending_approvals_def list_pending_def same_queues_def Let_def split: if_splits)
qed (auto simp: approve_once_def service_deny_def service_resolve_def service_recover_def recover_executing_def
    settle_rows_same intro: request_same claim_same deny_same resolve_same split: if_splits)

subsection \<open>Carrying a guarantee through the pipeline\<close>

text \<open>The transactions of the repository and of the approval service as one relation, and what lies outside: the
  model, the tools and memory derivation may do anything that respects the guarantee.\<close>

inductive broker_step :: "db \<Rightarrow> db \<Rightarrow> bool" where
  repository: "repo_step s t \<Longrightarrow> broker_step s t"
| approval: "approval_step s l t \<Longrightarrow> broker_step s t"

definition environment :: "(world \<Rightarrow> world \<Rightarrow> bool) \<Rightarrow> services \<Rightarrow> bool" where
  "environment G sv \<longleftrightarrow> (\<forall>rq. guaranteed G (bk_generate (sv_model sv) rq)) \<and>
     (\<forall>x \<in> set (sv_tools sv). \<forall>ctx args w. G w (snd (tl_invoke (snd x) ctx args w))) \<and>
     (\<forall>d ts b i out. sv_derive sv = Some d \<longrightarrow> guaranteed G (d ts b i out))"

lemma reserved_item:
  assumes "reserve_next_outbox now ch s = (Some item, t)"
  shows "\<exists>r. get_row ob_id (oi_id item) (outbox t) = Some r \<and> item = outbox_item_of r"
proof -
  obtain c where c: "reserve_candidate now ch (outbox s) = Some c"
    using assms by (cases "reserve_candidate now ch (outbox s)") (simp_all add: reserve_next_outbox_def)
  with assms obtain r where r: "get_row ob_id (ob_id c) (outbox t) = Some r" "item = outbox_item_of r"
    by (auto simp: reserve_next_outbox_def Let_def split: if_splits)
  moreover have "ob_id r = ob_id c" using get_row_in [OF r(1)] by simp
  ultimately show ?thesis by (auto simp: outbox_item_of_def)
qed

locale pipeline_guarantee = guarantee +
  assumes broker: "broker_step (wd_db w) t \<Longrightarrow> G w (w\<lparr>wd_db := t\<rparr>)"
    and asking: "G w (w\<lparr>wd_requests := rs\<rparr>)"
    and invoking: "get_row tx_execution_id eid (tool_executions (wd_db w)) = Some r \<Longrightarrow>
      mark_tool_executing now eid (wd_db w) = (True, t) \<Longrightarrow>
      G w (w\<lparr>wd_db := t, wd_invoked := wd_invoked w @ [(eid, tool, args)]\<rparr>)"
    and delivering: "get_row ob_id i (outbox (wd_db w)) = Some row \<Longrightarrow> mark_dispatching now i (wd_db w) = (True, t) \<Longrightarrow>
      G w (w\<lparr>wd_db := t, wd_sent := wd_sent w @ [(i, oi_message (outbox_item_of row))]\<rparr>)"
begin

lemma kept_db:
  assumes "\<And>w a t. f w (wd_db w) = (a, t) \<Longrightarrow> broker_step (wd_db w) t"
  shows "guaranteed G (\<lambda>w. eff_db (f w) w)"
  using assms broker by (simp add: guaranteed_def eff_db_def split: prod.split)

lemma kept_try:
  assumes "\<And>w a t. f w (wd_db w) = Inr (a, t) \<Longrightarrow> broker_step (wd_db w) t"
  shows "guaranteed G (\<lambda>w. eff_try (f w) w)"
  using assms broker by (auto simp: guaranteed_def eff_try_def refl split: sum.split)

lemma kept_read: "guaranteed G (\<lambda>w. eff_read (f w) w)"
  by (simp add: guaranteed_def eff_read_def refl)

lemma kept_catch:
  assumes "\<And>w. guaranteed G (m w)" and "\<And>w e. guaranteed G (h w e)"
  shows "guaranteed G (\<lambda>w. eff_catch (m w) (h w) w)"
  using guaranteed_catch [OF assms] by (simp add: guaranteed_def)

lemma kept_policy: "guaranteed G (policy_evaluate sv a)"
  unfolding policy_evaluate_def
  by (rule kept_try) (metis evaluate_frame broker_step.repository repo_step.auditing)

lemma kept_audit: "guaranteed G (\<lambda>w. eff_audit (f w) w)"
  unfolding eff_audit_def by (rule kept_db) (auto intro: broker_step.repository repo_step.auditing)

lemma kept_resolve: "guaranteed G (resolve_tool sv eid st code summary)"
  unfolding resolve_tool_def
  by (rule kept_try) (blast intro: broker_step.repository repo_step.on_tools tool_step.resolving)

lemma kept_refuse: "guaranteed G (refuse sv eid st code summary result)"
  unfolding refuse_def by (intro guaranteed_rules kept_resolve)

lemma kept_finish: "guaranteed G (finish_invocation sv mf eid r)"
  unfolding finish_invocation_def
  by (auto split: invocation.split intro!: guaranteed_rules kept_resolve)

lemma kept_begin:
  "guaranteed G (\<lambda>w. eff_try (begin_tool_execution (sv_sha256 sv) (sv_float sv) (sv_fresh sv w) (sv_clock sv w) q) w)"
  by (rule kept_try) (metis broker_step.repository repo_step.on_tools tool_step.begun)

text \<open>Marking the call and invoking the tool are one step towards the guarantee.\<close>

lemma kept_invocation:
  assumes env: "environment G sv" and tool: "(name, tool) \<in> set (sv_tools sv)"
  shows "guaranteed G (eff_bind (\<lambda>w. eff_db (mark_tool_executing (sv_clock sv w) eid) w) (\<lambda>marked.
    if \<not> marked then eff_raise e else eff_bind (invoke_logged tool eid ctx args) (finish_invocation sv mf eid)))"
  (is "guaranteed G ?m")
  unfolding guaranteed_def
proof
  fix w
  obtain b t where mk: "mark_tool_executing (sv_clock sv w) eid (wd_db w) = (b, t)" by force
  show "G w (snd (?m w))"
  proof (cases b)
    case False
    with mk have "tool_step (wd_db w) None t" by (auto intro: tool_step.open_refused)
    then have "broker_step (wd_db w) t" by (intro broker_step.repository repo_step.on_tools)
    with False mk show ?thesis by (simp add: eff_bind_def eff_db_def eff_raise_def broker)
  next
    case True
    with mk obtain r where r: "get_row tx_execution_id eid (tool_executions (wd_db w)) = Some r"
      by (cases "get_row tx_execution_id eid (tool_executions (wd_db w))")
        (auto simp: mark_tool_executing_def count_where_def get_row_def find_None_iff filter_empty_conv dest: arg_cong [of _ _ length])
    let ?w1 = "w\<lparr>wd_db := t, wd_invoked := wd_invoked w @ [(eid, tm_name (tl_manifest tool), args)]\<rparr>"
    have step: "G w ?w1" using True mk by (intro invoking [OF r]) simp
    obtain v w2 where v: "tl_invoke tool ctx args ?w1 = (v, w2)" by force
    have "G ?w1 w2" using env tool v unfolding environment_def by (metis snd_conv)
    moreover have "G w2 (snd (finish_invocation sv mf eid v w2))" using kept_finish by (simp add: guaranteed_def)
    ultimately show ?thesis
      using True mk v step by (auto simp: eff_bind_def eff_db_def invoke_logged_def intro: trans)
  qed
qed

lemma kept_commit_tool:
  assumes "environment G sv" and "(name, tool) \<in> set (sv_tools sv)"
  shows "guaranteed G (commit_tool sv item tool eid dc args)"
  using kept_invocation [OF assms] unfolding commit_tool_def Let_def
  by (auto intro!: guaranteed_bind kept_policy kept_refuse)

lemma kept_approval_request: "guaranteed G (request_one_time_approval sv item mf eid args)"
  unfolding request_one_time_approval_def Let_def
  by (auto split: option.split intro!: guaranteed_bind kept_refuse kept_try intro: broker_step.approval approval_step.requesting)

lemma kept_run_enrolled:
  assumes "environment G sv" and "(name, tool) \<in> set (sv_tools sv)"
  shows "guaranteed G (run_enrolled_tool sv item tool eid args)"
  using kept_commit_tool [OF assms] unfolding run_enrolled_tool_def Let_def
  by (auto split: option.split intro!: guaranteed_bind kept_policy kept_refuse kept_approval_request)

lemma kept_invoke_tool: "environment G sv \<Longrightarrow> guaranteed G (invoke_tool sv item call_id name args)"
  unfolding invoke_tool_def find_tool_def
  by (auto split: option.split intro!: guaranteed_rules kept_begin kept_refuse)
    (blast intro: kept_run_enrolled map_of_SomeD)

lemma kept_call_tools: "environment G sv \<Longrightarrow> guaranteed G (call_tools sv item cs n history)"
  by (induction cs arbitrary: n history) (auto simp: permanent_def Let_def intro!: guaranteed_rules kept_invoke_tool)

lemma kept_generate:
  assumes env: "environment G sv"
  shows "guaranteed G (generate_logged sv item rq)"
proof -
  have "G w (snd (bk_generate (sv_model sv) rq (w\<lparr>wd_requests := rs\<rparr>)))" for w rs
    using env asking [of w rs] unfolding environment_def guaranteed_def by (blast intro: trans)
  then have "guaranteed G (\<lambda>w. bk_generate (sv_model sv) rq (w\<lparr>wd_requests := wd_requests w @ [(ii_id item, rq)]\<rparr>))"
    by (simp add: guaranteed_def)
  then show ?thesis unfolding generate_logged_def by (intro guaranteed_rules)
qed

lemma kept_mark_started: "guaranteed G (\<lambda>w. eff_db (mark_inbox_model_started (sv_clock sv w) i) w)"
  by (rule kept_db) (metis broker_step.repository repo_step.on_inbox inbox_step.mark snd_conv)

lemma kept_model_turn: "environment G sv \<Longrightarrow> guaranteed G (model_turn sv item u history)"
  unfolding model_turn_def Let_def permanent_def
  by (intro guaranteed_rules) (auto intro!: guaranteed_rules kept_mark_started kept_generate)

lemma kept_model_loop: "environment G sv \<Longrightarrow> guaranteed G (model_loop sv item n k u history)"
  by (induction n arbitrary: k u history)
    (auto simp: permanent_def Let_def split: option.split intro!: guaranteed_rules kept_model_turn kept_call_tools)

lemma kept_maintain:
  assumes env: "environment G sv"
  shows "guaranteed G (maintain_memory_best_effort sv item prepared reply mid r)"
proof (cases "sv_derive sv")
  case None
  then show ?thesis by (simp add: maintain_memory_best_effort_def Let_def guaranteed_return)
next
  case (Some d)
  then have "guaranteed G (d ts b i out)" for ts b i out using env unfolding environment_def by blast
  then show ?thesis
    unfolding maintain_memory_best_effort_def Let_def Some option.case
    by (auto simp: audit_memory_event_def intro!: guaranteed_rules kept_catch kept_audit)
qed

lemma kept_prepare: "guaranteed G (prepare_context sv item recent)"
  unfolding prepare_context_def Let_def permanent_def audit_memory_event_def
  by (intro guaranteed_rules) (auto split: option.split intro!: guaranteed_rules kept_audit)

lemma kept_complete: "guaranteed G (complete sv item)"
  unfolding complete_def
  by (rule kept_db) (metis broker_step.repository repo_step.on_inbox inbox_step.complete snd_conv)

lemma kept_generate_answer: "environment G sv \<Longrightarrow> guaranteed G (generate_answer sv item)"
  unfolding generate_answer_def Let_def permanent_def run_model_and_tools_def pipeline_audit_def
  by (auto split: option.split
      intro!: guaranteed_rules kept_complete kept_audit kept_prepare kept_model_loop)

lemma kept_upkeep: "environment G sv \<Longrightarrow> guaranteed G (upkeep sv item reply r)"
  by (auto simp: upkeep_def split: option.split intro!: guaranteed_return kept_maintain)

lemma kept_store_draft: "environment G sv \<Longrightarrow> guaranteed G (store_draft sv item reply r)"
  unfolding store_draft_def Let_def pipeline_audit_def
  by (intro guaranteed_rules kept_read kept_upkeep kept_complete kept_audit kept_try)
    (blast intro: broker_step.repository repo_step.drafting)

lemma kept_commit_reply: "guaranteed G (commit_reply sv item reply r)"
proof -
  have "guaranteed G (\<lambda>w. eff_try (create_outbox (sv_clock sv w) m) w)" for m
    by (rule kept_try) (blast intro: broker_step.repository repo_step.on_outbox outbox_step.created)
  then show ?thesis
    unfolding commit_reply_def Let_def
    by (auto intro!: guaranteed_rules kept_policy kept_complete kept_read)
qed

lemma kept_queue_reply: "environment G sv \<Longrightarrow> guaranteed G (queue_reply sv item reply r)"
  unfolding queue_reply_def Let_def pipeline_audit_def
  by (auto split: sum.split intro!: guaranteed_rules kept_commit_reply kept_upkeep kept_complete kept_audit)

lemma kept_process_claimed: "environment G sv \<Longrightarrow> guaranteed G (process_claimed sv item)"
  unfolding process_claimed_def Let_def pipeline_audit_def
  by (auto split: answer.split intro!: guaranteed_rules kept_complete kept_audit kept_policy kept_generate_answer
      kept_store_draft kept_queue_reply)

lemma kept_fail_item: "guaranteed G (fail_item sv item err retry)"
  unfolding fail_item_def
  by (rule kept_try) (blast intro: broker_step.repository repo_step.on_inbox inbox_step.fail)

lemma kept_process_once:
  assumes env: "environment G sv"
  shows "guaranteed G (process_once sv ch)"
proof -
  have "guaranteed G (\<lambda>w. eff_db (claim_next_inbox (sv_clock sv w) ch) w)"
    by (rule kept_db) (metis broker_step.repository repo_step.on_inbox inbox_step.claim_next snd_conv)
  then show ?thesis
    unfolding process_once_def
    by (auto split: option.split exn.split intro!: guaranteed_rules kept_process_claimed [OF env] kept_fail_item)
qed

lemma kept_ingest: "guaranteed G (ingest sv e)"
  unfolding ingest_def
  by (intro guaranteed_rules kept_db) (metis broker_step.repository repo_step.on_inbox inbox_step.recorded snd_conv)

lemma kept_put_back: "guaranteed G (put_back sv item ev)"
proof -
  have "guaranteed G (\<lambda>w. eff_try (release_reserved (sv_clock sv w) i d n) w)" for i d n
    by (rule kept_try) (blast intro: broker_step.repository repo_step.on_outbox outbox_step.releasing)
  moreover have "guaranteed G (\<lambda>w. eff_db (mark_reserved_dead (sv_clock sv w) i d) w)" for i d
    by (rule kept_db) (metis broker_step.repository repo_step.on_outbox outbox_step.stopping snd_conv)
  ultimately show ?thesis by (auto simp: put_back_def intro!: guaranteed_rules)
qed

lemma kept_quarantine: "guaranteed G (quarantine sv item x)"
  unfolding quarantine_def Let_def
  by (intro guaranteed_rules kept_audit kept_db)
    (metis broker_step.repository repo_step.on_outbox outbox_step.quarantining snd_conv)

lemma kept_confirmed:
  assumes env: "environment G sv"
  shows "guaranteed G (maintain_confirmed_memory sv m)"
proof -
  have c: "guaranteed G (confirmed_upkeep sv m e)" for e
    unfolding confirmed_upkeep_def Let_def by (intro guaranteed_rules kept_prepare kept_maintain [OF env])
  have "G w (snd (confirmed_upkeep sv m e w))" "G w (snd (eff_audit a w))" for w e a
    using c kept_audit [of "\<lambda>_. a"] by (simp_all add: guaranteed_def)
  then show ?thesis
    unfolding maintain_confirmed_memory_def
    by (intro guaranteed_catch) (simp_all add: guaranteed_def eff_return_def eff_raise_def refl split: option.split)
qed

lemma kept_settle: "environment G sv \<Longrightarrow> guaranteed G (settle_delivery sv item st)"
  unfolding settle_delivery_def Let_def by (auto intro!: guaranteed_rules kept_confirmed)

lemma kept_reserve: "guaranteed G (\<lambda>w. eff_db (reserve_next_outbox (sv_clock sv w) ch) w)"
  by (rule kept_db) (metis broker_step.repository repo_step.on_outbox outbox_step.reserving snd_conv)

lemma kept_receipt: "guaranteed G (\<lambda>w. eff_try (apply_receipt (sv_clock sv w) i rc) w)"
  by (rule kept_try) (blast intro: broker_step.repository repo_step.on_outbox outbox_step.receipt)

lemma kept_dispatch_reserved:
  assumes env: "environment G sv" and cn: "\<And>m. guaranteed G (cn m)"
    and row: "get_row ob_id (oi_id item) (outbox (wd_db w)) = Some r" and item: "item = outbox_item_of r"
  shows "G w (snd (dispatch_reserved sv cn item w))"
proof -
  obtain v w1 where ev: "policy_evaluate sv (dispatch_action (oi_message item)) w = (v, w1)" by force
  have g1: "G w w1" using guaranteedD [OF kept_policy ev] .
  show ?thesis
  proof (cases v)
    case (Inl e)
    with ev g1 show ?thesis by (simp add: dispatch_reserved_def eff_bind_def)
  next
    case (Inr d)
    have w1: "outbox (wd_db w1) = outbox (wd_db w)" "wd_sent w1 = wd_sent w"
      using ev Inr by (auto simp: policy_evaluate_def eff_try_def dest: evaluate_frame split: sum.splits)
    obtain b t where mk: "mark_dispatching (sv_clock sv w1) (oi_id item) (wd_db w1) = (b, t)" by force
    consider "pe_decision d \<noteq> Auto" | "pe_decision d = Auto" "\<not> b" | "pe_decision d = Auto" b by blast
    then show ?thesis
    proof cases
      case 1
      have "G w1 (snd (put_back sv item d w1))" using kept_put_back by (simp add: guaranteed_def)
      with 1 ev Inr g1 show ?thesis by (auto simp: dispatch_reserved_def eff_bind_def intro: trans)
    next
      case 2
      then have "outbox_step (wd_db w1) None t" using mk by (auto intro: outbox_step.refused)
      then have "G w1 (w1\<lparr>wd_db := t\<rparr>)" by (intro broker broker_step.repository repo_step.on_outbox)
      with 2 ev Inr g1 mk show ?thesis
        by (auto simp: dispatch_reserved_def eff_bind_def eff_db_def eff_return_def intro: trans)
    next
      case 3
      let ?w2 = "w1\<lparr>wd_db := t, wd_sent := wd_sent w1 @ [(oi_id item, oi_message item)]\<rparr>"
      have "G w1 ?w2" using 3 mk row w1(1) item by (auto intro!: delivering)
      then have g2: "G w ?w2" using g1 trans by blast
      obtain x w3 where dl: "deliver_and_record sv cn item (w1\<lparr>wd_db := t\<rparr>) = (x, w3)" by force
      have g3: "G ?w2 w3"
      proof -
        obtain y w4 where y: "cn (oi_message item) ?w2 = (y, w4)" by force
        have "G ?w2 w4" using guaranteedD [OF cn y] .
        moreover have "G w4 w3" if "eff_try (apply_receipt (sv_clock sv w4) (oi_id item) rc) w4 = (x, w3)" for rc
          using that guaranteedD [OF kept_receipt [of sv "oi_id item" rc], of w4] by simp
        ultimately show ?thesis
          using dl y by (cases y) (auto simp: deliver_and_record_def deliver_logged_def eff_bind_def intro: trans)
      qed
      have "G w3 (snd (settle_delivery sv item st w3))" "G w3 (snd (quarantine sv item e w3))" for st e
        using kept_settle [OF env] kept_quarantine by (simp_all add: guaranteed_def)
      with 3 ev Inr mk dl g2 g3 show ?thesis
        by (cases x) (auto simp: dispatch_reserved_def eff_bind_def eff_db_def intro: trans)
    qed
  qed
qed

lemma kept_dispatch_once:
  assumes "environment G sv" and "\<And>m. guaranteed G (cn m)"
  shows "guaranteed G (dispatch_once sv cn ch)"
  unfolding guaranteed_def
proof
  fix w
  obtain o1 t where rs: "reserve_next_outbox (sv_clock sv w) (Some ch) (wd_db w) = (o1, t)" by force
  have g: "G w (w\<lparr>wd_db := t\<rparr>)" using rs guaranteedD [OF kept_reserve [of sv "Some ch"], of w] by (simp add: eff_db_def)
  show "G w (snd (dispatch_once sv cn ch w))"
  proof (cases o1)
    case None
    with rs g show ?thesis by (simp add: dispatch_once_def eff_bind_def eff_db_def eff_return_def)
  next
    case (Some item)
    with rs obtain r where "get_row ob_id (oi_id item) (outbox t) = Some r" "item = outbox_item_of r"
      by (blast dest: reserved_item)
    then have "G (w\<lparr>wd_db := t\<rparr>) (snd (dispatch_reserved sv cn item (w\<lparr>wd_db := t\<rparr>)))"
      by (intro kept_dispatch_reserved [OF assms]) simp_all
    with Some rs g show ?thesis by (auto simp: dispatch_once_def eff_bind_def eff_db_def intro: trans)
  qed
qed

end

subsection \<open>Nothing happens twice outside\<close>

lemma broker_step_keeps: "broker_step (wd_db w) t \<Longrightarrow> keeps_inv w (w\<lparr>wd_db := t\<rparr>)"
  by (cases rule: broker_step.cases)
    (auto intro: repo_step_keeps frame_keeps simp: approval_step_same [unfolded same_queues_def])

lemma world_inv_dispatch:
  assumes w: "world_inv w" and row: "get_row ob_id i (outbox (wd_db w)) = Some r"
    and mk: "mark_dispatching now i (wd_db w) = (True, t)"
  shows "world_inv (w\<lparr>wd_db := t, wd_sent := wd_sent w @ [(i, oi_message (outbox_item_of r))]\<rparr>)"
proof -
  have step: "outbox_step (wd_db w) (Some i) t" using mk by (rule outbox_step.dispatching)
  then have rs: "repo_step (wd_db w) t" by (rule repo_step.on_outbox)
  have inv: "outbox_inv (wd_db w)" using w by (simp add: world_inv_def repo_inv_def)
  note st = dispatching_status [OF inv mk]
  have run1: "run outbox_step (wd_db w) [Some i] t" using step by simp
  from outbox_row_kept [OF run1 inv row] obtain q where
    q: "get_row ob_id i (outbox t) = Some q" "outbox_fixed r q" by blast
  have new: "delivered_row t (i, oi_message (outbox_item_of r))"
    using q st(2) by (auto simp: delivered_row_def outbox_status_def outbox_item_of_def outbox_fixed_def)
  have "i \<notin> fst ` set (wd_sent w)"
    using w st(1) row by (force simp: world_inv_def delivered_row_def outbox_status_def)
  moreover have "world_inv (w\<lparr>wd_db := t\<rparr>)" using repo_step_keeps [OF rs] w by (simp add: keeps_inv_def)
  ultimately show ?thesis using new by (simp add: world_inv_def)
qed

lemma world_inv_invoke:
  assumes w: "world_inv w" and row: "get_row tx_execution_id eid (tool_executions (wd_db w)) = Some r"
    and mk: "mark_tool_executing now eid (wd_db w) = (True, t)"
  shows "world_inv (w\<lparr>wd_db := t, wd_invoked := wd_invoked w @ [(eid, tool, args)]\<rparr>)"
proof -
  have rs: "repo_step (wd_db w) t" using tool_step.open_call [OF mk row] by (rule repo_step.on_tools)
  have inv: "tool_inv (wd_db w)" using w by (simp add: world_inv_def repo_inv_def)
  note st = opening_states(1,2) [OF inv mk row]
  have new: "invoked_row t (eid, tool, args)" using st(2) by (auto simp: invoked_row_def tool_status_def)
  have "eid \<notin> fst ` set (wd_invoked w)"
    using w st(1) row by (force simp: world_inv_def invoked_row_def)
  moreover have "world_inv (w\<lparr>wd_db := t\<rparr>)" using repo_step_keeps [OF rs] w by (simp add: keeps_inv_def)
  ultimately show ?thesis using new by (simp add: world_inv_def)
qed

subsection \<open>The pipeline as a sequence of atomic steps\<close>

text \<open>The atomic steps of the broker process: a transaction; a message handed over together with the transition that
  opens its delivery; a tool invoked together with the transition that opens its call; a model request.\<close>

inductive world_step :: "world \<Rightarrow> world \<Rightarrow> bool" where
  transaction: "broker_step (wd_db w) t \<Longrightarrow> world_step w (w\<lparr>wd_db := t\<rparr>)"
| delivery: "get_row ob_id i (outbox (wd_db w)) = Some r \<Longrightarrow> mark_dispatching now i (wd_db w) = (True, t) \<Longrightarrow>
    world_step w (w\<lparr>wd_db := t, wd_sent := wd_sent w @ [(i, oi_message (outbox_item_of r))]\<rparr>)"
| invoked: "get_row tx_execution_id eid (tool_executions (wd_db w)) = Some r \<Longrightarrow>
    mark_tool_executing now eid (wd_db w) = (True, t) \<Longrightarrow>
    world_step w (w\<lparr>wd_db := t, wd_invoked := wd_invoked w @ [(eid, tool, args)]\<rparr>)"
| asked: "world_step w (w\<lparr>wd_requests := rs\<rparr>)"

interpretation atomic: pipeline_guarantee "world_step\<^sup>*\<^sup>*"
  by unfold_locales (blast intro: world_step.intros rtranclp_trans)+

lemma world_step_inv: "world_step w w' \<Longrightarrow> world_inv w \<Longrightarrow> world_inv w'"
proof (induction rule: world_step.induct)
  case (transaction w t)
  then show ?case using broker_step_keeps by (simp add: keeps_inv_def)
next
  case (delivery i w r now t)
  from world_inv_dispatch [OF delivery(3,1,2)] show ?case .
next
  case (invoked eid w r now t tool args)
  from world_inv_invoke [OF invoked(3,1,2)] show ?case .
next
  case (asked w rs)
  then show ?case by (simp add: world_inv_def)
qed

lemma world_steps_inv: "world_step\<^sup>*\<^sup>* w w' \<Longrightarrow> world_inv w \<Longrightarrow> world_inv w'"
  by (induction rule: rtranclp_induct) (simp_all add: world_step_inv)

text \<open>Everything the broker does: the pipeline's three entry points, and any other transaction of the repository
  or of the approval service, a restart included. \<open>external sv cn\<close>: while the broker waits for the model, a
  tool, memory derivation or the connector, its other tasks take atomic steps; those are all that the wait does to
  the broker's world.\<close>

inductive broker_action :: "services \<Rightarrow> connector \<Rightarrow> world \<Rightarrow> world \<Rightarrow> bool" for sv cn where
  ingesting: "broker_action sv cn w (snd (ingest sv e w))"
| processing: "broker_action sv cn w (snd (process_once sv ch w))"
| sending: "broker_action sv cn w (snd (dispatch_once sv cn channel w))"
| elsewhere: "broker_step (wd_db w) t \<Longrightarrow> broker_action sv cn w (w\<lparr>wd_db := t\<rparr>)"

definition external :: "services \<Rightarrow> connector \<Rightarrow> bool" where
  "external sv cn \<longleftrightarrow> environment (world_step\<^sup>*\<^sup>*) sv \<and> (\<forall>m. guaranteed (world_step\<^sup>*\<^sup>*) (cn m))"

definition fresh_world :: world where
  "fresh_world = \<lparr>wd_db = empty_db, wd_sent = [], wd_invoked = [], wd_requests = []\<rparr>"

lemma fresh_world_inv: "world_inv fresh_world"
  by (simp add: world_inv_def fresh_world_def repo_inv_empty)

lemma broker_action_atomic:
  assumes "external sv cn" and "broker_action sv cn w w'"
  shows "world_step\<^sup>*\<^sup>* w w'"
  using assms(2)
proof cases
  case (ingesting e)
  then show ?thesis using atomic.kept_ingest by (simp add: guaranteed_def)
next
  case (processing ch)
  then show ?thesis using assms(1) atomic.kept_process_once by (simp add: external_def guaranteed_def)
next
  case (sending channel)
  then show ?thesis using assms(1) atomic.kept_dispatch_once [of sv cn channel] by (simp add: external_def guaranteed_def)
qed (blast intro: world_step.transaction)

lemma broker_actions_atomic:
  assumes "external sv cn"
  shows "(broker_action sv cn)\<^sup>*\<^sup>* w w' \<Longrightarrow> world_step\<^sup>*\<^sup>* w w'"
  by (induction rule: rtranclp_induct) (auto intro: rtranclp_trans broker_action_atomic [OF assms])

text \<open>C18. The whole broker acts at most once: whatever the model, the tools and the connector answer or raise, and in
  every sequence of ingesting, processing, dispatching, operator commands and restarts that starts from an empty
  database, no outbox item is handed to a connector twice, what is handed over is the stored message and its row is
  never pending again, and no recorded tool call is invoked twice.\<close>

theorem broker_acts_at_most_once:
  assumes "external sv cn" and "(broker_action sv cn)\<^sup>*\<^sup>* fresh_world w"
  shows "distinct (map fst (wd_sent w)) \<and> distinct (map fst (wd_invoked w)) \<and>
    (\<forall>(i, m) \<in> set (wd_sent w). \<exists>r. get_row ob_id i (outbox (wd_db w)) = Some r \<and> oi_message (outbox_item_of r) = m \<and>
       ob_state r \<notin> {Obx_Pending, Obx_Reserved})"
proof -
  have "world_inv w" using world_steps_inv [OF broker_actions_atomic [OF assms]] fresh_world_inv by simp
  then show ?thesis by (auto simp: world_inv_def delivered_row_def)
qed

end
