(* ===== verification/Pipeline_Verdicts.thy ===== *)
theory Pipeline_Verdicts
  imports Pipeline_Safety
begin

text \<open>
  What one call of \<open>dispatch_once\<close> and one call of \<open>process_once\<close> end with, on every branch.
\<close>

subsection \<open>The verdict of one dispatch\<close>

text \<open>What the row of a delivered item says, from what the connector answered.\<close>

definition delivery_verdict :: "outbound_message \<Rightarrow> delivery_receipt result \<Rightarrow> outbox_state" where
  "delivery_verdict m a = (case a of
     Inl x \<Rightarrow> if x = cancelled then Obx_Dispatching else Obx_Unknown
   | Inr rc \<Rightarrow> if rc_message_id rc = om_message_id m then receipt_state (rc_status rc) else Obx_Unknown)"

lemma cas_from_source:
  assumes inv: "outbox_inv s" and row: "get_row ob_id i (outbox s) = Some r" and src: "ob_state r = src"
    and key: "\<And>q. ob_id (f q) = ob_id q"
  shows "fst (outbox_cas i src f s)" "get_row ob_id i (outbox (snd (outbox_cas i src f s))) = Some (f r)"
proof -
  have "ob_id r = i" using get_row_in [OF row] by simp
  then show "fst (outbox_cas i src f s)" "get_row ob_id i (outbox (snd (outbox_cas i src f s))) = Some (f r)"
    using assms by (simp_all add: outbox_cas_simps count_where_unique_key [OF outbox_ids] get_row_update_where)
qed

lemma marked_dispatching:
  assumes "outbox_inv s" and "get_row ob_id i (outbox s) = Some r" and "ob_state r = Obx_Reserved"
  shows "\<exists>t q. mark_dispatching now i s = (True, t) \<and> get_row ob_id i (outbox t) = Some q \<and> ob_state q = Obx_Dispatching \<and>
    ob_message_id q = ob_message_id r \<and> outbox_inv t"
proof -
  obtain b t where mk: "mark_dispatching now i s = (b, t)" by force
  note c = cas_from_source [OF assms, of "\<lambda>r. r\<lparr>ob_state := Obx_Dispatching, ob_dispatch_started_at := Some now,
    ob_updated_at := now\<rparr>", folded mark_dispatching_def, unfolded mk]
  from c(1) have b by simp
  with mk have "outbox_step s (Some i) t" by (auto intro: outbox_step.dispatching)
  from outbox_step_inv [OF this assms(1)] c(2) \<open>b\<close> mk show ?thesis by simp
qed

lemma received:
  assumes "get_row ob_id i (outbox s) = Some q" and "ob_state q = Obx_Dispatching" and "ob_message_id q = rc_message_id rc"
  shows "\<exists>t. apply_receipt now i rc s = Inr (receipt_state (rc_status rc), t) \<and>
    outbox_status t i = Some (receipt_state (rc_status rc))"
  using assms get_row_in [OF assms(1)] by (simp add: apply_receipt_def outbox_status_def get_row_update_where Let_def)

lemma quarantined:
  assumes "outbox_inv (wd_db w)" and "get_row ob_id (oi_id item) (outbox (wd_db w)) = Some q" and "ob_state q = Obx_Dispatching"
  shows "outbox_status (wd_db (snd (quarantine sv item x w))) (oi_id item) = Some Obx_Unknown"
    "wd_sent (snd (quarantine sv item x w)) = wd_sent w"
  using cas_from_source(2) [OF assms, of "\<lambda>r. r\<lparr>ob_state := Obx_Unknown,
      ob_failure_detail := Some (take 2000 (lit (exn_name x))), ob_updated_at := sv_clock sv w\<rparr>"]
  by (simp_all add: quarantine_def mark_outbox_unknown_def eff_bind_def eff_seq_def eff_db_def eff_audit_def eff_return_def
      outbox_status_def Let_def case_prod_beta)

lemma settle_without_memory: "sv_derive sv = None \<Longrightarrow> snd (settle_delivery sv item st w) = w"
  by (simp add: settle_delivery_def eff_return_def)

lemma evaluate_retry:
  assumes "evaluate cfg clk now a s = Inr (ev, t)"
  shows "case pe_retry_after ev of None \<Rightarrow> True | Some n \<Rightarrow> 1 \<le> n \<and> n \<le> 86400"
proof -
  let ?ok = "case pe_retry_after ev of None \<Rightarrow> True | Some n \<Rightarrow> 1 \<le> n \<and> n \<le> 86400"
  have d: ?ok if "decision now a d rule reason retry s = Inr (ev, t)" for d rule reason retry
    using that by (auto simp: decision_def policy_evaluation_def raise_if_def split: if_splits option.splits)
  have r: ?ok if "evaluate_reply clk now a ch c l s = Inr (ev, t)" for ch c l
    using that by (auto simp only: evaluate_reply_def Let_def split: option.splits prod.splits if_splits dest!: d)
  have p: ?ok if "evaluate_proactive cfg clk now a ch c l s = Inr (ev, t)" for ch c l
    using that unfolding evaluate_proactive_def Let_def by (auto split: if_splits dest!: d)
  have c: ?ok if "evaluate_communication cfg clk now a kind s = Inr (ev, t)" for kind
    using that by (auto simp: evaluate_communication_def split: option.splits if_splits dest!: d r p)
  show ?thesis using assms unfolding evaluate_def Let_def by (auto split: if_splits dest!: d c)
qed

lemma put_back_verdict:
  assumes inv: "outbox_inv (wd_db w)" and row: "get_row ob_id (oi_id item) (outbox (wd_db w)) = Some r"
    and st: "ob_state r = Obx_Reserved"
    and retry: "case pe_retry_after ev of None \<Rightarrow> True | Some n \<Rightarrow> 1 \<le> n \<and> n \<le> 86400"
  shows "\<exists>p w'. put_back sv item ev w = (Inr p, w') \<and> wd_sent w' = wd_sent w \<and>
    (pr_status p, outbox_status (wd_db w') (oi_id item)) =
      (if transient_rule (pe_rule_id ev) then (Ps_Deferred, Some Obx_Pending) else (Ps_Dead, Some Obx_Dead))"
proof (cases "transient_rule (pe_rule_id ev)")
  case True
  define n where "n = (case pe_retry_after ev of Some n \<Rightarrow> if n = 0 then 300 else n | None \<Rightarrow> 300)"
  have "\<not> (n < 1 \<or> 86400 < n)" using retry by (auto simp: n_def split: option.splits)
  then have "\<exists>b t. release_reserved (sv_clock sv w) (oi_id item) (lit (pe_reason ev)) n (wd_db w) = Inr (b, t) \<and>
      outbox_status t (oi_id item) = Some Obx_Pending"
    using cas_from_source(2) [OF inv row st, of "\<lambda>r. r\<lparr>ob_state := Obx_Pending, ob_reserved_at := None,
        ob_next_attempt_at := Some (sv_clock sv w + seconds n), ob_failure_detail := Some (take 2000 (lit (pe_reason ev))),
        ob_updated_at := sv_clock sv w\<rparr>"]
    by (simp add: release_reserved_def outbox_status_def prod_eq_iff)
  with True show ?thesis
    by (auto simp: put_back_def eff_bind_def eff_try_def eff_return_def outcome_def n_def)
next
  case False
  have "outbox_status (snd (mark_reserved_dead (sv_clock sv w) (oi_id item) (lit (pe_reason ev)) (wd_db w))) (oi_id item) =
      Some Obx_Dead"
    using cas_from_source(2) [OF inv row st, of "\<lambda>r. r\<lparr>ob_state := Obx_Dead,
        ob_failure_detail := Some (take 2000 (lit (pe_reason ev))), ob_updated_at := sv_clock sv w\<rparr>"]
    by (simp add: mark_reserved_dead_def outbox_status_def)
  with False show ?thesis
    by (auto simp: put_back_def eff_bind_def eff_db_def eff_return_def outcome_def split: prod.split)
qed

lemma policy_eff:
  assumes "evaluate (sv_policy sv) (sv_clock sv w) (sv_clock sv w) a (wd_db w) = Inr (ev, t)"
  shows "eff_bind (policy_evaluate sv a) f w = f ev (w\<lparr>wd_db := t\<rparr>)"
  using assms by (simp add: eff_bind_def policy_evaluate_def eff_try_def)

lemma reserving_eff:
  assumes "reserve_next_outbox (sv_clock sv w) ch (wd_db w) = (x, t)"
  shows "eff_bind (\<lambda>w. eff_db (reserve_next_outbox (sv_clock sv w) ch) w) f w = f x (w\<lparr>wd_db := t\<rparr>)"
  using assms by (simp add: eff_bind_def eff_db_def)

lemma marking_dispatching_eff:
  assumes "mark_dispatching (sv_clock sv w) i (wd_db w) = (b, t)"
  shows "eff_bind (\<lambda>w. eff_db (mark_dispatching (sv_clock sv w) i) w) f w = f b (w\<lparr>wd_db := t\<rparr>)"
  using assms by (simp add: eff_bind_def eff_db_def)

lemma delivery_recorded:
  assumes quiet: "cn = (\<lambda>m v. (answer m, v))" and no_derive: "sv_derive sv = None"
    and inv: "outbox_inv (wd_db w)" and row: "get_row ob_id (oi_id item) (outbox (wd_db w)) = Some r"
    and st: "ob_state r = Obx_Dispatching" and mid: "ob_message_id r = om_message_id (oi_message item)"
    and run: "(case deliver_and_record sv cn item w of
                (Inr st, w1) \<Rightarrow> settle_delivery sv item st w1
              | (Inl x, w1) \<Rightarrow> if x = cancelled then (Inl x, w1) else quarantine sv item x w1) = (res, w')"
  shows "wd_sent w' = wd_sent w @ [(oi_id item, oi_message item)] \<and>
    outbox_status (wd_db w') (oi_id item) = Some (delivery_verdict (oi_message item) (answer (oi_message item)))"
proof -
  let ?w1 = "w\<lparr>wd_sent := wd_sent w @ [(oi_id item, oi_message item)]\<rparr>"
  have inv1: "outbox_inv (wd_db ?w1)" "get_row ob_id (oi_id item) (outbox (wd_db ?w1)) = Some r" using inv row by simp_all
  show ?thesis
  proof (cases "answer (oi_message item)")
    case (Inl x)
    then have "deliver_and_record sv cn item w = (Inl x, ?w1)"
      by (simp add: deliver_and_record_def deliver_logged_def quiet eff_bind_def)
    with run have w': "w' = (if x = cancelled then ?w1 else snd (quarantine sv item x ?w1))" by (auto split: if_splits)
    show ?thesis
      using quarantined [OF inv1 st, of sv x] row st
      by (simp add: w' delivery_verdict_def Inl outbox_status_def)
  next
    case (Inr rc)
    show ?thesis
    proof (cases "rc_message_id rc = om_message_id (oi_message item)")
      case True
      with mid have "ob_message_id r = rc_message_id rc" by simp
      from received [OF row st this, of "sv_clock sv ?w1"] obtain t where
        t: "apply_receipt (sv_clock sv ?w1) (oi_id item) rc (wd_db w) = Inr (receipt_state (rc_status rc), t)"
          "outbox_status t (oi_id item) = Some (receipt_state (rc_status rc))" by blast
      have "deliver_and_record sv cn item w = (Inr (receipt_state (rc_status rc)), ?w1\<lparr>wd_db := t\<rparr>)"
        by (simp add: deliver_and_record_def deliver_logged_def quiet eff_bind_def eff_try_def Inr t(1))
      with run have "w' = ?w1\<lparr>wd_db := t\<rparr>"
        using settle_without_memory [OF no_derive, of item "receipt_state (rc_status rc)" "?w1\<lparr>wd_db := t\<rparr>"] by simp
      then show ?thesis using t(2) True by (simp add: delivery_verdict_def Inr)
    next
      case False
      then have "apply_receipt (sv_clock sv ?w1) (oi_id item) rc (wd_db w) =
          Inl (ValueError ''receipt message_id does not match outbox item'')"
        using mid row by (auto simp: apply_receipt_def)
      then have "deliver_and_record sv cn item w =
          (Inl (ValueError ''receipt message_id does not match outbox item''), ?w1)"
        by (simp add: deliver_and_record_def deliver_logged_def quiet eff_bind_def eff_try_def Inr)
      with run have w': "w' = snd (quarantine sv item (ValueError ''receipt message_id does not match outbox item'') ?w1)"
        by (simp add: cancelled_def)
      show ?thesis using quarantined [OF inv1 st] False by (simp add: w' delivery_verdict_def Inr)
    qed
  qed
qed

lemma reserved_row:
  assumes "outbox_inv s" and "reserve_next_outbox now ch s = (Some item, t)"
  shows "\<exists>r. get_row ob_id (oi_id item) (outbox t) = Some r \<and> ob_state r = Obx_Reserved \<and> item = outbox_item_of r \<and> outbox_inv t"
proof -
  obtain c where c: "reserve_candidate now ch (outbox s) = Some c"
    using assms(2) by (cases "reserve_candidate now ch (outbox s)") (simp_all add: reserve_next_outbox_def)
  note e = reserve_exact [OF assms(1) c, unfolded assms(2)]
  from e have "oi_state item = Obx_Reserved" by (simp add: outbox_item_of_def)
  moreover obtain r where "get_row ob_id (oi_id item) (outbox t) = Some r" "item = outbox_item_of r"
    using reserved_item [OF assms(2)] by blast
  moreover have "outbox_inv t"
    using outbox_step_inv [OF outbox_step.reserving assms(1)] assms(2) by (metis snd_conv)
  ultimately show ?thesis by (auto simp: outbox_item_of_def)
qed


subsection \<open>A concrete broker\<close>

definition demo_pipeline :: pipeline_config where
  "demo_pipeline = \<lparr>pl_system_prompt = lit ''be kind'', pl_canary_only = False, pl_welcome_text = None, pl_recent_messages = 50,
     pl_max_model_turns = 4, pl_max_task_input_tokens = 65536, pl_max_task_output_tokens = 8192, pl_max_tool_calls = 8,
     pl_max_navigations = 4, pl_max_reply_chars = 3000, pl_chunk_chars = 1500, pl_model_max_tokens = 1024,
     pl_max_context_tokens = None, pl_memory_limit = 0, pl_memory_summary_turn_threshold = 20,
     pl_memory_derivation_max_tokens = 512, pl_profile = lit ''default'', pl_granted_tool_scopes = [],
     pl_deep_sender_ids = [], pl_output_mode = Send_Mode\<rparr>"

definition demo_response :: model_response where
  "demo_response = \<lparr>ms_content = Some (lit ''hello''), ms_tool_calls = [], ms_reasoning = None, ms_model = lit ''m'',
     ms_prompt_tokens = 10, ms_completion_tokens = 5, ms_finish_reason = None\<rparr>"

definition demo_backend :: backend where
  "demo_backend = \<lparr>bk_context_tokens = 4096, bk_count_tokens = (\<lambda>ms. 8 * int (length ms)),
     bk_generate = (\<lambda>rq. eff_return demo_response)\<rparr>"

definition demo_services :: services where
  "demo_services = \<lparr>sv_config = demo_pipeline, sv_policy = default_config, sv_model = demo_backend, sv_tools = [],
     sv_memory = None, sv_derive = None, sv_approvals = None, sv_event_eligible = None, sv_clock = (\<lambda>w. hours 4),
     sv_fresh = (\<lambda>w. lit ''x1''), sv_uuid5 = (\<lambda>s. demo_mid), sv_sha256 = (\<lambda>s. s), sv_float = (\<lambda>q. []), sv_repr = (\<lambda>s. s),
     sv_schema_error = (\<lambda>a s. None), sv_dump_manifests = (\<lambda>m. [])\<rparr>"

definition demo_acknowledge :: "outbound_message \<Rightarrow> delivery_receipt result" where
  "demo_acknowledge m = Inr \<lparr>rc_message_id = om_message_id m, rc_status = Dlv_Acknowledged, rc_external_id = None,
     rc_acknowledged_at = Some (hours 4), rc_detail = None\<rparr>"

definition demo_connector :: connector where
  "demo_connector = (\<lambda>m w. (demo_acknowledge m, w))"

definition demo_outbox_db :: db where
  "demo_outbox_db = (case create_outbox 0 demo_answer demo_policy_db of Inr r \<Rightarrow> snd r | Inl _ \<Rightarrow> demo_policy_db)"

definition demo_outbox_world :: world where
  "demo_outbox_world = fresh_world\<lparr>wd_db := demo_outbox_db\<rparr>"

lemma demo_outbox_created:
  "create_outbox 0 demo_answer demo_policy_db = Inr (outbox_item_of (new_outbox_row 0 demo_answer 1), demo_outbox_db)"
  "outbox demo_outbox_db = [new_outbox_row 0 demo_answer 1]"
  by (simp_all add: demo_outbox_db_def create_outbox_def exists_row_def outbox_conflict_def next_id_def
      new_outbox_row_def demo_answer_def add_message_def)

lemma demo_outbox_tables: "allowlist demo_outbox_db = allowlist demo_policy_db" "runtime_state demo_outbox_db = []"
  by (simp_all add: demo_outbox_db_def create_outbox_def exists_row_def outbox_conflict_def next_id_def
      new_outbox_row_def demo_answer_def add_message_def)

definition demo_taken_row :: outbox_row where
  "demo_taken_row = (new_outbox_row 0 demo_answer 1)\<lparr>ob_state := Obx_Reserved, ob_reserved_at := Some (hours 4),
     ob_attempts := 1, ob_updated_at := hours 4\<rparr>"

lemma demo_taken:
  "reserve_next_outbox (hours 4) (Some (lit ''wechat_agent_lab'')) demo_outbox_db =
     (Some (outbox_item_of demo_taken_row), demo_outbox_db\<lparr>outbox := [demo_taken_row]\<rparr>)"
  by (simp add: reserve_next_outbox_def reserve_candidate_def demo_outbox_created
      demo_taken_row_def new_outbox_row_def select_order_def first_row_def count_where_def update_where_def demo_answer_def)

lemma demo_taken_allowed:
  "auto_allowed default_config (hours 4) (dispatch_action demo_answer) (demo_outbox_db\<lparr>outbox := [demo_taken_row]\<rparr>)"
    (is "auto_allowed _ _ _ ?s")
proof -
  let ?a = "dispatch_action demo_answer"
  have zn: "zn_local (pc_zone default_config) (hours 4) = hours 12"
    by (simp add: default_config_def fixed_zone_def hours_def seconds_def)
  have a: "pa_kind ?a = lit ''reply''" "pa_channel ?a = Some (lit ''wechat_agent_lab'')" "pa_chat_id ?a = Some (lit ''chat_1'')"
    "pa_bound_channel ?a = pa_channel ?a" "pa_bound_chat_id ?a = pa_chat_id ?a" "pa_reason_event_id ?a = Some (lit ''e1'')"
    "\<not> pa_proactive ?a" "pa_arguments ?a = [(lit ''message_id'', JStr demo_mid)]"
    by (simp_all add: dispatch_action_def demo_answer_def dflag_def reason_event_id_def)
  have "uuid_of_json (JStr demo_mid) = Some demo_mid" unfolding demo_mid_def by code_simp
  then have mid: "action_message_id ?a = Some demo_mid" by (simp add: action_message_id_def a)
  have "\<not> contains_secret ?a" by (simp add: contains_secret_def a)
  moreover have "\<not> is_paused ch ?s" for ch by (simp add: is_paused_def demo_outbox_tables)
  moreover have "count_outbound_since x c ch p (Some demo_mid) ?s = 0" for x c ch p
    by (simp add: count_outbound_since_def count_where_def demo_taken_row_def new_outbox_row_def demo_answer_def)
  moreover have "limits_for default_config (lit ''wechat_agent_lab'') = wechat_lab_limits"
    by (simp add: limits_for_def default_config_def demo_reply_kind)
  moreover have "is_allowlisted (lit ''wechat_agent_lab'') (lit ''chat_1'') ?s"
    using demo_allowlisted by (simp add: is_allowlisted_def demo_outbox_tables)
  ultimately show ?thesis
    using demo_not_quiet
    by (simp add: auto_allowed_def demo_reply_kind communication_actions_def communication_allowed_def
        reply_within_def reply_windows_def wechat_lab_limits_def a mid zn)
qed

lemma demo_outbox_inv: "outbox_inv demo_outbox_db"
  by (rule create_outbox_inv [OF outbox_inv_empty demo_outbox_created(1)]) simp


lemma demo_external: "external demo_services demo_connector"
  by (simp add: external_def environment_def guaranteed_def demo_services_def demo_backend_def eff_return_def demo_connector_def)

theorem broker_acts_at_most_once_witness:
  "distinct (map fst (wd_sent (snd (dispatch_once demo_services demo_connector (lit ''wechat_agent_lab'') demo_outbox_world))))"
proof -
  let ?act = "broker_action demo_services demo_connector"
  have "repo_step empty_db demo_policy_db" unfolding demo_policy_db_def by (rule repo_step.allowing)
  then have "broker_step (wd_db fresh_world) demo_policy_db"
    by (simp add: fresh_world_def broker_step.repository)
  then have a: "broker_action demo_services demo_connector fresh_world (fresh_world\<lparr>wd_db := demo_policy_db\<rparr>)"
    by (rule broker_action.elsewhere)
  have "broker_step demo_policy_db demo_outbox_db"
    by (rule broker_step.repository [OF repo_step.on_outbox [OF outbox_step.created [OF demo_outbox_created(1)]]])
  then have b: "broker_action demo_services demo_connector (fresh_world\<lparr>wd_db := demo_policy_db\<rparr>) demo_outbox_world"
    using broker_action.elsewhere [of "fresh_world\<lparr>wd_db := demo_policy_db\<rparr>" demo_outbox_db] by (simp add: demo_outbox_world_def)
  have "(broker_action demo_services demo_connector)\<^sup>*\<^sup>* fresh_world
      (snd (dispatch_once demo_services demo_connector (lit ''wechat_agent_lab'') demo_outbox_world))"
    by (rule converse_rtranclp_into_rtranclp [where r = ?act, OF a], rule converse_rtranclp_into_rtranclp [where r = ?act, OF b],
        rule r_into_rtranclp [where r = ?act], rule broker_action.sending)
  from broker_acts_at_most_once [OF demo_external this] show ?thesis by blast
qed

subsection \<open>The verdict on a claimed item\<close>

text \<open>What holds of item \<open>i\<close> in every world the broker can reach, and that nobody is working on it.\<close>

definition tracked :: "nat \<Rightarrow> world \<Rightarrow> bool" where
  "tracked i w \<longleftrightarrow> world_inv w \<and> inbox_status (wd_db w) i \<noteq> None"

definition closed :: "nat \<Rightarrow> world \<Rightarrow> bool" where
  "closed i w \<longleftrightarrow> (\<forall>b. inbox_status (wd_db w) i \<noteq> Some (Ibx_Processing, b))"

lemma inbox_status_cong: "inbox t = inbox s \<Longrightarrow> inbox_status t i = inbox_status s i"
  by (simp add: inbox_status_def)

lemma broker_step_inbox:
  assumes "broker_step s t" and "inbox_inv s" and "inbox_status s i \<noteq> None"
  shows "inbox_status t i \<noteq> None"
proof -
  have "inbox t = inbox s \<or> inbox_step s t \<or> (\<exists>now d. inbox t = inbox (snd (recover_inbox now (now - d) s)))"
    using assms(1)
  proof cases
    case (approval l)
    then show ?thesis using approval_step_same by (simp add: same_queues_def)
  next
    case repository
    then show ?thesis
    proof (cases rule: repo_step.cases)
      case on_inbox
      then show ?thesis by blast
    next
      case (on_outbox l)
      then show ?thesis using outbox_step_frame by blast
    next
      case (on_tools l)
      then show ?thesis using tool_step_frame by blast
    next
      case (restarting now d)
      then show ?thesis using recover_interrupted_tables(1) by blast
    next
      case (drafting now m row)
      then have "inbox t = inbox s" by (auto simp: create_draft_def split: option.splits if_splits)
      then show ?thesis by blast
    next
      case (remembering now k v u)
      then have "inbox t = inbox s" by (auto simp: set_runtime_state_def split: if_splits)
      then show ?thesis by blast
    next
      case (forgetting p n)
      then have "inbox t = inbox s" by (auto simp: clear_runtime_state_prefix_def split: if_splits)
      then show ?thesis by blast
    next
      case (configuring now ch chats label counts)
      then have "inbox t = inbox s" by (auto simp: reconcile_allowlist_def split: if_splits)
      then show ?thesis by blast
    qed (auto simp: set_paused_def set_allowlisted_def)
  qed
  then show ?thesis
  proof (elim disjE exE)
    assume "inbox t = inbox s"
    then show ?thesis using assms(3) by (simp add: inbox_status_def)
  next
    assume "inbox_step s t"
    with inbox_step_edge assms(2,3) show ?thesis by blast
  next
    fix now d assume "inbox t = inbox (snd (recover_inbox now (now - d) s))"
    moreover have "inbox_status (snd (recover_inbox now (now - d) s)) i \<noteq> None"
      using inbox_step_edge [OF inbox_step.recover assms(2)] assms(3) by blast
    ultimately show ?thesis by (simp add: inbox_status_def)
  qed
qed

lemma tracked_step: "world_step w w' \<Longrightarrow> tracked i w \<Longrightarrow> tracked i w'"
proof -
  assume st: "world_step w w'" and tr: "tracked i w"
  then have inv: "inbox_inv (wd_db w)" "inbox_status (wd_db w) i \<noteq> None" "world_inv w'"
    using world_step_inv [OF st] by (simp_all add: tracked_def, simp add: world_inv_def repo_inv_def)
  have "inbox_status (wd_db w') i \<noteq> None"
    using st
  proof cases
    case (transaction t)
    then show ?thesis using broker_step_inbox inv(1,2) by simp
  next
    case (delivery k r now t)
    have "broker_step (wd_db w) t"
      using outbox_step.dispatching [OF delivery(3)] by (intro broker_step.repository repo_step.on_outbox)
    then show ?thesis using delivery(1) broker_step_inbox inv(1,2) by simp
  next
    case (invoked eid r now t tool args)
    have "broker_step (wd_db w) t"
      using tool_step.open_call [OF invoked(3,2)] by (intro broker_step.repository repo_step.on_tools)
    then show ?thesis using invoked(1) broker_step_inbox inv(1,2) by simp
  next
    case (asked rs)
    then show ?thesis using inv(2) by simp
  qed
  with inv(3) show ?thesis by (simp add: tracked_def)
qed

lemma tracked_steps: "world_step\<^sup>*\<^sup>* w w' \<Longrightarrow> tracked i w \<Longrightarrow> tracked i w'"
  by (induction rule: rtranclp_induct) (simp_all add: tracked_step)

text \<open>\<open>settles i Q m\<close>: when \<open>m\<close> returns a value in \<open>Q\<close>, item \<open>i\<close> is closed. \<open>still i m\<close>: \<open>m\<close> does not open it.\<close>

definition settles :: "nat \<Rightarrow> ('a \<Rightarrow> bool) \<Rightarrow> 'a eff \<Rightarrow> bool" where
  "settles i Q m \<longleftrightarrow> (\<forall>w. tracked i w \<longrightarrow> (\<forall>a w'. m w = (Inr a, w') \<longrightarrow> Q a \<longrightarrow> closed i w'))"

definition still :: "nat \<Rightarrow> 'a eff \<Rightarrow> bool" where
  "still i m \<longleftrightarrow> (\<forall>w. closed i w \<longrightarrow> closed i (snd (m w)))"

lemma still_intros:
  "still i (eff_return a)" "still i (eff_raise e)" "still i (eff_read f)"
  "still i (\<lambda>w. eff_audit (g w) w)"
  by (simp_all add: still_def eff_return_def eff_raise_def eff_read_def eff_audit_def eff_db_def closed_def
      inbox_status_def)

lemma still_bind: "still i m \<Longrightarrow> (\<And>a. still i (f a)) \<Longrightarrow> still i (eff_bind m f)"
  by (auto simp: still_def eff_bind_def split: prod.split sum.split)

lemma still_seq: "still i m \<Longrightarrow> still i n \<Longrightarrow> still i (eff_seq m n)"
  by (simp add: eff_seq_def still_bind)

lemma settles_bind:
  assumes "guaranteed (world_step\<^sup>*\<^sup>*) m" and "settles i Q m"
    and "\<And>a. Q a \<Longrightarrow> still i (f a)" and "\<And>a. \<not> Q a \<Longrightarrow> settles i R (f a)"
  shows "settles i R (eff_bind m f)"
  unfolding settles_def
proof (intro allI impI)
  fix w b w'
  assume w: "tracked i w" and r: "eff_bind m f w = (Inr b, w')" and R: "R b"
  obtain v w1 where m: "m w = (v, w1)" by force
  with r obtain a where a: "v = Inr a" "f a w1 = (Inr b, w')" by (cases v) (auto simp: eff_bind_def)
  have "tracked i w1" using tracked_steps [OF atomic.guaranteedD [OF assms(1) m] w] .
  then show "closed i w'"
    using assms(2) [unfolded settles_def] assms(3,4) [of a] w m a R
    by (cases "Q a") (auto simp: still_def settles_def, metis snd_conv)
qed

lemma settles_never: "settles i (\<lambda>_. False) m"
  by (simp add: settles_def)

lemmas settles_then = settles_bind [OF _ settles_never, simplified]

lemma settles_raise: "settles i Q (eff_raise e)"
  by (simp add: settles_def eff_raise_def)

lemma settles_seq_first:
  assumes "guaranteed (world_step\<^sup>*\<^sup>*) m" and "settles i (\<lambda>_. True) m" and "still i n"
  shows "settles i R (eff_seq m n)"
  unfolding eff_seq_def by (rule settles_bind [OF assms(1,2)]) (use assms(3) in simp_all)

lemma settles_seq_then:
  assumes "guaranteed (world_step\<^sup>*\<^sup>*) m" and "settles i R n"
  shows "settles i R (eff_seq m n)"
  unfolding eff_seq_def by (rule settles_then [OF assms(1)]) (rule assms(2))

lemma settles_not: "(\<And>w a w'. m w = (Inr a, w') \<Longrightarrow> \<not> Q a) \<Longrightarrow> settles i Q m"
  by (auto simp: settles_def)

lemma settles_complete: "settles (ii_id item) (\<lambda>_. True) (complete sv item)"
proof -
  have "inbox_status (snd (complete_inbox now i s)) i \<noteq> Some (Ibx_Processing, b)" for now i b and s :: db
    by (auto simp: inbox_status_def complete_inbox_def transition_inbox_def get_row_update_where dest: get_row_in)
  then show ?thesis
    by (auto simp: settles_def complete_def eff_db_def closed_def split: prod.splits) (metis snd_conv)
qed

lemma settles_fail_item: "settles (ii_id item) (\<lambda>_. True) (fail_item sv item err retry)"
proof -
  have "inbox_status t i \<noteq> Some (Ibx_Processing, b)" if "fail_inbox now i err retry mx s = Inr (st, t)" for now i err retry mx s st t b
    using that by (auto simp: inbox_status_def fail_inbox_def Let_def get_row_update_where split: option.splits if_splits dest: get_row_in)
  then show ?thesis
    by (auto simp: settles_def fail_item_def eff_try_def closed_def split: sum.splits prod.splits)
qed

lemma fail_item_returns:
  assumes "tracked (ii_id item) w"
  shows "\<exists>st. fst (fail_item sv item err retry w) = Inr st"
proof -
  obtain r where "get_row ib_id (ii_id item) (inbox (wd_db w)) = Some r"
    using assms by (auto simp: tracked_def inbox_status_def)
  then show ?thesis by (simp add: fail_item_def eff_try_def fail_inbox_def Let_def)
qed

lemma settles_audited_return:
  "settles (ii_id item) (\<lambda>_. True) (eff_seq (complete sv item) (eff_return r))"
  "settles (ii_id item) (\<lambda>_. True) (eff_seq (complete sv item) (eff_seq (pipeline_audit sv e action result mid d) (eff_return r)))"
  by (rule settles_seq_first [OF atomic.kept_complete settles_complete],
      simp_all add: still_intros still_seq pipeline_audit_def)+

lemma settles_weaken: "settles i (\<lambda>_. True) m \<Longrightarrow> settles i Q m"
  by (auto simp: settles_def)

lemma settles_return_other: "\<not> Q a \<Longrightarrow> settles i Q (eff_return a)"
  by (simp add: settles_def eff_return_def)

lemma generate_settles:
  assumes env: "environment (world_step\<^sup>*\<^sup>*) sv"
  shows "settles (ii_id item) (\<lambda>a. \<exists>r. a = Early r) (generate_answer sv item)"
proof -
  let ?Q = "\<lambda>a. \<exists>r. a = Early r"
  note finished = settles_weaken [OF settles_audited_return(1)] settles_weaken [OF settles_audited_return(2)]
  have read: "guaranteed (world_step\<^sup>*\<^sup>*) (eff_read f)" for f :: "world \<Rightarrow> 'b result" by (rule atomic.guaranteed_return)
  have reply: "settles (ii_id item) ?Q (eff_return (Reply t r))" for t r by (rule settles_return_other) simp
  show ?thesis
    unfolding generate_answer_def Let_def permanent_def run_model_and_tools_def
    by (auto split: option.split
        intro!: finished reply settles_raise settles_then atomic.guaranteed_return
          atomic.kept_prepare atomic.kept_model_loop [OF env])
qed

lemma still_skip: "still i (eff_return r)" "still i (eff_seq (pipeline_audit sv e action result mid d) (eff_return r))"
  by (simp_all add: still_intros still_seq pipeline_audit_def)

lemma store_draft_settles:
  assumes env: "environment (world_step\<^sup>*\<^sup>*) sv"
  shows "settles (ii_id item) (\<lambda>_. True) (store_draft sv item reply r)"
proof -
  have create: "guaranteed (world_step\<^sup>*\<^sup>*) (\<lambda>w. eff_try (create_draft (sv_clock sv w) m) w)" for m
    by (rule atomic.kept_try) (blast intro: broker_step.repository repo_step.drafting)
  show ?thesis
    unfolding store_draft_def Let_def
    by (intro settles_then atomic.kept_read create settles_seq_then atomic.kept_upkeep [OF env]
        settles_seq_first [OF atomic.kept_complete settles_complete] still_skip)
qed

lemma commit_settles: "settles (ii_id item) (\<lambda>a. \<exists>r. a = Inl r) (commit_reply sv item reply r)"
proof -
  let ?Q = "\<lambda>a. \<exists>r. a = Inl r"
  have create: "guaranteed (world_step\<^sup>*\<^sup>*) (\<lambda>w. eff_try (create_outbox (sv_clock sv w) m) w)" for m
    by (rule atomic.kept_try) (blast intro: broker_step.repository repo_step.on_outbox outbox_step.created)
  have fin: "settles (ii_id item) ?Q (eff_return (Inr ob))" for ob by (rule settles_return_other) simp
  have skip: "settles (ii_id item) ?Q (eff_seq (complete sv item) (eff_return x))" for x
    by (rule settles_seq_first [OF atomic.kept_complete settles_complete still_skip(1)])
  show ?thesis
    unfolding commit_reply_def Let_def
    by (auto intro!: settles_then atomic.kept_policy atomic.guaranteed_return atomic.kept_read create fin skip)
qed

lemma queue_settles:
  assumes env: "environment (world_step\<^sup>*\<^sup>*) sv"
  shows "settles (ii_id item) (\<lambda>_. True) (queue_reply sv item reply r)"
  unfolding queue_reply_def Let_def
  by (rule settles_bind [OF atomic.kept_commit_reply commit_settles])
    (auto split: sum.splits intro!: settles_seq_then settles_seq_first [OF atomic.kept_complete settles_complete]
      still_skip atomic.kept_upkeep [OF env] atomic.guaranteed_return)

lemma process_claimed_settles:
  assumes env: "environment (world_step\<^sup>*\<^sup>*) sv"
  shows "settles (ii_id item) (\<lambda>_. True) (process_claimed sv item)"
proof -
  have answer: "settles (ii_id item) (\<lambda>_. True) (eff_bind (generate_answer sv item) (\<lambda>a. case a of
               Early result \<Rightarrow> eff_return result
             | Reply reply mrun \<Rightarrow>
                 if pl_output_mode (sv_config sv) = Draft_Mode then store_draft sv item reply mrun
                 else queue_reply sv item reply mrun))"
    by (rule settles_bind [OF atomic.kept_generate_answer [OF env] generate_settles [OF env]])
      (auto simp: still_intros store_draft_settles [OF env] queue_settles [OF env] split: answer.split)
  show ?thesis
    unfolding process_claimed_def Let_def
    by (auto intro!: settles_audited_return settles_then atomic.kept_policy answer)
qed

lemma claimed_tracked:
  assumes "world_inv w" and "claim_next_inbox now ch (wd_db w) = (Some item, t)"
  shows "tracked (ii_id item) (w\<lparr>wd_db := t\<rparr>)"
proof -
  have "inbox_step (wd_db w) t" using inbox_step.claim_next [of "wd_db w" now ch] assms(2) by simp
  then have "world_step w (w\<lparr>wd_db := t\<rparr>)"
    by (intro world_step.transaction broker_step.repository repo_step.on_inbox)
  then have "world_inv (w\<lparr>wd_db := t\<rparr>)" using assms(1) by (rule world_step_inv)
  moreover have "inbox_status t (ii_id item) \<noteq> None"
  proof -
    from assms(2) obtain c where c: "claim_candidate ch (inbox (wd_db w)) = Some c"
      by (metis claim_next_inbox_Some fst_conv)
    have inv: "inbox_inv (wd_db w)" using assms(1) by (simp add: world_inv_def repo_inv_def)
    note cl = claimed_row [OF inv c]
    from cl(2) [of now] assms(2) have "ii_id item = ib_id c" by (simp add: inbox_item_of_def)
    with inbox_step_edge [OF \<open>inbox_step (wd_db w) t\<close> inv, of "ib_id c"] cl(1) show ?thesis
      by (auto simp: inbox_status_def)
  qed
  ultimately show ?thesis by (simp add: tracked_def)
qed

text \<open>C20. Nothing that was claimed is left behind: whatever the model, the tools and memory derivation answer or raise,
  processing an event ends with its inbox item no longer in progress (completed, back in the queue or dead) and raises
  nothing but a cancellation; only a cancellation, or a crash, leaves the item to recovery.\<close>

theorem process_once_settles:
  assumes "environment (world_step\<^sup>*\<^sup>*) sv" and "world_inv w"
    and "claim_next_inbox (sv_clock sv w) ch (wd_db w) = (Some item, t)"
    and "process_once sv ch w = (res, w')"
  shows "(\<exists>r. res = Inr r \<and> (\<forall>b. inbox_status (wd_db w') (ii_id item) \<noteq> Some (Ibx_Processing, b))) \<or> res = Inl cancelled"
proof -
  let ?w1 = "w\<lparr>wd_db := t\<rparr>" and ?i = "ii_id item"
  let ?h = "\<lambda>x. case x of
      PermanentPipelineError msg \<Rightarrow>
        eff_bind (fail_item sv item msg False) (\<lambda>_. eff_return (outcome Ps_Dead (ii_id item) (lit msg)))
    | _ \<Rightarrow> if x = cancelled then eff_raise x
        else eff_bind (fail_item sv item (exn_name x) (\<not> is_conversation (ev_metadata (ii_event item)))) (\<lambda>next_state.
          eff_return (outcome (if next_state = Ibx_Pending then Ps_Retry else Ps_Dead) (ii_id item) (lit (exn_name x))))"
  have tr: "tracked ?i ?w1" by (rule claimed_tracked [OF assms(2,3)])
  obtain v w2 where v: "process_claimed sv item ?w1 = (v, w2)" by force
  have tr2: "tracked ?i w2"
    using tracked_steps [OF atomic.guaranteedD [OF atomic.kept_process_claimed [OF assms(1)] v] tr] .
  have run: "eff_catch (process_claimed sv item) ?h ?w1 = (res, w')"
    using assms(3,4) by (simp add: process_once_def eff_bind_def [of _ _ w] eff_db_def)
  show ?thesis
  proof (cases v)
    case (Inr r)
    with v process_claimed_settles [OF assms(1), of item] tr have "closed ?i w2" by (auto simp: settles_def)
    with run v Inr show ?thesis by (auto simp: eff_catch_def closed_def)
  next
    case (Inl x)
    have handled: "\<exists>r w3. eff_bind (fail_item sv item err retry) (\<lambda>st. eff_return (f st)) w2 = (Inr r, w3) \<and> closed ?i w3"
      for err retry and f :: "inbox_state \<Rightarrow> pipeline_result"
    proof -
      from fail_item_returns [OF tr2, of sv err retry] obtain st w3 where
        f: "fail_item sv item err retry w2 = (Inr st, w3)" by (metis prod.collapse)
      with settles_fail_item [of item sv err retry] tr2 have "closed ?i w3" by (auto simp: settles_def)
      with f show ?thesis by (simp add: eff_bind_def eff_return_def)
    qed
    have "x = cancelled \<or> (\<exists>r w3. ?h x w2 = (Inr r, w3) \<and> closed ?i w3)"
      using handled by (cases x) auto
    moreover have "?h x w2 = (res, w')" using run v Inl by (simp add: eff_catch_def)
    moreover have "?h cancelled = eff_raise cancelled" by (simp add: cancelled_def)
    ultimately show ?thesis by (auto simp: eff_raise_def closed_def)
  qed
qed

definition demo_early_services :: services where
  "demo_early_services = demo_services\<lparr>sv_clock := (\<lambda>w. 30)\<rparr>"

theorem process_once_settles_witness:
  "(\<forall>b. inbox_status (wd_db (snd (process_once demo_early_services None (fresh_world\<lparr>wd_db := demo_inbox\<rparr>)))) 1 \<noteq>
       Some (Ibx_Processing, b)) \<or>
   fst (process_once demo_early_services None (fresh_world\<lparr>wd_db := demo_inbox\<rparr>)) = Inl cancelled"
proof -
  let ?w = "fresh_world\<lparr>wd_db := demo_inbox\<rparr>"
  have env: "environment (world_step\<^sup>*\<^sup>*) demo_early_services"
    using demo_external by (simp add: external_def environment_def demo_early_services_def)
  have "outbox demo_inbox = []" "tool_executions demo_inbox = []" "runtime_state demo_inbox = []"
    by (simp_all add: demo_inbox_def record_inbound_def)
  then have "repo_inv demo_inbox"
    using demo_inbox_inv by (simp add: repo_inv_def outbox_inv_empty tool_inv_empty runtime_inv_def)
  then have inv: "world_inv ?w" by (simp add: world_inv_def fresh_world_def)
  obtain item where item: "claim_next_inbox 30 None demo_inbox = (Some item, demo_claimed)" "ii_id item = 1"
    using demo_claim by auto
  have cl: "claim_next_inbox (sv_clock demo_early_services ?w) None (wd_db ?w) = (Some item, demo_claimed)"
    using item(1) by (simp add: demo_early_services_def)
  obtain res w' where run: "process_once demo_early_services None ?w = (res, w')" by force
  from process_once_settles [OF env inv cl run] show ?thesis using run item(2) by auto
qed

end
