(* ===== verification/Loop_Bounds.thy ===== *)
theory Loop_Bounds
  imports Pipeline_Verdicts
begin

text \<open>
  How far one run of the model-and-tools loop can go: what it logs outside is bounded by the configuration, whatever
  the model and the tools answer.
\<close>

subsection \<open>Counting what an operation adds to a log\<close>

definition adds :: "(world \<Rightarrow> 'x list) \<Rightarrow> ('x \<Rightarrow> bool) \<Rightarrow> nat \<Rightarrow> 'a eff \<Rightarrow> bool" where
  "adds meter good k m \<longleftrightarrow> (\<forall>w. \<exists>xs. meter (snd (m w)) = meter w @ xs \<and> length xs \<le> k \<and> list_all good xs)"

definition same_logs :: "world \<Rightarrow> world \<Rightarrow> bool" where
  "same_logs w w' \<longleftrightarrow> wd_requests w' = wd_requests w \<and> wd_invoked w' = wd_invoked w"

lemma adds_bind_result:
  assumes "adds meter good j m" and "\<And>w a w'. m w = (Inr a, w') \<Longrightarrow> adds meter good k (f a)"
  shows "adds meter good (j + k) (eff_bind m f)"
  unfolding adds_def
proof
  fix w
  obtain v w1 where m: "m w = (v, w1)" by force
  with assms(1) obtain xs where xs: "meter w1 = meter w @ xs" "length xs \<le> j" "list_all good xs"
    by (metis adds_def snd_conv)
  show "\<exists>xs. meter (snd (eff_bind m f w)) = meter w @ xs \<and> length xs \<le> j + k \<and> list_all good xs"
  proof (cases v)
    case (Inl e)
    with m xs show ?thesis by (auto simp: eff_bind_def)
  next
    case (Inr a)
    from assms(2) [of w a w1] m Inr obtain ys where "meter (snd (f a w1)) = meter w1 @ ys" "length ys \<le> k" "list_all good ys"
      by (auto simp: adds_def)
    with m xs Inr show ?thesis by (auto simp: eff_bind_def intro!: exI [of _ "xs @ ys"])
  qed
qed

lemma adds_bind:
  assumes "adds meter good j m" and "\<And>a. adds meter good k (f a)"
  shows "adds meter good (j + k) (eff_bind m f)"
  using assms by (rule adds_bind_result)

lemma adds_bind_free:
  assumes "adds meter good 0 m" and "\<And>a. adds meter good k (f a)"
  shows "adds meter good k (eff_bind m f)"
  using adds_bind [OF assms] by simp

lemma adds_mono: "adds meter good j m \<Longrightarrow> j \<le> k \<Longrightarrow> adds meter good k m"
  unfolding adds_def by (meson le_trans)

lemma adds_catch:
  assumes "adds meter good k m" and "\<And>e. adds meter good 0 (h e)"
  shows "adds meter good k (eff_catch m h)"
  unfolding adds_def
proof
  fix w
  obtain v w1 where m: "m w = (v, w1)" by force
  with assms(1) obtain xs where xs: "meter w1 = meter w @ xs" "length xs \<le> k" "list_all good xs"
    by (metis adds_def snd_conv)
  moreover have "meter (snd (h e w1)) = meter w1" for e using assms(2) [of e] by (auto simp: adds_def)
  ultimately show "\<exists>xs. meter (snd (eff_catch m h w)) = meter w @ xs \<and> length xs \<le> k \<and> list_all good xs"
    using m by (cases v) (auto simp: eff_catch_def)
qed

lemma adds_free: "adds meter good k (eff_return a)" "adds meter good k (eff_raise e)" "adds meter good k (eff_read f)"
  by (simp_all add: adds_def eff_return_def eff_raise_def eff_read_def)

locale metered =
  fixes meter :: "world \<Rightarrow> 'x list"
  assumes meter_db: "meter (w\<lparr>wd_db := t\<rparr>) = meter w"
begin

lemma adds_db: "adds meter good 0 (\<lambda>w. eff_db (f w) w)"
  by (simp add: adds_def eff_db_def meter_db split: prod.split)

lemma adds_try: "adds meter good 0 (\<lambda>w. eff_try (f w) w)"
  by (simp add: adds_def eff_try_def meter_db split: prod.split sum.split)

lemma adds_policy: "adds meter good 0 (policy_evaluate sv a)"
  unfolding policy_evaluate_def by (rule adds_try)

lemma adds_resolve: "adds meter good 0 (resolve_tool sv eid st code summary)"
  unfolding resolve_tool_def by (rule adds_try)

lemma adds_refuse: "adds meter good k (refuse sv eid st code summary result)"
  unfolding refuse_def eff_seq_def by (intro adds_bind_free adds_resolve adds_free)

lemma adds_finish: "adds meter good 0 (finish_invocation sv mf eid r)"
  unfolding finish_invocation_def eff_seq_def
  by (auto split: invocation.split intro!: adds_bind_free adds_resolve adds_free)

lemma adds_commit_tool:
  assumes "\<And>ctx. adds meter good c (invoke_logged tool eid ctx args)"
  shows "adds meter good c (commit_tool sv item tool eid dc args)"
proof -
  have "adds meter good (c + 0) (eff_bind (invoke_logged tool eid ctx args) (finish_invocation sv mf eid))" for ctx mf
    by (intro adds_bind assms adds_finish)
  then show ?thesis
    unfolding commit_tool_def Let_def
    by (auto intro!: adds_bind_free adds_policy adds_refuse adds_db adds_free)
qed

lemma adds_approval: "adds meter good k (request_one_time_approval sv item mf eid args)"
  unfolding request_one_time_approval_def Let_def
  by (auto split: option.split intro!: adds_bind_free adds_refuse adds_try)

lemma adds_invoke_tool:
  assumes "\<And>tool eid ctx. (name, tool) \<in> set (sv_tools sv) \<Longrightarrow> adds meter good c (invoke_logged tool eid ctx args)"
  shows "adds meter good c (invoke_tool sv item call_id name args)"
proof -
  have run: "adds meter good c (run_enrolled_tool sv item tool eid args)" if "map_of (sv_tools sv) name = Some tool" for tool eid
    using adds_commit_tool [OF assms [OF map_of_SomeD [OF that]]] unfolding run_enrolled_tool_def Let_def
    by (auto split: option.split intro!: adds_bind_free adds_policy adds_refuse adds_approval)
  show ?thesis
    unfolding invoke_tool_def find_tool_def
    by (intro adds_bind_free adds_catch adds_try)
      (auto split: option.split intro!: adds_free adds_refuse run)
qed

lemma adds_call_tools:
  assumes "\<And>tool eid ctx args. tool \<in> set (sv_tools sv) \<Longrightarrow> adds meter good c (invoke_logged (snd tool) eid ctx args)"
  shows "adds meter good (length cs * c) (call_tools sv item cs n history)"
proof (induction cs arbitrary: n history)
  case Nil
  then show ?case by (simp add: adds_free)
next
  case (Cons x cs)
  have call: "adds meter good c (invoke_tool sv item (tc_call_id x) (tc_name x) (tc_arguments x))"
    using assms by (intro adds_invoke_tool) fastforce
  have "adds meter good (c + length cs * c) (eff_bind (invoke_tool sv item (tc_call_id x) (tc_name x) (tc_arguments x))
      (\<lambda>result. eff_bind (eff_read (\<lambda>w. append_tool_result_bounded sv history (tc_name x) (tc_call_id x) (tr_content result)))
        (call_tools sv item cs k)))" for k
    by (intro adds_bind call adds_bind_free adds_free Cons.IH)
  then show ?case by (simp add: Let_def permanent_def adds_free add.commute)
qed

lemma adds_model_turn:
  assumes "\<And>rq remaining. context_fits sv history \<Longrightarrow> loop_request sv item history remaining = Inr rq \<Longrightarrow> 1 \<le> remaining \<Longrightarrow>
    adds meter good c (generate_logged sv item rq)"
  shows "adds meter good c (model_turn sv item u history)"
proof (cases "context_fits sv history")
  case False
  then have "snd (model_turn sv item u history w) = w" for w
    by (simp add: model_turn_def Let_def eff_bind_def eff_read_def ensure_context_fits_def raise_if_def)
  then show ?thesis by (simp add: adds_def)
next
  case True
  let ?rest = "pl_max_task_output_tokens (sv_config sv) - us_output u"
  show ?thesis
  proof (cases "loop_request sv item history ?rest")
    case (Inl e)
    then have "snd (model_turn sv item u history w) = w" for w
      by (simp add: model_turn_def Let_def eff_bind_def eff_read_def ensure_context_fits_def raise_if_def permanent_def
          eff_raise_def split: sum.split)
    then show ?thesis by (simp add: adds_def)
  next
    case (Inr rq)
    have rd: "eff_bind (eff_read (\<lambda>w. Inr a)) f = f a" for a and f :: "'b \<Rightarrow> 'c eff"
      by (rule ext) (simp add: eff_bind_def eff_read_def)
    have "adds meter good (c + 0) (eff_bind (generate_logged sv item rq) f)"
      if "1 \<le> ?rest" "\<And>r. adds meter good 0 (f r)" for f :: "model_response \<Rightarrow> (model_response \<times> usage) eff"
      using assms [OF True Inr that(1)] that(2) by (rule adds_bind)
    then have gen: "1 \<le> ?rest \<Longrightarrow> (\<And>r. adds meter good 0 (f r)) \<Longrightarrow> adds meter good c (eff_bind (generate_logged sv item rq) f)"
      for f :: "model_response \<Rightarrow> (model_response \<times> usage) eff" by simp
    show ?thesis
      unfolding model_turn_def Let_def ensure_context_fits_def raise_if_def Inr permanent_def
      by (auto simp: True rd intro!: gen adds_free adds_bind_free [OF adds_db] adds_bind_free [OF adds_free(3)])
  qed
qed

end

interpretation requests_meter: metered wd_requests
  by unfold_locales simp

interpretation invocations_meter: metered wd_invoked
  by unfold_locales simp

subsection \<open>One turn and the loop\<close>

lemma eff_bind_Inr: "eff_bind m f w = (Inr b, w') \<longleftrightarrow> (\<exists>a w1. m w = (Inr a, w1) \<and> f a w1 = (Inr b, w'))"
  by (auto simp: eff_bind_def split: prod.splits sum.splits)

lemma eff_basic_Inr:
  "eff_read f w = (Inr a, w') \<longleftrightarrow> f w = Inr a \<and> w' = w" "eff_return x w = (Inr a, w') \<longleftrightarrow> a = x \<and> w' = w"
  "eff_raise e w \<noteq> (Inr a, w')"
  by (auto simp: eff_read_def eff_return_def eff_raise_def)

lemma model_turn_usage:
  assumes "model_turn sv item u history w = (Inr (r, u1), w')"
  shows "us_tool_calls u1 = us_tool_calls u \<and> us_navigations u1 = us_navigations u \<and>
    us_input u1 \<le> pl_max_task_input_tokens (sv_config sv) \<and> us_output u1 \<le> pl_max_task_output_tokens (sv_config sv)"
  using assms
  by (auto simp: model_turn_def Let_def eff_bind_Inr eff_basic_Inr permanent_def not_less split: if_splits)

definition good_request :: "services \<Rightarrow> inbox_item \<Rightarrow> nat \<times> model_request \<Rightarrow> bool" where
  "good_request sv item x \<longleftrightarrow> fst x = ii_id item \<and> context_fits sv (mr_messages (snd x)) \<and>
     1 \<le> mr_max_tokens (snd x) \<and> mr_max_tokens (snd x) \<le> pl_model_max_tokens (sv_config sv)"

lemma generate_requests:
  assumes env: "environment same_logs sv" and "1 \<le> pl_model_max_tokens (sv_config sv)"
    and "context_fits sv history" "loop_request sv item history remaining = Inr rq" "1 \<le> remaining"
  shows "adds wd_requests (good_request sv item) 1 (generate_logged sv item rq)"
proof -
  have good: "good_request sv item (ii_id item, rq)"
    using assms(2-5) by (auto simp: good_request_def loop_request_def Let_def raise_if_def split: if_splits)
  have "wd_requests (snd (bk_generate (sv_model sv) rq w)) = wd_requests w" for w
    using env by (simp add: environment_def guaranteed_def same_logs_def)
  then have "adds wd_requests (good_request sv item) 1
      (\<lambda>w. bk_generate (sv_model sv) rq (w\<lparr>wd_requests := wd_requests w @ [(ii_id item, rq)]\<rparr>))"
    using good by (simp add: adds_def)
  then show ?thesis unfolding generate_logged_def by (rule adds_catch) (rule adds_free)
qed

lemma generate_invocations:
  assumes "environment same_logs sv"
  shows "adds wd_invoked good 0 (generate_logged sv item rq)"
proof -
  have "wd_invoked (snd (bk_generate (sv_model sv) rq w)) = wd_invoked w" for w
    using assms by (simp add: environment_def guaranteed_def same_logs_def)
  then show ?thesis unfolding generate_logged_def by (intro adds_catch adds_free) (simp add: adds_def)
qed

lemma invoke_logs:
  assumes "environment same_logs sv" and "tool \<in> set (sv_tools sv)"
  shows "adds wd_requests good 0 (invoke_logged (snd tool) eid ctx args)"
    and "adds wd_invoked (\<lambda>_. True) 1 (invoke_logged (snd tool) eid ctx args)"
proof -
  have "same_logs w (snd (tl_invoke (snd tool) ctx args w))" for w using assms by (auto simp: environment_def)
  then show "adds wd_requests good 0 (invoke_logged (snd tool) eid ctx args)"
    "adds wd_invoked (\<lambda>_. True) 1 (invoke_logged (snd tool) eid ctx args)"
    by (simp_all add: adds_def invoke_logged_def case_prod_beta same_logs_def)
qed

lemma loop_requests:
  assumes env: "environment same_logs sv" and "1 \<le> pl_model_max_tokens (sv_config sv)"
  shows "adds wd_requests (good_request sv item) n (model_loop sv item n turn u history)"
proof (induction n arbitrary: turn u history)
  case 0
  then show ?case by (simp add: permanent_def adds_free)
next
  case (Suc n)
  have one: "adds wd_requests (good_request sv item) 1 (model_turn sv item u history)"
    by (rule requests_meter.adds_model_turn) (rule generate_requests [OF assms])
  have tools: "adds wd_requests (good_request sv item) 0 (call_tools sv item cs k h)" for cs k h
    using requests_meter.adds_call_tools [OF invoke_logs(1) [OF env], of sv] by simp
  have "adds wd_requests (good_request sv item) (1 + n) (model_loop sv item (Suc n) turn u history)"
    unfolding model_loop.simps
    by (intro adds_bind [OF one])
      (auto simp: permanent_def Let_def split: option.split
        intro!: adds_free adds_bind_free [OF adds_free(3)] adds_bind_free [OF tools] Suc.IH)
  then show ?case by simp
qed

lemma loop_invocations:
  assumes env: "environment same_logs sv"
  shows "us_tool_calls u \<le> pl_max_tool_calls (sv_config sv) \<Longrightarrow>
    adds wd_invoked (\<lambda>_. True) (nat (pl_max_tool_calls (sv_config sv) - us_tool_calls u)) (model_loop sv item n turn u history)"
proof (induction n arbitrary: turn u history)
  case 0
  then show ?case by (simp add: permanent_def adds_free)
next
  case (Suc n)
  let ?max = "pl_max_tool_calls (sv_config sv)"
  have one: "adds wd_invoked (\<lambda>_. True) 0 (model_turn sv item u history)"
    by (rule invocations_meter.adds_model_turn) (rule generate_invocations [OF env])
  have tools: "adds wd_invoked (\<lambda>_. True) (length cs) (call_tools sv item cs k h)" for cs k h
    using invocations_meter.adds_call_tools [OF invoke_logs(2) [OF env], of sv] by simp
  have round: "adds wd_invoked (\<lambda>_. True) (nat (?max - us_tool_calls u))
      (eff_bind (call_tools sv item cs k h) (\<lambda>(nv, h1). model_loop sv item n (Suc turn) (u2\<lparr>us_navigations := nv\<rparr>) h1))"
    if "us_tool_calls u2 = us_tool_calls u + int (length cs)" "us_tool_calls u2 \<le> ?max" for cs k h u2
  proof -
    have "adds wd_invoked (\<lambda>_. True) (length cs + nat (?max - us_tool_calls u2))
      (eff_bind (call_tools sv item cs k h) (\<lambda>(nv, h1). model_loop sv item n (Suc turn) (u2\<lparr>us_navigations := nv\<rparr>) h1))"
      using Suc.IH [of "u2\<lparr>us_navigations := _\<rparr>"] that(2) by (intro adds_bind tools) auto
    then show ?thesis by (rule adds_mono) (use that in linarith)
  qed
  have "adds wd_invoked (\<lambda>_. True) (0 + nat (?max - us_tool_calls u)) (model_loop sv item (Suc n) turn u history)"
    unfolding model_loop.simps
  proof (rule adds_bind_result [OF one])
    fix w a w'
    assume "model_turn sv item u history w = (Inr a, w')"
    then have "us_tool_calls (snd a) = us_tool_calls u" using model_turn_usage by (cases a) simp
    then show "adds wd_invoked (\<lambda>_. True) (nat (?max - us_tool_calls u)) (case a of (r, u1) \<Rightarrow>
       if ms_tool_calls r \<noteq> [] then
         let u2 = u1\<lparr>us_tool_calls := us_tool_calls u1 + int (length (ms_tool_calls r))\<rparr>
         in if ?max < us_tool_calls u2 then permanent ''tool call limit exceeded''
            else eff_bind (eff_read (\<lambda>w. assistant_message r (ms_tool_calls r))) (\<lambda>m.
                 eff_bind (call_tools sv item (ms_tool_calls r) (us_navigations u2) (history @ [m])) (\<lambda>(navigations, history1).
                   model_loop sv item n (Suc turn) (u2\<lparr>us_navigations := navigations\<rparr>) history1))
       else case ms_content r of
         None \<Rightarrow> permanent ''model returned neither text nor tool calls''
       | Some content \<Rightarrow>
           if strip content = [] then permanent ''model returned neither text nor tool calls''
           else eff_return \<lparr>mu_reply = strip content, mu_turns_used = turn, mu_input_tokens = us_input u1,
                             mu_output_tokens = us_output u1\<rparr>)"
      by (auto simp: permanent_def Let_def not_less split: option.split prod.split
          intro!: adds_free adds_bind_free [OF adds_free(3)] round)
  qed
  then show ?case by simp
qed

lemma loop_result:
  "model_loop sv item n turn u history w = (Inr r, w') \<Longrightarrow>
   turn \<le> mu_turns_used r \<and> mu_turns_used r < turn + n \<and> mu_reply r \<noteq> [] \<and>
   mu_input_tokens r \<le> pl_max_task_input_tokens (sv_config sv) \<and>
   mu_output_tokens r \<le> pl_max_task_output_tokens (sv_config sv)"
proof (induction n arbitrary: turn u history w)
  case 0
  then show ?case by (simp add: permanent_def eff_basic_Inr)
next
  case (Suc n)
  from Suc.prems obtain x u1 w1 where t: "model_turn sv item u history w = (Inr (x, u1), w1)"
    by (auto simp: eff_bind_Inr)
  note use = model_turn_usage [OF t]
  show ?case
  proof (cases "ms_tool_calls x = []")
    case True
    with Suc.prems t use show ?thesis
      by (auto simp: eff_bind_Inr permanent_def eff_basic_Inr split: option.splits if_splits)
  next
    case False
    with Suc.prems t obtain u2 h1 w2 where "model_loop sv item n (Suc turn) u2 h1 w2 = (Inr r, w')"
      by (auto simp: eff_bind_Inr permanent_def eff_basic_Inr Let_def split: if_splits)
    from Suc.IH [OF this] show ?thesis by simp
  qed
qed

text \<open>C21. One event costs a bounded amount of work, whatever the model answers and however the tools behave: the loop
  ends after at most the configured number of model calls, every one of them fits the model's context and asks for
  at most the configured output, and at most the configured number of tool calls run; a run that succeeds reports
  turns and tokens within the task's limits and a reply that is not blank. Nothing else is assumed of the model and
  the tools than that they write the broker's logs only through the broker.\<close>

theorem model_run_bounded:
  assumes "environment same_logs sv" and "pipeline_config_ok (sv_config sv)"
    and "run_model_and_tools sv item history w = (res, w')"
  shows "(\<exists>rqs. wd_requests w' = wd_requests w @ rqs \<and> length rqs \<le> pl_max_model_turns (sv_config sv) \<and>
       list_all (good_request sv item) rqs) \<and>
    (\<exists>calls. wd_invoked w' = wd_invoked w @ calls \<and> int (length calls) \<le> pl_max_tool_calls (sv_config sv)) \<and>
    (\<forall>r. res = Inr r \<longrightarrow> 1 \<le> mu_turns_used r \<and> mu_turns_used r \<le> pl_max_model_turns (sv_config sv) \<and> mu_reply r \<noteq> [] \<and>
       mu_input_tokens r \<le> pl_max_task_input_tokens (sv_config sv) \<and>
       mu_output_tokens r \<le> pl_max_task_output_tokens (sv_config sv))"
proof -
  let ?u = "\<lparr>us_tool_calls = 0, us_navigations = 0, us_input = 0, us_output = 0\<rparr>"
  have cfg: "1 \<le> pl_model_max_tokens (sv_config sv)" "0 \<le> pl_max_tool_calls (sv_config sv)"
    using assms(2) by (simp_all add: pipeline_config_ok_def)
  have run: "model_loop sv item (pl_max_model_turns (sv_config sv)) 1 ?u history w = (res, w')"
    using assms(3) by (simp add: run_model_and_tools_def)
  from loop_requests [OF assms(1) cfg(1), unfolded adds_def, THEN spec, of item "pl_max_model_turns (sv_config sv)" 1 ?u history w]
  have "\<exists>rqs. wd_requests w' = wd_requests w @ rqs \<and> length rqs \<le> pl_max_model_turns (sv_config sv) \<and>
       list_all (good_request sv item) rqs" unfolding run by simp
  moreover have "\<exists>calls. wd_invoked w' = wd_invoked w @ calls \<and> int (length calls) \<le> pl_max_tool_calls (sv_config sv)"
  proof -
    have u: "us_tool_calls ?u \<le> pl_max_tool_calls (sv_config sv)" using cfg(2) by simp
    from loop_invocations [OF assms(1) u, unfolded adds_def, THEN spec, of item "pl_max_model_turns (sv_config sv)" 1 history w]
    obtain calls where "wd_invoked w' = wd_invoked w @ calls" "length calls \<le> nat (pl_max_tool_calls (sv_config sv))"
      unfolding run by auto
    then show ?thesis using cfg(2) by (intro exI [of _ calls]) linarith
  qed
  moreover have "1 \<le> mu_turns_used r \<and> mu_turns_used r \<le> pl_max_model_turns (sv_config sv) \<and> mu_reply r \<noteq> [] \<and>
       mu_input_tokens r \<le> pl_max_task_input_tokens (sv_config sv) \<and>
       mu_output_tokens r \<le> pl_max_task_output_tokens (sv_config sv)" if "res = Inr r" for r
    using loop_result [OF run [unfolded that]] by simp
  ultimately show ?thesis by blast
qed

subsection \<open>Tool output in the history\<close>

lemma truncate_search_sound:
  "truncate_search f low high = Inr n \<Longrightarrow> low \<le> high \<Longrightarrow> low \<le> n \<and> n \<le> high \<and> (n \<noteq> low \<longrightarrow> f n = Inr True)"
proof (induction f low high arbitrary: n rule: truncate_search.induct)
  case (1 f low high)
  show ?case
  proof (cases "low < high")
    case False
    with "1.prems" show ?thesis by (simp add: truncate_search.simps [of f low high])
  next
    case True
    let ?mid = "(low + high + 1) div 2"
    from "1.prems"(1) True obtain b where b: "f ?mid = Inr b"
      by (cases "f ?mid") (simp_all add: truncate_search.simps [of f low high] Let_def)
    show ?thesis
    proof (cases b)
      case up: True
      have "truncate_search f ?mid high = Inr n"
        using "1.prems"(1) True b up by (simp add: truncate_search.simps [of f low high] Let_def)
      from "1.IH"(1) [OF True refl b _ this] up True b have "?mid \<le> n \<and> n \<le> high \<and> f n = Inr True"
        by (cases "n = ?mid") auto
      moreover have "low \<le> ?mid" using True by simp
      ultimately show ?thesis by (blast intro: le_trans)
    next
      case False
      have r: "truncate_search f low (?mid - 1) = Inr n"
        using "1.prems"(1) True b False by (simp add: truncate_search.simps [of f low high] Let_def)
      have "low \<le> ?mid - 1" "?mid - 1 \<le> high" using True by simp_all
      from "1.IH"(2) [OF True refl b _ r this(1)] False
      have "low \<le> n \<and> n \<le> ?mid - 1 \<and> (n \<noteq> low \<longrightarrow> f n = Inr True)" by simp
      then show ?thesis using \<open>?mid - 1 \<le> high\<close> by (blast intro: le_trans)
    qed
  qed
qed

lemma truncate_search_greatest:
  assumes mono: "\<And>j k. j \<le> k \<Longrightarrow> f k = Inr True \<Longrightarrow> f j = Inr True"
  shows "truncate_search f low high = Inr n \<Longrightarrow> n < k \<Longrightarrow> k \<le> high \<Longrightarrow> f k \<noteq> Inr True"
  using mono
proof (induction f low high arbitrary: n rule: truncate_search.induct)
  case (1 f low high)
  show ?case
  proof (cases "low < high")
    case False
    with "1.prems"(1-3) show ?thesis by (simp add: truncate_search.simps [of f low high])
  next
    case True
    let ?mid = "(low + high + 1) div 2"
    from "1.prems"(1) True obtain b where b: "f ?mid = Inr b"
      by (cases "f ?mid") (simp_all add: truncate_search.simps [of f low high] Let_def)
    show ?thesis
    proof (cases b)
      case up: True
      have "truncate_search f ?mid high = Inr n"
        using "1.prems"(1) True b up by (simp add: truncate_search.simps [of f low high] Let_def)
      from "1.IH"(1) [OF True refl b _ this "1.prems"(2,3,4)] up show ?thesis by simp
    next
      case False
      have r: "truncate_search f low (?mid - 1) = Inr n"
        using "1.prems"(1) True b False by (simp add: truncate_search.simps [of f low high] Let_def)
      show ?thesis
      proof (cases "k \<le> ?mid - 1")
        case low: True
        from "1.IH"(2) [OF True refl b _ r "1.prems"(2) low "1.prems"(4)] False show ?thesis by simp
      next
        case high: False
        then have "?mid \<le> k" by simp
        with "1.prems"(4) b False show ?thesis by fastforce
      qed
    qed
  qed
qed

lemma message_for_Inr: "message_for name call_id body = Inr m \<longleftrightarrow>
    m = tool_message name call_id body \<and> model_message_ok (tool_message name call_id body)"
  by (auto simp: message_for_def raise_if_def)

text \<open>Whether the first \<open>n\<close> characters of the output, marked as truncated, make a message that fits behind the history.\<close>

definition truncated_fits :: "services \<Rightarrow> model_message list \<Rightarrow> str \<Rightarrow> str \<Rightarrow> str \<Rightarrow> nat \<Rightarrow> bool" where
  "truncated_fits sv history name call_id content n \<longleftrightarrow>
     model_message_ok (tool_message name call_id (take n content @ truncated_suffix)) \<and>
     context_fits sv (history @ [tool_message name call_id (take n content @ truncated_suffix)])"

definition whole_fits :: "services \<Rightarrow> model_message list \<Rightarrow> str \<Rightarrow> str \<Rightarrow> str \<Rightarrow> bool" where
  "whole_fits sv history name call_id content \<longleftrightarrow> context_fits sv (history @ [tool_message name call_id (take 500000 content)])"

lemma trial_True:
  "bind_result (message_for name call_id (take n content @ truncated_suffix)) (\<lambda>m. Inr (context_fits sv (history @ [m]))) =
     Inr True \<longleftrightarrow> truncated_fits sv history name call_id content n"
  by (simp add: bind_result_Inr_iff message_for_Inr truncated_fits_def)

text \<open>A tool result never overflows the model's context: what is appended to the history is one message that
  announces itself as untrusted data, and the history still fits with it, whatever the token counter says. The text
  is the whole result when that fits, otherwise a marked prefix, which is the longest that fits if a longer prefix
  never counts less, or a notice of omission.\<close>

theorem tool_result_fits:
  assumes "append_tool_result_bounded sv history name call_id content = Inr h"
  shows "\<exists>body. h = history @ [tool_message name call_id body] \<and> context_fits sv h \<and>
    (if whole_fits sv history name call_id content then body = take 500000 content
     else body = omission \<or>
       (\<exists>n. 1 \<le> n \<and> n \<le> length content \<and> body = take n (take 500000 content) @ truncated_suffix \<and>
         ((\<forall>j k. j \<le> k \<longrightarrow> truncated_fits sv history name call_id (take 500000 content) k \<longrightarrow>
              truncated_fits sv history name call_id (take 500000 content) j) \<longrightarrow>
          (\<forall>k. n < k \<and> k \<le> length (take 500000 content) \<longrightarrow>
              \<not> truncated_fits sv history name call_id (take 500000 content) k))))"
proof -
  let ?b = "take 500000 content" and ?msg = "tool_message name call_id"
  let ?trial = "\<lambda>n. bind_result (message_for name call_id (take n ?b @ truncated_suffix))
    (\<lambda>m. Inr (context_fits sv (history @ [m])))"
  show ?thesis
  proof (cases "whole_fits sv history name call_id content")
    case True
    with assms have "h = history @ [?msg ?b]"
      by (auto simp: append_tool_result_bounded_def Let_def bind_result_Inr_iff message_for_Inr whole_fits_def)
    with True show ?thesis by (auto simp: whole_fits_def)
  next
    case False
    with assms obtain low where low: "truncate_search ?trial 0 (length ?b) = Inr low"
      and fits: "context_fits sv (history @ [?msg omission])"
      and h: "h = history @ [?msg (if low \<noteq> 0 then take low ?b @ truncated_suffix else omission)]"
      by (auto simp: append_tool_result_bounded_def Let_def bind_result_Inr_iff message_for_Inr whole_fits_def
          split: if_splits)
    show ?thesis
    proof (cases "low = 0")
      case True
      with h fits False show ?thesis by auto
    next
      case pos: False
      from truncate_search_sound [OF low] pos have n: "low \<le> length ?b" "truncated_fits sv history name call_id ?b low"
        unfolding trial_True by blast+
      have longest: "\<not> truncated_fits sv history name call_id ?b k"
        if "\<forall>j k. j \<le> k \<longrightarrow> truncated_fits sv history name call_id ?b k \<longrightarrow> truncated_fits sv history name call_id ?b j"
          "low < k" "k \<le> length ?b" for k
        using truncate_search_greatest [of ?trial, OF _ low that(2,3)] that(1) unfolding trial_True by blast
      have "h = history @ [?msg (take low ?b @ truncated_suffix)]" using h pos by simp
      moreover have "context_fits sv (history @ [?msg (take low ?b @ truncated_suffix)])"
        using n(2) by (simp add: truncated_fits_def)
      moreover have "1 \<le> low" "low \<le> length content" using pos n(1) by simp_all
      ultimately show ?thesis
        unfolding if_not_P [OF False]
        by (intro exI [of _ "take low ?b @ truncated_suffix"] conjI disjI2 exI [of _ low] impI allI)
          (assumption | rule refl | (elim conjE, rule longest; assumption) | simp)+
    qed
  qed
qed

text \<open>The largest results a tool may return make the pipeline raise: the result's own limit of 500,000 characters
  leaves no room for the 58 characters of the untrusted-data notice in a message with the same limit, so that the
  message is invalid before the context is even measured, and nothing is truncated.\<close>

theorem long_tool_result_raises:
  assumes "length tool_prefix + min 500000 (length content) > 500000"
  shows "append_tool_result_bounded sv history name call_id content = Inl (ValidationError ''ModelMessage'')"
proof -
  have "\<not> model_message_ok (tool_message name call_id (take 500000 content))"
    using assms by (simp add: model_message_ok_def tool_message_def opt_len_le_def min.commute)
  then show ?thesis by (simp add: append_tool_result_bounded_def message_for_def raise_if_def Let_def)
qed

lemma tool_prefix_length: "length tool_prefix = 58"
  unfolding tool_prefix_def by code_simp

theorem long_tool_result_raises_witness:
  "append_tool_result_bounded demo_services [] (lit ''browser'') (lit ''c1'') (replicate 499950 120) =
     Inl (ValidationError ''ModelMessage'')"
  by (rule long_tool_result_raises) (simp add: tool_prefix_length)

theorem tool_result_fits_witness:
  "\<exists>body. context_fits demo_services [tool_message (lit ''browser'') (lit ''c1'') body] \<and> body = lit ''page''"
proof -
  let ?ok = "append_tool_result_bounded demo_services [] (lit ''browser'') (lit ''c1'') (lit ''page'')"
  have "context_fits demo_services [m]" for m
    by (simp add: context_fits_def demo_services_def demo_backend_def reserved_context_tokens_def tool_schema_tokens_def
        maximum_context_tokens_def demo_pipeline_def)
  moreover have "model_message_ok (tool_message (lit ''browser'') (lit ''c1'') (lit ''page''))"
    using tool_prefix_length by (simp add: model_message_ok_def tool_message_def opt_len_le_def)
  ultimately have ok: "?ok = Inr [tool_message (lit ''browser'') (lit ''c1'') (lit ''page'')]"
    and whole: "whole_fits demo_services [] (lit ''browser'') (lit ''c1'') (lit ''page'')"
    by (simp_all add: append_tool_result_bounded_def message_for_def raise_if_def whole_fits_def)
  from tool_result_fits [OF ok] whole show ?thesis by auto
qed

definition demo_item :: inbox_item where
  "demo_item = \<lparr>ii_id = 1, ii_event = demo_event ''e1'' 5, ii_state = Ibx_Processing, ii_attempts = 1, ii_claimed_at = Some 30\<rparr>"

lemma demo_pipeline_ok: "pipeline_config_ok demo_pipeline"
  by (simp add: pipeline_config_ok_def demo_pipeline_def len_between_def)

theorem model_run_bounded_witness:
  "\<exists>rqs. wd_requests (snd (run_model_and_tools demo_services demo_item [plain_message Role_User (lit ''hi'')] fresh_world)) = rqs \<and>
     length rqs \<le> 4"
proof -
  have env: "environment same_logs demo_services"
    by (simp add: environment_def guaranteed_def demo_services_def demo_backend_def eff_return_def same_logs_def)
  obtain res w' where run: "run_model_and_tools demo_services demo_item [plain_message Role_User (lit ''hi'')] fresh_world = (res, w')"
    by force
  have "pipeline_config_ok (sv_config demo_services)" "pl_max_model_turns (sv_config demo_services) = 4"
    using demo_pipeline_ok by (simp_all add: demo_services_def demo_pipeline_def)
  with model_run_bounded [OF env _ run] run show ?thesis by (auto simp: fresh_world_def)
qed

end
