(* ===== verification/Gateway.thy ===== *)
theory Gateway
  imports Budget Framing Context Tool_Loop
begin

text \<open>
  The text gateway of \<open>lemonbot/models/gateway.py\<close> with the routing of \<open>models/config.py\<close> and the tool schemas of
  \<open>models/schema.py\<close>: one budgeted, non-streaming call of an OpenAI-compatible provider. The provider and the HTTP
  client are a parameter that answers a payload; so are the credential store, JSON Schema validation, the
  syntax analysis of JSON and the text of floats. The budget is an interface.
\<close>

subsection \<open>Configuration and routing\<close>

datatype model_tier = Tier_Flash | Tier_Pro

record provider_config =
  pv_provider :: str
  pv_base_url :: str
  pv_secret_name :: "str option"
  pv_flash_model :: str
  pv_pro_model :: str
  pv_timeout_seconds :: rat
  pv_context_tokens :: int
  pv_enable_thinking_on_pro :: bool

record routed_model =
  rm_provider :: str
  rm_model :: str
  rm_tier :: model_tier
  rm_thinking :: bool

definition route :: "provider_config \<Rightarrow> model_request \<Rightarrow> routed_model" where
  "route cfg rq =
     (if mr_deep rq
      then \<lparr>rm_provider = pv_provider cfg, rm_model = pv_pro_model cfg, rm_tier = Tier_Pro,
             rm_thinking = pv_enable_thinking_on_pro cfg\<rparr>
      else \<lparr>rm_provider = pv_provider cfg, rm_model = pv_flash_model cfg, rm_tier = Tier_Flash, rm_thinking = False\<rparr>)"

record gateway =
  gw_config :: provider_config
  gw_secret :: "str \<Rightarrow> str option"
  gw_float :: "rat \<Rightarrow> str"
  gw_parse :: "str \<Rightarrow> raw_json result"
  gw_loads :: "str \<Rightarrow> json option"
  gw_schema_valid :: "dict \<Rightarrow> bool"
  gw_schema_error :: "dict \<Rightarrow> dict \<Rightarrow> bool"
  gw_dump :: "tool_manifest \<Rightarrow> json"

subsection \<open>Payloads\<close>

text \<open>\<open>len(text.encode("utf-8"))\<close>: a lone surrogate cannot be encoded.\<close>

definition encoded_size :: "str \<Rightarrow> int result" where
  "encoded_size s = raise_if (has_surrogate s) (OtherException ''UnicodeEncodeError'') (Inr (int (utf8_size s)))"

definition opt_str :: "str option \<Rightarrow> json" where
  "opt_str x = (case x of None \<Rightarrow> JNull | Some s \<Rightarrow> JStr s)"

definition call_payload :: "(rat \<Rightarrow> str) \<Rightarrow> tool_call \<Rightarrow> json" where
  "call_payload flt c = JObj [(lit ''id'', JStr (tc_call_id c)), (lit ''type'', JStr (lit ''function'')),
     (lit ''function'', JObj [(lit ''name'', JStr (tc_name c)),
       (lit ''arguments'', JStr (json_compact flt (JObj (tc_arguments c))))])]"

definition message_payload :: "(rat \<Rightarrow> str) \<Rightarrow> model_message \<Rightarrow> dict result" where
  "message_payload flt m =
     (let base = [(lit ''role'', JStr (lit (role_value (mm_role m)))), (lit ''content'', opt_str (mm_content m))] @
            (case mm_name m of None \<Rightarrow> [] | Some n \<Rightarrow> [(lit ''name'', JStr n)]);
          anonymous = (case mm_tool_call_id m of None \<Rightarrow> True | Some i \<Rightarrow> i = [])
      in if mm_role m = Role_Tool \<and> anonymous
         then Inl (ModelProtocolError ''tool messages require tool_call_id'')
         else
           let tagged = base @ (if mm_role m = Role_Tool then [(lit ''tool_call_id'', opt_str (mm_tool_call_id m))] else [])
           in if mm_tool_calls m = [] then Inr tagged
              else if mm_role m \<noteq> Role_Assistant
              then Inl (ModelProtocolError ''only assistant messages may contain tool calls'')
              else Inr (tagged @ [(lit ''tool_calls'', JList (map (call_payload flt) (mm_tool_calls m)))] @
                (case mm_reasoning m of None \<Rightarrow> [] | Some r \<Rightarrow> [(lit ''reasoning_content'', JStr r)])))"

text \<open>\<open>message.model_dump(mode="json")\<close>.\<close>

definition message_dump :: "model_message \<Rightarrow> dict" where
  "message_dump m = [(lit ''role'', JStr (lit (role_value (mm_role m)))), (lit ''content'', opt_str (mm_content m)),
     (lit ''name'', opt_str (mm_name m)), (lit ''tool_call_id'', opt_str (mm_tool_call_id m)),
     (lit ''tool_calls'', JList (map (\<lambda>c. JObj [(lit ''call_id'', JStr (tc_call_id c)), (lit ''name'', JStr (tc_name c)),
        (lit ''arguments'', JObj (tc_arguments c))]) (mm_tool_calls m))),
     (lit ''reasoning_content'', opt_str (mm_reasoning m))]"

fun sum_results :: "int result list \<Rightarrow> int result" where
  "sum_results [] = Inr 0"
| "sum_results (r # rs) = bind_result r (\<lambda>x. bind_result (sum_results rs) (\<lambda>y. Inr (x + y)))"

definition message_tokens :: "(rat \<Rightarrow> str) \<Rightarrow> model_message \<Rightarrow> int result" where
  "message_tokens flt m =
     (let payload = (case message_payload flt m of Inr p \<Rightarrow> p | Inl _ \<Rightarrow> message_dump m)
      in bind_result (encoded_size (json_compact flt (JObj payload))) (\<lambda>n. Inr (n + 64)))"

definition count_tokens :: "(rat \<Rightarrow> str) \<Rightarrow> model_message list \<Rightarrow> int result" where
  "count_tokens flt ms = bind_result (sum_results (map (message_tokens flt) ms)) (\<lambda>n. Inr (256 + n))"

definition estimate_prompt_tokens :: "gateway \<Rightarrow> model_request \<Rightarrow> int result" where
  "estimate_prompt_tokens g rq =
     bind_result (count_tokens (gw_float g) (mr_messages rq)) (\<lambda>total.
       if mr_tools rq = [] then Inr total
       else bind_result (encoded_size (json_compact (gw_float g) (JList (map (gw_dump g) (mr_tools rq))))) (\<lambda>n.
              Inr (total + n + 64 * int (length (mr_tools rq)) + 256)))"

definition tool_payload :: "tool_manifest \<Rightarrow> json" where
  "tool_payload mf = JObj [(lit ''type'', JStr (lit ''function'')), (lit ''function'', JObj [(lit ''name'', JStr (tm_name mf)),
     (lit ''description'', JStr (tm_description mf)), (lit ''parameters'', JObj (tm_input_schema mf))])]"

fun all_results :: "'a result list \<Rightarrow> 'a list result" where
  "all_results [] = Inr []"
| "all_results (r # rs) = bind_result r (\<lambda>x. bind_result (all_results rs) (\<lambda>xs. Inr (x # xs)))"

definition request_payload :: "gateway \<Rightarrow> model_request \<Rightarrow> str \<Rightarrow> bool \<Rightarrow> dict result" where
  "request_payload g rq model thinking =
     bind_result (all_results (map (message_payload (gw_float g)) (mr_messages rq))) (\<lambda>messages. Inr (
       [(lit ''model'', JStr model), (lit ''messages'', JList (map JObj messages)), (lit ''temperature'', JFloat (mr_temperature rq)),
        (lit ''max_tokens'', JInt (mr_max_tokens rq)), (lit ''stream'', JBool False)] @
       (if mr_tools rq = [] then []
        else [(lit ''tools'', JList (map tool_payload (mr_tools rq))), (lit ''tool_choice'', JStr (lit ''auto''))]) @
       (if mr_json rq then [(lit ''response_format'', JObj [(lit ''type'', JStr (lit ''json_object''))])] else []) @
       (if thinking then [(lit ''thinking'', JObj [(lit ''type'', JStr (lit ''enabled''))])]
        else if pv_provider (gw_config g) = lit ''deepseek''
        then [(lit ''thinking'', JObj [(lit ''type'', JStr (lit ''disabled''))])] else [])))"

subsection \<open>Tool schemas\<close>

fun contains_remote_reference :: "json \<Rightarrow> bool" where
  "contains_remote_reference (JObj kvs) =
     list_ex (\<lambda>(k, v). k \<in> {lit ''$ref'', lit ''$dynamicRef''} \<and>
         (case v of JStr s \<Rightarrow> sublist (lit ''://'') s \<or> prefix (lit ''//'') s | _ \<Rightarrow> False) \<or>
       contains_remote_reference v) kvs"
| "contains_remote_reference (JList xs) = list_ex contains_remote_reference xs"
| "contains_remote_reference _ = False"

fun register :: "(dict \<Rightarrow> bool) \<Rightarrow> tool_manifest list \<Rightarrow> tool_manifest list \<Rightarrow> tool_manifest list result" where
  "register valid reg [] = Inr reg"
| "register valid reg (mf # mfs) =
     (if tm_name mf \<in> tm_name ` set reg then Inl (ToolSchemaError ''duplicate tool manifest'')
      else if contains_remote_reference (JObj (tm_input_schema mf))
      then Inl (ToolSchemaError ''remote JSON Schema references are not allowed'')
      else if \<not> valid (tm_input_schema mf) then Inl (ToolSchemaError ''invalid schema for tool'')
      else register valid (reg @ [mf]) mfs)"

definition validate_call :: "gateway \<Rightarrow> tool_manifest list \<Rightarrow> tool_call \<Rightarrow> tool_call result" where
  "validate_call g reg c =
     (case get_row tm_name (tc_name c) reg of
        None \<Rightarrow> Inl (ToolCallValidationError ''tool is not enabled'')
      | Some mf \<Rightarrow> raise_if (gw_schema_error g (tm_input_schema mf) (tc_arguments c))
          (ToolCallValidationError ''arguments for tool are invalid'') (Inr c))"

definition validate_many :: "gateway \<Rightarrow> tool_manifest list \<Rightarrow> tool_call list \<Rightarrow> tool_call list result" where
  "validate_many g reg cs = all_results (map (validate_call g reg) cs)"

text \<open>\<open>raw.encode\<close> stands outside the handler of \<open>parse_arguments\<close>.\<close>

definition parse_arguments :: "(str \<Rightarrow> raw_json result) \<Rightarrow> str \<Rightarrow> dict result" where
  "parse_arguments parse raw =
     bind_result (encoded_size raw) (\<lambda>n.
       if 64 * 1024 < n then Inl (ToolCallValidationError ''tool arguments exceed the local size limit'')
       else case json_loads parse raw of
         Inl _ \<Rightarrow> Inl (ToolCallValidationError ''tool arguments are not valid JSON'')
       | Inr (JObj d) \<Rightarrow> Inr d
       | Inr _ \<Rightarrow> Inl (ToolCallValidationError ''tool arguments must be a JSON object''))"

subsection \<open>Answers\<close>

definition safe_int :: "json option \<Rightarrow> int" where
  "safe_int v = (case v of Some (JInt n) \<Rightarrow> if n < 0 then 0 else n | _ \<Rightarrow> 0)"

definition usage_tokens :: "dict \<Rightarrow> int \<times> int \<times> int" where
  "usage_tokens payload =
     (case dget payload ''usage'' of
        Some (JObj u) \<Rightarrow>
          let prompt = safe_int (dget u ''prompt_tokens''); completion = safe_int (dget u ''completion_tokens'');
              cached = safe_int (dget u ''prompt_cache_hit_tokens'');
              cached1 = (if cached = 0 then (case dget u ''prompt_tokens_details'' of
                  Some (JObj d) \<Rightarrow> safe_int (dget d ''cached_tokens'') | _ \<Rightarrow> cached) else cached)
          in (prompt, completion, min prompt cached1)
      | _ \<Rightarrow> (0, 0, 0))"

definition tool_call_ok :: "tool_call \<Rightarrow> bool" where
  "tool_call_ok c \<longleftrightarrow> len_between 1 256 (tc_call_id c) \<and> len_between 1 128 (tc_name c)"

text \<open>A \<open>ValueError\<close> other than \<open>ToolCallValidationError\<close>, a \<open>ValidationError\<close> or an encoding error included, is
  the provider's invalid tool call.\<close>

definition parse_tool_call :: "(str \<Rightarrow> raw_json result) \<Rightarrow> json \<Rightarrow> tool_call result" where
  "parse_tool_call parse raw =
     (case raw of
        JObj rc \<Rightarrow>
          (case dget rc ''function'' of
             Some (JObj f) \<Rightarrow>
               (case (dget rc ''id'', dget f ''name'', dget f ''arguments'') of
                  (Some (JStr i), Some (JStr n), Some (JStr a)) \<Rightarrow>
                    (case parse_arguments parse a of
                       Inl (ToolCallValidationError t) \<Rightarrow> Inl (ToolCallValidationError t)
                     | Inl _ \<Rightarrow> Inl (ModelProtocolError ''provider returned an invalid tool call'')
                     | Inr d \<Rightarrow>
                         let c = \<lparr>tc_call_id = i, tc_name = n, tc_arguments = d\<rparr>
                         in raise_if (\<not> tool_call_ok c) (ModelProtocolError ''provider returned an invalid tool call'') (Inr c))
                | (Some (JStr i), Some (JStr n), _) \<Rightarrow> Inl (ModelProtocolError ''provider tool arguments must be encoded JSON'')
                | _ \<Rightarrow> Inl (ModelProtocolError ''provider tool call identity is invalid''))
           | _ \<Rightarrow> Inl (ModelProtocolError ''provider tool call has no function object''))
      | _ \<Rightarrow> Inl (ModelProtocolError ''provider returned an invalid tool call''))"

definition parse_tool_calls :: "(str \<Rightarrow> raw_json result) \<Rightarrow> dict \<Rightarrow> tool_call list result" where
  "parse_tool_calls parse message =
     (case dget message ''tool_calls'' of
        None \<Rightarrow> Inr []
      | Some JNull \<Rightarrow> Inr []
      | Some (JList xs) \<Rightarrow> all_results (map (parse_tool_call parse) xs)
      | Some _ \<Rightarrow> Inl (ModelProtocolError ''provider tool_calls must be a list''))"

definition text_or_none :: "json option \<Rightarrow> str option" where
  "text_or_none v = (case v of Some (JStr s) \<Rightarrow> Some s | _ \<Rightarrow> None)"

record choice =
  cc_content :: "str option"
  cc_calls :: "tool_call list"
  cc_finish_reason :: "str option"
  cc_reasoning :: "str option"

definition parse_choice :: "(str \<Rightarrow> raw_json result) \<Rightarrow> dict \<Rightarrow> choice result" where
  "parse_choice parse payload =
     (case dget payload ''choices'' of
        Some (JList (JObj c # _)) \<Rightarrow>
          (case dget c ''message'' of
             Some (JObj m) \<Rightarrow>
               if dget m ''content'' \<notin> {None, Some JNull} \<and> text_or_none (dget m ''content'') = None
               then Inl (ModelProtocolError ''provider message content must be text or null'')
               else bind_result (parse_tool_calls parse m) (\<lambda>calls.
                 Inr \<lparr>cc_content = text_or_none (dget m ''content''), cc_calls = calls,
                      cc_finish_reason = text_or_none (dget c ''finish_reason''),
                      cc_reasoning = text_or_none (dget m ''reasoning_content'')\<rparr>)
           | _ \<Rightarrow> Inl (ModelProtocolError ''provider response has no valid message''))
      | _ \<Rightarrow> Inl (ModelProtocolError ''provider response has no valid choice''))"

subsection \<open>One call\<close>

text \<open>The operations of \<open>BudgetManager\<close> the gateway calls; \<open>PersistentBudgetManager\<close> has the same.\<close>

record 'b budget_ops =
  bo_reserve :: "str \<Rightarrow> str \<Rightarrow> int \<Rightarrow> int \<Rightarrow> 'b \<Rightarrow> reservation result \<times> 'b"
  bo_release :: "uuid \<Rightarrow> 'b \<Rightarrow> unit result \<times> 'b"
  bo_settle :: "uuid \<Rightarrow> int \<Rightarrow> int \<Rightarrow> int \<Rightarrow> 'b \<Rightarrow> settlement result \<times> 'b"
  bo_settle_unknown :: "uuid \<Rightarrow> 'b \<Rightarrow> settlement result \<times> 'b"

text \<open>What the client does with a payload: no connection, an uncertain delivery, any other exception (a
  cancellation), an error status, or a body, which is no JSON text if \<open>None\<close>.\<close>

datatype http_reply =
  Connect_Failed | Transport_Failed | Client_Raised exn | Http_Error | Http_Body "json option"

text \<open>An accounting step in an exception handler, which then raises \<open>e\<close> unless the step itself raises.\<close>

definition then_raise :: "'x result \<times> 'b \<Rightarrow> exn \<Rightarrow> 'a result \<times> 'b" where
  "then_raise step e = (case step of (Inl e1, b) \<Rightarrow> (Inl e1, b) | (Inr _, b) \<Rightarrow> (Inl e, b))"

definition model_response_ok :: "model_response \<Rightarrow> bool" where
  "model_response_ok r \<longleftrightarrow> opt_len_le 500000 (ms_reasoning r) \<and> len_between 1 256 (ms_model r) \<and>
     opt_len_le 128 (ms_finish_reason r) \<and> 0 \<le> ms_prompt_tokens r \<and> 0 \<le> ms_completion_tokens r"

text \<open>From the settled answer to the response.\<close>

definition honors_json :: "gateway \<Rightarrow> model_request \<Rightarrow> str option \<Rightarrow> unit result" where
  "honors_json g rq content =
     (case content of
        None \<Rightarrow> Inr ()
      | Some text \<Rightarrow>
          if \<not> mr_json rq then Inr ()
          else case gw_loads g text of
            None \<Rightarrow> Inl (ModelProtocolError ''provider did not honor JSON response mode'')
          | Some (JObj _) \<Rightarrow> Inr ()
          | Some _ \<Rightarrow> Inl (ModelProtocolError ''JSON response mode requires a JSON object''))"

definition response_of ::
    "gateway \<Rightarrow> tool_manifest list \<Rightarrow> model_request \<Rightarrow> str \<Rightarrow> choice \<Rightarrow> int \<Rightarrow> int \<Rightarrow> model_response result" where
  "response_of g reg rq model ch prompt completion =
     bind_result (validate_many g reg (cc_calls ch)) (\<lambda>calls.
     bind_result (honors_json g rq (cc_content ch)) (\<lambda>_.
       let r = \<lparr>ms_content = cc_content ch, ms_tool_calls = calls, ms_reasoning = cc_reasoning ch, ms_model = model,
             ms_prompt_tokens = prompt, ms_completion_tokens = completion, ms_finish_reason = cc_finish_reason ch\<rparr>
       in raise_if (\<not> model_response_ok r) (ValidationError ''ModelResponse'') (Inr r)))"

text \<open>\<open>parse_choice\<close> raises nothing but the two errors that are caught here.\<close>

definition settle_body ::
    "gateway \<Rightarrow> 'b budget_ops \<Rightarrow> tool_manifest list \<Rightarrow> model_request \<Rightarrow> str \<Rightarrow> uuid \<Rightarrow> json option \<Rightarrow> 'b \<Rightarrow>
     model_response result \<times> 'b" where
  "settle_body g ops reg rq model rid body b =
     (case body of
        None \<Rightarrow> then_raise (bo_settle_unknown ops rid b) (ModelProtocolError ''model provider returned invalid JSON'')
      | Some (JObj payload) \<Rightarrow>
          (case usage_tokens payload of (prompt, completion, cached) \<Rightarrow>
             (case parse_choice (gw_parse g) payload of
                Inl e \<Rightarrow>
                  if prompt \<noteq> 0 \<or> completion \<noteq> 0
                  then then_raise (bo_settle ops rid prompt completion cached b) e
                  else then_raise (bo_settle_unknown ops rid b) e
              | Inr ch \<Rightarrow>
                  (case bo_settle ops rid prompt completion cached b of
                     (Inl e, b1) \<Rightarrow> (Inl e, b1)
                   | (Inr _, b1) \<Rightarrow> (response_of g reg rq model ch prompt completion, b1))))
      | Some _ \<Rightarrow> then_raise (bo_settle_unknown ops rid b) (ModelProtocolError ''model provider returned a non-object response''))"

definition exchange ::
    "gateway \<Rightarrow> 'b budget_ops \<Rightarrow> tool_manifest list \<Rightarrow> model_request \<Rightarrow> str \<Rightarrow> uuid \<Rightarrow> http_reply \<Rightarrow> 'b \<Rightarrow>
     model_response result \<times> 'b" where
  "exchange g ops reg rq model rid reply b =
     (case reply of
        Connect_Failed \<Rightarrow>
          then_raise (bo_release ops rid b) (ModelTransportError ''model provider connection failed before delivery'')
      | Transport_Failed \<Rightarrow>
          then_raise (bo_settle_unknown ops rid b) (ModelTransportError ''model provider delivery state is unknown'')
      | Client_Raised e \<Rightarrow> (Inl e, b)
      | Http_Error \<Rightarrow> then_raise (bo_settle_unknown ops rid b) (ModelTransportError ''model provider returned HTTP error'')
      | Http_Body body \<Rightarrow> settle_body g ops reg rq model rid body b)"

text \<open>\<open>require_secret\<close>: a missing or empty credential.\<close>

definition credential :: "gateway \<Rightarrow> unit result" where
  "credential g =
     (case pv_secret_name (gw_config g) of
        None \<Rightarrow> Inr ()
      | Some n \<Rightarrow> raise_if (gw_secret g n \<in> {None, Some []}) (OtherException ''SecretNotFoundError'') (Inr ()))"

text \<open>The checks before the reservation: the registry and the estimate.\<close>

definition admit :: "gateway \<Rightarrow> model_request \<Rightarrow> (tool_manifest list \<times> int) result" where
  "admit g rq =
     (if mr_messages rq = [] then Inl (ModelProtocolError ''model request requires at least one message'')
      else bind_result (register (gw_schema_valid g) [] (mr_tools rq)) (\<lambda>reg.
        bind_result (estimate_prompt_tokens g rq) (\<lambda>estimate.
          if pv_context_tokens (gw_config g) < estimate + mr_max_tokens rq
          then Inl (ModelProtocolError ''request exceeds the configured model context window'')
          else bind_result (credential g) (\<lambda>_. Inr (reg, estimate)))))"

text \<open>The result, the budget afterwards, and the payloads that were posted.\<close>

definition generate ::
    "gateway \<Rightarrow> 'b budget_ops \<Rightarrow> (dict \<Rightarrow> http_reply) \<Rightarrow> model_request \<Rightarrow> 'b \<Rightarrow>
     model_response result \<times> 'b \<times> dict list" where
  "generate g ops net rq b =
     (case admit g rq of
        Inl e \<Rightarrow> (Inl e, b, [])
      | Inr (reg, estimate) \<Rightarrow>
          let routed = route (gw_config g) rq
          in case bo_reserve ops (rm_provider routed) (rm_model routed) estimate (mr_max_tokens rq) b of
               (Inl e, b1) \<Rightarrow> (Inl e, b1, [])
             | (Inr r, b1) \<Rightarrow>
                 (case request_payload g rq (rm_model routed) (rm_thinking routed) of
                    Inl e \<Rightarrow> (Inl e, b1, [])
                  | Inr payload \<Rightarrow>
                      (case exchange g ops reg rq (rm_model routed) (br_id r) (net payload) b1 of
                         (res, b2) \<Rightarrow> (res, b2, [payload]))))"

text \<open>\<open>verify_models\<close>: the ids of the provider's catalogue, when both routed models are among them.\<close>

definition catalogue_id :: "json \<Rightarrow> str option" where
  "catalogue_id item =
     (case item of
        JObj d \<Rightarrow> (case dget d ''id'' of Some (JStr i) \<Rightarrow> if strip i \<noteq> [] then Some i else None | _ \<Rightarrow> None)
      | _ \<Rightarrow> None)"

definition catalogue_answer :: "provider_config \<Rightarrow> json option \<Rightarrow> str list result" where
  "catalogue_answer cfg body =
     (case body of
        None \<Rightarrow> Inl (ModelProtocolError ''model catalogue returned invalid JSON'')
      | Some (JObj d) \<Rightarrow>
          (case dget d ''data'' of
             Some (JList items) \<Rightarrow>
               let ids = List.map_filter catalogue_id items
               in raise_if (\<not> {pv_flash_model cfg, pv_pro_model cfg} \<subseteq> set ids)
                    (ModelProtocolError ''configured model catalogue is missing'') (Inr ids)
           | _ \<Rightarrow> Inl (ModelProtocolError ''model catalogue returned an invalid object''))
      | Some _ \<Rightarrow> Inl (ModelProtocolError ''model catalogue returned an invalid object''))"

definition verify_models :: "gateway \<Rightarrow> http_reply \<Rightarrow> str list result" where
  "verify_models g reply =
     bind_result (credential g) (\<lambda>_.
       case reply of
         Client_Raised e \<Rightarrow> Inl e
       | Http_Error \<Rightarrow> Inl (ModelTransportError ''model catalogue health check returned HTTP error'')
       | Http_Body body \<Rightarrow> catalogue_answer (gw_config g) body
       | _ \<Rightarrow> Inl (ModelTransportError ''model catalogue health check failed''))"

lemma verified_models:
  assumes "verify_models g reply = Inr ids"
  shows "pv_flash_model (gw_config g) \<in> set ids" "pv_pro_model (gw_config g) \<in> set ids" "\<forall>i \<in> set ids. strip i \<noteq> []"
proof -
  have f: "\<forall>i \<in> set (List.map_filter catalogue_id items). strip i \<noteq> []" for items
    by (auto simp: map_filter_def catalogue_id_def split: json.splits option.splits if_splits)
  show "pv_flash_model (gw_config g) \<in> set ids" "pv_pro_model (gw_config g) \<in> set ids" "\<forall>i \<in> set ids. strip i \<noteq> []"
    using assms f by (auto simp: verify_models_def catalogue_answer_def bind_result_Inr_iff Let_def
        split: http_reply.splits option.splits json.splits)
qed

subsection \<open>The budget as an interface\<close>

text \<open>What the gateway relies on: a reservation opens at most one id, and each way of ending it closes that id, also
  when it raises.\<close>

locale budget_contract =
  fixes ops :: "'b budget_ops" and open_ids :: "'b \<Rightarrow> uuid set"
  assumes reserving: "bo_reserve ops p m a c b = (Inr r, b1) \<Longrightarrow> open_ids b1 \<subseteq> insert (br_id r) (open_ids b)"
    and refusing: "bo_reserve ops p m a c b = (Inl e, b1) \<Longrightarrow> open_ids b1 \<subseteq> open_ids b"
    and releasing: "open_ids (snd (bo_release ops i b)) \<subseteq> open_ids b - {i}"
    and settling: "open_ids (snd (bo_settle ops i x y z b)) \<subseteq> open_ids b - {i}"
    and settling_unknown: "open_ids (snd (bo_settle_unknown ops i b)) \<subseteq> open_ids b - {i}"
begin

lemma then_raise_snd [simp]: "snd (then_raise step e) = snd step"
  by (cases step; cases "fst step") (auto simp: then_raise_def)

lemma settle_body_closes: "open_ids (snd (settle_body g ops reg rq model i body b)) \<subseteq> open_ids b - {i}"
proof -
  have s: "open_ids (snd (case bo_settle ops i x y z b of (Inl e, b1) \<Rightarrow> (Inl e, b1) | (Inr _, b1) \<Rightarrow> (R, b1))) \<subseteq> open_ids b - {i}"
    for x y z and R :: "model_response result"
    using settling [of i x y z b] by (auto split: prod.split sum.split)
  show ?thesis
    unfolding settle_body_def
    by (simp add: settling settling_unknown s split: option.split json.split prod.split sum.split)
qed

lemma exchange_closes:
  assumes "\<And>e. reply \<noteq> Client_Raised e"
  shows "open_ids (snd (exchange g ops reg rq model i reply b)) \<subseteq> open_ids b - {i}"
  using assms unfolding exchange_def
  using releasing settling_unknown settle_body_closes by (cases reply) (auto split: if_splits)

lemma generate_closes:
  assumes "generate g ops net rq b = (res, b', sent)"
    and "request_payload g rq (rm_model (route (gw_config g) rq)) (rm_thinking (route (gw_config g) rq)) = Inr payload"
    and "\<And>e. net payload \<noteq> Client_Raised e"
  shows "open_ids b' \<subseteq> open_ids b"
proof (cases "admit g rq")
  case (Inl e)
  with assms(1) show ?thesis by (simp add: generate_def)
next
  case (Inr x)
  obtain reg est where x: "x = (reg, est)" by force
  let ?m = "route (gw_config g) rq"
  obtain v b1 where r: "bo_reserve ops (rm_provider ?m) (rm_model ?m) est (mr_max_tokens rq) b = (v, b1)" by force
  show ?thesis
  proof (cases v)
    case (Inl e)
    with assms(1) Inr x r have "b' = b1" by (simp add: generate_def Let_def)
    with refusing r Inl show ?thesis by blast
  next
    case (Inr q)
    with assms(1,2) \<open>admit g rq = Inr x\<close> x r have "b' = snd (exchange g ops reg rq (rm_model ?m) (br_id q) (net payload) b1)"
      by (auto simp: generate_def Let_def split: prod.splits)
    moreover have "open_ids b1 \<subseteq> insert (br_id q) (open_ids b)" using reserving r Inr by blast
    ultimately show ?thesis using exchange_closes [OF assms(3)] by fastforce
  qed
qed

end

definition memory_ops :: "uuid \<Rightarrow> time \<Rightarrow> budget_manager budget_ops" where
  "memory_ops rid now = \<lparr>bo_reserve = reserve rid now, bo_release = release, bo_settle = settle, bo_settle_unknown = settle_unknown\<rparr>"

definition ledger_ops :: "bool \<Rightarrow> uuid \<Rightarrow> time \<Rightarrow> bool \<Rightarrow> time \<Rightarrow> persistent_manager budget_ops" where
  "ledger_ops io1 rid t1 io2 t2 = \<lparr>bo_reserve = pm_reserve io1 rid t1, bo_release = pm_release io2 t2,
     bo_settle = pm_settle io2 t2, bo_settle_unknown = pm_settle_unknown io2 t2\<rparr>"

definition open_reservations :: "budget_manager \<Rightarrow> uuid set" where
  "open_reservations m = br_id ` set (bm_reservations m)"

lemma open_charge [simp]: "open_reservations (charge r a m) = open_reservations m"
  by (simp add: open_reservations_def charge_def)

lemma open_pop: "open_reservations (pop_reservation i m) = open_reservations m - {i}"
  by (auto simp: open_reservations_def pop_reservation_def)

lemma find_reservation_None: "find_reservation i m = None \<Longrightarrow> i \<notin> open_reservations m"
  by (auto simp: find_reservation_def open_reservations_def get_row_def find_None_iff)

lemma reserve_open:
  "reserve rid now p m a c b = (Inr r, b1) \<Longrightarrow> br_id r = rid \<and> open_reservations b1 \<subseteq> insert rid (open_reservations b)"
  "reserve rid now p m a c b = (Inl e, b1) \<Longrightarrow> b1 = b"
  by (auto simp: reserve_def Let_def put_reservation_def open_reservations_def split: if_splits sum.splits)

lemma release_open: "open_reservations (snd (release i b)) \<subseteq> open_reservations b - {i}"
  by (auto simp: release_def open_pop dest: find_reservation_None split: option.split)

lemma settle_open: "open_reservations (snd (settle i x y z b)) \<subseteq> open_reservations b - {i}"
  by (auto simp: settle_def Let_def open_pop dest: find_reservation_None split: option.split sum.split)

lemma settle_unknown_open: "open_reservations (snd (settle_unknown i b)) \<subseteq> open_reservations b - {i}"
  by (auto simp: settle_unknown_def open_pop dest: find_reservation_None split: option.split)

interpretation memory_budget: budget_contract "memory_ops rid now" open_reservations
proof unfold_locales
  fix p m a c b r b1 e i x y z
  show "bo_reserve (memory_ops rid now) p m a c b = (Inr r, b1) \<Longrightarrow> open_reservations b1 \<subseteq> insert (br_id r) (open_reservations b)"
    using reserve_open(1) by (auto simp: memory_ops_def)
  show "bo_reserve (memory_ops rid now) p m a c b = (Inl e, b1) \<Longrightarrow> open_reservations b1 \<subseteq> open_reservations b"
    by (auto simp: memory_ops_def dest: reserve_open(2))
qed (simp_all add: memory_ops_def release_open settle_open settle_unknown_open)

lemma recorded_settlement_memory [simp]:
  "pm_memory (snd (record_settlement io now i st a res pm)) = pm_memory pm"
  by (auto simp: record_settlement_def split: sum.split)

lemma pm_memories:
  "pm_memory (snd (pm_release io now i pm)) = snd (release i (pm_memory pm))"
  "pm_memory (snd (pm_settle io now i x y z pm)) = snd (settle i x y z (pm_memory pm))"
  "pm_memory (snd (pm_settle_unknown io now i pm)) = snd (settle_unknown i (pm_memory pm))"
  by (auto simp: pm_release_def pm_settle_def pm_settle_unknown_def split: prod.split sum.split)

lemma pm_reserve_open:
  "pm_reserve io rid now p m a c b = (Inr r, b1) \<Longrightarrow>
     open_reservations (pm_memory b1) \<subseteq> insert (br_id r) (open_reservations (pm_memory b))"
  "pm_reserve io rid now p m a c b = (Inl e, b1) \<Longrightarrow> open_reservations (pm_memory b1) \<subseteq> open_reservations (pm_memory b)"
proof -
  obtain v w where r: "reserve rid now p m a c (pm_memory b) = (v, w)" by force
  show "pm_reserve io rid now p m a c b = (Inr r, b1) \<Longrightarrow>
     open_reservations (pm_memory b1) \<subseteq> insert (br_id r) (open_reservations (pm_memory b))"
    using r reserve_open(1) [of rid now p m a c "pm_memory b"]
    by (cases v) (auto simp: pm_reserve_def split: sum.splits)
  show "pm_reserve io rid now p m a c b = (Inl e, b1) \<Longrightarrow> open_reservations (pm_memory b1) \<subseteq> open_reservations (pm_memory b)"
  proof (cases v)
    case (Inl e1)
    then show "pm_reserve io rid now p m a c b = (Inl e, b1) \<Longrightarrow> ?thesis"
      using r reserve_open(2) [of rid now p m a c "pm_memory b"] by (auto simp: pm_reserve_def)
  next
    case (Inr q)
    then show "pm_reserve io rid now p m a c b = (Inl e, b1) \<Longrightarrow> ?thesis"
      using r reserve_open(1) [of rid now p m a c "pm_memory b" q w] release_open [of "br_id q" w]
      by (auto simp: pm_reserve_def split: sum.splits)
  qed
qed

interpretation ledger_budget: budget_contract "ledger_ops io1 rid t1 io2 t2" "\<lambda>pm. open_reservations (pm_memory pm)"
proof unfold_locales
  fix p m a c b r b1 e i x y z
  show "bo_reserve (ledger_ops io1 rid t1 io2 t2) p m a c b = (Inr r, b1) \<Longrightarrow>
      open_reservations (pm_memory b1) \<subseteq> insert (br_id r) (open_reservations (pm_memory b))"
    using pm_reserve_open(1) by (simp add: ledger_ops_def)
  show "bo_reserve (ledger_ops io1 rid t1 io2 t2) p m a c b = (Inl e, b1) \<Longrightarrow>
      open_reservations (pm_memory b1) \<subseteq> open_reservations (pm_memory b)"
    using pm_reserve_open(2) by (simp add: ledger_ops_def)
qed (simp_all add: ledger_ops_def pm_memories release_open settle_open settle_unknown_open)

subsection \<open>What a call costs\<close>

text \<open>The bill of an answer: nothing before delivery, the whole reservation while the outcome is uncertain, the
  provider's own count once it has given one.\<close>

datatype bill = Bill_Nothing | Bill_Reserved | Bill_Usage int int int

definition bill_of :: "(str \<Rightarrow> raw_json result) \<Rightarrow> http_reply \<Rightarrow> bill" where
  "bill_of parse reply = (case reply of
     Connect_Failed \<Rightarrow> Bill_Nothing
   | Http_Body (Some (JObj payload)) \<Rightarrow>
       (case usage_tokens payload of (prompt, completion, cached) \<Rightarrow>
          if isl (parse_choice parse payload) \<and> prompt = 0 \<and> completion = 0 then Bill_Reserved
          else Bill_Usage prompt completion cached)
   | _ \<Rightarrow> Bill_Reserved)"

definition bill_amount :: "model_price \<Rightarrow> reservation \<Rightarrow> bill \<Rightarrow> rat result" where
  "bill_amount p r bl = (case bl of Bill_Nothing \<Rightarrow> Inr 0 | Bill_Reserved \<Rightarrow> Inr (br_amount r)
     | Bill_Usage x y z \<Rightarrow> cost p x y z)"

lemma safe_int_nonneg: "0 \<le> safe_int v"
  by (auto simp: safe_int_def split: option.split json.split)

lemma usage_nonneg:
  assumes "usage_tokens payload = (x, y, z)"
  shows "0 \<le> x" "0 \<le> y" "0 \<le> z" "z \<le> x"
  using assms safe_int_nonneg by (auto simp: usage_tokens_def Let_def split: option.splits json.splits)

lemma usage_cost:
  assumes "usage_tokens payload = (x, y, z)"
  shows "\<exists>c. cost p x y z = Inr c"
proof -
  have "\<not> min x (min y z) < 0" using usage_nonneg [OF assms] by simp
  then show ?thesis unfolding cost_def Let_def by (intro exI, subst if_not_P) (assumption | rule refl)+
qed

lemma exchange_spend:
  assumes r: "find_reservation i m = Some r" and p: "price_for m (br_provider r) (br_model r) = Inr p"
    and reply: "\<And>e. reply \<noteq> Client_Raised e"
  shows "\<exists>amount. bill_amount p r (bill_of (gw_parse g) reply) = Inr amount \<and>
    snd (exchange g (memory_ops rid now) reg rq model i reply m) =
      (if reply = Connect_Failed then pop_reservation i m else charge r amount (pop_reservation i m))"
proof -
  have pp: "price_for (pop_reservation i m) (br_provider r) (br_model r) = Inr p"
    using p by (simp add: price_for_def pop_reservation_def)
  have u: "snd (then_raise (settle_unknown i m) e) = charge r (br_amount r) (pop_reservation i m)" for e :: exn
    using r by (simp add: settle_unknown_def then_raise_def)
  have u1: "snd (settle_unknown i m) = charge r (br_amount r) (pop_reservation i m)"
    using r by (simp add: settle_unknown_def)
  have s: "snd (settle i x y z m) = charge r c (pop_reservation i m)" "\<exists>v. fst (settle i x y z m) = Inr v"
    if "cost p x y z = Inr c" for x y z c
    using r pp that by (simp_all add: settle_def Let_def)
  have sr: "snd (then_raise (settle i x y z m) e) = charge r c (pop_reservation i m)"
    if "cost p x y z = Inr c" for x y z c and e :: exn
    using s [OF that] by (cases "settle i x y z m") (auto simp: then_raise_def)
  show ?thesis
  proof (cases reply)
    case (Http_Body body)
    show ?thesis
    proof (cases "\<exists>payload. body = Some (JObj payload)")
      case True
      then obtain payload where b: "body = Some (JObj payload)" by blast
      obtain x y z where us: "usage_tokens payload = (x, y, z)" by (cases "usage_tokens payload") auto
      obtain c where c: "cost p x y z = Inr c" using usage_cost [OF us] by blast
      obtain v where v: "settle i x y z m = (Inr v, charge r c (pop_reservation i m))"
        using s [OF c] by (cases "settle i x y z m") auto
      show ?thesis
        by (cases "parse_choice (gw_parse g) payload")
          (auto simp: Http_Body b us c v exchange_def settle_body_def bill_of_def bill_amount_def memory_ops_def u u1 s(1) [OF c] sr)
    next
      case False
      then have "bill_of (gw_parse g) reply = Bill_Reserved"
        by (auto simp: Http_Body bill_of_def split: option.split json.split)
      moreover have "snd (settle_body g (memory_ops rid now) reg rq model i body m) = charge r (br_amount r) (pop_reservation i m)"
        using False by (auto simp: settle_body_def memory_ops_def u u1 split: option.split json.split)
      ultimately show ?thesis by (simp add: Http_Body exchange_def bill_amount_def)
    qed
  next
    case Connect_Failed
    then show ?thesis
      using r by (simp add: exchange_def memory_ops_def release_def then_raise_def bill_of_def bill_amount_def)
  next
    case (Client_Raised e)
    with reply show ?thesis by blast
  qed (simp_all add: exchange_def memory_ops_def u u1 bill_of_def bill_amount_def)
qed

lemma find_snoc: "\<forall>x \<in> set xs. \<not> P x \<Longrightarrow> find P (xs @ [y]) = (if P y then Some y else None)"
  by (induction xs) auto


text \<open>A call that posts nothing spends nothing; and at most one payload is posted.\<close>

lemma generate_posts: "generate g ops net rq b = (res, b', sent) \<Longrightarrow> length sent \<le> 1"
  by (auto simp: generate_def Let_def split: sum.splits prod.splits)

text \<open>No reservation is stranded: with the in-memory manager and with the ledger, whether or not the ledger's
  writes succeed, a call leaves no reservation open that was not open before, provided that its messages can be
  written as a payload and the client fails only in the ways the gateway distinguishes.\<close>

theorem model_call_strands_nothing:
  assumes "request_payload g rq (rm_model (route (gw_config g) rq)) (rm_thinking (route (gw_config g) rq)) = Inr payload"
    and "\<And>e. net payload \<noteq> Client_Raised e"
  shows "open_reservations (fst (snd (generate g (memory_ops rid now) net rq m))) \<subseteq> open_reservations m \<and>
    open_reservations (pm_memory (fst (snd (generate g (ledger_ops io1 rid t1 io2 t2) net rq pm)))) \<subseteq>
      open_reservations (pm_memory pm)"
proof
  obtain res m' sent where "generate g (memory_ops rid now) net rq m = (res, m', sent)" by (metis prod_cases3)
  from memory_budget.generate_closes [OF this assms] this
  show "open_reservations (fst (snd (generate g (memory_ops rid now) net rq m))) \<subseteq> open_reservations m" by simp
  obtain res2 pm' sent2 where "generate g (ledger_ops io1 rid t1 io2 t2) net rq pm = (res2, pm', sent2)" by (metis prod_cases3)
  from ledger_budget.generate_closes [OF this assms] this
  show "open_reservations (pm_memory (fst (snd (generate g (ledger_ops io1 rid t1 io2 t2) net rq pm)))) \<subseteq>
      open_reservations (pm_memory pm)" by simp
qed

text \<open>A malformed message is noticed after the reservation, which then stays open.\<close>

lemma malformed_payload_strands:
  assumes "admit g rq = Inr (reg, est)"
    and "request_payload g rq (rm_model (route (gw_config g) rq)) (rm_thinking (route (gw_config g) rq)) = Inl e"
    and "reserve rid now (rm_provider (route (gw_config g) rq)) (rm_model (route (gw_config g) rq)) est (mr_max_tokens rq) m = (Inr r, m1)"
  shows "generate g (memory_ops rid now) net rq m = (Inl e, m1, []) \<and> rid \<in> open_reservations m1"
  using assms by (auto simp: generate_def Let_def memory_ops_def reserve_def put_reservation_def open_reservations_def
      split: if_splits sum.splits)

text \<open>An answer with a valid choice and no usage object is settled at no cost at all, although the same answer with an
  invalid choice is charged in full.\<close>

lemma missing_usage_is_free:
  assumes "dget payload ''usage'' = None" and "parse_choice parse payload = Inr ch"
  shows "bill_amount p r (bill_of parse (Http_Body (Some (JObj payload)))) = Inr 0"
  using assms by (simp add: bill_of_def usage_tokens_def bill_amount_def cost_def)

lemma all_results_in: "all_results (map f xs) = Inr ys \<Longrightarrow> y \<in> set ys \<Longrightarrow> \<exists>x. f x = Inr y"
  by (induction xs arbitrary: ys) (auto simp: bind_result_Inr_iff)

lemma register_sound:
  "register valid reg mfs = Inr out \<Longrightarrow>
   \<forall>mf \<in> set out. mf \<in> set reg \<or> mf \<in> set mfs \<and> valid (tm_input_schema mf) \<and> \<not> contains_remote_reference (JObj (tm_input_schema mf))"
proof (induction mfs arbitrary: reg)
  case (Cons mf mfs)
  then have ok: "valid (tm_input_schema mf)" "\<not> contains_remote_reference (JObj (tm_input_schema mf))"
    "register valid (reg @ [mf]) mfs = Inr out" by (auto simp del: contains_remote_reference.simps split: if_splits)
  from Cons.IH [OF ok(3)] ok(1,2) show ?case by auto
qed simp

text \<open>C23. A model cannot call what was not enabled: every tool call in a response of the gateway names a tool of the
  request, its arguments passed that tool's schema, were JSON text of at most 64 KiB without duplicate keys, and the
  schema of every enabled tool was valid and free of remote references.\<close>

theorem tool_calls_validated:
  assumes "generate g ops net rq b = (Inr resp, b', sent)" and "c \<in> set (ms_tool_calls resp)"
  shows "\<exists>mf \<in> set (mr_tools rq). tm_name mf = tc_name c \<and> \<not> gw_schema_error g (tm_input_schema mf) (tc_arguments c) \<and>
    gw_schema_valid g (tm_input_schema mf) \<and> \<not> contains_remote_reference (JObj (tm_input_schema mf))"
proof -
  let ?m = "route (gw_config g) rq"
  from assms(1) obtain reg est where adm: "admit g rq = Inr (reg, est)" by (auto simp: generate_def split: sum.splits)
  then have reg: "register (gw_schema_valid g) [] (mr_tools rq) = Inr reg"
    by (auto simp: admit_def bind_result_Inr_iff split: if_splits)
  from assms(1) adm obtain rid reply b1 where
    x: "exchange g ops reg rq (rm_model ?m) rid reply b1 = (Inr resp, b')"
    by (auto simp: generate_def Let_def split: sum.splits prod.splits)
  then obtain body where "settle_body g ops reg rq (rm_model ?m) rid body b1 = (Inr resp, b')"
    by (cases reply) (auto simp: exchange_def then_raise_def split: prod.splits sum.splits)
  then obtain ch prompt completion where "response_of g reg rq (rm_model ?m) ch prompt completion = Inr resp"
    by (auto simp: settle_body_def then_raise_def split: option.splits json.splits prod.splits sum.splits if_splits)
  then have "\<exists>cs. validate_many g reg cs = Inr (ms_tool_calls resp)"
    by (auto simp: response_of_def bind_result_Inr_iff Let_def raise_if_def split: if_splits)
  then have "\<exists>c1. validate_call g reg c1 = Inr c" using assms(2) by (auto simp: validate_many_def intro: all_results_in)
  then obtain mf where mf: "get_row tm_name (tc_name c) reg = Some mf" "\<not> gw_schema_error g (tm_input_schema mf) (tc_arguments c)"
    by (auto simp: validate_call_def raise_if_def split: option.splits if_splits)
  then have "mf \<in> set reg" "tm_name mf = tc_name c" using get_row_in [OF mf(1)] by auto
  with register_sound [OF reg] mf(2) show ?thesis by auto
qed

subsection \<open>A concrete call\<close>

definition demo_provider :: provider_config where
  "demo_provider = \<lparr>pv_provider = lit ''deepseek'', pv_base_url = lit ''https://api.deepseek.com'', pv_secret_name = None,
     pv_flash_model = lit ''flash'', pv_pro_model = lit ''pro'', pv_timeout_seconds = 60, pv_context_tokens = 4096,
     pv_enable_thinking_on_pro = True\<rparr>"

definition demo_tool :: tool_manifest where
  "demo_tool = \<lparr>tm_name = lit ''search'', tm_description = [], tm_input_schema = [], tm_action_kind = lit ''summarize'',
     tm_side_effect = False, tm_risk_level = lit ''low'', tm_idempotent = True, tm_required_scopes = [],
     tm_allowed_data = [], tm_timeout_seconds = 30, tm_max_output_bytes = 4096, tm_monetary_cost_cny = lit ''0''\<rparr>"

definition demo_gateway :: gateway where
  "demo_gateway = \<lparr>gw_config = demo_provider, gw_secret = (\<lambda>n. None), gw_float = (\<lambda>q. lit ''0.3''), gw_parse = (\<lambda>s. Inr (RObj [])),
     gw_loads = (\<lambda>s. None), gw_schema_valid = (\<lambda>s. True), gw_schema_error = (\<lambda>s a. False), gw_dump = (\<lambda>m. JObj [])\<rparr>"

definition demo_request :: model_request where
  "demo_request = \<lparr>mr_messages = [plain_message Role_User (lit ''hi'')], mr_tools = [demo_tool], mr_temperature = 3 / 10,
     mr_max_tokens = 100, mr_json = False, mr_deep = False, mr_correlation_id = None\<rparr>"

definition demo_body :: dict where
  "demo_body = [(lit ''usage'', JObj [(lit ''prompt_tokens'', JInt 40), (lit ''completion_tokens'', JInt 10)]),
     (lit ''choices'', JList [JObj [(lit ''message'', JObj [(lit ''tool_calls'', JList [JObj [(lit ''id'', JStr (lit ''c1'')),
        (lit ''function'', JObj [(lit ''name'', JStr (lit ''search'')), (lit ''arguments'', JStr (lit ''{}''))])]])])]])]"

definition demo_reply :: http_reply where
  "demo_reply = Http_Body (Some (JObj demo_body))"

lemma demo_texts:
  "message_payload f (plain_message Role_User (lit ''hi'')) = Inr [(lit ''role'', JStr (lit ''user'')), (lit ''content'', JStr (lit ''hi''))]"
  "json_compact f (JObj [(lit ''role'', JStr (lit ''user'')), (lit ''content'', JStr (lit ''hi''))]) = lit ''{\"role\":\"user\",\"content\":\"hi\"}''"
  "json_compact f (JList [JObj []]) = lit ''[{}]''"
  "encoded_size (lit ''{\"role\":\"user\",\"content\":\"hi\"}'') = Inr 30"
  "encoded_size (lit ''[{}]'') = Inr 4"
  by (simp_all add: message_payload_def plain_message_def opt_str_def lit_def json_string_def json_char_def
      encoded_size_def has_surrogate_def utf8_size_def of_char_def)

lemma demo_estimate: "estimate_prompt_tokens demo_gateway demo_request = Inr 674"
  by (simp add: estimate_prompt_tokens_def demo_gateway_def demo_request_def count_tokens_def message_tokens_def demo_texts Let_def
      del: json_compact.simps)

lemma demo_admitted: "admit demo_gateway demo_request = Inr ([demo_tool], 674)"
  unfolding admit_def demo_estimate
  by (simp add: demo_gateway_def demo_request_def demo_tool_def demo_provider_def credential_def)

lemma demo_payload: "\<exists>payload. request_payload demo_gateway demo_request md th = Inr payload"
  by (simp add: request_payload_def demo_request_def demo_gateway_def demo_texts)

lemma demo_parsed: "usage_tokens demo_body = (40, 10, 0)"
  "parse_choice (gw_parse demo_gateway) demo_body = Inr \<lparr>cc_content = None,
     cc_calls = [\<lparr>tc_call_id = lit ''c1'', tc_name = lit ''search'', tc_arguments = []\<rparr>], cc_finish_reason = None, cc_reasoning = None\<rparr>"
  by (simp_all add: demo_body_def usage_tokens_def safe_int_def parse_choice_def parse_tool_calls_def parse_tool_call_def
      parse_arguments_def json_loads_def demo_gateway_def encoded_size_def has_surrogate_def utf8_size_def lit_def tool_call_ok_def
      text_or_none_def dget_def of_char_def len_between_def raise_if_def reject_duplicate_keys_def)

definition demo_call :: tool_call where
  "demo_call = \<lparr>tc_call_id = lit ''c1'', tc_name = lit ''search'', tc_arguments = []\<rparr>"

lemma demo_reserved: "\<exists>r m1 v m2. reserve [2] 0 (lit ''deepseek'') (lit ''flash'') 674 100 (pm_memory demo_manager) = (Inr r, m1) \<and>
   settle (br_id r) 40 10 0 m1 = (Inr v, m2)"
  by (simp add: reserve_def demo_manager_created price_for_def demo_prices_def cost_def settle_def find_reservation_def get_row_def
      put_reservation_def pop_reservation_def cached_price_def spend_get_def reserved_day_def reserved_month_def demo_limits_def)

lemma demo_response: "\<exists>resp. response_of demo_gateway [demo_tool] demo_request md \<lparr>cc_content = None, cc_calls = [demo_call],
     cc_finish_reason = None, cc_reasoning = None\<rparr> 40 10 = Inr resp \<and> ms_tool_calls resp = [demo_call]" if "len_between 1 256 md"
  using that
  by (simp add: response_of_def validate_many_def validate_call_def demo_tool_def get_row_def demo_gateway_def honors_json_def
     raise_if_def model_response_ok_def demo_call_def opt_len_le_def)

lemma demo_generated:
  "\<exists>resp m' payload. generate demo_gateway (memory_ops [2] 0) (\<lambda>_. demo_reply) demo_request (pm_memory demo_manager) =
     (Inr resp, m', [payload]) \<and> ms_tool_calls resp = [demo_call]"
proof -
  obtain r m1 v m2 where r: "reserve [2] 0 (lit ''deepseek'') (lit ''flash'') 674 100 (pm_memory demo_manager) = (Inr r, m1)"
    "settle (br_id r) 40 10 0 m1 = (Inr v, m2)" using demo_reserved by blast
  obtain payload where p: "request_payload demo_gateway demo_request (lit ''flash'') False = Inr payload" using demo_payload by blast
  have md: "len_between 1 256 (lit ''flash'')" by (simp add: len_between_def)
  from demo_response [OF this] obtain resp where
    resp: "response_of demo_gateway [demo_tool] demo_request (lit ''flash'') \<lparr>cc_content = None, cc_calls = [demo_call],
      cc_finish_reason = None, cc_reasoning = None\<rparr> 40 10 = Inr resp" "ms_tool_calls resp = [demo_call]" by blast
  have rt: "route (gw_config demo_gateway) demo_request = \<lparr>rm_provider = lit ''deepseek'', rm_model = lit ''flash'',
     rm_tier = Tier_Flash, rm_thinking = False\<rparr>" "mr_max_tokens demo_request = 100"
    by (simp_all add: route_def demo_gateway_def demo_request_def demo_provider_def)
  show ?thesis
    using r p resp demo_parsed [folded demo_call_def]
    by (simp add: generate_def demo_admitted rt memory_ops_def exchange_def demo_reply_def settle_body_def)
qed


theorem model_call_strands_nothing_witness:
  "open_reservations (fst (snd (generate demo_gateway (memory_ops [2] 0) (\<lambda>_. Transport_Failed) demo_request (pm_memory demo_manager))))
     \<subseteq> open_reservations (pm_memory demo_manager)"
proof -
  obtain payload where p: "request_payload demo_gateway demo_request (rm_model (route (gw_config demo_gateway) demo_request))
      (rm_thinking (route (gw_config demo_gateway) demo_request)) = Inr payload" using demo_payload by blast
  from model_call_strands_nothing [OF p, of "\<lambda>_. Transport_Failed" "[2]" 0 "pm_memory demo_manager" True 0 True 0 demo_manager]
  show ?thesis by simp
qed

theorem tool_calls_validated_witness:
  "\<exists>resp b' sent. generate demo_gateway (memory_ops [2] 0) (\<lambda>_. demo_reply) demo_request (pm_memory demo_manager) = (Inr resp, b', sent) \<and>
     (\<exists>mf \<in> set (mr_tools demo_request). tm_name mf = lit ''search'')"
proof -
  obtain resp m' payload where
    g: "generate demo_gateway (memory_ops [2] 0) (\<lambda>_. demo_reply) demo_request (pm_memory demo_manager) = (Inr resp, m', [payload])"
    and c: "demo_call \<in> set (ms_tool_calls resp)" using demo_generated by auto
  from tool_calls_validated [OF g c] g show ?thesis by (auto simp: demo_call_def)
qed

end
