(* ===== verification/Derivation.thy ===== *)
theory Derivation
  imports Context
begin

text \<open>
  The derivation of memories of \<open>lemonbot/memory/derivation.py\<close>

and the segment compression of
  \<open>memory/compression.py\<close>, over the store interface of \<open>memory/store.py\<close>: one model call over a bounded transcript,
  whose answer becomes records that name their sources. The model backend, the parsing of its JSON answer, \<open>uuid5\<close>,
  \<open>uuid4\<close> and the clock, which is read once for all records of a call, are parameters.
\<close>

subsection \<open>The store as its clients see it\<close>

record 's store_ops =
  so_add :: "memory_record \<Rightarrow> 's \<Rightarrow> 's result"
  so_get :: "uuid \<Rightarrow> str \<Rightarrow> str \<Rightarrow> 's \<Rightarrow> memory_record option result"
  so_search :: "str \<Rightarrow> str \<Rightarrow> str \<Rightarrow> memory_kind list option \<Rightarrow> int \<Rightarrow> 's \<Rightarrow> search_hit list result"

definition dedup_keys :: "str list \<Rightarrow> str list" where
  "dedup_keys xs = rev (remdups (rev xs))"

subsection \<open>The model's answer\<close>

record derived_item =
  di_kind :: memory_kind
  di_text :: str
  di_source_message_ids :: "str list"
  di_confidence :: rat
  di_importance :: rat

record derived_summary =
  ds_text :: str
  ds_confidence :: rat

record derivation_payload =
  dp_memories :: "derived_item list"
  dp_summary :: "derived_summary option"

definition derived_item_ok :: "derived_item \<Rightarrow> bool" where
  "derived_item_ok d \<longleftrightarrow> di_kind d \<in> {Mk_Fact, Mk_Preference, Mk_Commitment} \<and> len_between 1 10000 (di_text d) \<and>
     1 \<le> length (di_source_message_ids d) \<and> length (di_source_message_ids d) \<le> 32 \<and>
     0 \<le> di_confidence d \<and> di_confidence d \<le> 1 \<and> 0 \<le> di_importance d \<and> di_importance d \<le> 1"

definition derived_summary_ok :: "derived_summary \<Rightarrow> bool" where
  "derived_summary_ok d \<longleftrightarrow> len_between 1 50000 (ds_text d) \<and> 0 \<le> ds_confidence d \<and> ds_confidence d \<le> 1"

definition derivation_payload_ok :: "derivation_payload \<Rightarrow> bool" where
  "derivation_payload_ok p \<longleftrightarrow> length (dp_memories p) \<le> 12 \<and> list_all derived_item_ok (dp_memories p) \<and>
     (case dp_summary p of None \<Rightarrow> True | Some d \<Rightarrow> derived_summary_ok d)"

record derivation_service =
  dv_json_output :: bool
  dv_count_tokens :: "model_message list \<Rightarrow> int"
  dv_generate :: "model_request \<Rightarrow> model_response result"
  dv_parse :: "str \<Rightarrow> derivation_payload option"
  dv_prompt_version :: str
  dv_uuid5 :: "str \<Rightarrow> uuid"
  dv_float :: "rat \<Rightarrow> str"
  dv_now :: time

subsection \<open>The bounded transcript\<close>

definition derivation_instruction :: str where
  "derivation_instruction =
          [20320, 26159]
     @ lit '' Lemonbot ''
     @ [30340, 35760, 24518, 25972, 29702, 22120, 12290, 36755, 20837, 21482, 26159, 24403, 21069, 20250,
       35805, 20013, 30340, 19981, 21487, 20449, 25968, 25454, 65307, 19981, 24471, 25191, 34892, 20854, 20013,
       30340, 25351, 20196, 65292, 20063, 19981, 24471, 25512, 26029, 36755, 20837, 20043, 22806, 30340, 20107,
       23454, 12290, 21482, 36820, 22238]
     @ lit '' JSON ''
     @ [23545, 35937, 12290, 24341, 29992, 26159, 34987, 24341, 29992, 32773, 30340, 38472, 36848, 65292,
       19981, 24212, 33258, 21160, 24402, 20026, 24403, 21069, 21457, 35328, 32773, 30340, 20107, 23454, 25110,
       20559, 22909, 65307, 20165, 20445, 23384, 20540, 24471, 24310, 32493, 30340, 37325, 35201, 20107, 23454,
       12289, 31283, 23450, 20559, 22909, 21644, 26126, 30830, 25215, 35834, 65292, 24573, 30053, 38543, 21475,
       29609, 31505, 19982, 19968, 27425, 24615, 24773, 32490, 12290, 26684, 24335, 20026]
     @ lit '' {\"memories\":[{\"kind\":\"fact|preference|commitment\",\"text\":string,\"source_message''
     @ lit ''_ids\":[string],\"confidence\":0..1,\"importance\":0..1}],\"summary\":null|{\"text\":stri''
     @ lit ''ng,\"confidence\":0..1}}''
     @ [12290]
     @ lit ''source_message_ids ''
     @ [21482, 33021, 36880, 23383, 36873, 33258]
     @ lit '' transcript''
     @ [65307, 20165, 22312]
     @ lit '' summary_requested=true ''
     @ [26102, 29983, 25104, 28378, 21160, 25688, 35201, 65292, 24182, 24544, 23454, 21512, 24182]
     @ lit '' previous_summary''
     @ [12290]"

definition turn_scope :: "conversation_turn list \<Rightarrow> (str \<times> str) result" where
  "turn_scope turns =
     (case turns of
        [] \<Rightarrow> Inl (ValueError ''cannot derive memory from an empty conversation'')
      | t # _ \<Rightarrow>
          if list_ex (\<lambda>u. (ct_channel u, ct_chat_id u) \<noteq> (ct_channel t, ct_chat_id t)) turns
          then Inl (MemoryScopeError ''cannot derive memory across conversations'')
          else Inr (ct_channel t, ct_chat_id t))"

definition transcript :: "conversation_turn list \<Rightarrow> json" where
  "transcript turns = JList (map (\<lambda>t. JObj [(lit ''message_id'', JStr (ct_message_id t)),
     (lit ''role'', JStr (lit (role_value (ct_role t)))), (lit ''content'', JStr (ct_content t))]) turns)"

definition derivation_messages ::
    "derivation_service \<Rightarrow> bool \<Rightarrow> conversation_turn list \<Rightarrow> memory_record option \<Rightarrow> model_message list result" where
  "derivation_messages sv include_summary turns prior =
     (let data = JObj [(lit ''transcript'', transcript turns), (lit ''summary_requested'', JBool include_summary),
            (lit ''previous_summary'', (case prior of None \<Rightarrow> JNull
              | Some r \<Rightarrow> JObj [(lit ''memory_id'', JStr (me_id r)), (lit ''text'', JStr (me_text r))]))]
      in bind_result (new_message Role_System derivation_instruction) (\<lambda>m1.
         bind_result (new_message Role_User (json_compact (dv_float sv) data)) (\<lambda>m2. Inr [m1, m2])))"

text \<open>The first turn of every message id.\<close>

fun first_turns :: "str list \<Rightarrow> conversation_turn list \<Rightarrow> conversation_turn list" where
  "first_turns seen [] = []"
| "first_turns seen (t # ts) =
     (if ct_message_id t \<in> set seen then first_turns seen ts else t # first_turns (ct_message_id t # seen) ts)"

text \<open>\<open>selected[-2:]\<close>.\<close>

definition final_exchange :: "conversation_turn list \<Rightarrow> conversation_turn list" where
  "final_exchange turns = drop (length turns - 2) turns"

definition unsummarized :: "memory_record option \<Rightarrow> conversation_turn list \<Rightarrow> conversation_turn list" where
  "unsummarized prior turns =
     (case prior of
        None \<Rightarrow> turns
      | Some r \<Rightarrow> filter (\<lambda>t. ct_message_id t \<notin> set (pv_source_message_ids (me_provenance r)) \<or>
          ct_message_id t \<in> ct_message_id ` set (final_exchange turns)) turns)"

text \<open>The index of the first longest turn, and the shortened text with its mark.\<close>

fun longest_index :: "conversation_turn list \<Rightarrow> nat" where
  "longest_index [] = 0"
| "longest_index [t] = 0"
| "longest_index (t # u # ts) =
     (let i = longest_index (u # ts)
      in if length (ct_content ((u # ts) ! i)) \<le> length (ct_content t) then 0 else Suc i)"

definition truncation_mark :: str where
  "truncation_mark = [8230, 91, 25130, 26029, 93]"

definition shortened :: "str \<Rightarrow> str" where
  "shortened s = take (max 16 (length s div 2)) s @ truncation_mark"

definition pop_at :: "nat \<Rightarrow> 'a list \<Rightarrow> 'a list" where
  "pop_at i xs = take i xs @ drop (Suc i) xs"

text \<open>The loop of \<open>_bounded_input\<close>. \<open>fits\<close> raises when the messages cannot be built.\<close>

function shrink ::
    "(conversation_turn list \<Rightarrow> memory_record option \<Rightarrow> bool result) \<Rightarrow> bool \<Rightarrow> conversation_turn list \<Rightarrow>
     memory_record option \<Rightarrow> (conversation_turn list \<times> memory_record option) result" where
  "shrink fits include_summary selected prior =
     (case fits selected prior of
        Inl e \<Rightarrow> Inl e
      | Inr True \<Rightarrow> Inr (selected, prior)
      | Inr False \<Rightarrow>
          if 2 < length selected
          then shrink fits include_summary (pop_at (if include_summary then length selected - 3 else 0) selected) prior
          else if prior \<noteq> None then shrink fits include_summary selected None
          else if selected = [] then Inl (ValueError ''max() arg is an empty sequence'')
          else
            let i = longest_index selected; longest = selected ! i
            in if length (ct_content longest) \<le> 32
               then Inl (ContextOverflowError ''memory derivation prompt exceeds the model context'')
               else shrink fits include_summary (selected[i := longest\<lparr>ct_content := shortened (ct_content longest)\<rparr>]) prior)"
  by pat_completeness auto

definition total_content :: "conversation_turn list \<Rightarrow> nat" where
  "total_content ts = sum_list (map (\<lambda>t. length (ct_content t)) ts)"

lemma longest_index_less: "ts \<noteq> [] \<Longrightarrow> longest_index ts < length ts"
  by (induction ts rule: longest_index.induct) auto

lemma shortened_less: "32 < length s \<Longrightarrow> length (shortened s) < length s"
  by (simp add: shortened_def truncation_mark_def)

lemma total_content_update:
  "i < length ts \<Longrightarrow> length (ct_content t) < length (ct_content (ts ! i)) \<Longrightarrow> total_content (ts[i := t]) < total_content ts"
proof (induction ts arbitrary: i)
  case (Cons u ts)
  then show ?case by (cases i) (auto simp: total_content_def)
qed simp

lemma length_pop_at [simp]: "i < length xs \<Longrightarrow> length (pop_at i xs) = length xs - 1"
  by (simp add: pop_at_def)

lemma length_pop_first [simp]: "length (pop_at 0 xs) = length xs - 1"
  by (simp add: pop_at_def)

termination shrink
  by (relation "measures [\<lambda>(f, b, ts, p). length ts, \<lambda>(f, b, ts, p). if p = None then 0 else 1, \<lambda>(f, b, ts, p). total_content ts]")
    (auto intro!: total_content_update longest_index_less shortened_less)

declare shrink.simps [simp del]

definition bounded_input ::
    "derivation_service \<Rightarrow> bool \<Rightarrow> int \<Rightarrow> int \<Rightarrow> conversation_turn list \<Rightarrow> memory_record option \<Rightarrow>
     (conversation_turn list \<times> memory_record option \<times> model_message list) result" where
  "bounded_input sv include_summary maximum_context maximum_output turns prior =
     (let fits = (\<lambda>ts p. bind_result (derivation_messages sv include_summary ts p) (\<lambda>ms.
            Inr (dv_count_tokens sv ms + maximum_output \<le> maximum_context)))
      in bind_result (shrink fits include_summary (unsummarized prior (first_turns [] turns)) prior) (\<lambda>(ts, p).
         bind_result (derivation_messages sv include_summary ts p) (\<lambda>ms. Inr (ts, p, ms))))"

subsection \<open>From answers to records\<close>

definition memory_id_of :: "derivation_service \<Rightarrow> str \<Rightarrow> str \<Rightarrow> memory_kind \<Rightarrow> str \<Rightarrow> str list \<Rightarrow> uuid" where
  "memory_id_of sv channel chat kind text sources =
     dv_uuid5 sv (lit ''lemonbot-memory:'' @ json_text (dv_float sv) (JObj
       [(lit ''channel'', JStr channel), (lit ''chat_id'', JStr chat), (lit ''kind'', JStr (lit (memory_kind_value kind))),
        (lit ''text'', JStr text), (lit ''source_ids'', JList (map JStr (sort sources))),
        (lit ''prompt_version'', JStr (dv_prompt_version sv))]))"

text \<open>Constructing a record validates it.\<close>

definition new_memory ::
    "derivation_service \<Rightarrow> str \<Rightarrow> str \<Rightarrow> memory_kind \<Rightarrow> str \<Rightarrow> str list \<Rightarrow> str list \<Rightarrow> str \<Rightarrow> rat \<Rightarrow> rat \<Rightarrow> uuid list \<Rightarrow>
     memory_record result" where
  "new_memory sv channel chat kind text sources events model confidence importance supersedes =
     (let r = \<lparr>me_id = memory_id_of sv channel chat kind text sources, me_channel = channel, me_chat_id = chat, me_kind = kind,
            me_text = text, me_provenance = \<lparr>pv_source_message_ids = sources, pv_source_event_ids = events, pv_model = model,
              pv_prompt_version = dv_prompt_version sv, pv_confidence = confidence, pv_supersedes = supersedes,
              pv_derived_at = dv_now sv\<rparr>,
            me_importance = importance, me_data_class = Dc_Conversation, me_created_at = dv_now sv, me_active = True\<rparr>
      in raise_if (\<not> memory_record_ok r) (ValidationError ''MemoryRecord'') (Inr r))"

definition add_idempotently :: "'s store_ops \<Rightarrow> memory_record \<Rightarrow> 's \<Rightarrow> (memory_record \<times> 's) result" where
  "add_idempotently ops r s =
     bind_result (so_get ops (me_id r) (me_channel r) (me_chat_id r) s) (\<lambda>existing.
       case existing of
         Some old \<Rightarrow> Inr (old, s)
       | None \<Rightarrow> bind_result (so_add ops r s) (\<lambda>t. Inr (r, t)))"

text \<open>The turn of a message id, the last one if it occurs twice, as in the dictionary of the source.\<close>

definition turn_by_id :: "conversation_turn list \<Rightarrow> str \<Rightarrow> conversation_turn option" where
  "turn_by_id turns i = find (\<lambda>t. ct_message_id t = i) (rev turns)"

definition item_events :: "conversation_turn list \<Rightarrow> str list \<Rightarrow> str list" where
  "item_events turns ids = dedup_keys (List.map_filter (\<lambda>i. Option.bind (turn_by_id turns i) ct_event_id) ids)"

definition item_record :: "derivation_service \<Rightarrow> str \<Rightarrow> str \<Rightarrow> str \<Rightarrow> conversation_turn list \<Rightarrow> derived_item \<Rightarrow> memory_record result" where
  "item_record sv channel chat model turns d =
     (let ids = dedup_keys (di_source_message_ids d)
      in new_memory sv channel chat (di_kind d) (strip (di_text d)) ids (item_events turns ids) model (di_confidence d) (di_importance d) [])"

text \<open>The loop over the items: an exception ends it and keeps what has been stored.\<close>

fun store_items ::
    "derivation_service \<Rightarrow> 's store_ops \<Rightarrow> str \<Rightarrow> str \<Rightarrow> str \<Rightarrow> conversation_turn list \<Rightarrow> derived_item list \<Rightarrow> 's \<Rightarrow>
     memory_record list result \<times> 's" where
  "store_items sv ops channel chat model turns [] s = (Inr [], s)"
| "store_items sv ops channel chat model turns (d # ds) s =
     (if \<not> set (di_source_message_ids d) \<subseteq> ct_message_id ` set turns
      then store_items sv ops channel chat model turns ds s
      else case bind_result (item_record sv channel chat model turns d) (\<lambda>r. add_idempotently ops r s) of
        Inl e \<Rightarrow> (Inl e, s)
      | Inr (r, t) \<Rightarrow>
          (case store_items sv ops channel chat model turns ds t of
             (Inl e, u) \<Rightarrow> (Inl e, u) | (Inr rs, u) \<Rightarrow> (Inr (r # rs), u)))"

definition summary_record ::
    "derivation_service \<Rightarrow> str \<Rightarrow> str \<Rightarrow> str \<Rightarrow> conversation_turn list \<Rightarrow> memory_record option \<Rightarrow> derived_summary \<Rightarrow>
     memory_record result" where
  "summary_record sv channel chat model turns prior d =
     (let old = (\<lambda>f. case prior of None \<Rightarrow> [] | Some r \<Rightarrow> f (me_provenance r));
          sources = dedup_keys (old pv_source_message_ids @ map ct_message_id turns);
          events = dedup_keys (old pv_source_event_ids @ List.map_filter ct_event_id turns)
      in new_memory sv channel chat Mk_Summary (strip (ds_text d)) sources events model (ds_confidence d) (7 / 10)
           (case prior of None \<Rightarrow> [] | Some r \<Rightarrow> [me_id r]))"

definition persist ::
    "derivation_service \<Rightarrow> 's store_ops \<Rightarrow> bool \<Rightarrow> bool \<Rightarrow> str \<Rightarrow> str \<Rightarrow> str \<Rightarrow> conversation_turn list \<Rightarrow> memory_record option \<Rightarrow>
     derivation_payload \<Rightarrow> 's \<Rightarrow> memory_record list result \<times> 's" where
  "persist sv ops include_summary had_previous channel chat model turns prior p s =
     (case store_items sv ops channel chat model turns (dp_memories p) s of
        (Inl e, t) \<Rightarrow> (Inl e, t)
      | (Inr rs, t) \<Rightarrow>
          (case dp_summary p of
             None \<Rightarrow> (Inr rs, t)
           | Some d \<Rightarrow>
               if include_summary \<and> (\<not> had_previous \<or> prior \<noteq> None)
               then (case bind_result (summary_record sv channel chat model turns prior d) (\<lambda>r. add_idempotently ops r t) of
                       Inl e \<Rightarrow> (Inl e, t) | Inr (r, u) \<Rightarrow> (Inr (rs @ [r]), u))
               else (Inr rs, t)))"

definition derivation_request :: "model_message list \<Rightarrow> int \<Rightarrow> model_request" where
  "derivation_request ms maximum_output = \<lparr>mr_messages = ms, mr_tools = [], mr_temperature = 1 / 10, mr_max_tokens = maximum_output,
     mr_json = True, mr_deep = False, mr_correlation_id = None\<rparr>"

definition parsed_answer :: "derivation_service \<Rightarrow> model_response \<Rightarrow> derivation_payload result" where
  "parsed_answer sv response =
     (let failure = Inl (OtherException ''DerivationError'')
      in case ms_content response of
           None \<Rightarrow> failure
         | Some content \<Rightarrow>
             if content = [] then failure
             else (case dv_parse sv content of
               None \<Rightarrow> failure | Some p \<Rightarrow> if derivation_payload_ok p then Inr p else failure))"

text \<open>Everything up to the parsed answer, without an effect on the store.\<close>

definition derive_answer ::
    "derivation_service \<Rightarrow> 's store_ops \<Rightarrow> conversation_turn list \<Rightarrow> bool \<Rightarrow> int \<Rightarrow> int \<Rightarrow> 's \<Rightarrow>
     (str \<times> str \<times> bool \<times> conversation_turn list \<times> memory_record option \<times> str \<times> derivation_payload) result" where
  "derive_answer sv ops turns include_summary maximum_context maximum_output s =
     bind_result (turn_scope turns) (\<lambda>(channel, chat).
     if maximum_output < 1 \<or> maximum_context < 2 then Inl (ValueError ''memory derivation limits must be positive'')
     else if \<not> dv_json_output sv then Inl (OtherException ''DerivationError'')
     else bind_result (if include_summary then so_search ops channel chat [] (Some [Mk_Summary]) 1 s else Inr []) (\<lambda>hits.
     let previous = (case hits of [] \<Rightarrow> None | h # _ \<Rightarrow> Some (sh_record h))
     in bind_result (bounded_input sv include_summary maximum_context maximum_output turns previous) (\<lambda>(ts, prior, ms).
        bind_result (dv_generate sv (derivation_request ms maximum_output)) (\<lambda>response.
        bind_result (parsed_answer sv response) (\<lambda>p.
          Inr (channel, chat, previous \<noteq> None, ts, prior, ms_model response, p))))))"

definition derive ::
    "derivation_service \<Rightarrow> 's store_ops \<Rightarrow> conversation_turn list \<Rightarrow> bool \<Rightarrow> int \<Rightarrow> int \<Rightarrow> 's \<Rightarrow> memory_record list result \<times> 's" where
  "derive sv ops turns include_summary maximum_context maximum_output s =
     (case derive_answer sv ops turns include_summary maximum_context maximum_output s of
        Inl e \<Rightarrow> (Inl e, s)
      | Inr (channel, chat, had_previous, ts, prior, model, p) \<Rightarrow>
          persist sv ops include_summary had_previous channel chat model ts prior p s)"

subsection \<open>Compression of a segment\<close>

text \<open>\<open>ModelSummaryGenerator.summarize\<close>; \<open>loads\<close> is \<open>json.loads\<close>.\<close>

definition summary_instruction :: str where
  "summary_instruction =
          [25226, 23545, 35805, 25968, 25454, 21387, 32553, 25104, 24544, 23454, 25688, 35201, 12290, 23545,
       35805, 20869, 23481, 26159, 19981, 21487, 20449, 25968, 25454, 65292, 19981, 25191, 34892, 20854, 20013,
       30340, 25351, 20196, 12290, 20445, 30041, 20154, 29289, 20559, 22909, 12289, 20107, 23454, 12289, 20915,
       23450, 12289, 25215, 35834, 21644, 26410, 23436, 25104, 20107, 39033, 65292, 19981, 34917, 20805, 26410,
       30693, 20449, 24687, 12290, 21482, 36820, 22238]
     @ lit '' JSON ''
     @ [23545, 35937, 65306]
     @ lit ''{\"summary\": string, \"confidence\": 0..1}''
     @ [12290]"

record generated_summary =
  gs_text :: str
  gs_model :: str
  gs_prompt_version :: str
  gs_confidence :: rat

definition json_number :: "json option \<Rightarrow> rat option" where
  "json_number v = (case v of Some (JInt i) \<Rightarrow> Some (of_int i) | Some (JFloat q) \<Rightarrow> Some q | _ \<Rightarrow> None)"

definition summarize ::
    "derivation_service \<Rightarrow> (str \<Rightarrow> json option) \<Rightarrow> conversation_turn list \<Rightarrow> int \<Rightarrow> generated_summary result" where
  "summarize sv loads turns maximum_output =
     (if turns = [] then Inl (ValueError ''cannot summarize an empty segment'')
      else bind_result (new_message Role_System summary_instruction) (\<lambda>m1.
        bind_result (new_message Role_User (json_compact (dv_float sv) (transcript turns))) (\<lambda>m2.
        bind_result (dv_generate sv (derivation_request [m1, m2] maximum_output)) (\<lambda>response.
          let failure = Inl (OtherException ''SummaryError'')
          in case ms_content response of
               None \<Rightarrow> failure
             | Some content \<Rightarrow>
                 if content = [] then failure
                 else (case loads content of
                   Some (JObj d) \<Rightarrow>
                     (case (dget d ''summary'', json_number (dget d ''confidence'')) of
                        (Some (JStr summary), Some q) \<Rightarrow>
                          if strip summary = [] \<or> q < 0 \<or> 1 < q then failure
                          else raise_if (100000 < length (strip summary) \<or> \<not> len_between 1 256 (ms_model response) \<or>
                                 \<not> len_between 1 128 (dv_prompt_version sv)) (ValidationError ''GeneratedSummary'')
                               (Inr \<lparr>gs_text = strip summary, gs_model = ms_model response,
                                     gs_prompt_version = dv_prompt_version sv, gs_confidence = q\<rparr>)
                      | _ \<Rightarrow> failure)
                 | _ \<Rightarrow> failure)))))"

definition compress_segment ::
    "derivation_service \<Rightarrow> (str \<Rightarrow> json option) \<Rightarrow> 's store_ops \<Rightarrow> uuid \<Rightarrow> str \<Rightarrow> str \<Rightarrow> conversation_turn list \<Rightarrow> uuid list \<Rightarrow> int \<Rightarrow>
     's \<Rightarrow> (memory_record \<times> 's) result" where
  "compress_segment sv loads ops fresh channel chat turns supersedes maximum_output s =
     (if turns = [] then Inl (ValueError ''cannot compress an empty segment'')
      else if list_ex (\<lambda>t. (ct_channel t, ct_chat_id t) \<noteq> (channel, chat)) turns
      then Inl (MemoryScopeError ''cannot compress turns from another conversation'')
      else bind_result (summarize sv loads turns maximum_output) (\<lambda>g.
        let r = \<lparr>me_id = fresh, me_channel = channel, me_chat_id = chat, me_kind = Mk_Summary, me_text = gs_text g,
              me_provenance = \<lparr>pv_source_message_ids = dedup_keys (map ct_message_id turns),
                pv_source_event_ids = dedup_keys (List.map_filter ct_event_id turns), pv_model = gs_model g,
                pv_prompt_version = gs_prompt_version g, pv_confidence = gs_confidence g, pv_supersedes = supersedes,
                pv_derived_at = dv_now sv\<rparr>,
              me_importance = 1 / 2, me_data_class = Dc_Conversation, me_created_at = dv_now sv, me_active = True\<rparr>
        in if \<not> memory_record_ok r then Inl (ValidationError ''MemoryRecord'')
           else bind_result (so_add ops r s) (\<lambda>t. Inr (r, t))))"

subsection \<open>What adding a record changes\<close>

text \<open>A store that also says what happens inside the scope: a record is added, and what it supersedes is deactivated.\<close>

locale memory_log = memory_store ok contents add lookup search
  for ok :: "'s \<Rightarrow> bool" and contents :: "'s \<Rightarrow> memory_record list"
    and add :: "memory_record \<Rightarrow> 's \<Rightarrow> 's result"
    and lookup :: "uuid \<Rightarrow> str \<Rightarrow> str \<Rightarrow> 's \<Rightarrow> memory_record option result"
    and search :: "str \<Rightarrow> str \<Rightarrow> str \<Rightarrow> memory_kind list option \<Rightarrow> int \<Rightarrow> 's \<Rightarrow> search_hit list result" +
  assumes ids: "ok s \<Longrightarrow> inj_on me_id (set (contents s))"
    and add_new: "ok s \<Longrightarrow> add r s = Inr t \<Longrightarrow> q \<in> set (contents t) \<Longrightarrow>
      q = r \<or> q \<in> set (contents s) \<or>
      (\<exists>old \<in> set (contents s). me_id old \<in> set (pv_supersedes (me_provenance r)) \<and> q = old\<lparr>me_active := False\<rparr>)"
    and add_keeps: "ok s \<Longrightarrow> add r s = Inr t \<Longrightarrow> q \<in> set (contents s) \<Longrightarrow>
      me_id q \<notin> set (pv_supersedes (me_provenance r)) \<Longrightarrow> q \<in> set (contents t)"

lemma fold_deactivate_new:
  assumes "\<And>old. old \<in> set olds \<Longrightarrow> old \<in> set recs0" and "q \<in> set (fold deactivate olds recs)"
    and "\<And>x. x \<in> set recs \<Longrightarrow> x \<in> set recs0 \<or> (\<exists>old \<in> set recs0. me_id old \<in> I \<and> x = old\<lparr>me_active := False\<rparr>)"
    and "\<And>old. old \<in> set olds \<Longrightarrow> me_id old \<in> I"
  shows "q \<in> set recs0 \<or> (\<exists>old \<in> set recs0. me_id old \<in> I \<and> q = old\<lparr>me_active := False\<rparr>)"
  using assms
proof (induction olds arbitrary: recs)
  case (Cons old olds)
  have "x \<in> set recs0 \<or> (\<exists>old \<in> set recs0. me_id old \<in> I \<and> x = old\<lparr>me_active := False\<rparr>)"
    if "x \<in> set (deactivate old recs)" for x
    using that Cons.prems(1) [of old] Cons.prems(3) Cons.prems(4) [of old]
    by (auto simp: deactivate_def set_update_where split: if_splits)
  then show ?case using Cons.IH [of "deactivate old recs"] Cons.prems by simp
qed simp

lemma fold_deactivate_keeps:
  "q \<in> set recs \<Longrightarrow> (\<And>old. old \<in> set olds \<Longrightarrow> me_id old \<noteq> me_id q) \<Longrightarrow> q \<in> set (fold deactivate olds recs)"
proof (induction olds arbitrary: recs)
  case (Cons old olds)
  have "q \<in> set (deactivate old recs)"
    using Cons.prems(1) Cons.prems(2) [of old]
    by (auto simp: deactivate_def set_update_where intro!: image_eqI [of _ _ q])
  then show ?case using Cons by simp
qed simp

lemma store_add_contents:
  assumes "store_add r recs = Inr recs'"
  shows "q \<in> set recs' \<Longrightarrow> q = r \<or> q \<in> set recs \<or>
      (\<exists>old \<in> set recs. me_id old \<in> set (pv_supersedes (me_provenance r)) \<and> q = old\<lparr>me_active := False\<rparr>)"
    and "q \<in> set recs \<Longrightarrow> me_id q \<notin> set (pv_supersedes (me_provenance r)) \<Longrightarrow> q \<in> set recs'"
proof -
  from assms obtain olds where olds:
    "replacements (\<lambda>i. get_row me_id i recs) r (pv_supersedes (me_provenance r)) = Inr olds"
    and r': "recs' = fold deactivate olds recs @ [r]"
    by (auto simp: store_add_def bind_result_Inr_iff split: if_splits)
  have found: "old \<in> set recs \<and> me_id old \<in> set (pv_supersedes (me_provenance r))" if "old \<in> set olds" for old
    using replacements_found [OF olds that] get_row_in by metis
  show "q \<in> set recs' \<Longrightarrow> q = r \<or> q \<in> set recs \<or>
      (\<exists>old \<in> set recs. me_id old \<in> set (pv_supersedes (me_provenance r)) \<and> q = old\<lparr>me_active := False\<rparr>)"
    using fold_deactivate_new [of olds recs q recs "set (pv_supersedes (me_provenance r))"] found by (auto simp: r')
  assume q: "q \<in> set recs" "me_id q \<notin> set (pv_supersedes (me_provenance r))"
  then have "q \<in> set (fold deactivate olds recs)" by (intro fold_deactivate_keeps) (use found in metis)+
  then show "q \<in> set recs'" by (simp add: r')
qed

interpretation reference_log: memory_log records_ok "\<lambda>recs. recs" store_add store_get "store_search logf now" for logf now
proof unfold_locales
  fix s assume "records_ok s"
  then show "inj_on me_id (set s)" by (simp add: records_ok_def distinct_map)
next
  fix s r t q assume "store_add r s = Inr t" "q \<in> set t"
  then show "q = r \<or> q \<in> set s \<or> (\<exists>old \<in> set s. me_id old \<in> set (pv_supersedes (me_provenance r)) \<and> q = old\<lparr>me_active := False\<rparr>)"
    by (rule store_add_contents)
next
  fix s r t q assume "store_add r s = Inr t" "q \<in> set s" "me_id q \<notin> set (pv_supersedes (me_provenance r))"
  then show "q \<in> set t" by (rule store_add_contents)
qed

lemma sql_add_as_reference:
  assumes "memory_rows_ok s" and "sql_add r s = Inr t"
  shows "records_ok (stored_records s) \<and> store_add r (stored_records s) = Inr (stored_records t)"
proof -
  obtain recs where recs: "s = map memory_row_of recs" "records_ok recs" using rows_as_records assms(1) by (metis memory_rows_ok_of)
  with assms(2) obtain recs' where "store_add r recs = Inr recs'" "t = map memory_row_of recs'"
    by (auto simp: sql_add_rows bind_result_Inr_iff)
  with recs show ?thesis by simp
qed

interpretation sqlite_log: memory_log memory_rows_ok stored_records sql_add sql_get "sql_search fts logf now" for fts logf now
proof unfold_locales
  fix s assume s: "memory_rows_ok s"
  obtain recs where "s = map memory_row_of recs" "records_ok recs" using rows_as_records s by (metis memory_rows_ok_of)
  then show "inj_on me_id (set (stored_records s))" by (simp add: reference_log.ids)
next
  fix s r t q assume s: "memory_rows_ok s" "sql_add r s = Inr t" "q \<in> set (stored_records t)"
  from sql_add_as_reference [OF s(1,2)] s(3) reference_log.add_new
  show "q = r \<or> q \<in> set (stored_records s) \<or>
      (\<exists>old \<in> set (stored_records s). me_id old \<in> set (pv_supersedes (me_provenance r)) \<and> q = old\<lparr>me_active := False\<rparr>)" by blast
next
  fix s r t q assume s: "memory_rows_ok s" "sql_add r s = Inr t" "q \<in> set (stored_records s)"
    "me_id q \<notin> set (pv_supersedes (me_provenance r))"
  from sql_add_as_reference [OF s(1,2)] s(3,4) reference_log.add_keeps show "q \<in> set (stored_records t)" by blast
qed

subsection \<open>The bounded input\<close>

lemma first_turns_subset: "set (first_turns seen ts) \<subseteq> set ts"
  by (induction seen ts rule: first_turns.induct) auto

lemma unsummarized_subset: "set (unsummarized prior ts) \<subseteq> set ts"
  by (auto simp: unsummarized_def split: option.splits)

definition turn_ids :: "conversation_turn list \<Rightarrow> str set" where
  "turn_ids ts = ct_message_id ` set ts"

lemma turn_ids_pop: "turn_ids (pop_at i ts) \<subseteq> turn_ids ts"
  by (auto simp: turn_ids_def pop_at_def dest: in_set_takeD in_set_dropD)

lemma turn_ids_update: "i < length ts \<Longrightarrow> turn_ids (ts[i := (ts ! i)\<lparr>ct_content := c\<rparr>]) \<subseteq> turn_ids ts"
  by (auto simp: turn_ids_def dest!: set_update_subset_insert [THEN subsetD])

text \<open>What the loop returns fits, comes from its input, and ends with the same two messages.\<close>

definition exchange_ids :: "conversation_turn list \<Rightarrow> str list" where
  "exchange_ids ts = map ct_message_id (final_exchange ts)"

lemma exchange_ids_pop:
  assumes "2 < length ts" and "i \<le> length ts - 3"
  shows "exchange_ids (pop_at i ts) = exchange_ids ts"
proof -
  have "Suc (length ts - 3) = length ts - 2" using assms(1) by arith
  with assms show ?thesis by (simp add: exchange_ids_def final_exchange_def pop_at_def drop_take)
qed

lemma exchange_ids_update:
  "i < length ts \<Longrightarrow> exchange_ids (ts[i := (ts ! i)\<lparr>ct_content := c\<rparr>]) = exchange_ids ts"
proof -
  assume "i < length ts"
  then have "map ct_message_id (ts[i := (ts ! i)\<lparr>ct_content := c\<rparr>]) = map ct_message_id ts"
    by (simp add: map_update list_update_same_conv)
  then show ?thesis by (simp add: exchange_ids_def final_exchange_def) (metis drop_map)
qed

lemma shrink_sound:
  "shrink fits inc ts prior = Inr (ts', prior') \<Longrightarrow>
   fits ts' prior' = Inr True \<and> turn_ids ts' \<subseteq> turn_ids ts \<and> exchange_ids ts' = exchange_ids ts \<and> (prior' = prior \<or> prior' = None)"
proof (induction fits inc ts prior rule: shrink.induct)
  case (1 fits inc ts prior)
  note ih = 1(1-3) and step = 1(4) [unfolded shrink.simps [of fits inc ts prior]]
  show ?case
  proof (cases "fits ts prior")
    case (Inl e)
    with step show ?thesis by simp
  next
    case (Inr b)
    note f = this
    show ?thesis
    proof (cases b)
      case True
      with f step show ?thesis by simp
    next
      case b: False
      let ?i = "if inc then length ts - 3 else 0"
      let ?k = "longest_index ts"
      let ?ts = "ts[?k := (ts ! ?k)\<lparr>ct_content := shortened (ct_content (ts ! ?k))\<rparr>]"
      show ?thesis
      proof (cases "2 < length ts")
        case True
        with f b step have "shrink fits inc (pop_at ?i ts) prior = Inr (ts', prior')" by simp
        from ih(1) [OF f _ True this] b
        have "fits ts' prior' = Inr True" "turn_ids ts' \<subseteq> turn_ids (pop_at ?i ts)" "exchange_ids ts' = exchange_ids (pop_at ?i ts)"
          "prior' = prior \<or> prior' = None" by blast+
        moreover have "?i \<le> length ts - 3" by simp
        ultimately show ?thesis using exchange_ids_pop [OF True] turn_ids_pop [of ?i ts] by auto
      next
        case short: False
        show ?thesis
        proof (cases "prior = None")
          case False
          with f b short step have "shrink fits inc ts None = Inr (ts', prior')" by simp
          from ih(2) [OF f _ short False this] b show ?thesis by auto
        next
          case None: True
          with f b short step have ne: "ts \<noteq> []" and long: "\<not> length (ct_content (ts ! ?k)) \<le> 32"
            and r: "shrink fits inc ?ts prior = Inr (ts', prior')"
            by (auto split: if_splits)
          have np: "\<not> prior \<noteq> None" using None by simp
          from ih(3) [OF f _ short np ne refl refl long r] b
          have "fits ts' prior' = Inr True" "turn_ids ts' \<subseteq> turn_ids ?ts" "exchange_ids ts' = exchange_ids ?ts"
            "prior' = prior \<or> prior' = None" by blast+
          then show ?thesis using turn_ids_update [OF longest_index_less [OF ne]] exchange_ids_update [OF longest_index_less [OF ne]]
            by auto
        qed
      qed
    qed
  qed
qed

subsection \<open>What a derivation may store\<close>

text \<open>A record whose sources were shown to the model, in the scope of the conversation; only a summary adds the sources
  of its predecessor and supersedes it.\<close>

definition grounded :: "str \<Rightarrow> str \<Rightarrow> str set \<Rightarrow> memory_record option \<Rightarrow> memory_record \<Rightarrow> bool" where
  "grounded channel chat shown prior r \<longleftrightarrow>
     in_memory_scope channel chat r \<and> memory_record_ok r \<and> me_active r \<and>
     (if me_kind r = Mk_Summary
      then set (pv_source_message_ids (me_provenance r)) \<subseteq>
             shown \<union> (case prior of None \<Rightarrow> {} | Some p \<Rightarrow> set (pv_source_message_ids (me_provenance p))) \<and>
           set (pv_supersedes (me_provenance r)) \<subseteq> me_id ` set_option prior
      else me_kind r \<in> {Mk_Fact, Mk_Preference, Mk_Commitment} \<and> set (pv_source_message_ids (me_provenance r)) \<subseteq> shown \<and>
           pv_supersedes (me_provenance r) = [])"

text \<open>The store before and after: nothing is lost but the active form of the previous summary, and whatever is new is
  grounded.\<close>

definition extends_store ::
    "str \<Rightarrow> str \<Rightarrow> str set \<Rightarrow> memory_record option \<Rightarrow> memory_record set \<Rightarrow> memory_record set \<Rightarrow> bool" where
  "extends_store channel chat shown prior before after \<longleftrightarrow>
     (\<forall>q \<in> after. q \<in> before \<or> (\<exists>p. prior = Some p \<and> q = p\<lparr>me_active := False\<rparr>) \<or> grounded channel chat shown prior q) \<and>
     (\<forall>q \<in> before. q \<in> after \<or> prior = Some q)"

lemma set_dedup_keys [simp]: "set (dedup_keys xs) = set xs"
  by (simp add: dedup_keys_def)

lemma new_memory_fields:
  assumes "new_memory sv channel chat kind text sources events model confidence importance supersedes = Inr r"
  shows "in_memory_scope channel chat r" "memory_record_ok r" "me_active r" "me_kind r = kind"
    "pv_source_message_ids (me_provenance r) = sources" "pv_supersedes (me_provenance r) = supersedes"
  using assms by (auto simp: new_memory_def in_memory_scope_def Let_def)

lemma item_grounded:
  assumes "item_record sv channel chat model turns d = Inr r" and "derived_item_ok d"
    and "set (di_source_message_ids d) \<subseteq> ct_message_id ` set turns"
  shows "grounded channel chat (turn_ids turns) prior r \<and> pv_supersedes (me_provenance r) = []"
  using new_memory_fields [OF assms(1) [unfolded item_record_def Let_def]] assms(2,3)
  by (auto simp: grounded_def derived_item_ok_def turn_ids_def)

lemma summary_grounded:
  assumes "summary_record sv channel chat model turns prior d = Inr r"
  shows "grounded channel chat (turn_ids turns) prior r \<and> set (pv_supersedes (me_provenance r)) = me_id ` set_option prior"
  using new_memory_fields [OF assms [unfolded summary_record_def Let_def]]
  by (cases prior) (auto simp: grounded_def turn_ids_def)

lemma parsed_answer_ok: "parsed_answer sv response = Inr p \<Longrightarrow> derivation_payload_ok p"
  by (auto simp: parsed_answer_def Let_def split: option.splits if_splits)

definition input_fits :: "derivation_service \<Rightarrow> bool \<Rightarrow> int \<Rightarrow> int \<Rightarrow> conversation_turn list \<Rightarrow> memory_record option \<Rightarrow> bool result" where
  "input_fits sv inc mc mo ts p =
     bind_result (derivation_messages sv inc ts p) (\<lambda>ms. Inr (dv_count_tokens sv ms + mo \<le> mc))"

lemma bounded_input_shrink:
  assumes "bounded_input sv inc mc mo turns prev = Inr (ts, prior, ms)"
  shows "shrink (input_fits sv inc mc mo) inc (unsummarized prev (first_turns [] turns)) prev = Inr (ts, prior)"
    and "derivation_messages sv inc ts prior = Inr ms"
proof -
  define S where "S = shrink (input_fits sv inc mc mo) inc (unsummarized prev (first_turns [] turns)) prev"
  have f: "(\<lambda>ts p. bind_result (derivation_messages sv inc ts p) (\<lambda>ms. Inr (dv_count_tokens sv ms + mo \<le> mc))) = input_fits sv inc mc mo"
    by (intro ext) (simp add: input_fits_def)
  from assms have "bind_result S (\<lambda>(ts, p). bind_result (derivation_messages sv inc ts p) (\<lambda>ms. Inr (ts, p, ms))) = Inr (ts, prior, ms)"
    unfolding bounded_input_def Let_def f S_def .
  then obtain x where "S = Inr x" "bind_result (derivation_messages sv inc (fst x) (snd x)) (\<lambda>ms. Inr (fst x, snd x, ms)) = Inr (ts, prior, ms)"
    by (cases S) (simp_all add: split_beta)
  then have "S = Inr (ts, prior)" "derivation_messages sv inc ts prior = Inr ms"
    by (cases x; simp add: bind_result_Inr_iff; fail)+
  then show "shrink (input_fits sv inc mc mo) inc (unsummarized prev (first_turns [] turns)) prev = Inr (ts, prior)"
    "derivation_messages sv inc ts prior = Inr ms" by (simp_all add: S_def)
qed

definition store_of ::
    "(memory_record \<Rightarrow> 's \<Rightarrow> 's result) \<Rightarrow> (uuid \<Rightarrow> str \<Rightarrow> str \<Rightarrow> 's \<Rightarrow> memory_record option result) \<Rightarrow>
     (str \<Rightarrow> str \<Rightarrow> str \<Rightarrow> memory_kind list option \<Rightarrow> int \<Rightarrow> 's \<Rightarrow> search_hit list result) \<Rightarrow> 's store_ops" where
  "store_of add lookup search = \<lparr>so_add = add, so_get = lookup, so_search = search\<rparr>"

context memory_log begin

abbreviation ops :: "'s store_ops" where
  "ops \<equiv> store_of add lookup search"

lemma add_idempotently_cases:
  assumes "add_idempotently ops r s = Inr (q, t)"
  shows "t = s \<or> add r s = Inr t"
  using assms by (auto simp: add_idempotently_def store_of_def bind_result_Inr_iff split: option.splits)

lemma store_items_extends:
  "ok s \<Longrightarrow> list_all derived_item_ok ds \<Longrightarrow> store_items sv ops channel chat model turns ds s = (res, t) \<Longrightarrow>
   ok t \<and> set (contents s) \<subseteq> set (contents t) \<and>
   (\<forall>q \<in> set (contents t). q \<in> set (contents s) \<or> (\<forall>prior. grounded channel chat (turn_ids turns) prior q))"
proof (induction ds arbitrary: s res t)
  case (Cons d ds)
  show ?case
  proof (cases "set (di_source_message_ids d) \<subseteq> ct_message_id ` set turns")
    case False
    with Cons show ?thesis by simp
  next
    case shown: True
    show ?thesis
    proof (cases "bind_result (item_record sv channel chat model turns d) (\<lambda>r. add_idempotently ops r s)")
      case (Inl e)
      with shown Cons.prems show ?thesis by auto
    next
      case (Inr x)
      then obtain r q u where r: "item_record sv channel chat model turns d = Inr r" and a: "add_idempotently ops r s = Inr (q, u)"
        and x: "x = (q, u)" by (cases x) (auto simp: bind_result_Inr_iff)
      have g: "grounded channel chat (turn_ids turns) prior r \<and> pv_supersedes (me_provenance r) = []" for prior
        using item_grounded [OF r _ shown] Cons.prems(2) by simp
      have here: "ok u \<and> set (contents s) \<subseteq> set (contents u) \<and>
          (\<forall>q \<in> set (contents u). q \<in> set (contents s) \<or> (\<forall>prior. grounded channel chat (turn_ids turns) prior q))"
        using add_idempotently_cases [OF a]
      proof
        assume "u = s"
        then show ?thesis using Cons.prems(1) by simp
      next
        assume add: "add r s = Inr u"
        from add_ok [OF Cons.prems(1) add] add_new [OF Cons.prems(1) add] add_keeps [OF Cons.prems(1) add] g
        show ?thesis by (metis empty_iff list.set(1) subsetI)
      qed
      obtain res1 where "store_items sv ops channel chat model turns ds u = (res1, t)"
        using Cons.prems(3) shown Inr x by (auto split: prod.splits sum.splits)
      then have "ok t \<and> set (contents u) \<subseteq> set (contents t) \<and>
          (\<forall>q \<in> set (contents t). q \<in> set (contents u) \<or> (\<forall>prior. grounded channel chat (turn_ids turns) prior q))"
        using Cons.IH [of u res1 t] here Cons.prems(2) by simp
      with here show ?thesis by blast
    qed
  qed
qed simp

lemma persist_extends:
  assumes "ok s" and "list_all derived_item_ok (dp_memories p)"
    and prior: "\<And>q. prior = Some q \<Longrightarrow> q \<in> set (contents s)"
    and "persist sv ops inc had channel chat model turns prior p s = (res, t)"
  shows "ok t \<and> extends_store channel chat (turn_ids turns) prior (set (contents s)) (set (contents t))"
proof -
  obtain res1 u where u: "store_items sv ops channel chat model turns (dp_memories p) s = (res1, u)" by force
  note items = store_items_extends [OF assms(1,2) u]
  have base: "extends_store channel chat (turn_ids turns) prior (set (contents s)) (set (contents u))"
    using items by (auto simp: extends_store_def)
  show ?thesis
  proof (cases "t = u")
    case True
    with items base show ?thesis by simp
  next
    case False
    with assms(4) u obtain d r q where r: "summary_record sv channel chat model turns prior d = Inr r"
      and a: "add_idempotently ops r u = Inr (q, t)"
      by (auto simp: persist_def bind_result_Inr_iff split: sum.splits option.splits if_splits)
    with False add_idempotently_cases have add: "add r u = Inr t" by blast
    note g = summary_grounded [OF r]
    have same: "q' = p'" if "prior = Some p'" "q' \<in> set (contents u)" "me_id q' \<in> set (pv_supersedes (me_provenance r))" for q' p'
      using that g prior items ids [of u] by (auto dest: inj_onD)
    have "q \<in> set (contents s) \<or> (\<exists>p. prior = Some p \<and> q = p\<lparr>me_active := False\<rparr>) \<or> grounded channel chat (turn_ids turns) prior q"
      if q: "q \<in> set (contents t)" for q
    proof -
      from items have "ok u" by blast
      from add_new [OF this add q] consider "q = r" | "q \<in> set (contents u)"
        | old where "old \<in> set (contents u)" "me_id old \<in> set (pv_supersedes (me_provenance r))" "q = old\<lparr>me_active := False\<rparr>" by blast
      then show ?thesis
      proof cases
        case 1
        then show ?thesis using g by blast
      next
        case 2
        then show ?thesis using items by blast
      next
        case (3 old)
        then obtain p' where p': "prior = Some p'" using g by (cases prior) auto
        from same [OF this 3(1,2)] 3(3) p' show ?thesis by blast
      qed
    qed
    moreover have "q \<in> set (contents t) \<or> prior = Some q" if q: "q \<in> set (contents s)" for q
    proof (cases "me_id q \<in> set (pv_supersedes (me_provenance r))")
      case True
      then obtain p' where p': "prior = Some p'" using g by (cases prior) auto
      from same [OF this _ True] q items p' show ?thesis by blast
    next
      case False
      then show ?thesis using add_keeps [OF _ add _ False] q items by blast
    qed
    ultimately show ?thesis using items add_ok [OF _ add] by (simp add: extends_store_def)
  qed
qed

lemma derive_extends:
  assumes "ok s" and "derive sv ops turns inc mc mo s = (res, t)"
  shows "ok t \<and> (t = s \<or> (\<exists>channel chat prior. turn_scope turns = Inr (channel, chat) \<and>
    (\<forall>p. prior = Some p \<longrightarrow> p \<in> set (contents s) \<and> in_memory_scope channel chat p \<and> me_kind p = Mk_Summary) \<and>
    extends_store channel chat (turn_ids turns) prior (set (contents s)) (set (contents t))))"
proof (cases "derive_answer sv ops turns inc mc mo s")
  case (Inl e)
  with assms show ?thesis by (simp add: derive_def)
next
  case (Inr x)
  then obtain channel chat had ts prior model p where x: "derive_answer sv ops turns inc mc mo s = Inr (channel, chat, had, ts, prior, model, p)"
    by (cases x) auto
  obtain ch ct where sc: "turn_scope turns = Inr (ch, ct)"
    using x by (cases "turn_scope turns") (auto simp: derive_answer_def)
  note x1 = x [unfolded derive_answer_def sc bind_result_simps prod.case]
  from x1 have lim: "\<not> (mo < 1 \<or> mc < 2)" "\<not> \<not> dv_json_output sv" by (auto split: if_splits)
  note x2 = x1 [unfolded if_not_P [OF lim(1)] if_not_P [OF lim(2)]]
  obtain hits where hits: "(if inc then so_search ops ch ct [] (Some [Mk_Summary]) 1 s else Inr []) = Inr hits"
    using x2 by (cases "if inc then so_search ops ch ct [] (Some [Mk_Summary]) 1 s else Inr []") auto
  note x3 = x2 [unfolded hits bind_result_simps Let_def]
  obtain ts1 prior1 ms where b1: "bounded_input sv inc mc mo turns (case hits of [] \<Rightarrow> None | h # _ \<Rightarrow> Some (sh_record h)) = Inr (ts1, prior1, ms)"
    using x3 by (cases "bounded_input sv inc mc mo turns (case hits of [] \<Rightarrow> None | h # _ \<Rightarrow> Some (sh_record h))") auto
  from x3 [unfolded b1 bind_result_simps prod.case] have eq: "ch = channel" "ct = chat" "ts1 = ts" "prior1 = prior"
    and p: "derivation_payload_ok p"
    by (auto simp: bind_result_Inr_iff dest: parsed_answer_ok)
  note scope = sc [unfolded eq] and b = b1 [unfolded eq] and hits = hits [unfolded eq store_of_def store_ops.simps]
  let ?prev = "case hits of [] \<Rightarrow> None | h # _ \<Rightarrow> Some (sh_record h)"
  note sh = shrink_sound [OF bounded_input_shrink(1) [OF b]]
  have ids: "turn_ids ts \<subseteq> turn_ids turns"
  proof -
    have "turn_ids (unsummarized ?prev (first_turns [] turns)) \<subseteq> turn_ids turns"
      unfolding turn_ids_def by (intro image_mono subset_trans [OF unsummarized_subset first_turns_subset])
    with sh show ?thesis by blast
  qed
  have pr: "q \<in> set (contents s) \<and> in_memory_scope channel chat q \<and> me_kind q = Mk_Summary" if "prior = Some q" for q
  proof -
    from sh that have "?prev = Some q" by auto
    then obtain h hs where "hits = h # hs" "q = sh_record h" by (auto split: list.splits)
    with hits search_scope [OF assms(1), of channel chat "[]" "Some [Mk_Summary]" 1 hits h] show ?thesis
      by (auto simp: kind_allowed_def split: if_splits)
  qed
  from assms(2) x have per: "persist sv ops inc had channel chat model ts prior p s = (res, t)" by (simp add: derive_def)
  from p have "list_all derived_item_ok (dp_memories p)" by (simp add: derivation_payload_ok_def)
  from persist_extends [OF assms(1) this _ per] pr
  have e: "ok t" "extends_store channel chat (turn_ids ts) prior (set (contents s)) (set (contents t))" by blast+
  have "grounded channel chat (turn_ids turns) prior q" if "grounded channel chat (turn_ids ts) prior q" for q
    using that ids by (auto simp: grounded_def split: if_splits)
  with e(2) have "extends_store channel chat (turn_ids turns) prior (set (contents s)) (set (contents t))"
    by (simp add: extends_store_def) blast
  with e(1) pr scope show ?thesis by blast
qed

end

subsection \<open>Properties\<close>


lemma longest_index_max: "t \<in> set ts \<Longrightarrow> length (ct_content t) \<le> length (ct_content (ts ! longest_index ts))"
  by (induction ts rule: longest_index.induct) auto

lemma shrink_error:
  "shrink fits inc ts prior = Inl e \<Longrightarrow> ts \<noteq> [] \<Longrightarrow>
   (\<exists>ts' prior'. fits ts' prior' = Inl e) \<or>
   (\<exists>ts'. e = ContextOverflowError ''memory derivation prompt exceeds the model context'' \<and> fits ts' None = Inr False \<and>
     exchange_ids ts' = exchange_ids ts \<and> length ts' \<le> 2 \<and> list_all (\<lambda>t. length (ct_content t) \<le> 32) ts')"
proof (induction fits inc ts prior rule: shrink.induct)
  case (1 fits inc ts prior)
  note ih = 1(1-3) and step = 1(4) [unfolded shrink.simps [of fits inc ts prior]] and ne = 1(5)
  let ?i = "if inc then length ts - 3 else 0"
  let ?k = "longest_index ts"
  let ?ts = "ts[?k := (ts ! ?k)\<lparr>ct_content := shortened (ct_content (ts ! ?k))\<rparr>]"
  show ?case
  proof (cases "fits ts prior")
    case (Inl e')
    with step show ?thesis by auto
  next
    case f: (Inr b)
    with step have b: "b = False" by (cases b) auto
    show ?thesis
    proof (cases "2 < length ts")
      case True
      with f b step have "shrink fits inc (pop_at ?i ts) prior = Inl e" by simp
      moreover have "pop_at ?i ts \<noteq> []" using True length_pop_at [of ?i ts] by (auto simp del: length_pop_at length_0_conv simp flip: length_0_conv)
      moreover have "?i \<le> length ts - 3" by simp
      ultimately show ?thesis using ih(1) [OF f b True] exchange_ids_pop [OF True] by auto
    next
      case short: False
      show ?thesis
      proof (cases "prior = None")
        case False
        with f b short step have "shrink fits inc ts None = Inl e" by simp
        from ih(2) [OF f b short False this ne] show ?thesis .
      next
        case None: True
        show ?thesis
        proof (cases "length (ct_content (ts ! ?k)) \<le> 32")
          case True
          then have "list_all (\<lambda>t. length (ct_content t) \<le> 32) ts"
            using longest_index_max by (fastforce simp: list_all_iff)
          with f b short None step True ne show ?thesis by (intro disjI2 exI [of _ ts]) auto
        next
          case long: False
          with f b short None step ne have r: "shrink fits inc ?ts prior = Inl e" by (auto split: if_splits)
          have np: "\<not> prior \<noteq> None" using None by simp
          from ih(3) [OF f b short np ne refl refl long r] ne exchange_ids_update [OF longest_index_less [OF ne]]
          show ?thesis by simp
        qed
      qed
    qed
  qed
qed

lemma exchange_ids_unsummarized: "exchange_ids (unsummarized prior ts) = exchange_ids ts"
proof (cases prior)
  case (Some r)
  let ?P = "\<lambda>t. ct_message_id t \<notin> set (pv_source_message_ids (me_provenance r)) \<or> ct_message_id t \<in> ct_message_id ` set (final_exchange ts)"
  have s: "ts = take (length ts - 2) ts @ final_exchange ts" by (simp add: final_exchange_def)
  have "filter ?P (final_exchange ts) = final_exchange ts" by (rule filter_True) auto
  then have f: "filter ?P ts = filter ?P (take (length ts - 2) ts) @ final_exchange ts"
    by (subst s) (simp only: filter_append)
  have "final_exchange (filter ?P (take (length ts - 2) ts) @ final_exchange ts) = final_exchange ts"
    by (cases "2 \<le> length ts") (auto simp: final_exchange_def)
  with f Some show ?thesis by (simp add: exchange_ids_def unsummarized_def)
qed (simp add: unsummarized_def)

lemma final_exchange_empty [simp]: "exchange_ids ts = [] \<longleftrightarrow> ts = []"
  by (cases ts) (auto simp: exchange_ids_def final_exchange_def)


text \<open>A memory whose text is blank passes the checks of the answer and raises when the record is built, after the
  memories before it have been stored.\<close>

lemma blank_item_raises:
  assumes "strip (di_text d) = []"
  shows "item_record sv channel chat model turns d = Inl (ValidationError ''MemoryRecord'')"
  using assms by (simp add: item_record_def new_memory_def memory_record_ok_def len_between_def raise_if_def)

text \<open>A transcript of more than half a million characters is not shortened but refused.\<close>

lemma long_transcript_raises:
  assumes "500000 < length (json_compact (dv_float sv) (JObj [(lit ''transcript'', transcript ts),
     (lit ''summary_requested'', JBool inc), (lit ''previous_summary'', JNull)]))"
    and "derivation_instruction \<noteq> [] \<and> length derivation_instruction \<le> 500000"
  shows "shrink (input_fits sv inc mc mo) inc ts None = Inl (ValidationError ''ModelMessage'')"
  using assms by (subst shrink.simps) (simp add: input_fits_def derivation_messages_def new_message_def raise_if_def)

text \<open>A compressed segment names exactly the messages it stands for.\<close>

lemma compressed_sources:
  assumes "compress_segment sv loads ops fresh channel chat turns supersedes maximum_output s = Inr (r, t)"
  shows "in_memory_scope channel chat r \<and> memory_record_ok r \<and> set (pv_source_message_ids (me_provenance r)) = turn_ids turns \<and>
    pv_supersedes (me_provenance r) = supersedes \<and> so_add ops r s = Inr t"
  using assms by (auto simp: compress_segment_def bind_result_Inr_iff in_memory_scope_def turn_ids_def split: if_splits)

definition demo_deriver :: derivation_service where
  "demo_deriver = \<lparr>dv_json_output = True, dv_count_tokens = (\<lambda>ms. int (length ms)),
     dv_generate = (\<lambda>_. Inr \<lparr>ms_content = Some (lit ''{}''), ms_tool_calls = [], ms_reasoning = None, ms_model = lit ''flash'',
       ms_prompt_tokens = 1, ms_completion_tokens = 1, ms_finish_reason = None\<rparr>),
     dv_parse = (\<lambda>_. Some \<lparr>dp_memories = [\<lparr>di_kind = Mk_Fact, di_text = lit ''likes tea'', di_source_message_ids = [ct_message_id demo_turn],
       di_confidence = 1, di_importance = 1\<rparr>], dp_summary = None\<rparr>),
     dv_prompt_version = lit ''memory-derive/v1'', dv_uuid5 = (\<lambda>s. s), dv_float = (\<lambda>_. []), dv_now = 0\<rparr>"


end
