(* ===== verification/Wechat_Screen.thy ===== *)
theory Wechat_Screen
  imports Domain
begin

text \<open>
  What the WeChat connector reads from the local agent service: \<open>AgentWechatHTTP\<close>, the account, the chat list and the
  accessibility tree of \<open>lemonbot/connectors/wechat_agent.py\<close>. The service answers a request by any outcome that may
  depend on all requests before it, so that every behaviour of the service is some function \<open>api\<close> of the request log. An
  operation returns or raises and keeps the log and the connector's state in both cases.
\<close>

subsection \<open>Requests\<close>

datatype api_call =
    Get_Auth
  | Get_Chats nat
  | Get_Chat str
  | Get_Tree
  | Get_Messages str nat
  | Open_Chat str
  | Send_Text str str
  | Get_Snapshot str nat
  | Read_Cycle "(str \<times> int list option) list"

datatype http_outcome = Http_Timeout | Http_Status nat | Http_Transport | Http_Not_Json | Http_Cancelled | Http_Json json

type_synonym api = "api_call list \<Rightarrow> http_outcome"

fun is_send :: "api_call \<Rightarrow> bool" where
  "is_send (Send_Text _ _) = True"
| "is_send _ = False"

definition stage_name :: "api_call \<Rightarrow> string" where
  "stage_name c = (if is_send c then ''Send'' else ''Read'')"

definition decimal_text :: "nat \<Rightarrow> string" where
  "decimal_text n = map char_of (digits_of 10 n)"

definition unavailable :: "api_call \<Rightarrow> string \<Rightarrow> exn" where
  "unavailable c detail = LabPaused (''APIUnavailableOrInvalid:'' @ stage_name c @ '':'' @ detail)"

text \<open>\<open>AgentWechatHTTP.request\<close>: the answer, or one fixed diagnostic per kind of failure.\<close>

definition answer_of :: "api_call \<Rightarrow> http_outcome \<Rightarrow> json result" where
  "answer_of c out =
     (case out of
        Http_Json j \<Rightarrow> Inr j
      | Http_Timeout \<Rightarrow> Inl (unavailable c ''Timeout'')
      | Http_Status n \<Rightarrow> Inl (unavailable c (''HTTP'' @ decimal_text n))
      | Http_Transport \<Rightarrow> Inl (unavailable c ''Transport'')
      | Http_Not_Json \<Rightarrow> Inl (unavailable c ''JSON'')
      | Http_Cancelled \<Rightarrow> Inl (OtherException ''CancelledError''))"

text \<open>A computation over a state that has the request log as one of its fields.\<close>

record traced =
  tr_log :: "api_call list"

type_synonym ('s, 'a) act = "'s \<Rightarrow> 'a result \<times> 's"

definition act_return :: "'a \<Rightarrow> ('s, 'a) act" where
  "act_return a s = (Inr a, s)"

definition act_raise :: "exn \<Rightarrow> ('s, 'a) act" where
  "act_raise e s = (Inl e, s)"

definition act_bind :: "('s, 'a) act \<Rightarrow> ('a \<Rightarrow> ('s, 'b) act) \<Rightarrow> ('s, 'b) act" where
  "act_bind m f s = (case m s of (Inl e, t) \<Rightarrow> (Inl e, t) | (Inr a, t) \<Rightarrow> f a t)"

definition act_when :: "bool \<Rightarrow> ('s, unit) act \<Rightarrow> ('s, unit) act" where
  "act_when b m = (if b then m else act_return ())"

definition act_lift :: "'a result \<Rightarrow> ('s, 'a) act" where
  "act_lift r s = (r, s)"

definition call :: "api \<Rightarrow> api_call \<Rightarrow> ('r traced_scheme, json) act" where
  "call api c s = (let log = tr_log s @ [c] in (answer_of c (api log), s\<lparr>tr_log := log\<rparr>))"

subsection \<open>Identity\<close>

text \<open>\<open>reference\<close>: the kind and a keyed digest of kind and parts, which is the parameter \<open>mac\<close>.\<close>

definition reference :: "(str list \<Rightarrow> str) \<Rightarrow> string \<Rightarrow> str list \<Rightarrow> str" where
  "reference mac kind parts = lit kind @ lit ''_'' @ mac (lit kind # parts)"

definition account_id :: "json \<Rightarrow> str result" where
  "account_id auth =
     (case auth of
        JObj d \<Rightarrow>
          if dget d ''status'' \<noteq> Some (JStr (lit ''logged_in'')) then Inl (LabPaused ''NotLoggedIn'')
          else (case dget d ''loggedInUser'' of
                  Some (JStr a) \<Rightarrow> if a = [] \<or> 512 < length a then Inl (LabPaused ''AccountIdentityMissing'') else Inr a
                | _ \<Rightarrow> Inl (LabPaused ''AccountIdentityMissing''))
      | _ \<Rightarrow> Inl (LabPaused ''NotLoggedIn''))"

text \<open>\<open>row.get("id") or row.get("username")\<close>.\<close>

definition chat_identifier :: "dict \<Rightarrow> json option" where
  "chat_identifier d = (case dget d ''id'' of Some v \<Rightarrow> if truthy v then Some v else dget d ''username'' | None \<Rightarrow> dget d ''username'')"

definition is_chatroom :: "str \<Rightarrow> bool" where
  "is_chatroom i \<longleftrightarrow> suffix (lit ''@chatroom'') i"

definition testing_chat :: "dict \<Rightarrow> str list" where
  "testing_chat d =
     (if dget d ''name'' \<noteq> Some (JStr (lit ''testing'')) then []
      else case chat_identifier d of Some (JStr i) \<Rightarrow> if is_chatroom i then [i] else [] | _ \<Rightarrow> [])"

fun page_matches :: "json list \<Rightarrow> str list result" where
  "page_matches [] = Inr []"
| "page_matches (JObj d # rows) = bind_result (page_matches rows) (\<lambda>is. Inr (testing_chat d @ is))"
| "page_matches (_ # rows) = Inl (LabPaused ''InvalidChatList'')"

text \<open>The loop over at most ten pages.\<close>

fun testing_pages :: "api \<Rightarrow> nat \<Rightarrow> nat \<Rightarrow> ('r traced_scheme, str list) act" where
  "testing_pages api 0 offset = act_raise (LabPaused ''ChatListLimit'')"
| "testing_pages api (Suc n) offset =
     act_bind (call api (Get_Chats offset)) (\<lambda>page.
       case page of
         JList rows \<Rightarrow>
           if 100 < length rows then act_raise (LabPaused ''InvalidChatList'')
           else act_bind (act_lift (page_matches rows)) (\<lambda>here.
             if length rows < 100 then act_return here
             else act_bind (testing_pages api n (offset + 100)) (\<lambda>rest. act_return (here @ rest)))
       | _ \<Rightarrow> act_raise (LabPaused ''InvalidChatList''))"

definition unique_testing :: "api \<Rightarrow> ('r traced_scheme, str) act" where
  "unique_testing api = act_bind (testing_pages api 10 0) (\<lambda>ids.
     case remdups ids of [i] \<Rightarrow> act_return i | _ \<Rightarrow> act_raise (LabPaused ''TestingNotUnique''))"

subsection \<open>The accessibility tree\<close>

record ui_node =
  un_node :: dict
  un_path :: "nat list"
  un_roles :: "str list"

text \<open>The role of a node in lower case; a node without a role or with states that are no list is invalid.\<close>

definition node_role :: "dict \<Rightarrow> str result" where
  "node_role d =
     (case (dget d ''role'', dget d ''states'') of
        (Some (JStr r), None) \<Rightarrow> Inr (casefold r)
      | (Some (JStr r), Some (JList _)) \<Rightarrow> Inr (casefold r)
      | _ \<Rightarrow> Inl (LabPaused ''InvalidUITree''))"

definition node_hidden :: "dict \<Rightarrow> bool" where
  "node_hidden d =
     (case dget d ''states'' of
        Some (JList ss) \<Rightarrow> list_ex (\<lambda>s. case s of
          JStr t \<Rightarrow> casefold t \<in> {lit ''hidden'', lit ''invisible'', lit ''defunct''} | _ \<Rightarrow> False) ss
      | _ \<Rightarrow> False)"

definition node_children :: "dict \<Rightarrow> json list result" where
  "node_children d =
     (case dget d ''children'' of
        None \<Rightarrow> Inr []
      | Some v \<Rightarrow> if \<not> truthy v then Inr [] else (case v of JList xs \<Rightarrow> Inr xs | _ \<Rightarrow> Inl (LabPaused ''InvalidUITree'')))"

lemma map_of_size: "map_of kvs k = Some v \<Longrightarrow> size v < size (JObj kvs)"
proof (induction kvs)
  case (Cons p kvs)
  then show ?case by (cases p) (auto split: if_splits)
qed simp

lemma node_children_size:
  assumes "node_children d = Inr xs"
  shows "size_list size xs \<le> size (JObj d)"
proof (cases "dget d ''children''")
  case (Some v)
  then have "size v < size (JObj d)" unfolding dget_def by (rule map_of_size)
  with assms Some show ?thesis by (auto simp: node_children_def split: if_splits json.splits)
qed (use assms in \<open>simp add: node_children_def\<close>)

text \<open>\<open>visit\<close>: the visible nodes in preorder, appended to those already found.\<close>

function visit :: "json \<Rightarrow> nat list \<Rightarrow> str list \<Rightarrow> ui_node list \<Rightarrow> ui_node list result"
  and visit_all :: "json list \<Rightarrow> nat \<Rightarrow> nat list \<Rightarrow> str list \<Rightarrow> ui_node list \<Rightarrow> ui_node list result" where
  "visit v path roles nodes =
     (case v of
        JObj d \<Rightarrow>
          if 5000 \<le> length nodes \<or> 64 < length path then Inl (LabPaused ''InvalidUITree'')
          else (case node_role d of
            Inl e \<Rightarrow> Inl e
          | Inr role \<Rightarrow>
              let lineage = roles @ [role]
              in if role \<in> {lit ''dialog'', lit ''alert'', lit ''popup menu'', lit ''popup-menu''} then Inl (LabPaused ''PopupPresent'')
                 else if node_hidden d then Inr nodes
                 else (case node_children d of
                   Inl e \<Rightarrow> Inl e
                 | Inr xs \<Rightarrow> visit_all xs 0 path lineage (nodes @ [\<lparr>un_node = d, un_path = path, un_roles = lineage\<rparr>])))
      | _ \<Rightarrow> Inl (LabPaused ''InvalidUITree''))"
| "visit_all [] i path roles nodes = Inr nodes"
| "visit_all (x # xs) i path roles nodes =
     bind_result (visit x (path @ [i]) roles nodes) (\<lambda>nodes1. visit_all xs (Suc i) path roles nodes1)"
  by pat_completeness auto
termination
  by (relation "measure (\<lambda>x. case x of Inl (v, _) \<Rightarrow> 2 * size v + 1 | Inr (xs, _) \<Rightarrow> 2 * size_list size xs)")
    (auto dest!: node_children_size)

definition ui_nodes :: "json \<Rightarrow> ui_node list result" where
  "ui_nodes payload =
     (case payload of
        JObj d \<Rightarrow> (case dget d ''tree'' of Some (JObj t) \<Rightarrow> visit (JObj t) [] [] [] | _ \<Rightarrow> Inl (LabPaused ''InvalidUITree''))
      | _ \<Rightarrow> Inl (LabPaused ''InvalidUITree''))"

definition node_at :: "ui_node list \<Rightarrow> nat list \<Rightarrow> ui_node option" where
  "node_at nodes path = find (\<lambda>n. un_path n = path) nodes"

definition own_role :: "ui_node \<Rightarrow> str" where
  "own_role n = last (un_roles n)"

text \<open>The nearest frame on the way to the root.\<close>

fun frame_at :: "ui_node list \<Rightarrow> nat list \<Rightarrow> nat \<Rightarrow> nat list option" where
  "frame_at nodes path depth =
     (if map_option own_role (node_at nodes (take depth path)) = Some (lit ''frame'') then Some (take depth path)
      else case depth of 0 \<Rightarrow> None | Suc k \<Rightarrow> frame_at nodes path k)"

declare frame_at.simps [simp del]

definition frame_for :: "ui_node list \<Rightarrow> nat list \<Rightarrow> nat list option" where
  "frame_for nodes path = frame_at nodes path (length path)"

text \<open>\<open>valid_bounds\<close>: four finite numbers, no booleans, of positive extent. JSON numbers are finite here.\<close>

record box =
  bx_x :: rat
  bx_y :: rat
  bx_width :: rat
  bx_height :: rat

definition number :: "json option \<Rightarrow> rat option" where
  "number v = (case v of Some (JInt i) \<Rightarrow> Some (of_int i) | Some (JFloat q) \<Rightarrow> Some q | _ \<Rightarrow> None)"

definition node_bounds :: "dict \<Rightarrow> box option" where
  "node_bounds d =
     (case dget d ''bounds'' of
        Some (JObj b) \<Rightarrow>
          (case (number (dget b ''x''), number (dget b ''y''), number (dget b ''width''), number (dget b ''height'')) of
             (Some x, Some y, Some w, Some h) \<Rightarrow>
               if 0 < w \<and> 0 < h then Some \<lparr>bx_x = x, bx_y = y, bx_width = w, bx_height = h\<rparr> else None
           | _ \<Rightarrow> None)
      | _ \<Rightarrow> None)"

definition right_edge :: "box \<Rightarrow> rat" where "right_edge b = bx_x b + bx_width b"
definition bottom_edge :: "box \<Rightarrow> rat" where "bottom_edge b = bx_y b + bx_height b"

definition node_name :: "ui_node \<Rightarrow> str option" where
  "node_name n = (case dget (un_node n) ''name'' of Some (JStr s) \<Rightarrow> Some s | _ \<Rightarrow> None)"

definition chat_lists :: "ui_node list \<Rightarrow> ui_node list" where
  "chat_lists nodes = filter (\<lambda>n. own_role n = lit ''list'' \<and> node_name n = Some (lit ''Chats'')) nodes"

text \<open>The chat list and its frame, in which the headings are looked for.\<close>

definition chat_frame :: "ui_node list \<Rightarrow> (nat list \<times> box \<times> box) result" where
  "chat_frame nodes =
     (case chat_lists nodes of
        [c] \<Rightarrow>
          (case node_bounds (un_node c) of
             None \<Rightarrow> Inl (LabPaused ''ChatListStructureMissing'')
           | Some lb \<Rightarrow>
               (case frame_for nodes (un_path c) of
                  None \<Rightarrow> Inl (LabPaused ''FrameStructureMissing'')
                | Some fp \<Rightarrow>
                    (case Option.bind (node_at nodes fp) (\<lambda>n. node_bounds (un_node n)) of
                       None \<Rightarrow> Inl (LabPaused ''FrameStructureMissing'')
                     | Some fb \<Rightarrow>
                         if bx_x fb \<le> bx_x lb \<and> bx_x lb < right_edge lb \<and> right_edge lb \<le> right_edge fb \<and>
                            bx_y fb \<le> bx_y lb \<and> bottom_edge lb \<le> bottom_edge fb
                         then Inr (fp, lb, fb) else Inl (LabPaused ''ChatListStructureMissing''))))
      | _ \<Rightarrow> Inl (LabPaused ''ChatListStructureMissing''))"

definition blocked_roles :: "str set" where
  "blocked_roles = {lit ''list'', lit ''list item'', lit ''list-item'', lit ''tree'', lit ''tree item'', lit ''tree-item'',
     lit ''table'', lit ''menu'', lit ''dialog''}"

text \<open>A label of the chat's frame above and right of the chat list, in the header band of 70 units.\<close>

definition is_heading :: "(str \<Rightarrow> bool) \<Rightarrow> ui_node list \<Rightarrow> nat list \<Rightarrow> box \<Rightarrow> box \<Rightarrow> ui_node \<Rightarrow> bool" where
  "is_heading title nodes fp lb fb n \<longleftrightarrow>
     own_role n = lit ''label'' \<and> set (butlast (un_roles n)) \<inter> blocked_roles = {} \<and> frame_for nodes (un_path n) = Some fp \<and>
     (case node_name n of None \<Rightarrow> False | Some s \<Rightarrow> title s) \<and>
     (case node_bounds (un_node n) of
        None \<Rightarrow> False
      | Some b \<Rightarrow> right_edge lb < bx_x b \<and> right_edge b \<le> right_edge fb \<and> 0 \<le> bx_y b - bx_y fb \<and> bx_y b - bx_y fb < 70 \<and>
          bottom_edge b \<le> min (bx_y fb + 70) (bottom_edge fb))"

text \<open>The wrapper of a nested label with the same kind of title.\<close>

definition wraps :: "ui_node \<Rightarrow> ui_node \<Rightarrow> bool" where
  "wraps outer inner \<longleftrightarrow>
     strict_prefix (un_path outer) (un_path inner) \<and>
     (case (node_bounds (un_node outer), node_bounds (un_node inner)) of
        (Some a, Some b) \<Rightarrow> bx_x a \<le> bx_x b \<and> bx_y a \<le> bx_y b \<and> right_edge b \<le> right_edge a \<and> bottom_edge b \<le> bottom_edge a
      | _ \<Rightarrow> False)"

type_synonym heading = "nat list \<times> str list"

definition title_candidates :: "(str \<Rightarrow> bool) \<Rightarrow> json \<Rightarrow> heading list result" where
  "title_candidates title payload =
     bind_result (ui_nodes payload) (\<lambda>nodes.
     bind_result (chat_frame nodes) (\<lambda>(fp, lb, fb).
       let found = filter (is_heading title nodes fp lb fb) nodes
       in Inr (map (\<lambda>n. (un_path n, un_roles n)) (filter (\<lambda>n. \<not> list_ex (wraps n) found) found))))"

text \<open>The titles: a name, and for a group an optional member count in parentheses.\<close>

definition member_count :: "str \<Rightarrow> bool" where
  "member_count s =
     (case dropWhile is_space s of
        c # ds \<Rightarrow> c = 40 \<and> 2 \<le> length ds \<and> last ds = 41 \<and> list_all (\<lambda>d. 48 \<le> d \<and> d \<le> 57) (butlast ds)
      | [] \<Rightarrow> False)"

definition title_matches :: "str \<Rightarrow> bool \<Rightarrow> str \<Rightarrow> bool" where
  "title_matches name is_group s \<longleftrightarrow>
     s = name \<or> is_group \<and> prefix name s \<and> member_count (drop (length name) s)"

definition testing_title :: "str \<Rightarrow> bool" where
  "testing_title = title_matches (lit ''testing'') True"

end
