(* ===== verification/Wechat_Agent.thy ===== *)
theory Wechat_Agent
  imports Wechat_Screen "HOL-Library.AList"
begin

text \<open>
  The WeChat connectors: \<open>AgentWechatConnector\<close> of \<open>lemonbot/connectors/wechat_agent.py\<close> and its subclass
  \<open>ConversationTransport\<close> of \<open>connectors/wechat_agent_conversation.py\<close>. The methods that the subclass overrides are a
  record of methods; polling and delivery are written over it once, as in the base class. Diagnostics and latency records are left
  out. The clock decides how often a delivery reads the chat back: \<open>lv_checks\<close> is the number of the check that finds
  the deadline passed.
\<close>

subsection \<open>State\<close>

record binding =
  bn_account_ref :: str
  bn_chat_id :: str
  bn_chat_ref :: str
  bn_header_path :: "nat list"
  bn_header_roles :: "str list"

record lab_state = traced +
  lb_paused :: "string option"
  lb_anchors :: "int set option"
  lb_attempts :: "(uuid \<times> str \<times> delivery_receipt) list"

record lab_env =
  lv_api :: api
  lv_mac :: "str list \<Rightarrow> str"
  lv_binding :: binding
  lv_timestamp :: "json option \<Rightarrow> time option"
  lv_now :: "api_call list \<Rightarrow> time"
  lv_checks :: "api_call list \<Rightarrow> nat"

type_synonym 'a lab = "(lab_state, 'a) act"

definition channel_name :: str where
  "channel_name = lit ''wechat_agent_lab''"

definition pause :: "string \<Rightarrow> 'a lab" where
  "pause code s = (Inl (LabPaused code), s\<lparr>lb_paused := Some code\<rparr>)"

text \<open>\<open>except LabPaused as error: self.pause(str(error))\<close>.\<close>

definition or_pause :: "'a lab \<Rightarrow> 'a lab" where
  "or_pause m s = (case m s of (Inl (LabPaused c), t) \<Rightarrow> (Inl (LabPaused c), t\<lparr>lb_paused := Some c\<rparr>) | other \<Rightarrow> other)"

definition get_account :: "lab_env \<Rightarrow> str lab" where
  "get_account v = act_bind (call (lv_api v) Get_Auth) (\<lambda>j. act_lift (account_id j))"

definition account_matches :: "lab_env \<Rightarrow> str \<Rightarrow> bool" where
  "account_matches v account \<longleftrightarrow> reference (lv_mac v) ''account'' [account] = bn_account_ref (lv_binding v)"

definition bound_heading :: "lab_env \<Rightarrow> heading" where
  "bound_heading v = (bn_header_path (lv_binding v), bn_header_roles (lv_binding v))"

definition get_headings :: "lab_env \<Rightarrow> (str \<Rightarrow> bool) \<Rightarrow> heading list lab" where
  "get_headings v title = act_bind (call (lv_api v) Get_Tree) (\<lambda>j. act_lift (title_candidates title j))"

text \<open>\<open>enroll\<close>: the binding of the only testing group, whose heading is in the foreground.\<close>

definition enroll :: "api \<Rightarrow> (str list \<Rightarrow> str) \<Rightarrow> ('r traced_scheme, binding) act" where
  "enroll api mac =
     act_bind (act_bind (call api Get_Auth) (\<lambda>j. act_lift (account_id j))) (\<lambda>account.
     act_bind (unique_testing api) (\<lambda>chat.
     act_bind (act_bind (call api Get_Tree) (\<lambda>j. act_lift (title_candidates testing_title j))) (\<lambda>hs.
       case hs of
         [(path, roles)] \<Rightarrow>
           act_bind (act_bind (call api Get_Auth) (\<lambda>j. act_lift (account_id j))) (\<lambda>again.
             if again \<noteq> account then act_raise (LabPaused ''AccountChanged'')
             else act_return \<lparr>bn_account_ref = reference mac ''account'' [account], bn_chat_id = chat,
               bn_chat_ref = reference mac ''chat'' [account, chat], bn_header_path = path, bn_header_roles = roles\<rparr>)
       | _ \<Rightarrow> act_raise (LabPaused ''TestingHeaderNotUnique''))))"

definition not_paused :: "unit lab" where
  "not_paused s = (case lb_paused s of None \<Rightarrow> (Inr (), s) | Some c \<Rightarrow> (Inl (LabPaused c), s))"

definition lab_guard :: "lab_env \<Rightarrow> unit lab" where
  "lab_guard v = act_bind not_paused (\<lambda>_. or_pause (
     act_bind (get_account v) (\<lambda>account.
     act_bind (act_when (\<not> account_matches v account) (act_raise (LabPaused ''AccountChanged''))) (\<lambda>_.
     act_bind (unique_testing (lv_api v)) (\<lambda>chat.
     act_bind (act_when (chat \<noteq> bn_chat_id (lv_binding v)) (act_raise (LabPaused ''TestingBindingChanged''))) (\<lambda>_.
     act_bind (get_headings v testing_title) (\<lambda>hs.
     act_bind (act_when (hs \<noteq> [bound_heading v]) (act_raise (LabPaused ''TestingNotForeground''))) (\<lambda>_.
     act_bind (get_account v) (\<lambda>again.
     act_when (again \<noteq> account) (act_raise (LabPaused ''AccountChanged''))))))))))) "

subsection \<open>Message pages\<close>

definition local_id :: "dict \<Rightarrow> int" where
  "local_id d = (case dget d ''localId'' of Some (JInt i) \<Rightarrow> i | _ \<Rightarrow> 0)"

definition valid_local_id :: "dict \<Rightarrow> bool" where
  "valid_local_id d \<longleftrightarrow> (case dget d ''localId'' of Some (JInt i) \<Rightarrow> 0 < i | _ \<Rightarrow> False)"

fun rows_fault :: "str \<Rightarrow> json list \<Rightarrow> string option" where
  "rows_fault chat [] = None"
| "rows_fault chat (JObj d # rows) =
     (if dget d ''chatId'' \<noteq> Some (JStr chat) then Some ''WrongChatMessage''
      else if \<not> valid_local_id d then Some ''MessageIdentityMissing''
      else rows_fault chat rows)"
| "rows_fault chat (_ # rows) = Some ''InvalidMessageList''"

definition row_dicts :: "json list \<Rightarrow> dict list" where
  "row_dicts rows = List.map_filter (\<lambda>r. case r of JObj d \<Rightarrow> Some d | _ \<Rightarrow> None) rows"

definition validate_page :: "lab_env \<Rightarrow> json \<Rightarrow> dict list lab" where
  "validate_page v j =
     (case j of
        JList rows \<Rightarrow>
          if 100 < length rows then pause ''InvalidMessageList''
          else (case rows_fault (bn_chat_id (lv_binding v)) rows of
            Some code \<Rightarrow> pause code
          | None \<Rightarrow>
              if \<not> distinct (map local_id (row_dicts rows)) then pause ''DuplicatePageIdentity'' else act_return (row_dicts rows))
      | _ \<Rightarrow> pause ''InvalidMessageList'')"

definition lab_page :: "lab_env \<Rightarrow> nat \<Rightarrow> dict list lab" where
  "lab_page v offset = act_bind (call (lv_api v) (Get_Messages (bn_chat_id (lv_binding v)) offset)) (validate_page v)"

subsection \<open>Events\<close>

text \<open>\<open>value == n\<close>: a float or a boolean may equal an integer.\<close>

definition equals_int :: "int \<Rightarrow> json option \<Rightarrow> bool" where
  "equals_int n v = (case v of Some (JInt i) \<Rightarrow> i = n | Some (JFloat q) \<Rightarrow> q = of_int n
     | Some (JBool b) \<Rightarrow> (if b then 1 else 0) = n | _ \<Rightarrow> False)"

text \<open>\<open>COMMAND\<close> and \<open>ACK\<close>: a prefix and 24 upper-case hexadecimal digits.\<close>

definition coded :: "string \<Rightarrow> str \<Rightarrow> bool" where
  "coded p t \<longleftrightarrow> length t = length p + 24 \<and> prefix (lit p) t \<and>
     list_all (\<lambda>c. 65 \<le> c \<and> c \<le> 70 \<or> 48 \<le> c \<and> c \<le> 57) (drop (length p) t)"

definition row_text :: "dict \<Rightarrow> str option" where
  "row_text d = (case dget d ''content'' of Some (JStr t) \<Rightarrow> Some t | _ \<Rightarrow> None)"

definition event_id_of :: "lab_env \<Rightarrow> dict \<Rightarrow> str" where
  "event_id_of v d = reference (lv_mac v) ''event''
     [bn_account_ref (lv_binding v), bn_chat_id (lv_binding v), str_of_int (local_id d)]"

definition valid_sender :: "dict \<Rightarrow> str option" where
  "valid_sender d = (case dget d ''sender'' of Some (JStr t) \<Rightarrow> if t \<noteq> [] \<and> length t \<le> 512 then Some t else None | _ \<Rightarrow> None)"

definition inbound_text :: "lab_env \<Rightarrow> dict \<Rightarrow> str \<Rightarrow> str \<Rightarrow> time \<Rightarrow> dict \<Rightarrow> inbound_event" where
  "inbound_text v d sender text at_time meta =
     \<lparr>ev_channel = channel_name, ev_event_id = event_id_of v d, ev_chat_id = bn_chat_ref (lv_binding v),
      ev_sender_id = reference (lv_mac v) ''sender'' [bn_account_ref (lv_binding v), sender], ev_text = Some text,
      ev_kind = Ev_Text, ev_occurred_at = at_time, ev_metadata = meta\<rparr>"

definition lab_event :: "lab_env \<Rightarrow> dict \<Rightarrow> inbound_event option lab" where
  "lab_event v d =
     (case row_text d of
        None \<Rightarrow> act_return None
      | Some text \<Rightarrow>
          if \<not> equals_int 1 (dget d ''type'') \<or> \<not> coded ''LB26_E2E_'' text then act_return None
          else case dget d ''isSelf'' of
            Some (JBool own) \<Rightarrow>
              (case valid_sender d of
                 None \<Rightarrow> pause ''SenderMissing''
               | Some sender \<Rightarrow>
                   if own then act_return None
                   else (case lv_timestamp v (dget d ''timestamp'') of
                           None \<Rightarrow> pause ''TimestampMissing''
                         | Some t \<Rightarrow> act_return (Some (inbound_text v d sender text t []))))
          | _ \<Rightarrow> pause ''DirectionMissing'')"

subsection \<open>Polling and delivery over the overridable methods\<close>

record methods =
  mt_guard :: "unit lab"
  mt_before_send :: "unit lab"
  mt_readback :: "unit lab"
  mt_page :: "nat \<Rightarrow> dict list lab"
  mt_event :: "dict \<Rightarrow> inbound_event option lab"
  mt_valid_reply :: "outbound_message \<Rightarrow> bool"
  mt_existing_blocks :: bool

definition set_anchors :: "dict list \<Rightarrow> unit lab" where
  "set_anchors rows s = (Inr (), s\<lparr>lb_anchors := Some (local_id ` set rows)\<rparr>)"

definition baseline :: "methods \<Rightarrow> unit lab" where
  "baseline m = act_bind (mt_guard m) (\<lambda>_. act_bind (mt_page m 0) set_anchors)"

text \<open>\<open>page[:end]\<close>: up to the last row that is an anchor, or all of it.\<close>

definition up_to_anchor :: "int set \<Rightarrow> dict list \<Rightarrow> dict list" where
  "up_to_anchor anchors page =
     (if list_ex (\<lambda>r. local_id r \<in> anchors) page then rev (dropWhile (\<lambda>r. local_id r \<notin> anchors) (rev page)) else page)"

text \<open>The rows of a page that are neither known nor already collected.\<close>

fun collect_rows :: "int set \<Rightarrow> dict list \<Rightarrow> dict list \<Rightarrow> dict list" where
  "collect_rows anchors rows [] = rows"
| "collect_rows anchors rows (r # rs) =
     (if local_id r \<in> anchors \<or> local_id r \<in> local_id ` set rows then collect_rows anchors rows rs
      else collect_rows anchors (rows @ [r]) rs)"

fun poll_pages :: "methods \<Rightarrow> int set \<Rightarrow> nat \<Rightarrow> nat \<Rightarrow> dict list \<Rightarrow> dict list \<Rightarrow> dict list lab" where
  "poll_pages m anchors index 0 rows page = act_raise AssertionError"
| "poll_pages m anchors index (Suc n) rows page =
     (let overlap = list_ex (\<lambda>r. local_id r \<in> anchors) page;
          rows1 = collect_rows anchors rows (up_to_anchor anchors page)
      in if overlap \<or> anchors = {} \<and> length page < 100 then act_return rows1
         else if length page < 100 \<or> n = 0 then pause ''AnchorLost''
         else act_bind (mt_page m (Suc index * 100)) (\<lambda>next_page. poll_pages m anchors (Suc index) n rows1 next_page))"

fun events_of :: "methods \<Rightarrow> dict list \<Rightarrow> inbound_event list lab" where
  "events_of m [] = act_return []"
| "events_of m (r # rs) = act_bind (mt_event m r) (\<lambda>e. act_bind (events_of m rs) (\<lambda>es.
     act_return (case e of None \<Rightarrow> es | Some x \<Rightarrow> x # es)))"

definition read_new :: "methods \<Rightarrow> int set \<Rightarrow> inbound_event list lab" where
  "read_new m anchors =
     act_bind (mt_page m 0) (\<lambda>first.
     act_bind (poll_pages m anchors 0 10 [] first) (\<lambda>rows.
     act_bind (mt_page m 0) (\<lambda>again.
     act_bind (act_when (map local_id again \<noteq> map local_id first) (pause ''MessageWindowChanged'')) (\<lambda>_.
     act_bind (events_of m (rev rows)) (\<lambda>es.
     act_bind (set_anchors first) (\<lambda>_. act_return es))))))"

definition poll_once :: "methods \<Rightarrow> inbound_event list lab" where
  "poll_once m = or_pause (act_bind (mt_guard m) (\<lambda>_ s.
     case lb_anchors s of
       None \<Rightarrow> act_bind (baseline m) (\<lambda>_. act_return []) s
     | Some anchors \<Rightarrow> read_new m anchors s))"

definition receipt :: "outbound_message \<Rightarrow> delivery_status \<Rightarrow> string option \<Rightarrow> delivery_receipt" where
  "receipt m st detail = \<lparr>rc_message_id = om_message_id m, rc_status = st, rc_external_id = None, rc_acknowledged_at = None,
     rc_detail = map_option lit detail\<rparr>"

definition remember :: "outbound_message \<Rightarrow> delivery_receipt \<Rightarrow> unit lab" where
  "remember msg r s = (Inr (), s\<lparr>lb_attempts := AList.update (om_message_id msg) (om_text msg, r) (lb_attempts s)\<rparr>)"

definition self_row :: "dict \<Rightarrow> bool" where
  "self_row r \<longleftrightarrow> dget r ''isSelf'' = Some (JBool True) \<and> dflag r ''sender''"

definition acknowledged :: "lab_env \<Rightarrow> outbound_message \<Rightarrow> dict \<Rightarrow> time \<Rightarrow> delivery_receipt" where
  "acknowledged v msg r t = \<lparr>rc_message_id = om_message_id msg, rc_status = Dlv_Acknowledged,
     rc_external_id = Some (reference (lv_mac v) ''receipt''
       [bn_account_ref (lv_binding v), bn_chat_id (lv_binding v), str_of_int (local_id r)]),
     rc_acknowledged_at = Some t, rc_detail = None\<rparr>"

text \<open>The rows that a send may have produced: new text rows with the sent text.\<close>

definition sent_rows :: "int set \<Rightarrow> outbound_message \<Rightarrow> dict list \<Rightarrow> dict list" where
  "sent_rows previous msg page =
     filter (\<lambda>r. local_id r \<notin> previous \<and> equals_int 1 (dget r ''type'') \<and> row_text r = Some (om_text msg)) page"

fun read_back :: "methods \<Rightarrow> lab_env \<Rightarrow> outbound_message \<Rightarrow> int set \<Rightarrow> nat \<Rightarrow> delivery_receipt lab" where
  "read_back m v msg previous n =
     act_bind (mt_readback m) (\<lambda>_. act_bind (mt_page m 0) (\<lambda>page.
       case sent_rows previous msg page of
         [] \<Rightarrow> (case n of 0 \<Rightarrow> pause ''ReadbackTimeoutNoRetry'' | Suc k \<Rightarrow> read_back m v msg previous k)
       | [r] \<Rightarrow>
           if \<not> self_row r then pause ''InvalidSelfReadback''
           else (\<lambda>s. let done_receipt = acknowledged v msg r (lv_now v (tr_log s))
                  in act_bind (remember msg done_receipt) (\<lambda>_. act_return done_receipt) s)
       | _ \<Rightarrow> pause ''AmbiguousReadback''))"

declare read_back.simps [simp del]

definition send_and_confirm :: "methods \<Rightarrow> lab_env \<Rightarrow> outbound_message \<Rightarrow> int set \<Rightarrow> delivery_receipt lab" where
  "send_and_confirm m v msg previous =
     act_bind (call (lv_api v) (Send_Text (bn_chat_id (lv_binding v)) (om_text msg))) (\<lambda>j.
     act_bind (act_when (case j of JObj d \<Rightarrow> dget d ''success'' \<noteq> Some (JBool True) | _ \<Rightarrow> True)
       (pause ''SendNotConfirmedNoRetry'')) (\<lambda>_ s. read_back m v msg previous (lv_checks v (tr_log s)) s))"

definition deliver_new :: "methods \<Rightarrow> lab_env \<Rightarrow> outbound_message \<Rightarrow> delivery_receipt lab" where
  "deliver_new m v msg =
     act_bind (mt_before_send m) (\<lambda>_.
     act_bind (mt_page m 0) (\<lambda>before.
     act_bind (act_when (mt_existing_blocks m \<and> list_ex (\<lambda>r. row_text r = Some (om_text msg)) before)
       (pause ''AckAlreadyPresent'')) (\<lambda>_.
       let unknown = receipt msg Dlv_Unknown (Some ''SendNotConfirmedNoRetry'')
       in act_bind (remember msg unknown) (\<lambda>_ s.
            case send_and_confirm m v msg (local_id ` set before) s of
              (Inl (LabPaused c), t) \<Rightarrow> (Inr unknown, t\<lparr>lb_paused := Some c\<rparr>)
            | other \<Rightarrow> other))))"

definition lab_deliver :: "methods \<Rightarrow> lab_env \<Rightarrow> outbound_message \<Rightarrow> delivery_receipt lab" where
  "lab_deliver m v msg s =
     (case map_of (lb_attempts s) (om_message_id msg) of
        Some (text, r) \<Rightarrow> if text \<noteq> om_text msg then pause ''ReplyIdentityRebound'' s else (Inr r, s)
      | None \<Rightarrow>
          if om_channel msg \<noteq> channel_name \<or> om_chat_id msg \<noteq> bn_chat_ref (lv_binding v) \<or> \<not> mt_valid_reply m msg
          then (Inr (receipt msg Dlv_Failed (Some ''InvalidLabReply'')), s)
          else deliver_new m v msg s)"

definition lab_methods :: "lab_env \<Rightarrow> methods" where
  "lab_methods v = \<lparr>mt_guard = lab_guard v, mt_before_send = lab_guard v, mt_readback = lab_guard v, mt_page = lab_page v,
     mt_event = lab_event v, mt_valid_reply = (\<lambda>msg. coded ''LB26_ACK_'' (om_text msg)), mt_existing_blocks = True\<rparr>"

definition lab_health :: "methods \<Rightarrow> (bool \<times> string option) lab" where
  "lab_health m s =
     (case mt_guard m s of
        (Inl (LabPaused c), t) \<Rightarrow> (Inr (False, lb_paused t), t)
      | (Inl e, t) \<Rightarrow> (Inl e, t)
      | (Inr _, t) \<Rightarrow> (Inr (True, Some ''ExperimentalTestingForeground''), t))"

subsection \<open>A bound conversation\<close>

record target =
  tg_name :: str
  tg_is_group :: bool

definition chat_matches :: "lab_env \<Rightarrow> json \<Rightarrow> bool" where
  "chat_matches v j \<longleftrightarrow> (case j of JObj d \<Rightarrow> chat_identifier d = Some (JStr (bn_chat_id (lv_binding v))) | _ \<Rightarrow> False)"

definition target_matches :: "target \<Rightarrow> json \<Rightarrow> bool" where
  "target_matches tg j \<longleftrightarrow> (case j of
     JObj d \<Rightarrow> dget d ''isGroup'' = Some (JBool (tg_is_group tg)) \<and> dget d ''name'' = Some (JStr (tg_name tg)) | _ \<Rightarrow> False)"

definition conv_guard :: "lab_env \<Rightarrow> target \<Rightarrow> unit lab" where
  "conv_guard v tg =
     act_bind not_paused (\<lambda>_.
     act_bind (get_account v) (\<lambda>account.
     act_bind (act_when (\<not> account_matches v account) (pause ''AccountChanged'')) (\<lambda>_.
     act_bind (call (lv_api v) (Get_Chat (bn_chat_id (lv_binding v)))) (\<lambda>chat.
       act_when (\<not> chat_matches v chat \<or> \<not> target_matches tg chat) (pause ''ConversationBindingChanged'')))))"

text \<open>A row of the chat list that is no object has no \<open>get\<close>.\<close>

fun named_rows :: "str \<Rightarrow> json list \<Rightarrow> dict list result" where
  "named_rows name [] = Inr []"
| "named_rows name (JObj d # rows) = bind_result (named_rows name rows) (\<lambda>ds.
     Inr (if dget d ''name'' = Some (JStr name) then d # ds else ds))"
| "named_rows name (_ # rows) = Inl (OtherException ''AttributeError'')"

fun title_pages :: "lab_env \<Rightarrow> target \<Rightarrow> nat \<Rightarrow> nat \<Rightarrow> dict list lab" where
  "title_pages v tg 0 offset = pause ''ChatListLimit''"
| "title_pages v tg (Suc n) offset =
     act_bind (call (lv_api v) (Get_Chats offset)) (\<lambda>j.
       case j of
         JList rows \<Rightarrow>
           act_bind (act_lift (named_rows (tg_name tg) rows)) (\<lambda>here.
             if length rows < 100 then act_return here
             else act_bind (title_pages v tg n (offset + 100)) (\<lambda>rest. act_return (here @ rest)))
       | _ \<Rightarrow> pause ''InvalidChatList'')"

definition unique_title :: "lab_env \<Rightarrow> target \<Rightarrow> unit lab" where
  "unique_title v tg = act_bind (title_pages v tg 10 0) (\<lambda>ds.
     act_when (case ds of [d] \<Rightarrow> chat_identifier d \<noteq> Some (JStr (bn_chat_id (lv_binding v))) | _ \<Rightarrow> True)
       (pause ''ConversationTitleAmbiguous''))"

definition conv_headings :: "lab_env \<Rightarrow> target \<Rightarrow> heading list lab" where
  "conv_headings v tg = get_headings v (title_matches (tg_name tg) (tg_is_group tg))"

definition conv_readback :: "lab_env \<Rightarrow> target \<Rightarrow> unit lab" where
  "conv_readback v tg =
     act_bind (conv_guard v tg) (\<lambda>_.
     act_bind (conv_headings v tg) (\<lambda>hs.
     act_bind (act_when (hs \<noteq> [bound_heading v]) (pause ''ConversationNotForeground'')) (\<lambda>_.
     act_bind (unique_title v tg) (\<lambda>_. conv_guard v tg))))"

definition conv_before_send :: "lab_env \<Rightarrow> target \<Rightarrow> unit lab" where
  "conv_before_send v tg =
     act_bind (conv_guard v tg) (\<lambda>_.
     act_bind (conv_headings v tg) (\<lambda>hs.
       if hs = [bound_heading v] then act_bind (unique_title v tg) (\<lambda>_. conv_guard v tg)
       else if 1 < length hs then pause ''ConversationTitleAmbiguous''
       else act_bind (call (lv_api v) (Open_Chat (bn_chat_id (lv_binding v)))) (\<lambda>j.
            act_bind (act_when (case j of JObj d \<Rightarrow> dget d ''ok'' \<noteq> Some (JBool True) | _ \<Rightarrow> True)
              (pause ''ConversationNavigationFailed'')) (\<lambda>_. conv_readback v tg))))"

text \<open>The snapshot service is read without the error mapping of \<open>AgentWechatHTTP\<close>: its failures and a payload without
  the expected items pause the connector; a payload that is no object has no \<open>get\<close>.\<close>

definition snapshot_rows :: "http_outcome \<Rightarrow> json result" where
  "snapshot_rows out =
     (case out of
        Http_Json (JObj d) \<Rightarrow>
          if dget d ''accountVerified'' \<noteq> Some (JBool True) then Inl (ValueError '''')
          else (case dget d ''rows'' of Some j \<Rightarrow> Inr j | None \<Rightarrow> Inl KeyError)
      | Http_Json _ \<Rightarrow> Inl (OtherException ''AttributeError'')
      | Http_Cancelled \<Rightarrow> Inl (OtherException ''CancelledError'')
      | Http_Not_Json \<Rightarrow> Inl (ValueError '''')
      | _ \<Rightarrow> Inl (OtherException ''HTTPError''))"

fun snapshot_error :: "exn \<Rightarrow> bool" where
  "snapshot_error (ValueError _) = True"
| "snapshot_error KeyError = True"
| "snapshot_error (OtherException n) = (n = ''HTTPError'' \<or> n = ''TypeError'')"
| "snapshot_error _ = False"

definition get_snapshot :: "lab_env \<Rightarrow> nat \<Rightarrow> json lab" where
  "get_snapshot v offset s =
     (let log = tr_log s @ [Get_Snapshot (bn_chat_id (lv_binding v)) offset]; t = s\<lparr>tr_log := log\<rparr>
      in case snapshot_rows (lv_api v log) of
           Inr j \<Rightarrow> (Inr j, t)
         | Inl e \<Rightarrow> if snapshot_error e then pause ''MessageSnapshotUnavailable'' t else (Inl e, t))"

definition conv_page :: "lab_env \<Rightarrow> target \<Rightarrow> nat \<Rightarrow> dict list lab" where
  "conv_page v tg offset =
     act_bind (get_snapshot v offset) (\<lambda>j.
     act_bind (validate_page v j) (\<lambda>rows.
       if \<not> tg_is_group tg then act_return rows
       else if list_all (\<lambda>d. case dget d ''mentionedSelf'' of Some (JBool _) \<Rightarrow> True | _ \<Rightarrow> False) rows then act_return rows
       else pause ''MentionMetadataUnavailable''))"

definition quote_text :: "str \<Rightarrow> str option \<Rightarrow> str" where
  "quote_text text quoted =
     lit ''This is a quote reply to an earlier message.'' @ [10] @ lit ''Current message:'' @ [10] @ text @ [10, 10] @
     lit ''Quoted message (context only):'' @ [10] @
     (case quoted of Some q \<Rightarrow> q | None \<Rightarrow> lit ''[Quoted content unavailable or non-text]'')"

text \<open>\<open>_mentionedSelf\<close> is the validated \<open>mentionedSelf\<close> of a group's row.\<close>

definition conv_event :: "lab_env \<Rightarrow> target \<Rightarrow> dict \<Rightarrow> inbound_event option lab" where
  "conv_event v tg d =
     (let is_quote = equals_int 49 (dget d ''type'') \<and> dget d ''quoteReply'' = Some (JBool True)
      in case row_text d of
        None \<Rightarrow> act_return None
      | Some text \<Rightarrow>
          if \<not> equals_int 1 (dget d ''type'') \<and> \<not> is_quote \<or> strip text = [] then act_return None
          else case dget d ''isSelf'' of
            Some (JBool True) \<Rightarrow> act_return None
          | Some (JBool False) \<Rightarrow>
              (case valid_sender d of
                 None \<Rightarrow> pause ''SenderMissing''
               | Some sender \<Rightarrow>
                   if tg_is_group tg \<and> dget d ''mentionedSelf'' \<noteq> Some (JBool True) then act_return None
                   else if \<not> tg_is_group tg \<and> sender \<noteq> bn_chat_id (lv_binding v) then pause ''PrivateSenderMismatch''
                   else
                     let quoted = (if is_quote then dget d ''quotedText'' else None)
                     in if quoted \<noteq> None \<and> quoted \<noteq> Some JNull \<and> (case quoted of Some (JStr _) \<Rightarrow> False | _ \<Rightarrow> True)
                        then pause ''InvalidQuotedText''
                        else
                          let full = (if is_quote
                                then quote_text text (case quoted of Some (JStr q) \<Rightarrow> Some q | _ \<Rightarrow> None) else text)
                          in if 100000 < length full then pause ''TextTooLarge''
                             else (case lv_timestamp v (dget d ''timestamp'') of
                               None \<Rightarrow> pause ''TimestampMissing''
                             | Some t \<Rightarrow>
                                 let sender_ref = reference (lv_mac v) ''sender'' [bn_account_ref (lv_binding v), sender]
                                 in act_return (Some (inbound_text v d sender full t
                                      [(lit ''wechat_mode'', JStr (lit ''conversation'')),
                                       (lit ''context_scope'', JStr (reference (lv_mac v) ''context''
                                          [bn_chat_ref (lv_binding v), sender_ref])),
                                       (lit ''is_group'', JBool (tg_is_group tg))]))))
          | _ \<Rightarrow> pause ''DirectionMissing'')"

definition conv_methods :: "lab_env \<Rightarrow> target \<Rightarrow> methods" where
  "conv_methods v tg = \<lparr>mt_guard = conv_guard v tg, mt_before_send = conv_before_send v tg, mt_readback = conv_readback v tg,
     mt_page = conv_page v tg, mt_event = conv_event v tg,
     mt_valid_reply = (\<lambda>msg. strip (om_text msg) \<noteq> [] \<and> length (om_text msg) \<le> 2000), mt_existing_blocks = False\<rparr>"

text \<open>\<open>ConversationTransport.poll\<close>: a window that changed while it was read is read again, twice at most.\<close>

fun conv_poll :: "methods \<Rightarrow> nat \<Rightarrow> inbound_event list lab" where
  "conv_poll m 0 = act_raise AssertionError"
| "conv_poll m (Suc n) =
     (\<lambda>s. case poll_once m s of
        (Inl (LabPaused c), t) \<Rightarrow>
          if c \<noteq> ''MessageWindowChanged'' \<or> n = 0 then (Inl (LabPaused c), t) else conv_poll m n (t\<lparr>lb_paused := None\<rparr>)
      | other \<Rightarrow> other)"

end
