(* ===== verification/Wechat_Delivery.thy ===== *)
theory Wechat_Delivery
  imports Wechat_Agent Lifecycle
begin

text \<open>
  What a delivery of the WeChat connector does, for both classes: which computations post nothing, when a receipt is confirmed,
  and that a message id is posted at most once in any run of the connector.
\<close>

subsection \<open>What the overridable methods promise\<close>

definition sends_of :: "lab_state \<Rightarrow> api_call list" where
  "sends_of s = filter is_send (tr_log s)"

text \<open>A computation that posts no message and leaves the anchors and the delivery attempts alone.\<close>

definition quiet :: "'a lab \<Rightarrow> bool" where
  "quiet c \<longleftrightarrow> (\<forall>s. sends_of (snd (c s)) = sends_of s \<and> lb_attempts (snd (c s)) = lb_attempts s \<and>
     lb_anchors (snd (c s)) = lb_anchors s)"

named_theorems quiet_intros \<open>computations that post nothing\<close>

lemma quietD: "quiet c \<Longrightarrow> c s = (r, t) \<Longrightarrow>
    sends_of t = sends_of s \<and> lb_attempts t = lb_attempts s \<and> lb_anchors t = lb_anchors s"
  unfolding quiet_def by (metis snd_conv)

lemma quiet_basic [quiet_intros]:
  "quiet (act_return a)" "quiet (act_raise e)" "quiet (act_lift r)" "quiet (pause c)" "quiet not_paused"
  by (auto simp: quiet_def act_return_def act_raise_def act_lift_def pause_def not_paused_def sends_of_def split: option.split)

lemma quiet_bind [quiet_intros]: "quiet c \<Longrightarrow> (\<And>a. quiet (f a)) \<Longrightarrow> quiet (act_bind c f)"
  unfolding quiet_def act_bind_def by (auto split: prod.split sum.split) (metis snd_conv)+

lemma quiet_when [quiet_intros]: "quiet c \<Longrightarrow> quiet (act_when b c)"
  by (simp add: act_when_def quiet_basic)

lemma quiet_or_pause [quiet_intros]: "quiet c \<Longrightarrow> quiet (or_pause c)"
  unfolding quiet_def or_pause_def sends_of_def
  by (auto split: prod.split sum.split exn.split) (metis snd_conv)+

lemma quiet_call [quiet_intros]: "\<not> is_send c \<Longrightarrow> quiet (call api c)"
  by (simp add: quiet_def call_def sends_of_def)

lemma quiet_if [quiet_intros]: "(b \<Longrightarrow> quiet c) \<Longrightarrow> (\<not> b \<Longrightarrow> quiet d) \<Longrightarrow> quiet (if b then c else d)"
  by simp

lemma quiet_cases [quiet_intros]:
  "quiet a \<Longrightarrow> (\<And>x. quiet (f x)) \<Longrightarrow> quiet (case opt of None \<Rightarrow> a | Some x \<Rightarrow> f x)"
  "quiet j0 \<Longrightarrow> (\<And>b. quiet (j1 b)) \<Longrightarrow> (\<And>i. quiet (j2 i)) \<Longrightarrow> (\<And>q. quiet (j3 q)) \<Longrightarrow> (\<And>s. quiet (j4 s)) \<Longrightarrow>
    (\<And>xs. quiet (j5 xs)) \<Longrightarrow> (\<And>d. quiet (j6 d)) \<Longrightarrow>
    quiet (case j of JNull \<Rightarrow> j0 | JBool b \<Rightarrow> j1 b | JInt i \<Rightarrow> j2 i | JFloat q \<Rightarrow> j3 q | JStr s \<Rightarrow> j4 s | JList xs \<Rightarrow> j5 xs | JObj d \<Rightarrow> j6 d)"
  "quiet yes \<Longrightarrow> quiet no \<Longrightarrow> quiet (case b of True \<Rightarrow> yes | False \<Rightarrow> no)"
  by (simp_all split: option.split json.split bool.split)

lemma quiet_account [quiet_intros]: "quiet (get_account v)" "quiet (get_headings v title)"
  unfolding get_account_def get_headings_def by (intro quiet_intros; simp)+

lemma quiet_testing_pages [quiet_intros]: "quiet (testing_pages api n offset)"
  by (induction n arbitrary: offset) (auto intro!: quiet_intros split: json.split)

lemma quiet_unique_testing [quiet_intros]: "quiet (unique_testing api)"
  unfolding unique_testing_def by (auto intro!: quiet_intros split: list.split)

lemma quiet_lab_guard [quiet_intros]: "quiet (lab_guard v)"
  unfolding lab_guard_def by (intro quiet_intros)

lemma quiet_validate_page [quiet_intros]: "quiet (validate_page v j)"
  unfolding validate_page_def by (intro quiet_intros)

lemma quiet_lab_page [quiet_intros]: "quiet (lab_page v offset)"
  unfolding lab_page_def by (intro quiet_intros) simp

lemma quiet_lab_event [quiet_intros]: "quiet (lab_event v d)"
  unfolding lab_event_def by (intro quiet_intros)

lemma quiet_title_pages [quiet_intros]: "quiet (title_pages v tg n offset)"
  by (induction n arbitrary: offset) (auto intro!: quiet_intros split: json.split)

lemma quiet_conv [quiet_intros]: "quiet (conv_guard v tg)" "quiet (unique_title v tg)" "quiet (conv_headings v tg)"
  unfolding conv_guard_def unique_title_def conv_headings_def by (intro quiet_intros; simp)+

lemma quiet_conv_readback [quiet_intros]: "quiet (conv_readback v tg)" "quiet (conv_before_send v tg)"
  unfolding conv_readback_def conv_before_send_def by (intro quiet_intros; simp add: conv_readback_def quiet_intros)+

lemma quiet_snapshot [quiet_intros]: "quiet (get_snapshot v offset)"
  by (auto simp: quiet_def get_snapshot_def pause_def sends_of_def split: sum.split)

lemma quiet_conv_page [quiet_intros]: "quiet (conv_page v tg offset)"
  unfolding conv_page_def by (intro quiet_intros)

lemma quiet_conv_event [quiet_intros]: "quiet (conv_event v tg d)"
  unfolding conv_event_def Let_def by (intro quiet_intros)

locale overridable =
  fixes m :: methods
  assumes quiet_guard: "quiet (mt_guard m)"
    and quiet_before_send: "quiet (mt_before_send m)"
    and quiet_readback: "quiet (mt_readback m)"
    and quiet_page: "quiet (mt_page m offset)"
    and quiet_event: "quiet (mt_event m d)"
begin

lemma quiet_poll_pages: "quiet (poll_pages m anchors index n rows page)"
  by (induction n arbitrary: index rows page) (auto intro!: quiet_intros quiet_page)

lemma quiet_events_of: "quiet (events_of m rows)"
  by (induction rows) (auto intro!: quiet_intros quiet_event)

text \<open>A poll posts nothing and starts no delivery.\<close>

definition posts_nothing :: "'a lab \<Rightarrow> bool" where
  "posts_nothing c \<longleftrightarrow> (\<forall>s. sends_of (snd (c s)) = sends_of s \<and> lb_attempts (snd (c s)) = lb_attempts s)"

lemma posts_nothing_quiet: "quiet c \<Longrightarrow> posts_nothing c"
  by (simp add: quiet_def posts_nothing_def)

lemma posts_nothing_bind: "posts_nothing c \<Longrightarrow> (\<And>a. posts_nothing (f a)) \<Longrightarrow> posts_nothing (act_bind c f)"
  unfolding posts_nothing_def act_bind_def by (auto split: prod.split sum.split) (metis snd_conv)+

lemma posts_nothing_or_pause: "posts_nothing c \<Longrightarrow> posts_nothing (or_pause c)"
  unfolding posts_nothing_def or_pause_def sends_of_def
  by (auto split: prod.split sum.split exn.split) (metis snd_conv)+

lemma posts_nothing_anchors: "posts_nothing (set_anchors rows)"
  by (simp add: posts_nothing_def set_anchors_def sends_of_def)

lemma posts_nothing_baseline: "posts_nothing (baseline m)"
  unfolding baseline_def
  by (rule posts_nothing_bind [OF posts_nothing_quiet [OF quiet_guard]] posts_nothing_bind [OF posts_nothing_quiet [OF quiet_page]]
      posts_nothing_anchors)+

lemma posts_nothing_read_new: "posts_nothing (read_new m anchors)"
  unfolding read_new_def
  by (rule posts_nothing_bind [OF posts_nothing_quiet [OF quiet_page]] posts_nothing_bind [OF posts_nothing_quiet [OF quiet_poll_pages]]
      posts_nothing_bind [OF posts_nothing_quiet [OF quiet_events_of]] posts_nothing_bind [OF posts_nothing_anchors]
      posts_nothing_bind [OF posts_nothing_quiet [OF quiet_when [OF quiet_basic(4)]]] posts_nothing_quiet [OF quiet_basic(1)])+

lemma posts_nothing_poll: "posts_nothing (poll_once m)"
  unfolding poll_once_def
proof (intro posts_nothing_or_pause posts_nothing_bind posts_nothing_quiet [OF quiet_guard])
  fix a :: unit
  have "posts_nothing (act_bind (baseline m) (\<lambda>_. act_return []))"
    by (rule posts_nothing_bind [OF posts_nothing_baseline posts_nothing_quiet [OF quiet_basic(1)]])
  then show "posts_nothing (\<lambda>s. case lb_anchors s of None \<Rightarrow> act_bind (baseline m) (\<lambda>_. act_return []) s
      | Some anchors \<Rightarrow> read_new m anchors s)"
    using posts_nothing_read_new by (auto simp: posts_nothing_def split: option.split)
qed

lemma posts_nothing_conv_poll: "posts_nothing (conv_poll m n)"
proof (induction n)
  case 0
  then show ?case by (simp add: posts_nothing_def act_raise_def)
next
  case (Suc n)
  have "sends_of (snd (conv_poll m (Suc n) s)) = sends_of s \<and> lb_attempts (snd (conv_poll m (Suc n) s)) = lb_attempts s" for s
  proof -
    obtain r t where p: "poll_once m s = (r, t)" by force
    then have t: "sends_of t = sends_of s" "lb_attempts t = lb_attempts s"
      using posts_nothing_poll unfolding posts_nothing_def by (metis snd_conv)+
    have u: "sends_of (t\<lparr>lb_paused := None\<rparr>) = sends_of t" by (simp add: sends_of_def)
    from Suc t u have "sends_of (snd (conv_poll m n (t\<lparr>lb_paused := None\<rparr>))) = sends_of s"
      "lb_attempts (snd (conv_poll m n (t\<lparr>lb_paused := None\<rparr>))) = lb_attempts s"
      by (simp_all add: posts_nothing_def)
    with p t show ?thesis by (auto split: sum.split exn.split)
  qed
  then show ?case by (simp add: posts_nothing_def)
qed

end

interpretation lab_class: overridable "lab_methods v"
  by unfold_locales (simp_all add: lab_methods_def quiet_intros)

interpretation conversation_class: overridable "conv_methods v tg"
  by unfold_locales (simp_all add: conv_methods_def quiet_intros)

subsection \<open>Delivery\<close>

lemma act_bind_Inr:
  "act_bind c f s = (Inr a, t) \<longleftrightarrow> (\<exists>b u. c s = (Inr b, u) \<and> f b u = (Inr a, t))"
  by (auto simp: act_bind_def split: prod.split sum.split)

lemma act_bind_cases:
  "act_bind c f s = (r, t) \<Longrightarrow> (\<exists>e. c s = (Inl e, t) \<and> r = Inl e) \<or> (\<exists>b u. c s = (Inr b, u) \<and> f b u = (r, t))"
  by (auto simp: act_bind_def split: prod.splits sum.splits)

lemma act_when_eq: "act_when b c s = (if b then c s else (Inr (), s))"
  by (simp add: act_when_def act_return_def)

text \<open>Why a receipt may say that a message has arrived: after the post the foreground was verified, and the page read
  then has exactly one new text row with the sent text, which the account itself wrote.\<close>

definition confirmed :: "methods \<Rightarrow> lab_env \<Rightarrow> outbound_message \<Rightarrow> int set \<Rightarrow> api_call list \<Rightarrow> delivery_receipt \<Rightarrow> bool" where
  "confirmed m v msg previous posted r \<longleftrightarrow>
     (\<exists>s1 s2 page s3 row. sends_of s1 = posted \<and> mt_readback m s1 = (Inr (), s2) \<and> mt_page m 0 s2 = (Inr page, s3) \<and>
       sent_rows previous msg page = [row] \<and> self_row row \<and> r = acknowledged v msg row (lv_now v (tr_log s3)))"

definition update_attempt :: "outbound_message \<Rightarrow> delivery_receipt \<Rightarrow> (uuid \<times> str \<times> delivery_receipt) list \<Rightarrow>
    (uuid \<times> str \<times> delivery_receipt) list" where
  "update_attempt msg r as = AList.update (om_message_id msg) (om_text msg, r) as"

lemma map_of_update_attempt [simp]:
  "map_of (update_attempt msg r as) = (map_of as)(om_message_id msg \<mapsto> (om_text msg, r))"
  by (simp add: update_attempt_def update_conv')

lemma quiet_bind_cases:
  assumes "quiet c" and "act_bind c f s = (r, t)"
  obtains (failed) e where "r = Inl e" "sends_of t = sends_of s" "lb_attempts t = lb_attempts s"
  | (went_on) a u where "c s = (Inr a, u)" "f a u = (r, t)" "sends_of u = sends_of s" "lb_attempts u = lb_attempts s"
  using act_bind_cases [OF assms(2)] quietD [OF assms(1)] by blast

text \<open>What a first delivery does: it stops before the post, or it posts once and remembers what it reports.\<close>

definition unknown_receipt :: "outbound_message \<Rightarrow> delivery_receipt" where
  "unknown_receipt msg = receipt msg Dlv_Unknown (Some ''SendNotConfirmedNoRetry'')"

definition post_of :: "lab_env \<Rightarrow> outbound_message \<Rightarrow> api_call" where
  "post_of v msg = Send_Text (bn_chat_id (lv_binding v)) (om_text msg)"

fun is_lab_paused :: "exn \<Rightarrow> bool" where
  "is_lab_paused (LabPaused _) = True"
| "is_lab_paused _ = False"

definition posted_once :: "methods \<Rightarrow> lab_env \<Rightarrow> outbound_message \<Rightarrow> lab_state \<Rightarrow> delivery_receipt result \<Rightarrow> lab_state \<Rightarrow> bool" where
  "posted_once m v msg s res t \<longleftrightarrow>
     sends_of t = sends_of s @ [post_of v msg] \<and>
     (\<exists>r previous. map_of (lb_attempts t) = (map_of (lb_attempts s))(om_message_id msg \<mapsto> (om_text msg, r)) \<and>
       (r = unknown_receipt msg \<and> (res = Inr r \<and> lb_paused t \<noteq> None \<or> (\<exists>e. res = Inl e \<and> \<not> is_lab_paused e)) \<or>
        res = Inr r \<and> confirmed m v msg previous (sends_of t) r))"

context overridable begin

text \<open>One check of a delivery: it raises, or no row is there yet, or it confirms the message.\<close>

lemma read_back_step:
  assumes "act_bind (mt_readback m) (\<lambda>_. act_bind (mt_page m 0) f) s = (res, t)"
  obtains (stopped) e where "res = Inl e" "sends_of t = sends_of s" "lb_attempts t = lb_attempts s"
  | (went_on) s2 page s3 where "mt_readback m s = (Inr (), s2)" "mt_page m 0 s2 = (Inr page, s3)" "f page s3 = (res, t)"
      "sends_of s3 = sends_of s" "lb_attempts s3 = lb_attempts s"
  using assms
  by (elim quiet_bind_cases [OF quiet_readback] quiet_bind_cases [OF quiet_page]) auto

lemma read_back_found:
  assumes "sent_rows previous msg page = row # rows" and "mt_readback m s = (Inr (), s2)" "mt_page m 0 s2 = (Inr page, s3)"
    and "sends_of s3 = sends_of s" "lb_attempts s3 = lb_attempts s"
    and "(case row # rows of
         [] \<Rightarrow> nothing
       | [r] \<Rightarrow>
           if \<not> self_row r then pause ''InvalidSelfReadback''
           else (\<lambda>s. let done_receipt = acknowledged v msg r (lv_now v (tr_log s))
                  in act_bind (remember msg done_receipt) (\<lambda>_. act_return done_receipt) s)
       | _ \<Rightarrow> pause ''AmbiguousReadback'') s3 = (res, t)"
  shows "sends_of t = sends_of s \<and>
   (lb_attempts t = lb_attempts s \<and> (\<exists>e. res = Inl e) \<or>
    (\<exists>r. res = Inr r \<and> lb_attempts t = update_attempt msg r (lb_attempts s) \<and> confirmed m v msg previous (sends_of s) r))"
proof (cases "rows = [] \<and> self_row row")
  case True
  let ?r = "acknowledged v msg row (lv_now v (tr_log s3))"
  from True assms(6) have res: "res = Inr ?r" and t: "t = s3\<lparr>lb_attempts := update_attempt msg ?r (lb_attempts s3)\<rparr>"
    by (auto simp: Let_def act_bind_def remember_def act_return_def update_attempt_def)
  from True assms(1-3) have "confirmed m v msg previous (sends_of s) ?r"
    unfolding confirmed_def by blast
  with t res assms(4,5) show ?thesis by (simp add: sends_of_def)
next
  case False
  with assms(6) have "(\<exists>e. res = Inl e)" "tr_log t = tr_log s3" "lb_attempts t = lb_attempts s3"
    by (auto simp: pause_def split: if_splits list.splits)
  with assms(4,5) show ?thesis by (simp add: sends_of_def)
qed

text \<open>One check: its outcome is final, or no row was there and \<open>nothing\<close> goes on from a state with the same posts.\<close>

lemma read_back_round:
  assumes "act_bind (mt_readback m) (\<lambda>_. act_bind (mt_page m 0) (\<lambda>page. case sent_rows previous msg page of
         [] \<Rightarrow> nothing
       | [r] \<Rightarrow>
           if \<not> self_row r then pause ''InvalidSelfReadback''
           else (\<lambda>s. let done_receipt = acknowledged v msg r (lv_now v (tr_log s))
                  in act_bind (remember msg done_receipt) (\<lambda>_. act_return done_receipt) s)
       | _ \<Rightarrow> pause ''AmbiguousReadback'')) s = (res, t)"
  obtains (final) "sends_of t = sends_of s \<and>
     (lb_attempts t = lb_attempts s \<and> (\<exists>e. res = Inl e) \<or>
      (\<exists>r. res = Inr r \<and> lb_attempts t = update_attempt msg r (lb_attempts s) \<and> confirmed m v msg previous (sends_of s) r))"
  | (again) u where "nothing u = (res, t)" "sends_of u = sends_of s" "lb_attempts u = lb_attempts s"
proof (rule read_back_step [OF assms])
  fix s2 page s3
  assume step: "mt_readback m s = (Inr (), s2)" "mt_page m 0 s2 = (Inr page, s3)"
    and same: "sends_of s3 = sends_of s" "lb_attempts s3 = lb_attempts s"
    and rest: "(case sent_rows previous msg page of
         [] \<Rightarrow> nothing
       | [r] \<Rightarrow>
           if \<not> self_row r then pause ''InvalidSelfReadback''
           else (\<lambda>s. let done_receipt = acknowledged v msg r (lv_now v (tr_log s))
                  in act_bind (remember msg done_receipt) (\<lambda>_. act_return done_receipt) s)
       | _ \<Rightarrow> pause ''AmbiguousReadback'') s3 = (res, t)"
  show thesis
  proof (cases "sent_rows previous msg page")
    case Nil
    with rest same show thesis by (intro again [of s3]) simp_all
  next
    case (Cons row rows)
    with rest show thesis by (intro final read_back_found [OF Cons step same]) simp
  qed
qed (simp add: final)

lemma read_back_cases:
  "read_back m v msg previous n s = (res, t) \<Longrightarrow>
   sends_of t = sends_of s \<and>
   (lb_attempts t = lb_attempts s \<and> (\<exists>e. res = Inl e) \<or>
    (\<exists>r. res = Inr r \<and> lb_attempts t = update_attempt msg r (lb_attempts s) \<and> confirmed m v msg previous (sends_of s) r))"
proof (induction n arbitrary: s)
  case (0 s)
  from 0 [unfolded read_back.simps [where n = 0]] show ?case
    by (rule read_back_round) (auto simp: pause_def sends_of_def)
next
  case (Suc n s)
  from Suc.prems [unfolded read_back.simps [where n = "Suc n"]] show ?case
  proof (rule read_back_round)
    fix u
    assume "(case Suc n of 0 \<Rightarrow> pause ''ReadbackTimeoutNoRetry'' | Suc k \<Rightarrow> read_back m v msg previous k) u = (res, t)"
      and same: "sends_of u = sends_of s" "lb_attempts u = lb_attempts s"
    then have "read_back m v msg previous n u = (res, t)" by simp
    from Suc.IH [OF this] same show ?thesis by simp
  qed
qed

text \<open>After the post: the message stays as it was remembered, or it is confirmed.\<close>

lemma send_and_confirm_cases:
  assumes "send_and_confirm m v msg previous s = (res, t)"
  defines "posted \<equiv> sends_of s @ [Send_Text (bn_chat_id (lv_binding v)) (om_text msg)]"
  shows "sends_of t = posted \<and>
   (lb_attempts t = lb_attempts s \<and> (\<exists>e. res = Inl e) \<or>
    (\<exists>r. res = Inr r \<and> lb_attempts t = update_attempt msg r (lb_attempts s) \<and> confirmed m v msg previous posted r))"
proof -
  let ?c = "call (lv_api v) (Send_Text (bn_chat_id (lv_binding v)) (om_text msg)) :: json lab"
  have u: "sends_of (snd (?c s)) = posted" "lb_attempts (snd (?c s)) = lb_attempts s"
    by (simp_all add: call_def Let_def sends_of_def posted_def)
  from act_bind_cases [OF assms(1) [unfolded send_and_confirm_def]] show ?thesis
  proof (elim disjE exE conjE)
    fix e assume "?c s = (Inl e, t)" "res = Inl e"
    with u show ?thesis by simp
  next
    fix j u
    assume c: "?c s = (Inr j, u)"
      and rest: "act_bind (act_when (case j of JObj d \<Rightarrow> dget d ''success'' \<noteq> Some (JBool True) | _ \<Rightarrow> True)
       (pause ''SendNotConfirmedNoRetry'')) (\<lambda>_ s. read_back m v msg previous (lv_checks v (tr_log s)) s) u = (res, t)"
    from rest show ?thesis
    proof (rule quiet_bind_cases [OF quiet_when [OF quiet_basic(4)]])
      fix e assume "res = Inl e" "sends_of t = sends_of u" "lb_attempts t = lb_attempts u"
      with c u show ?thesis by simp
    next
      fix w assume "read_back m v msg previous (lv_checks v (tr_log w)) w = (res, t)"
        and same: "sends_of w = sends_of u" "lb_attempts w = lb_attempts u"
      from read_back_cases [OF this(1)] same c u show ?thesis by simp
    qed
  qed
qed

lemma page_then_when:
  assumes "act_bind (mt_page m 0) (\<lambda>page. act_bind (act_when (b page) (pause code)) (\<lambda>_. f page)) s1 = (res, t)"
  obtains (failed) e where "res = Inl e" "sends_of t = sends_of s1" "lb_attempts t = lb_attempts s1"
  | (went_on) page s2 s3 where "sends_of s2 = sends_of s1" "lb_attempts s2 = lb_attempts s1"
      "sends_of s3 = sends_of s2" "lb_attempts s3 = lb_attempts s2" "f page s3 = (res, t)"
  using assms by (elim quiet_bind_cases [OF quiet_page] quiet_bind_cases [OF quiet_when [OF quiet_basic(4)]]) auto

lemma deliver_new_cases:
  assumes "deliver_new m v msg s = (res, t)"
  shows "(\<exists>e. res = Inl e) \<and> sends_of t = sends_of s \<and> lb_attempts t = lb_attempts s \<or>
    (\<exists>s1. mt_before_send m s = (Inr (), s1)) \<and> posted_once m v msg s res t"
proof -
  from assms [unfolded deliver_new_def] show ?thesis
  proof (rule quiet_bind_cases [OF quiet_before_send])
    fix e assume "res = Inl e" "sends_of t = sends_of s" "lb_attempts t = lb_attempts s"
    then show ?thesis by simp
  next
    fix s1 and x :: unit
    assume before: "mt_before_send m s = (Inr x, s1)" and same1: "sends_of s1 = sends_of s" "lb_attempts s1 = lb_attempts s"
      and rest: "act_bind (mt_page m 0) (\<lambda>before.
     act_bind (act_when (mt_existing_blocks m \<and> list_ex (\<lambda>r. row_text r = Some (om_text msg)) before)
       (pause ''AckAlreadyPresent'')) (\<lambda>_.
       let unknown = receipt msg Dlv_Unknown (Some ''SendNotConfirmedNoRetry'')
       in act_bind (remember msg unknown) (\<lambda>_ s.
            case send_and_confirm m v msg (local_id ` set before) s of
              (Inl (LabPaused c), t) \<Rightarrow> (Inr unknown, t\<lparr>lb_paused := Some c\<rparr>)
            | other \<Rightarrow> other))) s1 = (res, t)"
    show ?thesis
    proof (rule page_then_when [OF rest])
      fix page s2 s3
      assume same2: "sends_of s2 = sends_of s1" "lb_attempts s2 = lb_attempts s1"
        and same3: "sends_of s3 = sends_of s2" "lb_attempts s3 = lb_attempts s2"
        and rest: "(let unknown = receipt msg Dlv_Unknown (Some ''SendNotConfirmedNoRetry'')
       in act_bind (remember msg unknown) (\<lambda>_ s.
            case send_and_confirm m v msg (local_id ` set page) s of
              (Inl (LabPaused c), t) \<Rightarrow> (Inr unknown, t\<lparr>lb_paused := Some c\<rparr>)
            | other \<Rightarrow> other)) s3 = (res, t)"
      let ?u = "s3\<lparr>lb_attempts := update_attempt msg (unknown_receipt msg) (lb_attempts s3)\<rparr>"
      obtain r w where sc: "send_and_confirm m v msg (local_id ` set page) ?u = (r, w)" by force
      have out: "(case (r, w) of (Inl (LabPaused c), t) \<Rightarrow> (Inr (unknown_receipt msg), t\<lparr>lb_paused := Some c\<rparr>)
            | other \<Rightarrow> other) = (res, t)"
        using rest unfolding Let_def act_bind_def remember_def unknown_receipt_def [symmetric] update_attempt_def [symmetric]
        by (simp add: sc)
      have u: "sends_of ?u = sends_of s" using same1 same2 same3 by (simp add: sends_of_def)
      have v: "map_of (lb_attempts ?u) = (map_of (lb_attempts s))(om_message_id msg \<mapsto> (om_text msg, unknown_receipt msg))"
        by (simp add: same1 same2 same3)
      have c: "sends_of w = sends_of s @ [post_of v msg]"
        "lb_attempts w = lb_attempts ?u \<and> (\<exists>e. r = Inl e) \<or>
         (\<exists>q. r = Inr q \<and> lb_attempts w = update_attempt msg q (lb_attempts ?u) \<and>
           confirmed m v msg (local_id ` set page) (sends_of w) q)"
        using send_and_confirm_cases [OF sc] by (simp_all add: u post_of_def)
      have "posted_once m v msg s res t"
      proof (cases r)
        case (Inr q)
        with c out show ?thesis
          unfolding posted_once_def by (auto simp: same1 same2 same3)
      next
        case (Inl e)
        with c(2) have w: "lb_attempts w = lb_attempts ?u" by blast
        from Inl out have "(\<exists>x. e = LabPaused x \<and> res = Inr (unknown_receipt msg) \<and> t = w\<lparr>lb_paused := Some x\<rparr>) \<or>
          res = Inl e \<and> \<not> is_lab_paused e \<and> t = w"
          by (cases e) auto
        then show ?thesis
          unfolding posted_once_def using c(1) w v by (auto simp: sends_of_def)
      qed
      with before show ?thesis by simp
    qed (use same1 in auto)
  qed
qed

lemma deliver_remembered:
  assumes "map_of (lb_attempts s) (om_message_id msg) = Some (text, r)"
  shows "lab_deliver m v msg s = (if text \<noteq> om_text msg then pause ''ReplyIdentityRebound'' s else (Inr r, s))"
  using assms by (simp add: lab_deliver_def)

lemma deliver_cases:
  assumes "lab_deliver m v msg s = (res, t)" and "map_of (lb_attempts s) (om_message_id msg) = None"
  shows "res = Inr (receipt msg Dlv_Failed (Some ''InvalidLabReply'')) \<and> t = s \<or>
    (\<exists>e. res = Inl e) \<and> sends_of t = sends_of s \<and> lb_attempts t = lb_attempts s \<or>
    (\<exists>s1. mt_before_send m s = (Inr (), s1)) \<and> mt_valid_reply m msg \<and> om_chat_id msg = bn_chat_ref (lv_binding v) \<and>
      posted_once m v msg s res t"
  using assms deliver_new_cases [of v msg s res t] by (auto simp: lab_deliver_def split: if_splits)

lemma deliver_posts:
  assumes "lab_deliver m v msg s = (res, t)"
  shows "sends_of t = sends_of s \<and> lb_attempts t = lb_attempts s \<or>
    map_of (lb_attempts s) (om_message_id msg) = None \<and> sends_of t = sends_of s @ [post_of v msg] \<and>
    (\<exists>r. map_of (lb_attempts t) = (map_of (lb_attempts s))(om_message_id msg \<mapsto> (om_text msg, r)))"
proof (cases "map_of (lb_attempts s) (om_message_id msg)")
  case None
  from deliver_cases [OF assms None] None show ?thesis by (auto simp: posted_once_def)
next
  case (Some p)
  with assms deliver_remembered [of s msg "fst p" "snd p"] show ?thesis
    by (auto simp: pause_def sends_of_def split: if_splits)
qed

end

subsection \<open>Runs of a connector\<close>

text \<open>The operations of a connector: deliveries, which its lock serializes, the polls of both classes, the baseline, the health
  check, and the start of another attempt after a pause was cleared. A label holds the message id of a delivery and the posts of
  the step.\<close>

definition posts_between :: "lab_state \<Rightarrow> lab_state \<Rightarrow> api_call list" where
  "posts_between s t = drop (length (sends_of s)) (sends_of t)"

inductive wechat_step :: "methods \<Rightarrow> lab_env \<Rightarrow> lab_state \<Rightarrow> uuid option \<times> api_call list \<Rightarrow> lab_state \<Rightarrow> bool"
  for m v where
  step_deliver: "lab_deliver m v msg s = (res, t) \<Longrightarrow> wechat_step m v s (Some (om_message_id msg), posts_between s t) t"
| step_poll: "poll_once m s = (polled, t) \<Longrightarrow> wechat_step m v s (None, posts_between s t) t"
| step_conv_poll: "conv_poll m n s = (polled, t) \<Longrightarrow> wechat_step m v s (None, posts_between s t) t"
| step_baseline: "baseline m s = (based, t) \<Longrightarrow> wechat_step m v s (None, posts_between s t) t"
| step_health: "lab_health m s = (health, t) \<Longrightarrow> wechat_step m v s (None, posts_between s t) t"
| step_resume: "wechat_step m v s (None, []) (s\<lparr>lb_paused := None\<rparr>)"

context overridable begin

lemma quiet_health: "quiet (lab_health m)"
  unfolding quiet_def
proof
  fix s
  obtain r t where g: "mt_guard m s = (r, t)" by force
  from quietD [OF quiet_guard g] show "sends_of (snd (lab_health m s)) = sends_of s \<and>
      lb_attempts (snd (lab_health m s)) = lb_attempts s \<and> lb_anchors (snd (lab_health m s)) = lb_anchors s"
    by (simp add: lab_health_def g split: sum.split exn.split)
qed

lemma posts_nothing_between: "posts_nothing c \<Longrightarrow> c s = (r, t) \<Longrightarrow> posts_between s t = [] \<and> lb_attempts t = lb_attempts s"
  unfolding posts_nothing_def posts_between_def by (metis drop_all order_refl snd_conv)

lemma wechat_step_cases:
  assumes "wechat_step m v s (k, posts) t"
  shows "posts = [] \<and> lb_attempts t = lb_attempts s \<or>
    (\<exists>i r c. k = Some i \<and> length posts = 1 \<and> map_of (lb_attempts s) i = None \<and> map_of (lb_attempts t) = (map_of (lb_attempts s))(i \<mapsto> r))"
  using assms
proof (cases rule: wechat_step.cases)
  case (step_deliver msg res)
  from deliver_posts [OF step_deliver(3)] step_deliver(1,2) show ?thesis by (auto simp: posts_between_def)
qed (use posts_nothing_between [OF posts_nothing_poll] posts_nothing_between [OF posts_nothing_conv_poll]
      posts_nothing_between [OF posts_nothing_baseline] posts_nothing_between [OF posts_nothing_quiet [OF quiet_health]] in auto)

lemma posts_ranked: "ranked_machine (wechat_step m v) (\<lambda>i l. fst l = Some i \<and> snd l \<noteq> [])
    (\<lambda>s i. if map_of (lb_attempts s) i = None then 1 else 0) (\<lambda>s. True)"
proof
  fix s l t and k :: uuid
  assume "wechat_step m v s l t"
  then have "wechat_step m v s (fst l, snd l) t" by simp
  from wechat_step_cases [OF this]
  show "(if map_of (lb_attempts t) k = None then 1 else 0) + (if fst l = Some k \<and> snd l \<noteq> [] then 1 else 0)
    \<le> (if map_of (lb_attempts s) k = None then 1 else (0::nat))"
    by auto
qed simp

lemma posts_of_run:
  assumes "run (wechat_step m v) s ls t"
  shows "length (filter (\<lambda>l. fst l = Some i \<and> snd l \<noteq> []) ls) \<le> 1" "\<forall>l \<in> set ls. length (snd l) \<le> 1 \<and> (fst l = None \<longrightarrow> snd l = [])"
proof -
  show "length (filter (\<lambda>l. fst l = Some i \<and> snd l \<noteq> []) ls) \<le> 1"
    using ranked_machine.marked_at_most [OF posts_ranked assms, of i] by (auto split: if_splits)
  from assms show "\<forall>l \<in> set ls. length (snd l) \<le> 1 \<and> (fst l = None \<longrightarrow> snd l = [])"
    by induction (use wechat_step_cases in fastforce)+
qed

end

end
