(* ===== verification/Wechat_Poll.thy ===== *)
theory Wechat_Poll
  imports Wechat_Delivery "HOL-Library.Sublist"
begin

text \<open>
  What a poll of the WeChat connector hands over: the rows it reads, in which order, and when the anchors move.
\<close>

definition has_anchor :: "int set \<Rightarrow> dict list \<Rightarrow> bool" where
  "has_anchor anchors page \<longleftrightarrow> list_ex (\<lambda>r. local_id r \<in> anchors) page"

text \<open>The pages a poll reads: full pages without an anchor, up to one that has an anchor (or that ends an empty chat).\<close>

definition window :: "int set \<Rightarrow> dict list list \<Rightarrow> bool" where
  "window anchors pages \<longleftrightarrow> pages \<noteq> [] \<and>
     (\<forall>p \<in> set (butlast pages). \<not> has_anchor anchors p \<and> 100 \<le> length p) \<and>
     (has_anchor anchors (last pages) \<or> anchors = {} \<and> length (last pages) < 100)"

definition window_rows :: "int set \<Rightarrow> dict list list \<Rightarrow> dict list" where
  "window_rows anchors pages = concat (map (up_to_anchor anchors) pages)"

text \<open>The rows that a poll reports: those of the window that are no anchors, each identity once, in the order of the pages.\<close>

definition fresh_rows :: "int set \<Rightarrow> dict list list \<Rightarrow> dict list \<Rightarrow> bool" where
  "fresh_rows anchors pages rows \<longleftrightarrow> subseq rows (window_rows anchors pages) \<and> distinct (map local_id rows) \<and>
     local_id ` set rows = local_id ` set (window_rows anchors pages) - anchors"

lemma collect_rows_append: "collect_rows anchors rows (xs @ ys) = collect_rows anchors (collect_rows anchors rows xs) ys"
  by (induction xs arbitrary: rows) auto

lemma collect_rows_spec:
  assumes "distinct (map local_id rows)" and "local_id ` set rows \<inter> anchors = {}"
  shows "\<exists>new. collect_rows anchors rows xs = rows @ new \<and> subseq new xs \<and> distinct (map local_id (rows @ new)) \<and>
    local_id ` set (rows @ new) = local_id ` set rows \<union> (local_id ` set xs - anchors)"
  using assms
proof (induction xs arbitrary: rows)
  case Nil
  then show ?case by (intro exI [of _ "[]"]) auto
next
  case (Cons x xs)
  show ?case
  proof (cases "local_id x \<in> anchors \<or> local_id x \<in> local_id ` set rows")
    case True
    with Cons.IH [OF Cons.prems] show ?thesis by (auto intro: subseq_Cons')
  next
    case False
    with Cons.prems have "distinct (map local_id (rows @ [x]))" "local_id ` set (rows @ [x]) \<inter> anchors = {}" by auto
    from Cons.IH [OF this] obtain new where new:
      "collect_rows anchors (rows @ [x]) xs = (rows @ [x]) @ new" "subseq new xs" "distinct (map local_id ((rows @ [x]) @ new))"
      "local_id ` set ((rows @ [x]) @ new) = local_id ` set (rows @ [x]) \<union> (local_id ` set xs - anchors)" by blast
    with False show ?thesis by (intro exI [of _ "x # new"]) auto
  qed
qed

lemma collected_fresh: "fresh_rows anchors pages (collect_rows anchors [] (window_rows anchors pages))"
  using collect_rows_spec [of "[]" anchors "window_rows anchors pages"] by (auto simp: fresh_rows_def)

definition page_read :: "methods \<Rightarrow> nat \<Rightarrow> dict list \<Rightarrow> bool" where
  "page_read m offset page \<longleftrightarrow> (\<exists>u w. mt_page m offset u = (Inr page, w))"

text \<open>The state after a poll that failed, and after one that returned.\<close>

definition handed_over :: "methods \<Rightarrow> lab_state \<Rightarrow> inbound_event list \<Rightarrow> lab_state \<Rightarrow> int set \<Rightarrow> bool" where
  "handed_over m s es t anchors \<longleftrightarrow>
     (\<exists>pages rows. window anchors pages \<and> length pages \<le> 10 \<and> (\<forall>k < length pages. page_read m (k * 100) (pages ! k)) \<and>
       fresh_rows anchors pages rows \<and>
       list_all (\<lambda>r. \<exists>e. fst (mt_event m r s) = Inr e) rows \<and>
       es = List.map_filter (\<lambda>r. case fst (mt_event m r s) of Inr e \<Rightarrow> e | Inl x \<Rightarrow> None) (rev rows) \<and>
       lb_anchors t = Some (local_id ` set (hd pages)))"

locale polling = overridable m for m +
  assumes event_row: "fst (mt_event m d s) = fst (mt_event m d t)"
begin

lemma poll_pages_window:
  "poll_pages m anchors index n rows page s = (Inr rs, t) \<Longrightarrow> page_read m (index * 100) page \<Longrightarrow>
   \<exists>pages. window anchors pages \<and> hd pages = page \<and> length pages \<le> n \<and>
     (\<forall>k < length pages. page_read m ((index + k) * 100) (pages ! k)) \<and>
     rs = collect_rows anchors rows (window_rows anchors pages)"
proof (induction n arbitrary: index rows page s)
  case 0
  then show ?case by (simp add: act_raise_def)
next
  case (Suc n)
  let ?rows = "collect_rows anchors rows (up_to_anchor anchors page)"
  show ?case
  proof (cases "has_anchor anchors page \<or> anchors = {} \<and> length page < 100")
    case True
    with Suc.prems(1) have "rs = ?rows" by (auto simp: has_anchor_def Let_def act_return_def)
    with True Suc.prems(2) show ?thesis
      by (intro exI [of _ "[page]"]) (auto simp: window_def window_rows_def)
  next
    case False
    with Suc.prems(1) have full: "100 \<le> length page" "n \<noteq> 0" "\<not> has_anchor anchors page"
      by (auto simp: has_anchor_def Let_def pause_def split: if_splits)
    with Suc.prems(1) False
    have "act_bind (mt_page m (Suc index * 100)) (\<lambda>next_page. poll_pages m anchors (Suc index) n ?rows next_page) s = (Inr rs, t)"
      by (auto simp: has_anchor_def Let_def simp del: mult_Suc)
    then obtain next_page u where p: "mt_page m (Suc index * 100) s = (Inr next_page, u)"
      and rest: "poll_pages m anchors (Suc index) n ?rows next_page u = (Inr rs, t)"
      by (auto simp: act_bind_Inr)
    from p have "page_read m (Suc index * 100) next_page" by (auto simp: page_read_def)
    from Suc.IH [OF rest this] obtain pages where pages: "window anchors pages" "length pages \<le> n"
      "\<forall>k < length pages. page_read m ((Suc index + k) * 100) (pages ! k)"
      "rs = collect_rows anchors ?rows (window_rows anchors pages)" by blast
    have "page_read m ((index + k) * 100) ((page # pages) ! k)" if "k < Suc (length pages)" for k
      using that pages(3) Suc.prems(2) by (cases k) auto
    with pages full show ?thesis
      by (intro exI [of _ "page # pages"]) (auto simp: window_def window_rows_def collect_rows_append)
  qed
qed

lemma events_of_rows:
  "events_of m rows u = (Inr es, t) \<Longrightarrow>
   list_all (\<lambda>r. \<exists>e. fst (mt_event m r s) = Inr e) rows \<and>
   es = List.map_filter (\<lambda>r. case fst (mt_event m r s) of Inr e \<Rightarrow> e | Inl x \<Rightarrow> None) rows"
proof (induction rows arbitrary: u es t)
  case Nil
  then show ?case by (simp add: act_return_def List.map_filter_def)
next
  case (Cons r rows)
  from Cons.prems obtain e w es1 x where e: "mt_event m r u = (Inr e, w)" "events_of m rows w = (Inr es1, x)"
    "es = (case e of None \<Rightarrow> es1 | Some y \<Rightarrow> y # es1)"
    by (auto simp: act_bind_Inr act_return_def)
  from e(1) event_row [of r s u] have "fst (mt_event m r s) = Inr e" by simp
  with e(3) Cons.IH [OF e(2)] show ?case by (auto simp: List.map_filter_def split: option.split)
qed

lemma read_new_handed_over:
  assumes "read_new m anchors s = (Inr es, t)"
  shows "handed_over m s es t anchors"
proof -
  from assms obtain first s1 rows s2 again s3 s4 s5 where
    first: "mt_page m 0 s = (Inr first, s1)" and rows: "poll_pages m anchors 0 10 [] first s1 = (Inr rows, s2)"
    and es: "events_of m (rev rows) s4 = (Inr es, s5)" and t: "set_anchors first s5 = (Inr (), t)"
    unfolding read_new_def by (auto simp: act_bind_Inr act_return_def)
  from first have "page_read m (0 * 100) first" by (auto simp: page_read_def)
  from poll_pages_window [OF rows this] obtain pages where pages: "window anchors pages" "hd pages = first" "length pages \<le> 10"
    "\<forall>k < length pages. page_read m (k * 100) (pages ! k)" "rows = collect_rows anchors [] (window_rows anchors pages)"
    by auto
  from events_of_rows [OF es, of s] pages collected_fresh [of anchors pages] t show ?thesis
    unfolding handed_over_def by (intro exI [of _ pages] exI [of _ rows]) (auto simp: set_anchors_def list_all_iff)
qed

definition safe_failure :: "'a lab \<Rightarrow> bool" where
  "safe_failure c \<longleftrightarrow> (\<forall>s e t. c s = (Inl e, t) \<longrightarrow> lb_anchors t = lb_anchors s)"

lemma safe_quiet: "quiet c \<Longrightarrow> safe_failure c"
  using quietD by (auto simp: safe_failure_def)

lemma safe_bind: "quiet c \<Longrightarrow> (\<And>a. safe_failure (f a)) \<Longrightarrow> safe_failure (act_bind c f)"
  unfolding safe_failure_def
proof (intro allI impI)
  fix s e t
  assume q: "quiet c" and f: "\<And>a. \<forall>s e t. f a s = (Inl e, t) \<longrightarrow> lb_anchors t = lb_anchors s"
    and run: "act_bind c f s = (Inl e, t)"
  from act_bind_cases [OF run] show "lb_anchors t = lb_anchors s"
  proof (elim disjE exE conjE)
    fix x assume "c s = (Inl x, t)"
    from quietD [OF q this] show ?thesis by simp
  next
    fix a u assume c: "c s = (Inr a, u)" and rest: "f a u = (Inl e, t)"
    from quietD [OF q c] f rest show ?thesis by metis
  qed
qed

lemma safe_anchors: "safe_failure (set_anchors rows)" "safe_failure (act_bind (set_anchors rows) (\<lambda>_. act_return a))"
  by (simp_all add: safe_failure_def set_anchors_def act_bind_def act_return_def)

lemma safe_baseline: "safe_failure (baseline m)" "safe_failure (act_bind (baseline m) (\<lambda>_. act_return a))"
proof -
  show one: "safe_failure (baseline m)"
    unfolding baseline_def by (intro safe_bind quiet_guard quiet_page safe_anchors)
  then show "safe_failure (act_bind (baseline m) (\<lambda>_. act_return a))"
    unfolding safe_failure_def by (auto dest!: act_bind_cases simp: act_return_def)
qed

lemma safe_read_new: "safe_failure (read_new m anchors)"
  unfolding read_new_def
  by (intro safe_bind quiet_page quiet_poll_pages quiet_events_of quiet_when quiet_basic safe_anchors)

lemma poll_failure:
  assumes "poll_once m s = (Inl e, t)"
  shows "lb_anchors t = lb_anchors s"
proof -
  let ?c = "\<lambda>_ s. case lb_anchors s of None \<Rightarrow> act_bind (baseline m) (\<lambda>_. act_return []) s | Some anchors \<Rightarrow> read_new m anchors s"
  have "safe_failure (?c ())"
    unfolding safe_failure_def
  proof (intro allI impI)
    fix s e t assume run: "?c () s = (Inl e, t)"
    show "lb_anchors t = lb_anchors s"
    proof (cases "lb_anchors s")
      case None
      with run safe_baseline(2) [of "[]"] show ?thesis unfolding safe_failure_def by (metis option.case(1))
    next
      case (Some anchors)
      with run safe_read_new [of anchors] show ?thesis unfolding safe_failure_def by (metis option.case(2))
    qed
  qed
  then have "safe_failure (act_bind (mt_guard m) ?c)" by (intro safe_bind quiet_guard) simp
  then have "safe_failure (or_pause (act_bind (mt_guard m) ?c))"
    unfolding safe_failure_def or_pause_def by (auto split: prod.splits sum.splits exn.splits)
  with assms show ?thesis by (auto simp: safe_failure_def poll_once_def)
qed

lemma poll_success:
  assumes "poll_once m s = (Inr es, t)"
  shows "case lb_anchors s of None \<Rightarrow> es = [] | Some anchors \<Rightarrow> handed_over m s es t anchors"
proof -
  from assms obtain u where g: "mt_guard m s = (Inr (), u)" and
    c: "(case lb_anchors u of None \<Rightarrow> act_bind (baseline m) (\<lambda>_. act_return []) u | Some anchors \<Rightarrow> read_new m anchors u) = (Inr es, t)"
    by (auto simp: poll_once_def or_pause_def act_bind_Inr split: prod.splits sum.splits exn.splits)
  from quietD [OF quiet_guard g] have same: "lb_anchors u = lb_anchors s" by simp
  show ?thesis
  proof (cases "lb_anchors s")
    case None
    with c same show ?thesis by (auto simp: act_bind_Inr act_return_def)
  next
    case (Some anchors)
    with c same have "handed_over m u es t anchors" by (auto intro: read_new_handed_over)
    moreover have "fst (mt_event m r u) = fst (mt_event m r s)" for r by (rule event_row)
    ultimately show ?thesis using Some by (simp add: handed_over_def)
  qed
qed

end

subsection \<open>The two classes\<close>

definition wechat_methods :: "lab_env \<Rightarrow> target option \<Rightarrow> methods" where
  "wechat_methods v cls = (case cls of None \<Rightarrow> lab_methods v | Some tg \<Rightarrow> conv_methods v tg)"

definition stateless :: "'a lab \<Rightarrow> bool" where
  "stateless c \<longleftrightarrow> (\<forall>s t. fst (c s) = fst (c t))"

named_theorems stateless_intros \<open>computations whose result does not depend on the state\<close>

lemma stateless_basic [stateless_intros]: "stateless (act_return a)" "stateless (pause c)"
  by (simp_all add: stateless_def act_return_def pause_def)

lemma stateless_if [stateless_intros]: "(b \<Longrightarrow> stateless c) \<Longrightarrow> (\<not> b \<Longrightarrow> stateless d) \<Longrightarrow> stateless (if b then c else d)"
  by simp

lemma stateless_cases [stateless_intros]:
  "stateless a \<Longrightarrow> (\<And>x. stateless (f x)) \<Longrightarrow> stateless (case opt of None \<Rightarrow> a | Some x \<Rightarrow> f x)"
  "stateless j0 \<Longrightarrow> (\<And>b. stateless (j1 b)) \<Longrightarrow> (\<And>i. stateless (j2 i)) \<Longrightarrow> (\<And>q. stateless (j3 q)) \<Longrightarrow> (\<And>s. stateless (j4 s)) \<Longrightarrow>
    (\<And>xs. stateless (j5 xs)) \<Longrightarrow> (\<And>d. stateless (j6 d)) \<Longrightarrow>
    stateless (case j of JNull \<Rightarrow> j0 | JBool b \<Rightarrow> j1 b | JInt i \<Rightarrow> j2 i | JFloat q \<Rightarrow> j3 q | JStr s \<Rightarrow> j4 s | JList xs \<Rightarrow> j5 xs | JObj d \<Rightarrow> j6 d)"
  "stateless yes \<Longrightarrow> stateless no \<Longrightarrow> stateless (case b of True \<Rightarrow> yes | False \<Rightarrow> no)"
  by (simp_all split: option.split json.split bool.split)

lemma stateless_event: "stateless (lab_event v d)" "stateless (conv_event v tg d)"
  unfolding lab_event_def conv_event_def Let_def by (intro stateless_intros)+

interpretation wechat: polling "wechat_methods v cls"
proof (cases cls)
  case None
  then show "polling (wechat_methods v cls)"
    using stateless_event(1) [of v] by unfold_locales
      (simp_all add: wechat_methods_def lab_class.quiet_guard lab_class.quiet_before_send lab_class.quiet_readback
        lab_class.quiet_page lab_class.quiet_event, simp add: lab_methods_def stateless_def)
next
  case (Some tg)
  then show "polling (wechat_methods v cls)"
    using stateless_event(2) [of v tg] by unfold_locales
      (simp_all add: wechat_methods_def conversation_class.quiet_guard conversation_class.quiet_before_send
        conversation_class.quiet_readback conversation_class.quiet_page conversation_class.quiet_event,
        simp add: conv_methods_def stateless_def)
qed

subsection \<open>Properties\<close>

text \<open>C28. A message is posted to WeChat at most once. In every sequence of deliveries, polls, baselines, health checks
  and resumptions of a connector of either class, against a service that answers by anything, at most one step posts for a message
  id, however often its delivery is asked for; a delivery posts at most one message, and no other operation posts any.\<close>

theorem wechat_posts_once:
  assumes "run (wechat_step (wechat_methods v cls) v) s ls t"
  shows "length (filter (\<lambda>l. fst l = Some i \<and> snd l \<noteq> []) ls) \<le> 1 \<and>
    (\<forall>l \<in> set ls. length (snd l) \<le> 1 \<and> (fst l = None \<longrightarrow> snd l = []))"
  using wechat.posts_of_run [OF assms] by blast



subsection \<open>A delivery on a small service\<close>

definition sample_text :: str where
  "sample_text = lit ''LB26_ACK_'' @ replicate 24 65"

definition sample_box :: "int \<Rightarrow> int \<Rightarrow> int \<Rightarrow> int \<Rightarrow> json" where
  "sample_box x y w h = JObj [(lit ''x'', JInt x), (lit ''y'', JInt y), (lit ''width'', JInt w), (lit ''height'', JInt h)]"

definition sample_tree :: json where
  "sample_tree = JObj [(lit ''tree'', JObj [(lit ''role'', JStr (lit ''frame'')), (lit ''bounds'', sample_box 0 0 9 9),
     (lit ''children'', JList [
        JObj [(lit ''role'', JStr (lit ''list'')), (lit ''name'', JStr (lit ''Chats'')), (lit ''bounds'', sample_box 0 0 2 9)],
        JObj [(lit ''role'', JStr (lit ''label'')), (lit ''name'', JStr (lit ''testing'')), (lit ''bounds'', sample_box 3 0 2 1)]])])]"

fun sample_answer :: "bool \<Rightarrow> api_call \<Rightarrow> json" where
  "sample_answer posted Get_Auth = JObj [(lit ''status'', JStr (lit ''logged_in'')), (lit ''loggedInUser'', JStr (lit ''me''))]"
| "sample_answer posted (Get_Chats offset) = JList [JObj [(lit ''name'', JStr (lit ''testing'')), (lit ''id'', JStr (lit ''1@chatroom''))]]"
| "sample_answer posted Get_Tree = sample_tree"
| "sample_answer posted (Get_Messages c offset) = JList (if posted then
     [JObj [(lit ''chatId'', JStr (lit ''1@chatroom'')), (lit ''localId'', JInt 1), (lit ''type'', JInt 1),
        (lit ''content'', JStr sample_text), (lit ''isSelf'', JBool True), (lit ''sender'', JStr (lit ''me''))]] else [])"
| "sample_answer posted (Send_Text c t) = JObj [(lit ''success'', JBool True)]"
| "sample_answer posted _ = JNull"

definition sample_api :: api where
  "sample_api calls = Http_Json (sample_answer (list_ex is_send calls) (last calls))"

definition sample_env :: "time \<Rightarrow> lab_env" where
  "sample_env now = \<lparr>lv_api = sample_api, lv_mac = concat,
     lv_binding = \<lparr>bn_account_ref = reference concat ''account'' [lit ''me''], bn_chat_id = lit ''1@chatroom'',
       bn_chat_ref = lit ''chat'', bn_header_path = [1], bn_header_roles = [lit ''frame'', lit ''label'']\<rparr>,
     lv_timestamp = (\<lambda>_. None), lv_now = (\<lambda>_. now), lv_checks = (\<lambda>_. 0)\<rparr>"

definition sample_start :: lab_state where
  "sample_start = \<lparr>tr_log = [], lb_paused = None, lb_anchors = None, lb_attempts = []\<rparr>"

definition sample_message :: outbound_message where
  "sample_message = \<lparr>om_message_id = lit ''i'', om_channel = channel_name, om_chat_id = lit ''chat'', om_text = sample_text,
     om_reply_to_event_id = None, om_created_at = 0, om_metadata = []\<rparr>"

definition sample_deliver :: "lab_state \<Rightarrow> delivery_receipt result \<times> lab_state" where
  "sample_deliver = lab_deliver (wechat_methods (sample_env 7) None) (sample_env 7) sample_message"

lemma sample_step:
  "wechat_step (wechat_methods (sample_env 7) None) (sample_env 7) s (Some (lit ''i''), posts_between s (snd (sample_deliver s)))
     (snd (sample_deliver s))"
  using step_deliver [of "wechat_methods (sample_env 7) None" "sample_env 7" sample_message s "fst (sample_deliver s)"
      "snd (sample_deliver s)"]
  by (simp add: sample_deliver_def sample_message_def)

text \<open>Two deliveries of one message: the first posts it and confirms it, the second answers from memory.\<close>

theorem wechat_posts_once_witness:
  "\<exists>t receipts. run (wechat_step (wechat_methods (sample_env 7) None) (sample_env 7)) sample_start
       [(Some (lit ''i''), [Send_Text (lit ''1@chatroom'') sample_text]), (Some (lit ''i''), [])] t \<and>
     lb_attempts t = [(lit ''i'', sample_text, receipts)] \<and> rc_status receipts = Dlv_Acknowledged \<and>
     length (filter (\<lambda>l. fst l = Some (lit ''i'') \<and> snd l \<noteq> [])
       [(Some (lit ''i''), [Send_Text (lit ''1@chatroom'') sample_text]), (Some (lit ''i''), [])]) \<le> 1"
proof -
  let ?t1 = "snd (sample_deliver sample_start)"
  have "sends_of ?t1 = [Send_Text (lit ''1@chatroom'') sample_text]" by code_simp
  then have posts: "posts_between sample_start ?t1 = [Send_Text (lit ''1@chatroom'') sample_text]"
    by (simp add: posts_between_def sample_start_def sends_of_def)
  have kept: "map (\<lambda>(i, x, r). (i, x, rc_status r)) (lb_attempts ?t1) = [(lit ''i'', sample_text, Dlv_Acknowledged)]"
    by code_simp
  then obtain q where last: "lb_attempts ?t1 = [(lit ''i'', sample_text, q)]" "rc_status q = Dlv_Acknowledged" by auto
  then have "map_of (lb_attempts ?t1) (om_message_id sample_message) = Some (om_text sample_message, q)"
    by (simp add: sample_message_def)
  from wechat.deliver_remembered [OF this] have same: "snd (sample_deliver ?t1) = ?t1" by (simp add: sample_deliver_def)
  have r: "run (wechat_step (wechat_methods (sample_env 7) None) (sample_env 7)) sample_start
       [(Some (lit ''i''), [Send_Text (lit ''1@chatroom'') sample_text]), (Some (lit ''i''), [])] ?t1"
    using sample_step [of sample_start] sample_step [of ?t1] unfolding posts same by (auto simp: posts_between_def)
  from wechat_posts_once [OF r, of "lit ''i''"] r last show ?thesis by blast
qed

end
