(* ===== verification/Wechat_Runtime.thy ===== *)
theory Wechat_Runtime
  imports Wechat_Poll
begin

text \<open>
  The durable pause of the WeChat connector: \<open>RuntimeAgentWechatConnector\<close> of
  \<open>lemonbot/connectors/wechat_agent_runtime.py\<close>. It puts an operation lock, a ready flag and a pause marker on disk around a
  transport, which is a record of operations over any state. The file system and the database may fail while a pause is written:
  each operation that can pause takes the \<open>fault\<close> that happens then.
\<close>

subsection \<open>Transports\<close>

record 't transport =
  tp_baseline :: "('t, unit) act"
  tp_poll :: "('t, inbound_event list) act"
  tp_deliver :: "outbound_message \<Rightarrow> ('t, delivery_receipt) act"
  tp_health :: "('t, bool \<times> string option) act"
  tp_prepare :: "'t \<Rightarrow> 't"
  tp_paused :: "'t \<Rightarrow> string option"
  tp_set_paused :: "string option \<Rightarrow> 't \<Rightarrow> 't"
  tp_multiplexed :: bool

definition class_transport :: "lab_env \<Rightarrow> target option \<Rightarrow> lab_state transport" where
  "class_transport v cls =
     \<lparr>tp_baseline = baseline (wechat_methods v cls),
      tp_poll = (if cls = None then poll_once (wechat_methods v cls) else conv_poll (wechat_methods v cls) 3),
      tp_deliver = lab_deliver (wechat_methods v cls) v, tp_health = lab_health (wechat_methods v cls), tp_prepare = (\<lambda>s. s),
      tp_paused = lb_paused, tp_set_paused = (\<lambda>p s. s\<lparr>lb_paused := p\<rparr>), tp_multiplexed = False\<rparr>"

subsection \<open>State\<close>

text \<open>The marker file: refused for its owner, its permissions or its size, not to be opened, or bytes that may parse.\<close>

datatype marker = Unsafe_Marker | Unreadable_Marker | Marker "json option"

record 't runtime =
  rt_transport :: 't
  rt_ready :: bool
  rt_reason :: "string option"
  rt_marker :: "marker option"
  rt_channel_paused :: bool
  rt_idle :: bool
  rt_audit :: "(string \<times> string) list"

type_synonym ('t, 'a) rt = "('t runtime, 'a) act"

text \<open>What fails while a pause is stored: nothing, the file before or after it was replaced, the repository, the audit.\<close>

datatype fault = No_Fault | Write_Fault | Sync_Fault | Store_Fault | Audit_Fault

definition os_error :: exn where
  "os_error = OtherException ''OSError''"

definition db_error :: exn where
  "db_error = OtherException ''OperationalError''"

definition reason_marker :: "string \<Rightarrow> marker" where
  "reason_marker reason = Marker (Some (JObj [(lit ''reason'', JStr (lit reason))]))"

text \<open>\<open>_pause\<close>: the process stops first, then the marker, the repository's flag and the audit record are written.\<close>

definition rt_pause :: "'t transport \<Rightarrow> fault \<Rightarrow> string \<Rightarrow> ('t, unit) rt" where
  "rt_pause tp f reason s0 =
     (let s1 = s0\<lparr>rt_ready := False, rt_reason := Some reason, rt_transport := tp_set_paused tp (Some reason) (rt_transport s0)\<rparr>;
          s2 = s1\<lparr>rt_marker := Some (reason_marker reason)\<rparr>;
          s3 = s2\<lparr>rt_channel_paused := True\<rparr>;
          s4 = s3\<lparr>rt_audit := rt_audit s3 @ [(''connector.pause'', reason)]\<rparr>
      in case f of
           Write_Fault \<Rightarrow> (Inl os_error, s1)
         | Sync_Fault \<Rightarrow> (Inl os_error, s2)
         | Store_Fault \<Rightarrow> (Inl db_error, s2)
         | Audit_Fault \<Rightarrow> (Inl db_error, s3)
         | No_Fault \<Rightarrow> (Inr (), s4))"

text \<open>An operation of the transport on its part of the state.\<close>

definition on_transport :: "('t, 'a) act \<Rightarrow> ('t, 'a) rt" where
  "on_transport c s = (case c (rt_transport s) of (r, u) \<Rightarrow> (r, s\<lparr>rt_transport := u\<rparr>))"

text \<open>\<open>except LabPaused as error: await self._pause(str(error)); ...\<close>.\<close>

definition catch_pause :: "('t, 'a) rt \<Rightarrow> (string \<Rightarrow> ('t, 'a) rt) \<Rightarrow> ('t, 'a) rt" where
  "catch_pause c h s = (case c s of (Inl (LabPaused code), t) \<Rightarrow> h code t | other \<Rightarrow> other)"

subsection \<open>Operations\<close>

definition reason_char :: "nat \<Rightarrow> bool" where
  "reason_char c \<longleftrightarrow> 48 \<le> c \<and> c \<le> 57 \<or> 65 \<le> c \<and> c \<le> 90 \<or> 97 \<le> c \<and> c \<le> 122 \<or> c = 58 \<or> c = 95 \<or> c = 45"

text \<open>The reason in a marker: \<open>value.get("reason", value.get("code", value.get("error", ...)))\<close> where it is a short code.\<close>

definition marker_value :: "dict \<Rightarrow> json" where
  "marker_value d =
     (case dget d ''reason'' of Some v \<Rightarrow> v | None \<Rightarrow>
       (case dget d ''code'' of Some v \<Rightarrow> v | None \<Rightarrow>
         (case dget d ''error'' of Some v \<Rightarrow> v | None \<Rightarrow> JStr (lit ''ExplicitResumeRequired''))))"

definition marker_reason :: "json option \<Rightarrow> string" where
  "marker_reason j =
     (case j of
        Some (JObj d) \<Rightarrow>
          (case marker_value d of
             JStr t \<Rightarrow> if 1 \<le> length t \<and> length t \<le> 160 \<and> list_all reason_char t then map char_of t else ''ExplicitResumeRequired''
           | _ \<Rightarrow> ''ExplicitResumeRequired'')
      | _ \<Rightarrow> ''ExplicitResumeRequired'')"

definition rt_initialize :: "'t transport \<Rightarrow> fault \<Rightarrow> ('t, unit) rt" where
  "rt_initialize tp f s =
     (case rt_marker s of
        Some Unsafe_Marker \<Rightarrow> (Inl (LabPaused ''UnsafePrivateFile''), s)
      | Some Unreadable_Marker \<Rightarrow> (Inl os_error, s)
      | Some (Marker j) \<Rightarrow> rt_pause tp f (marker_reason j) s
      | None \<Rightarrow>
          if rt_channel_paused s then rt_pause tp f ''ExplicitResumeRequired'' s
          else catch_pause
            (act_bind (on_transport (tp_baseline tp)) (\<lambda>_ u. (Inr (), u\<lparr>rt_ready := True\<rparr>)))
            (rt_pause tp f) s)"

text \<open>\<open>resume\<close>: the marker is removed only after the guard and the baseline have passed. The second fault is one of the
  repository or the audit at the end.\<close>

definition rt_resume :: "'t transport \<Rightarrow> fault \<Rightarrow> fault \<Rightarrow> ('t, unit) rt" where
  "rt_resume tp f g s =
     (if \<not> rt_idle s then (Inl (RuntimeError ''''), s)
      else act_bind
        (catch_pause (on_transport (tp_baseline tp))
          (\<lambda>code. act_bind (rt_pause tp f code) (\<lambda>_. act_raise (RuntimeError ''''))))
        (\<lambda>_ t.
          if g = Write_Fault then (Inl os_error, t)
          else let u = t\<lparr>rt_marker := None\<rparr> in
            if g = Store_Fault then (Inl db_error, u)
            else let w = u\<lparr>rt_channel_paused := False, rt_reason := None, rt_ready := True\<rparr> in
              if g = Audit_Fault then (Inl db_error, w)
              else (Inr (), w\<lparr>rt_audit := rt_audit w @ [(''connector.resume'', ''baseline_rebuilt'')]\<rparr>))
        (s\<lparr>rt_transport := tp_prepare tp (tp_set_paused tp None (rt_transport s))\<rparr>))"

text \<open>A round of \<open>events\<close> with the lock held; \<open>active\<close>: the inbox or the outbox of the channel has active items.\<close>

definition rt_round :: "'t transport \<Rightarrow> fault \<Rightarrow> bool \<Rightarrow> ('t, inbound_event list) rt" where
  "rt_round tp f active s =
     (if rt_ready s \<and> rt_idle s \<and> \<not> rt_channel_paused s \<and> \<not> (tp_multiplexed tp \<and> active)
      then catch_pause (on_transport (tp_poll tp)) (\<lambda>code. act_bind (rt_pause tp f code) (\<lambda>_. act_return [])) s
      else (Inr [], s))"

text \<open>\<open>deliver\<close> once processing is idle: before that it waits.\<close>

definition rt_deliver :: "'t transport \<Rightarrow> fault \<Rightarrow> outbound_message \<Rightarrow> ('t, delivery_receipt) rt" where
  "rt_deliver tp f msg s =
     (if \<not> rt_ready s \<or> rt_channel_paused s then (Inl (LabPaused ''ExplicitResumeRequired''), s)
      else act_bind
        (catch_pause (on_transport (tp_deliver tp msg))
          (\<lambda>code. act_bind (rt_pause tp f code) (\<lambda>_. act_raise (LabPaused code))))
        (\<lambda>r t.
          if rc_status r = Dlv_Unknown
          then act_bind (rt_pause tp f (case tp_paused tp (rt_transport t) of Some c \<Rightarrow> c | None \<Rightarrow> ''UnconfirmedSend''))
            (\<lambda>_. act_return r) t
          else (Inr r, t)) s)"

definition rt_health :: "'t transport \<Rightarrow> fault \<Rightarrow> ('t, bool \<times> string option) rt" where
  "rt_health tp f s =
     (if \<not> rt_ready s then (Inr (False, rt_reason s), s)
      else if \<not> rt_idle s then (Inr (True, Some ''ProcessingBusy''), s)
      else act_bind (on_transport (tp_health tp)) (\<lambda>(healthy, detail) t.
        if healthy then (Inr (healthy, detail), t)
        else act_bind (rt_pause tp f (case tp_paused tp (rt_transport t) of Some c \<Rightarrow> c | None \<Rightarrow> ''GuardFailed''))
          (\<lambda>_. act_return (healthy, detail)) t) s)"

subsection \<open>Runs over restarts\<close>

text \<open>A label says whether the transport was asked to read, check or send, and whether a resumption was verified.\<close>

datatype rt_label = Op_Start | Op_Resume bool | Op_Round bool | Op_Deliver bool | Op_Health bool | Op_Pause | Op_Outside

fun contacts :: "rt_label \<Rightarrow> bool" where
  "contacts (Op_Round b) = b"
| "contacts (Op_Deliver b) = b"
| "contacts (Op_Health b) = b"
| "contacts l = False"

definition resume_verified :: "'t transport \<Rightarrow> 't runtime \<Rightarrow> bool" where
  "resume_verified tp s \<longleftrightarrow> rt_idle s \<and> is_ok (fst (tp_baseline tp (tp_prepare tp (tp_set_paused tp None (rt_transport s)))))"

definition serving :: "'t runtime \<Rightarrow> bool" where
  "serving s \<longleftrightarrow> rt_ready s \<and> \<not> rt_channel_paused s"

text \<open>The operations of one process after another; outside of the connector the processing of an event starts and ends, and
  the channel's flag in the repository is set and cleared.\<close>

inductive runtime_step :: "'t transport \<Rightarrow> 't runtime \<Rightarrow> rt_label \<Rightarrow> 't runtime \<Rightarrow> bool" for tp where
  rt_start: "rt_initialize tp f (s\<lparr>rt_transport := fresh, rt_ready := False, rt_reason := None, rt_idle := True\<rparr>) = (r, t) \<Longrightarrow>
    runtime_step tp s Op_Start t"
| rt_resumes: "rt_resume tp f g s = (r, t) \<Longrightarrow> runtime_step tp s (Op_Resume (resume_verified tp s)) t"
| rt_rounds: "rt_round tp f active s = (rows, t) \<Longrightarrow> runtime_step tp s (Op_Round (serving s)) t"
| rt_delivers: "rt_deliver tp f msg s = (d, t) \<Longrightarrow> runtime_step tp s (Op_Deliver (serving s)) t"
| rt_checks: "rt_health tp f s = (h, t) \<Longrightarrow> runtime_step tp s (Op_Health (rt_ready s)) t"
| rt_pauses: "rt_pause tp f reason s = (r, t) \<Longrightarrow> runtime_step tp s Op_Pause t"
| rt_processing: "runtime_step tp s Op_Outside (s\<lparr>rt_idle := b\<rparr>)"
| rt_channel: "runtime_step tp s Op_Outside (s\<lparr>rt_channel_paused := b\<rparr>)"

definition stopped :: "'t runtime \<Rightarrow> bool" where
  "stopped s \<longleftrightarrow> \<not> rt_ready s \<and> rt_marker s \<noteq> None"

lemma rt_pause_stopped:
  "rt_pause tp f reason s = (r, t) \<Longrightarrow> rt_marker s \<noteq> None \<or> r = Inr () \<Longrightarrow> stopped t"
  by (auto simp: rt_pause_def stopped_def Let_def split: fault.splits)

lemma on_transport_state: "on_transport c s = (r, t) \<Longrightarrow> \<exists>u. t = s\<lparr>rt_transport := u\<rparr> \<and> c (rt_transport s) = (r, u)"
  by (auto simp: on_transport_def split: prod.splits)

lemma catch_pause_cases:
  assumes "catch_pause c h s = (r, t)"
  obtains (caught) code u where "c s = (Inl (LabPaused code), u)" "h code u = (r, t)"
  | (plain) "c s = (r, t)" "\<And>code. r \<noteq> Inl (LabPaused code)"
  using assms by (auto simp: catch_pause_def split: prod.splits sum.splits exn.splits)

lemma failed_resume_stopped:
  assumes "rt_resume tp f g s = (r, t)" and "stopped s" and "\<not> resume_verified tp s"
  shows "stopped t"
proof (cases "rt_idle s")
  case False
  with assms show ?thesis by (simp add: rt_resume_def)
next
  case True
  let ?s = "s\<lparr>rt_transport := tp_prepare tp (tp_set_paused tp None (rt_transport s))\<rparr>"
  obtain b u where b: "tp_baseline tp (rt_transport ?s) = (b, u)" by force
  with True assms(3) obtain e where e: "b = Inl e" by (cases b) (auto simp: resume_verified_def)
  have s: "stopped (?s\<lparr>rt_transport := u\<rparr>)" using assms(2) by (simp add: stopped_def)
  have on: "on_transport (tp_baseline tp) ?s = (Inl e, ?s\<lparr>rt_transport := u\<rparr>)" using b e by (simp add: on_transport_def)
  show ?thesis
  proof (cases "is_lab_paused e")
    case True
    then obtain code where code: "e = LabPaused code" by (cases e) auto
    obtain q w where p: "rt_pause tp f code (?s\<lparr>rt_transport := u\<rparr>) = (q, w)" by force
    from rt_pause_stopped [OF p] s have "stopped w" by (simp add: stopped_def)
    moreover from assms(1) \<open>rt_idle s\<close> on p code have "t = w"
      by (auto simp: rt_resume_def act_bind_def catch_pause_def act_raise_def split: sum.splits)
    ultimately show ?thesis by simp
  next
    case False
    with assms(1) \<open>rt_idle s\<close> on have "t = ?s\<lparr>rt_transport := u\<rparr>"
      by (cases e) (auto simp: rt_resume_def act_bind_def catch_pause_def)
    with s show ?thesis by simp
  qed
qed

lemma stopped_step:
  assumes "runtime_step tp s l t" and "stopped s" and "l \<noteq> Op_Resume True"
  shows "stopped t \<and> \<not> contacts l"
  using assms
proof (cases rule: runtime_step.cases)
  case (rt_start f fresh r)
  with assms(2) show ?thesis
    by (cases "rt_marker s") (auto simp: rt_initialize_def stopped_def split: marker.splits dest: rt_pause_stopped)
next
  case (rt_resumes f g r)
  with assms(3) failed_resume_stopped [OF rt_resumes(2) assms(2)] show ?thesis by simp
qed (use assms(2) in \<open>auto simp: stopped_def serving_def rt_round_def rt_deliver_def rt_health_def dest: rt_pause_stopped\<close>)

lemma stopped_run:
  "run (runtime_step tp) s ls t \<Longrightarrow> stopped s \<Longrightarrow> \<forall>l \<in> set ls. l \<noteq> Op_Resume True \<Longrightarrow>
   stopped t \<and> (\<forall>l \<in> set ls. \<not> contacts l)"
proof (induction rule: run.induct)
  case (run_Cons s l t ls u)
  with stopped_step [OF run_Cons.hyps(1)] show ?case by simp
qed simp

lemma deliver_stops:
  assumes "rt_deliver tp f msg s = (res, t)" and "serving s"
    and "res = Inl (LabPaused code) \<or> res = Inr r \<and> rc_status r = Dlv_Unknown"
  shows "stopped t"
proof -
  let ?sent = "catch_pause (on_transport (tp_deliver tp msg)) (\<lambda>code. act_bind (rt_pause tp f code) (\<lambda>_. act_raise (LabPaused code)))"
  let ?code = "\<lambda>w. case tp_paused tp (rt_transport w) of Some c \<Rightarrow> c | None \<Rightarrow> ''UnconfirmedSend''"
  have paused: "stopped w" if "act_bind (rt_pause tp f c) (\<lambda>_. k) u = (q, w)" and "q = Inl (LabPaused x) \<or> q = Inr y"
      and "\<And>v. snd (k v) = v" for c k u q w x and y :: "delivery_receipt"
  proof -
    obtain p z where p: "rt_pause tp f c u = (p, z)" by force
    from that p have "p = Inr ()"
      by (auto simp: act_bind_def rt_pause_def os_error_def db_error_def Let_def split: sum.splits fault.splits)
    with that(1) p have "k z = (q, w)" by (simp add: act_bind_def)
    with that(3) [of z] have "w = z" by simp
    with rt_pause_stopped [OF p] \<open>p = Inr ()\<close> show ?thesis by simp
  qed
  from assms(1,2) have d: "act_bind ?sent (\<lambda>r t. if rc_status r = Dlv_Unknown
      then act_bind (rt_pause tp f (?code t)) (\<lambda>_. act_return r) t else (Inr r, t)) s = (res, t)"
    by (simp add: rt_deliver_def serving_def)
  from act_bind_cases [OF d] show ?thesis
  proof (elim disjE exE conjE)
    fix e assume sent: "?sent s = (Inl e, t)" and e: "res = Inl e"
    from sent show ?thesis
    proof (rule catch_pause_cases)
      fix c u assume "act_bind (rt_pause tp f c) (\<lambda>_. act_raise (LabPaused c)) u = (Inl e :: delivery_receipt result, t)"
      from paused [OF this] assms(3) e show ?thesis by (auto simp: act_raise_def)
    next
      assume "\<And>c. Inl e \<noteq> (Inl (LabPaused c) :: delivery_receipt result)"
      with assms(3) e show ?thesis by auto
    qed
  next
    fix q u
    assume "(if rc_status q = Dlv_Unknown then act_bind (rt_pause tp f (?code u)) (\<lambda>_. act_return q) u else (Inr q, u)) = (res, t)"
    with assms(3) have "act_bind (rt_pause tp f (?code u)) (\<lambda>_. act_return q) u = (res, t)" by (auto split: if_splits)
    from paused [OF this] assms(3) show ?thesis by (auto simp: act_return_def)
  qed
qed


end
