(* ===== verification/Wechat_Mux.thy ===== *)
theory Wechat_Mux
  imports Wechat_Runtime
begin

text \<open>
  \<open>ConversationMultiplexer\<close> of \<open>lemonbot/connectors/wechat_agent_conversation.py\<close>: several bound conversations that share the
  request log. A conversation that fails is paused alone, unless the failure is one of the account; the pauses are kept in a file,
  whose writes succeed here. Whether a notification came or the reconciliation is due is given to each poll.
\<close>

subsection \<open>State\<close>

record child =
  ch_binding :: binding
  ch_target :: target
  ch_paused :: "string option"
  ch_anchors :: "int set option"
  ch_attempts :: "(uuid \<times> str \<times> delivery_receipt) list"

record mux_state = traced +
  mx_paused :: "string option"
  mx_children :: "(str \<times> child) list"
  mx_target_pauses :: "(str \<times> string) list"
  mx_pause_file :: "(str \<times> string) list option"
  mx_resume :: bool
  mx_rotation :: nat

type_synonym 'a mux = "(mux_state, 'a) act"

definition child_env :: "lab_env \<Rightarrow> child \<Rightarrow> lab_env" where
  "child_env v c = v\<lparr>lv_binding := ch_binding c\<rparr>"

definition child_methods :: "lab_env \<Rightarrow> child \<Rightarrow> methods" where
  "child_methods v c = wechat_methods (child_env v c) (Some (ch_target c))"

definition enter_child :: "mux_state \<Rightarrow> child \<Rightarrow> lab_state" where
  "enter_child s c = \<lparr>tr_log = tr_log s, lb_paused = ch_paused c, lb_anchors = ch_anchors c, lb_attempts = ch_attempts c\<rparr>"

definition leave_child :: "lab_state \<Rightarrow> child \<Rightarrow> child" where
  "leave_child t c = c\<lparr>ch_paused := lb_paused t, ch_anchors := lb_anchors t, ch_attempts := lb_attempts t\<rparr>"

definition on_child :: "str \<Rightarrow> (child \<Rightarrow> 'a lab) \<Rightarrow> 'a mux" where
  "on_child ref f s =
     (case map_of (mx_children s) ref of
        None \<Rightarrow> (Inl KeyError, s)
      | Some c \<Rightarrow> (case f c (enter_child s c) of (r, t) \<Rightarrow>
          (r, s\<lparr>tr_log := tr_log t, mx_children := AList.update ref (leave_child t c) (mx_children s)\<rparr>)))"

definition mux_pause :: "string \<Rightarrow> 'a mux" where
  "mux_pause code s = (Inl (LabPaused code), s\<lparr>mx_paused := Some code\<rparr>)"

definition is_target_paused :: "mux_state \<Rightarrow> str \<Rightarrow> bool" where
  "is_target_paused s ref \<longleftrightarrow> map_of (mx_target_pauses s) ref \<noteq> None"

definition all_targets_paused :: "mux_state \<Rightarrow> bool" where
  "all_targets_paused s \<longleftrightarrow> length (mx_target_pauses s) = length (mx_children s)"

text \<open>Failures of the account or of a message's direction and sender stop every conversation.\<close>

definition account_failures :: "string list" where
  "account_failures = [''AccountChanged'', ''NotLoggedIn'', ''AccountIdentityMissing'', ''SenderMissing'', ''DirectionMissing'',
     ''PrivateSenderMismatch'']"

definition write_pauses :: "unit mux" where
  "write_pauses s = (Inr (), s\<lparr>mx_pause_file := Some (mx_target_pauses s)\<rparr>)"

definition target_failure :: "str \<Rightarrow> string \<Rightarrow> unit mux" where
  "target_failure ref reason =
     (if reason \<in> set account_failures then mux_pause reason
      else (\<lambda>s. write_pauses (s\<lparr>mx_target_pauses := AList.update ref reason (mx_target_pauses s)\<rparr>)))"

text \<open>\<open>except LabPaused as error\<close> around one conversation.\<close>

definition catch_lab :: "'a mux \<Rightarrow> (string \<Rightarrow> 'a mux) \<Rightarrow> 'a mux" where
  "catch_lab c h s = (case c s of (Inl (LabPaused code), t) \<Rightarrow> h code t | other \<Rightarrow> other)"

subsection \<open>A read cycle\<close>

definition invalid :: "'a mux" where
  "invalid = act_raise (ValueError '''')"

definition cycle_request :: "bool \<Rightarrow> str list \<Rightarrow> mux_state \<Rightarrow> api_call" where
  "cycle_request from_scratch refs s = Read_Cycle (map (\<lambda>ref. case map_of (mx_children s) ref of
     Some c \<Rightarrow> (bn_chat_id (ch_binding c),
       if from_scratch then None else Some (sorted_list_of_set (case ch_anchors c of Some a \<Rightarrow> a | None \<Rightarrow> {})))
   | None \<Rightarrow> ([], None)) refs)"

text \<open>The answer to a cycle: HTTP errors and bodies that do not parse are invalid, a body that is no object has no \<open>get\<close>.\<close>

definition cycle_payload :: "http_outcome \<Rightarrow> dict result" where
  "cycle_payload out =
     (case out of
        Http_Json (JObj d) \<Rightarrow> if dget d ''accountVerified'' = Some (JBool True) then Inr d else Inl (ValueError '''')
      | Http_Json _ \<Rightarrow> Inl (OtherException ''AttributeError'')
      | Http_Cancelled \<Rightarrow> Inl (OtherException ''CancelledError'')
      | _ \<Rightarrow> Inl (ValueError ''''))"

definition fetch_cycle :: "lab_env \<Rightarrow> bool \<Rightarrow> str list \<Rightarrow> dict mux" where
  "fetch_cycle v from_scratch refs s =
     (let calls = tr_log s @ [cycle_request from_scratch refs s] in (cycle_payload (lv_api v calls), s\<lparr>tr_log := calls\<rparr>))"

definition target_rows :: "json list \<Rightarrow> (str \<times> dict) list option" where
  "target_rows ts = those (map (\<lambda>t. case t of
     JObj d \<Rightarrow> (case dget d ''chatId'' of Some (JStr i) \<Rightarrow> Some (i, d) | _ \<Rightarrow> None) | _ \<Rightarrow> None) ts)"

definition positive_ints :: "json list \<Rightarrow> int list option" where
  "positive_ints xs = those (map (\<lambda>x. case x of JInt i \<Rightarrow> if 0 < i then Some i else None | _ \<Rightarrow> None) xs)"

text \<open>The new anchors and the rows of a conversation, or \<open>None\<close> when they are invalid.\<close>

definition target_content :: "dict \<Rightarrow> (int list \<times> json list) option" where
  "target_content d =
     (case (dget d ''anchors'', dget d ''rows'') of
        (Some (JList as), Some (JList rows)) \<Rightarrow>
          (case positive_ints as of
             Some is \<Rightarrow> if length is \<le> 100 \<and> distinct is \<and> length rows \<le> 1000 then Some (is, rows) else None
           | None \<Rightarrow> None)
      | _ \<Rightarrow> None)"

function chunks :: "nat \<Rightarrow> 'a list \<Rightarrow> 'a list list" where
  "chunks n xs = (if xs = [] \<or> n = 0 then [] else take n xs # chunks n (drop n xs))"
  by pat_completeness auto
termination by (relation "measure (\<lambda>(n, xs). length xs)") auto

declare chunks.simps [simp del]

fun validate_chunks :: "lab_env \<Rightarrow> json list list \<Rightarrow> dict list lab" where
  "validate_chunks v [] = act_return []"
| "validate_chunks v (p # ps) = act_bind (validate_page v (JList p)) (\<lambda>rows.
     act_bind (validate_chunks v ps) (\<lambda>rest. act_return (rows @ rest)))"

text \<open>The rows of a conversation, oldest first: a failing row pauses the conversation and ends its loop; \<open>True\<close> when all
  rows were read.\<close>

fun cycle_rows :: "lab_env \<Rightarrow> str \<Rightarrow> bool \<Rightarrow> dict list \<Rightarrow> inbound_event list \<Rightarrow> (inbound_event list \<times> bool) mux" where
  "cycle_rows v ref is_group [] es = act_return (es, True)"
| "cycle_rows v ref is_group (row # rows) es =
     (if is_group \<and> (case dget row ''mentionedSelf'' of Some (JBool _) \<Rightarrow> False | _ \<Rightarrow> True) then invalid
      else act_bind
        (catch_lab
          (act_bind (on_child ref (\<lambda>c. mt_event (child_methods v c) row)) (\<lambda>e. act_return (Inr e)))
          (\<lambda>code. act_bind (target_failure ref code) (\<lambda>_. act_return (Inl ()))))
        (\<lambda>out. case out of
           Inl _ \<Rightarrow> act_return (es, False)
         | Inr None \<Rightarrow> cycle_rows v ref is_group rows es
         | Inr (Some e) \<Rightarrow> cycle_rows v ref is_group rows (es @ [e])))"

definition target_errors :: "string list" where
  "target_errors = [''AnchorLost'', ''MessageTableMissing'', ''MessageTableAmbiguous'']"

definition known_error :: "json \<Rightarrow> string option" where
  "known_error j = (case j of JStr t \<Rightarrow> find (\<lambda>c. t = lit c) target_errors | _ \<Rightarrow> None)"

definition cycle_target ::
    "lab_env \<Rightarrow> bool \<Rightarrow> str \<Rightarrow> child \<Rightarrow> dict \<Rightarrow> inbound_event list \<Rightarrow> (inbound_event list \<times> (str \<times> int set) option) mux" where
  "cycle_target v from_scratch ref c d es =
     (let err = (case dget d ''error'' of Some j \<Rightarrow> j | None \<Rightarrow> JNull) in
      case known_error err of
        Some code \<Rightarrow> act_bind (target_failure ref code) (\<lambda>_. act_return (es, None))
      | None \<Rightarrow>
          if err \<noteq> JNull then invalid
          else (case target_content d of
            None \<Rightarrow> invalid
          | Some (anchors, rows) \<Rightarrow>
              act_bind (on_child ref (\<lambda>c. validate_chunks (child_env v c) (chunks 100 rows))) (\<lambda>ds.
              if \<not> distinct (map local_id ds) \<or> from_scratch \<and> rows \<noteq> [] then invalid
              else act_bind (cycle_rows v ref (tg_is_group (ch_target c)) (rev ds) es) (\<lambda>(es1, complete).
                act_return (es1, if complete then Some (ref, set anchors) else None)))))"

fun cycle_targets :: "lab_env \<Rightarrow> bool \<Rightarrow> (str \<times> dict) list \<Rightarrow> str list \<Rightarrow> inbound_event list \<Rightarrow> (str \<times> int set) list
    \<Rightarrow> (inbound_event list \<times> (str \<times> int set) list) mux" where
  "cycle_targets v from_scratch by_chat [] es staged = act_return (es, staged)"
| "cycle_targets v from_scratch by_chat (ref # refs) es staged = (\<lambda>s.
     case map_of (mx_children s) ref of
       None \<Rightarrow> (Inl KeyError, s)
     | Some c \<Rightarrow>
         (case map_of by_chat (bn_chat_id (ch_binding c)) of
            None \<Rightarrow> (Inl KeyError, s)
          | Some d \<Rightarrow> act_bind (cycle_target v from_scratch ref c d es) (\<lambda>(es1, new).
              cycle_targets v from_scratch by_chat refs es1 (case new of None \<Rightarrow> staged | Some p \<Rightarrow> staged @ [p])) s))"

text \<open>The anchors move together, after every conversation was read.\<close>

definition stage_anchor :: "str \<times> int set \<Rightarrow> mux_state \<Rightarrow> mux_state" where
  "stage_anchor p s = (case map_of (mx_children s) (fst p) of
     None \<Rightarrow> s
   | Some c \<Rightarrow> s\<lparr>mx_children := AList.update (fst p) (c\<lparr>ch_anchors := Some (snd p)\<rparr>) (mx_children s)\<rparr>)"

definition read_targets :: "lab_env \<Rightarrow> bool \<Rightarrow> str list \<Rightarrow> json list \<Rightarrow> (str \<times> dict) list \<Rightarrow> inbound_event list mux" where
  "read_targets v from_scratch refs ts by_chat s =
     (let expected = map (\<lambda>ref. map_option (\<lambda>c. bn_chat_id (ch_binding c)) (map_of (mx_children s) ref)) refs
      in if length ts \<noteq> length (remdups expected) \<or> Some ` fst ` set by_chat \<noteq> set expected then invalid s
         else act_bind (cycle_targets v from_scratch by_chat refs [] []) (\<lambda>(es, staged) t. (Inr es, fold stage_anchor staged t)) s)"

definition cycle_answer :: "lab_env \<Rightarrow> bool \<Rightarrow> str list \<Rightarrow> dict \<Rightarrow> inbound_event list mux" where
  "cycle_answer v from_scratch refs d =
     (case dget d ''account'' of
        None \<Rightarrow> act_raise KeyError
      | Some account \<Rightarrow>
          if (case account of JStr a \<Rightarrow> \<not> account_matches v a | _ \<Rightarrow> True) then mux_pause ''AccountChanged''
          else (case dget d ''targets'' of
            Some (JList ts) \<Rightarrow>
              (case target_rows ts of None \<Rightarrow> invalid | Some by_chat \<Rightarrow> read_targets v from_scratch refs ts by_chat)
          | _ \<Rightarrow> invalid))"

definition cycle_body :: "lab_env \<Rightarrow> bool \<Rightarrow> str list \<Rightarrow> inbound_event list mux" where
  "cycle_body v from_scratch refs = act_bind (fetch_cycle v from_scratch refs) (cycle_answer v from_scratch refs)"

definition cycle :: "lab_env \<Rightarrow> bool \<Rightarrow> str list \<Rightarrow> inbound_event list mux" where
  "cycle v from_scratch refs =
     (if refs = [] then act_return []
      else (\<lambda>s. case cycle_body v from_scratch refs s of
        (Inl (ValueError _), t) \<Rightarrow> mux_pause ''MessageSnapshotUnavailable'' t
      | (Inl KeyError, t) \<Rightarrow> mux_pause ''MessageSnapshotUnavailable'' t
      | other \<Rightarrow> other))"

subsection \<open>Operations\<close>

text \<open>The guards of the conversations that are not paused, in their order; a failing one is paused and left out.\<close>

fun guarded_refs :: "lab_env \<Rightarrow> str list \<Rightarrow> str list mux" where
  "guarded_refs v [] = act_return []"
| "guarded_refs v (ref # refs) = (\<lambda>s.
     if is_target_paused s ref then guarded_refs v refs s
     else act_bind
       (catch_lab (act_bind (on_child ref (\<lambda>c. mt_guard (child_methods v c))) (\<lambda>_. act_return True))
         (\<lambda>code. act_bind (target_failure ref code) (\<lambda>_. act_return False)))
       (\<lambda>ok. act_bind (guarded_refs v refs) (\<lambda>rest. act_return (if ok then ref # rest else rest))) s)"

definition table_errors :: "string list" where
  "table_errors = [''MessageTableMissing'', ''MessageTableAmbiguous'']"

definition clear_targets :: "mux_state \<Rightarrow> mux_state" where
  "clear_targets s = (if mx_resume s
     then s\<lparr>mx_children := map (\<lambda>(r, c). (r, c\<lparr>ch_paused := None\<rparr>)) (mx_children s), mx_target_pauses := []\<rparr> else s)"

definition mux_baseline_body :: "lab_env \<Rightarrow> unit mux" where
  "mux_baseline_body v s =
     act_bind (guarded_refs v (map fst (mx_children s))) (\<lambda>refs.
     act_bind (cycle v True refs) (\<lambda>_ t.
       if mx_resume t \<and> list_ex (\<lambda>p. snd p \<notin> set table_errors) (mx_target_pauses t)
       then (Inl (LabPaused ''TargetResumeVerificationFailed''), t)
       else if all_targets_paused t then (Inl (LabPaused ''AllTargetsPaused''), t)
       else write_pauses t)) s"

definition mux_baseline :: "lab_env \<Rightarrow> unit mux" where
  "mux_baseline v s = (case mux_baseline_body v (clear_targets s) of (r, t) \<Rightarrow> (r, t\<lparr>mx_resume := False\<rparr>))"

definition rotated :: "nat \<Rightarrow> 'a list \<Rightarrow> 'a list" where
  "rotated n xs = drop n xs @ take n xs"

text \<open>\<open>poll\<close>, given the error of the notification listener, and whether there was a notification or a reconciliation is due.\<close>

definition mux_poll :: "lab_env \<Rightarrow> string option \<Rightarrow> bool \<Rightarrow> inbound_event list mux" where
  "mux_poll v listener awake s =
     (case mx_paused s of
        Some code \<Rightarrow> (Inl (LabPaused code), s)
      | None \<Rightarrow>
          (case listener of
             Some code \<Rightarrow> mux_pause code s
           | None \<Rightarrow>
               if \<not> awake then (Inr [], s)
               else
                 let refs = rotated (mx_rotation s) (map fst (mx_children s));
                     t = s\<lparr>mx_rotation := (mx_rotation s + 1) mod length refs\<rparr>
                 in act_bind (cycle v False (filter (\<lambda>r. \<not> is_target_paused t r) refs)) (\<lambda>es u.
                      if all_targets_paused u then mux_pause ''AllTargetsPaused'' u else (Inr es, u)) t))"

definition mux_deliver :: "lab_env \<Rightarrow> outbound_message \<Rightarrow> delivery_receipt mux" where
  "mux_deliver v msg s =
     (if map_of (mx_children s) (om_chat_id msg) = None \<or> is_target_paused s (om_chat_id msg)
      then (Inr (receipt msg Dlv_Failed (Some ''TargetPausedOrNotBound'')), s)
      else catch_lab
        (act_bind (on_child (om_chat_id msg) (\<lambda>c. lab_deliver (child_methods v c) (child_env v c) msg)) (\<lambda>r t.
           if rc_status r = Dlv_Unknown
           then (Inr r, t\<lparr>mx_paused := Some (case Option.bind (map_of (mx_children t) (om_chat_id msg)) ch_paused of
             Some c \<Rightarrow> c | None \<Rightarrow> ''UnconfirmedSend'')\<rparr>)
           else (Inr r, t)))
        (\<lambda>code. act_bind (target_failure (om_chat_id msg) code)
          (\<lambda>_. act_return (receipt msg Dlv_Failed (Some ''TargetVerificationFailedBeforeSend'')))) s)"

definition mux_health :: "lab_env \<Rightarrow> (bool \<times> string option) mux" where
  "mux_health v s =
     (if mx_paused s \<noteq> None \<or> all_targets_paused s
      then (Inr (False, Some (case mx_paused s of Some c \<Rightarrow> c | None \<Rightarrow> ''AllTargetsPaused'')), s)
      else act_bind (guarded_refs v (map fst (mx_children s))) (\<lambda>_ t.
        (Inr (mx_paused t = None \<and> length (mx_target_pauses t) < length (mx_children t), Some ''BoundConversations''), t)) s)"

text \<open>\<open>can_process\<close>: the gate of the pipeline for an event of a conversation.\<close>

definition mux_can_process :: "mux_state \<Rightarrow> inbound_event \<Rightarrow> bool" where
  "mux_can_process s e \<longleftrightarrow> mx_paused s = None \<and> map_of (mx_children s) (ev_chat_id e) \<noteq> None \<and> \<not> is_target_paused s (ev_chat_id e)"

definition mux_transport :: "lab_env \<Rightarrow> string option \<Rightarrow> bool \<Rightarrow> mux_state transport" where
  "mux_transport v listener awake =
     \<lparr>tp_baseline = mux_baseline v, tp_poll = mux_poll v listener awake, tp_deliver = mux_deliver v, tp_health = mux_health v,
      tp_prepare = (\<lambda>s. s\<lparr>mx_resume := True\<rparr>), tp_paused = mx_paused, tp_set_paused = (\<lambda>p s. s\<lparr>mx_paused := p\<rparr>),
      tp_multiplexed = True\<rparr>"

end
