(* ===== verification/Wechat_Mux_Safety.thy ===== *)
theory Wechat_Mux_Safety
  imports Wechat_Mux
begin

text \<open>
  What the multiplexer does in a run: \<open>keeps\<close> is the contract of computations that respect a relation of states, interpreted
  on the relation that posts nothing; a message id of a conversation is posted at most once.
\<close>

subsection \<open>What a computation keeps\<close>

definition keeps :: "('s \<Rightarrow> 's \<Rightarrow> bool) \<Rightarrow> ('s, 'a) act \<Rightarrow> bool" where
  "keeps R c \<longleftrightarrow> (\<forall>s. R s (snd (c s)))"

lemma keepsD: "keeps R c \<Longrightarrow> c s = (r, t) \<Longrightarrow> R s t"
  unfolding keeps_def by (metis snd_conv)

lemma keepsI: "(\<And>s r t. c s = (r, t) \<Longrightarrow> R s t) \<Longrightarrow> keeps R c"
  by (simp add: keeps_def prod_eq_iff)

locale kept_relation =
  fixes R :: "'s \<Rightarrow> 's \<Rightarrow> bool"
  assumes kept_refl: "R s s"
    and kept_trans: "R s t \<Longrightarrow> R t u \<Longrightarrow> R s u"
begin

lemma keeps_basic: "keeps R (act_return a)" "keeps R (act_raise e)" "keeps R (act_lift r)"
  by (simp_all add: keeps_def act_return_def act_raise_def act_lift_def kept_refl)

lemma keeps_bind:
  assumes "keeps R c" and "\<And>a. keeps R (f a)"
  shows "keeps R (act_bind c f)"
proof (rule keepsI)
  fix s r t assume "act_bind c f s = (r, t)"
  from act_bind_cases [OF this] show "R s t"
    by (elim disjE exE conjE) (auto dest: keepsD [OF assms(1)] keepsD [OF assms(2)] intro: kept_trans)
qed

lemma keeps_if: "(b \<Longrightarrow> keeps R c) \<Longrightarrow> (\<not> b \<Longrightarrow> keeps R d) \<Longrightarrow> keeps R (if b then c else d)"
  by simp

lemma keeps_option: "keeps R a \<Longrightarrow> (\<And>x. keeps R (f x)) \<Longrightarrow> keeps R (case opt of None \<Rightarrow> a | Some x \<Rightarrow> f x)"
  by (simp split: option.split)

lemma keeps_sum: "(\<And>x. keeps R (f x)) \<Longrightarrow> (\<And>x. keeps R (g x)) \<Longrightarrow> keeps R (case p of Inl x \<Rightarrow> f x | Inr x \<Rightarrow> g x)"
  by (simp split: sum.split)

lemma keeps_prod: "(\<And>x y. keeps R (f x y)) \<Longrightarrow> keeps R (case p of (x, y) \<Rightarrow> f x y)"
  by (simp split: prod.split)

text \<open>A computation that looks at the state first.\<close>

lemma keeps_look: "(\<And>u. keeps R (f u)) \<Longrightarrow> keeps R (\<lambda>s. f s s)"
  by (simp add: keeps_def)

lemma keeps_catch:
  assumes "keeps R c" and "\<And>code. keeps R (h code)"
  shows "keeps R (\<lambda>s. case c s of (Inl (LabPaused code), t) \<Rightarrow> h code t | other \<Rightarrow> other)"
proof (rule keepsI)
  fix s r t
  assume run: "(case c s of (Inl (LabPaused code), t) \<Rightarrow> h code t | other \<Rightarrow> other) = (r, t)"
  obtain q u where c: "c s = (q, u)" by force
  from keepsD [OF assms(1) c] have u: "R s u" .
  show "R s t"
  proof (cases "\<exists>code. q = Inl (LabPaused code)")
    case True
    with run c obtain code where "h code u = (r, t)" by auto
    from kept_trans [OF u keepsD [OF assms(2) this]] show ?thesis .
  next
    case False
    with run c have "t = u" by (auto split: sum.splits exn.splits)
    with u show ?thesis by simp
  qed
qed

end

subsection \<open>Operations that post nothing\<close>

definition mux_sends :: "mux_state \<Rightarrow> api_call list" where
  "mux_sends s = filter is_send (tr_log s)"

definition child_attempts :: "mux_state \<Rightarrow> str \<Rightarrow> (uuid \<times> str \<times> delivery_receipt) list option" where
  "child_attempts s ref = map_option ch_attempts (map_of (mx_children s) ref)"

definition mux_kept :: "mux_state \<Rightarrow> mux_state \<Rightarrow> bool" where
  "mux_kept s t \<longleftrightarrow> mux_sends t = mux_sends s \<and> child_attempts t = child_attempts s"

interpretation mux: kept_relation mux_kept
  by unfold_locales (simp_all add: mux_kept_def)

lemmas keeps_mux = mux.keeps_basic mux.keeps_bind mux.keeps_if mux.keeps_option mux.keeps_sum mux.keeps_prod

lemma keeps_on_child:
  assumes "\<And>c. quiet (f c)"
  shows "keeps mux_kept (on_child ref f)"
proof (rule keepsI)
  fix s r t assume run: "on_child ref f s = (r, t)"
  show "mux_kept s t"
  proof (cases "map_of (mx_children s) ref")
    case None
    with run show ?thesis by (simp add: on_child_def mux_kept_def)
  next
    case (Some c)
    obtain q u where f: "f c (enter_child s c) = (q, u)" by force
    from run Some f have t: "t = s\<lparr>tr_log := tr_log u, mx_children := AList.update ref (leave_child u c) (mx_children s)\<rparr>"
      by (simp add: on_child_def)
    from quietD [OF assms f] Some show ?thesis
      by (auto simp: t mux_kept_def mux_sends_def sends_of_def enter_child_def leave_child_def child_attempts_def update_conv')
  qed
qed

lemma keeps_writes: "keeps mux_kept (mux_pause code)" "keeps mux_kept write_pauses" "keeps mux_kept invalid"
  by (simp_all add: keeps_def mux_kept_def mux_pause_def write_pauses_def invalid_def act_raise_def mux_sends_def child_attempts_def [abs_def])

lemma keeps_target_failure: "keeps mux_kept (target_failure ref reason)"
  by (simp add: keeps_def mux_kept_def target_failure_def mux_pause_def write_pauses_def mux_sends_def child_attempts_def [abs_def])

lemma keeps_catch_lab: "keeps mux_kept c \<Longrightarrow> (\<And>code. keeps mux_kept (h code)) \<Longrightarrow> keeps mux_kept (catch_lab c h)"
  using mux.keeps_catch [of c h] by (simp add: catch_lab_def [abs_def])

lemma quiet_validate_chunks: "quiet (validate_chunks v ps)"
  by (induction ps) (auto intro!: quiet_intros)

lemma keeps_child_event: "keeps mux_kept (on_child ref (\<lambda>c. mt_event (child_methods v c) row))"
  unfolding child_methods_def by (rule keeps_on_child [OF wechat.quiet_event])

lemma keeps_child_guard: "keeps mux_kept (on_child ref (\<lambda>c. mt_guard (child_methods v c)))"
  unfolding child_methods_def by (rule keeps_on_child [OF wechat.quiet_guard])

lemma keeps_cycle_rows: "keeps mux_kept (cycle_rows v ref g rows es)"
proof (induction rows arbitrary: es)
  case Nil
  then show ?case by (simp add: mux.keeps_basic)
next
  case (Cons row rows)
  show ?case
    unfolding cycle_rows.simps
    by (intro keeps_mux keeps_catch_lab keeps_child_event keeps_target_failure keeps_writes Cons)
qed

lemma keeps_cycle_target: "keeps mux_kept (cycle_target v f ref c d es)"
  unfolding cycle_target_def Let_def
  by (intro keeps_mux keeps_writes keeps_target_failure keeps_on_child [OF quiet_validate_chunks] keeps_cycle_rows)

lemma keeps_error: "keeps mux_kept (\<lambda>s. (Inl e, s))"
  by (simp add: keeps_def mux_kept_def)

lemma keeps_cycle_targets: "keeps mux_kept (cycle_targets v f by_chat refs es staged)"
proof (induction refs arbitrary: es staged)
  case Nil
  then show ?case by (simp add: mux.keeps_basic)
next
  case (Cons ref refs)
  show ?case
  proof (rule keepsI)
    fix s r t
    assume run: "cycle_targets v f by_chat (ref # refs) es staged s = (r, t)"
    show "mux_kept s t"
    proof (cases "\<exists>c d. map_of (mx_children s) ref = Some c \<and> map_of by_chat (bn_chat_id (ch_binding c)) = Some d")
      case True
      then obtain c d where cd: "map_of (mx_children s) ref = Some c" "map_of by_chat (bn_chat_id (ch_binding c)) = Some d" by blast
      have "keeps mux_kept (act_bind (cycle_target v f ref c d es) (\<lambda>(es1, new).
          cycle_targets v f by_chat refs es1 (case new of None \<Rightarrow> staged | Some p \<Rightarrow> staged @ [p])))"
        by (intro keeps_mux keeps_cycle_target Cons)
      from keepsD [OF this] run cd show ?thesis by simp
    next
      case False
      with run have "t = s" by (auto split: option.splits)
      then show ?thesis by (simp add: mux_kept_def)
    qed
  qed
qed

lemma stage_anchor_kept: "mux_kept s (stage_anchor p s)"
  by (auto simp: stage_anchor_def mux_kept_def mux_sends_def child_attempts_def update_conv' split: option.split)

lemma fold_stage_kept: "mux_kept s (fold stage_anchor ps s)"
proof (induction ps arbitrary: s)
  case Nil
  then show ?case by (simp add: mux_kept_def)
next
  case (Cons p ps)
  from mux.kept_trans [OF stage_anchor_kept Cons] show ?case by simp
qed

lemma keeps_fetch: "keeps mux_kept (fetch_cycle v f refs)"
  by (simp add: keeps_def mux_kept_def fetch_cycle_def Let_def mux_sends_def child_attempts_def [abs_def] cycle_request_def)

lemma keeps_staging: "keeps mux_kept (\<lambda>t. (r, fold stage_anchor ps t))"
  by (simp add: keeps_def fold_stage_kept)

lemma keeps_read_targets: "keeps mux_kept (read_targets v f refs ts by_chat)"
proof (rule keepsI)
  fix s r t
  assume run: "read_targets v f refs ts by_chat s = (r, t)"
  have "keeps mux_kept (act_bind (cycle_targets v f by_chat refs [] []) (\<lambda>(es, staged) t. (Inr es, fold stage_anchor staged t)))"
    by (intro keeps_mux keeps_cycle_targets keeps_staging)
  from run keepsD [OF this, of s r t] keepsD [OF keeps_writes(3), of s r t] show "mux_kept s t"
    by (auto simp: read_targets_def Let_def split: if_splits)
qed

lemma keeps_cycle: "keeps mux_kept (cycle v f refs)"
proof -
  have body: "keeps mux_kept (cycle_body v f refs)"
    unfolding cycle_body_def cycle_answer_def
    by (auto split: option.split json.split intro!: keeps_mux keeps_fetch keeps_writes keeps_read_targets)
  show ?thesis
  proof (rule keepsI)
    fix s r t
    assume run: "cycle v f refs s = (r, t)"
    obtain q u where b: "cycle_body v f refs s = (q, u)" by force
    from keepsD [OF body b] have u: "mux_kept s u" .
    from run b consider "t = s" | "t = u" | "t = u\<lparr>mx_paused := Some ''MessageSnapshotUnavailable''\<rparr>"
      by (auto simp: cycle_def act_return_def mux_pause_def split: if_splits sum.splits exn.splits)
    then show "mux_kept s t"
      using u by cases (simp_all add: mux_kept_def mux_sends_def child_attempts_def [abs_def])
  qed
qed

lemma keeps_guarded_refs: "keeps mux_kept (guarded_refs v refs)"
proof (induction refs)
  case Nil
  then show ?case by (simp add: mux.keeps_basic)
next
  case (Cons ref refs)
  have "keeps mux_kept (if is_target_paused u ref then guarded_refs v refs
     else act_bind
       (catch_lab (act_bind (on_child ref (\<lambda>c. mt_guard (child_methods v c))) (\<lambda>_. act_return True))
         (\<lambda>code. act_bind (target_failure ref code) (\<lambda>_. act_return False)))
       (\<lambda>ok. act_bind (guarded_refs v refs) (\<lambda>rest. act_return (if ok then ref # rest else rest))))" for u
    by (intro keeps_mux keeps_catch_lab keeps_child_guard keeps_target_failure Cons)
  from mux.keeps_look [of "\<lambda>u. _ u", OF this] show ?case by (simp add: if_distribR [symmetric])
qed

lemma clear_targets_kept: "mux_kept s (clear_targets s)"
proof -
  have "map_of (map (\<lambda>(r, c). (r, c\<lparr>ch_paused := None\<rparr>)) xs) ref = map_option (\<lambda>c. c\<lparr>ch_paused := None\<rparr>) (map_of xs ref)"
    for xs :: "(str \<times> child) list" and ref
    by (induction xs) auto
  then show ?thesis
    by (auto simp: clear_targets_def mux_kept_def mux_sends_def child_attempts_def fun_eq_iff option.map_comp comp_def)
qed

lemma keeps_mux_baseline: "keeps mux_kept (mux_baseline v)"
proof (rule keepsI)
  fix s r t
  assume run: "mux_baseline v s = (r, t)"
  let ?last = "\<lambda>t. if mx_resume t \<and> list_ex (\<lambda>p. snd p \<notin> set table_errors) (mx_target_pauses t)
       then (Inl (LabPaused ''TargetResumeVerificationFailed''), t)
       else if all_targets_paused t then (Inl (LabPaused ''AllTargetsPaused''), t)
       else write_pauses t"
  have final_part: "keeps mux_kept ?last"
    using keepsD [OF keeps_writes(2)] by (auto intro!: keepsI mux.kept_refl split: if_splits)
  have "keeps mux_kept (act_bind (guarded_refs v refs) (\<lambda>refs. act_bind (cycle v True refs) (\<lambda>_. ?last)))" for refs
    by (intro keeps_mux keeps_guarded_refs keeps_cycle final_part)
  from keepsD [OF this] have body: "keeps mux_kept (mux_baseline_body v)"
    by (intro keepsI) (unfold mux_baseline_body_def, blast)
  obtain q u where b: "mux_baseline_body v (clear_targets s) = (q, u)" by force
  from mux.kept_trans [OF clear_targets_kept keepsD [OF body b]] run b show "mux_kept s t"
    by (auto simp: mux_baseline_def mux_kept_def mux_sends_def child_attempts_def [abs_def])
qed

lemma keeps_mux_poll: "keeps mux_kept (mux_poll v listener awake)"
proof (rule keepsI)
  fix s r t
  assume run: "mux_poll v listener awake s = (r, t)"
  let ?last = "\<lambda>es u. if all_targets_paused u then mux_pause ''AllTargetsPaused'' u else (Inr es, u)"
  let ?t = "s\<lparr>mx_rotation := (mx_rotation s + 1) mod length (rotated (mx_rotation s) (map fst (mx_children s)))\<rparr>"
  have final_part: "keeps mux_kept (?last es)" for es
    using keepsD [OF keeps_writes(1)] by (auto intro!: keepsI mux.kept_refl split: if_splits)
  have body: "keeps mux_kept (act_bind (cycle v False refs) ?last)" for refs
    by (intro keeps_mux keeps_cycle final_part)
  have rot: "mux_kept s ?t" by (simp add: mux_kept_def mux_sends_def child_attempts_def [abs_def])
  show "mux_kept s t"
  proof (cases "mx_paused s = None \<and> listener = None \<and> awake")
    case True
    with run show ?thesis by (auto simp: mux_poll_def Let_def intro: mux.kept_trans [OF rot keepsD [OF body]])
  next
    case False
    with run keepsD [OF keeps_writes(1)] show ?thesis
      by (auto simp: mux_poll_def intro: mux.kept_refl split: option.splits)
  qed
qed

lemma keeps_mux_health: "keeps mux_kept (mux_health v)"
proof (rule keepsI)
  fix s r t
  assume run: "mux_health v s = (r, t)"
  have "keeps mux_kept (act_bind (guarded_refs v refs) (\<lambda>_ t. (Inr (h t), t)))" for refs h
    by (intro keeps_mux keeps_guarded_refs) (simp add: keeps_def mux.kept_refl)
  from keepsD [OF this] run show "mux_kept s t"
    by (auto simp: mux_health_def intro: mux.kept_refl split: if_splits)
qed

subsection \<open>Deliveries\<close>

lemma on_child_deliver:
  assumes "on_child ref (\<lambda>c. lab_deliver (child_methods v c) (child_env v c) msg) s = (r, t)"
  shows "mux_kept s t \<or>
    (\<exists>as bs x. child_attempts s ref = Some as \<and> map_of as (om_message_id msg) = None \<and>
      child_attempts t = (child_attempts s)(ref \<mapsto> bs) \<and> map_of bs = (map_of as)(om_message_id msg \<mapsto> x) \<and>
      (\<exists>chat. mux_sends t = mux_sends s @ [Send_Text chat (om_text msg)]))"
proof (cases "map_of (mx_children s) ref")
  case None
  with assms show ?thesis by (simp add: on_child_def mux_kept_def)
next
  case (Some c)
  obtain q u where f: "lab_deliver (child_methods v c) (child_env v c) msg (enter_child s c) = (q, u)" by force
  from assms Some f have t: "t = s\<lparr>tr_log := tr_log u, mx_children := AList.update ref (leave_child u c) (mx_children s)\<rparr>"
    by (simp add: on_child_def)
  have at: "child_attempts t = (child_attempts s)(ref \<mapsto> lb_attempts u)"
    by (auto simp: t child_attempts_def update_conv' leave_child_def fun_eq_iff)
  have as: "child_attempts s ref = Some (ch_attempts c)" using Some by (simp add: child_attempts_def)
  from wechat.deliver_posts [OF f [unfolded child_methods_def]]
  have "sends_of u = mux_sends s \<and> lb_attempts u = ch_attempts c \<or>
    map_of (ch_attempts c) (om_message_id msg) = None \<and>
    sends_of u = mux_sends s @ [post_of (child_env v c) msg] \<and>
    (\<exists>r. map_of (lb_attempts u) = (map_of (ch_attempts c))(om_message_id msg \<mapsto> (om_text msg, r)))"
    by (simp add: enter_child_def sends_of_def mux_sends_def)
  moreover have "mux_sends t = sends_of u" by (simp add: t mux_sends_def sends_of_def)
  ultimately show ?thesis
    using at as unfolding mux_kept_def post_of_def by auto
qed

definition mux_posts_between :: "mux_state \<Rightarrow> mux_state \<Rightarrow> api_call list" where
  "mux_posts_between s t = drop (length (mux_sends s)) (mux_sends t)"

definition fresh_message :: "mux_state \<Rightarrow> str \<times> uuid \<Rightarrow> bool" where
  "fresh_message s k \<longleftrightarrow> (case child_attempts s (fst k) of None \<Rightarrow> False | Some as \<Rightarrow> map_of as (snd k) = None)"

lemma kept_between: "mux_kept s t \<Longrightarrow> mux_posts_between s t = [] \<and> fresh_message t = fresh_message s"
  by (simp add: mux_kept_def mux_posts_between_def fresh_message_def [abs_def])

lemma mux_deliver_posts:
  assumes "mux_deliver v msg s = (r, t)"
  shows "mux_kept s t \<or>
    fresh_message s (om_chat_id msg, om_message_id msg) \<and>
    fresh_message t = (fresh_message s)((om_chat_id msg, om_message_id msg) := False) \<and>
    (\<exists>chat. mux_posts_between s t = [Send_Text chat (om_text msg)])"
proof -
  let ?d = "on_child (om_chat_id msg) (\<lambda>c. lab_deliver (child_methods v c) (child_env v c) msg)"
  obtain q u where d: "?d s = (q, u)" by force
  show ?thesis
  proof (cases "map_of (mx_children s) (om_chat_id msg) = None \<or> is_target_paused s (om_chat_id msg)")
    case True
    with assms show ?thesis by (auto simp: mux_deliver_def mux.kept_refl)
  next
    case False
    have m: "mux_deliver v msg s = catch_lab (act_bind ?d (\<lambda>r t.
           if rc_status r = Dlv_Unknown
           then (Inr r, t\<lparr>mx_paused := Some (case Option.bind (map_of (mx_children t) (om_chat_id msg)) ch_paused of
             Some c \<Rightarrow> c | None \<Rightarrow> ''UnconfirmedSend'')\<rparr>)
           else (Inr r, t)))
        (\<lambda>code. act_bind (target_failure (om_chat_id msg) code)
          (\<lambda>_. act_return (receipt msg Dlv_Failed (Some ''TargetVerificationFailedBeforeSend'')))) s"
      unfolding mux_deliver_def by (rule if_not_P [OF False])
    have failure: "keeps mux_kept (act_bind (target_failure (om_chat_id msg) code)
          (\<lambda>_. act_return (receipt msg Dlv_Failed (Some ''TargetVerificationFailedBeforeSend''))))" for code
      by (intro keeps_mux keeps_target_failure)
    have rest: "mux_kept u t"
    proof (cases q)
      case (Inr r0)
      with m assms d have "t = u \<or> (\<exists>p. t = u\<lparr>mx_paused := p\<rparr>)"
        by (auto simp: catch_lab_def act_bind_def split: if_splits)
      then show ?thesis by (auto simp: mux_kept_def mux_sends_def child_attempts_def [abs_def])
    next
      case (Inl e)
      show ?thesis
      proof (cases "is_lab_paused e")
        case True
        then obtain code where e: "e = LabPaused code" by (cases e) auto
        have "act_bind (target_failure (om_chat_id msg) code)
          (\<lambda>_. act_return (receipt msg Dlv_Failed (Some ''TargetVerificationFailedBeforeSend''))) u = (r, t)"
          using Inl e m assms d by (simp add: catch_lab_def act_bind_def [where m = ?d])
        from keepsD [OF failure this] show ?thesis .
      next
        case False
        with Inl m assms d have "t = u" by (cases e) (auto simp: catch_lab_def act_bind_def)
        then show ?thesis by (simp add: mux.kept_refl)
      qed
    qed
    from on_child_deliver [OF d] show ?thesis
    proof (elim disjE exE conjE)
      assume "mux_kept s u"
      from mux.kept_trans [OF this rest] show ?thesis by simp
    next
      fix as bs x chat
      assume as: "child_attempts s (om_chat_id msg) = Some as" "map_of as (om_message_id msg) = None"
        and u: "child_attempts u = (child_attempts s)(om_chat_id msg \<mapsto> bs)"
        and bs: "map_of bs = (map_of as)(om_message_id msg \<mapsto> x)"
        and sends: "mux_sends u = mux_sends s @ [Send_Text chat (om_text msg)]"
      from rest have t: "child_attempts t = child_attempts u" "mux_sends t = mux_sends u" by (simp_all add: mux_kept_def)
      have "fresh_message t = (fresh_message s)((om_chat_id msg, om_message_id msg) := False)"
        using as(1) by (auto simp: fresh_message_def fun_eq_iff t u bs)
      with as sends show ?thesis
        by (simp add: fresh_message_def mux_posts_between_def t)
    qed
  qed
qed

subsection \<open>Runs of the multiplexer\<close>

inductive mux_step :: "lab_env \<Rightarrow> mux_state \<Rightarrow> (str \<times> uuid) option \<times> api_call list \<Rightarrow> mux_state \<Rightarrow> bool" for v where
  mux_delivers: "mux_deliver v msg s = (r, t) \<Longrightarrow> mux_step v s (Some (om_chat_id msg, om_message_id msg), mux_posts_between s t) t"
| mux_polls: "mux_poll v listener awake s = (es, t) \<Longrightarrow> mux_step v s (None, mux_posts_between s t) t"
| mux_baselines: "mux_baseline v s = (b, t) \<Longrightarrow> mux_step v s (None, mux_posts_between s t) t"
| mux_checks: "mux_health v s = (h, t) \<Longrightarrow> mux_step v s (None, mux_posts_between s t) t"
| mux_prepares: "mux_step v s (None, []) (s\<lparr>mx_resume := True\<rparr>)"
| mux_pauses: "mux_step v s (None, []) (s\<lparr>mx_paused := p\<rparr>)"

lemma mux_step_cases:
  assumes "mux_step v s (k, posts) t"
  shows "posts = [] \<and> fresh_message t = fresh_message s \<or>
    (\<exists>i. k = Some i \<and> length posts = 1 \<and> fresh_message s i \<and> fresh_message t = (fresh_message s)(i := False))"
  using assms
proof (cases rule: mux_step.cases)
  case (mux_delivers msg r)
  from mux_deliver_posts [OF mux_delivers(3)] mux_delivers(1,2) kept_between [of s t] show ?thesis by auto
next
  case (mux_polls listener awake es)
  from kept_between [OF keepsD [OF keeps_mux_poll mux_polls(3)]] mux_polls(2) show ?thesis by simp
next
  case (mux_baselines b)
  from kept_between [OF keepsD [OF keeps_mux_baseline mux_baselines(3)]] mux_baselines(2) show ?thesis by simp
next
  case (mux_checks h)
  from kept_between [OF keepsD [OF keeps_mux_health mux_checks(3)]] mux_checks(2) show ?thesis by simp
qed (simp_all add: fresh_message_def child_attempts_def fun_eq_iff)

interpretation mux_posts: ranked_machine "mux_step v" "\<lambda>i l. fst l = Some i \<and> snd l \<noteq> []"
  "\<lambda>s i. if fresh_message s i then 1 else 0" "\<lambda>s. True"
proof
  fix s l t and k :: "str \<times> uuid"
  assume "mux_step v s l t"
  then have "mux_step v s (fst l, snd l) t" by simp
  from mux_step_cases [OF this]
  show "(if fresh_message t k then 1 else 0) + (if fst l = Some k \<and> snd l \<noteq> [] then 1 else 0)
    \<le> (if fresh_message s k then 1 else (0::nat))"
    by auto
qed simp

text \<open>C32. The multiplexer of several conversations posts a message at most once: in every sequence of deliveries, polls, baselines,
  health checks, resumptions and pauses, against a service that answers by anything, at most one step posts for a message id of a
  conversation, each delivery posts at most one message, and no other operation posts any.\<close>

theorem multiplexer_posts_once:
  assumes "run (mux_step v) s ls t"
  shows "length (filter (\<lambda>l. fst l = Some k \<and> snd l \<noteq> []) ls) \<le> 1 \<and>
    (\<forall>l \<in> set ls. length (snd l) \<le> 1 \<and> (fst l = None \<longrightarrow> snd l = []))"
proof
  show "length (filter (\<lambda>l. fst l = Some k \<and> snd l \<noteq> []) ls) \<le> 1"
    using mux_posts.marked_at_most [OF assms, of k] by (auto split: if_splits)
  from assms show "\<forall>l \<in> set ls. length (snd l) \<le> 1 \<and> (fst l = None \<longrightarrow> snd l = [])"
    by induction (use mux_step_cases in fastforce)+
qed

subsection \<open>A delivery to one of the conversations\<close>

definition group_row :: json where
  "group_row = JObj [(lit ''chatId'', JStr (lit ''1@chatroom'')), (lit ''localId'', JInt 1), (lit ''type'', JInt 1),
     (lit ''content'', JStr (lit ''hi'')), (lit ''isSelf'', JBool True), (lit ''sender'', JStr (lit ''me'')),
     (lit ''mentionedSelf'', JBool False)]"

fun group_answer :: "bool \<Rightarrow> api_call \<Rightarrow> json" where
  "group_answer posted (Get_Chat c) = JObj [(lit ''id'', JStr (lit ''1@chatroom'')), (lit ''isGroup'', JBool True),
     (lit ''name'', JStr (lit ''testing''))]"
| "group_answer posted (Get_Snapshot c offset) = JObj [(lit ''accountVerified'', JBool True),
     (lit ''rows'', JList (if posted then [group_row] else []))]"
| "group_answer posted c = sample_answer posted c"

definition group_env :: lab_env where
  "group_env = (sample_env 7)\<lparr>lv_api := (\<lambda>calls. Http_Json (group_answer (list_ex is_send calls) (last calls)))\<rparr>"

definition group_start :: mux_state where
  "group_start = \<lparr>tr_log = [], mx_paused = None,
     mx_children = [(lit ''chat'', \<lparr>ch_binding = lv_binding (sample_env 7), ch_target = \<lparr>tg_name = lit ''testing'', tg_is_group = True\<rparr>,
       ch_paused = None, ch_anchors = None, ch_attempts = []\<rparr>)],
     mx_target_pauses = [], mx_pause_file = None, mx_resume = False, mx_rotation = 0\<rparr>"

definition group_message :: outbound_message where
  "group_message = sample_message\<lparr>om_text := lit ''hi''\<rparr>"

definition group_deliver :: "mux_state \<Rightarrow> delivery_receipt result \<times> mux_state" where
  "group_deliver = mux_deliver group_env group_message"

lemma group_posted: "mux_sends (snd (group_deliver group_start)) = [Send_Text (lit ''1@chatroom'') (lit ''hi'')]"
  by code_simp

lemma group_status: "map_sum (\<lambda>e. ()) rc_status (fst (group_deliver group_start)) = Inr Dlv_Acknowledged"
  by code_simp

text \<open>Two deliveries of one message to a conversation: the second posts nothing.\<close>

theorem multiplexer_posts_once_witness:
  "\<exists>t. run (mux_step group_env) group_start
       [(Some (lit ''chat'', lit ''i''), [Send_Text (lit ''1@chatroom'') (lit ''hi'')]), (Some (lit ''chat'', lit ''i''), [])] t \<and>
     length (filter (\<lambda>l. fst l = Some (lit ''chat'', lit ''i'') \<and> snd l \<noteq> [])
       [(Some (lit ''chat'', lit ''i''), [Send_Text (lit ''1@chatroom'') (lit ''hi'')]), (Some (lit ''chat'', lit ''i''), [])]) \<le> 1"
proof -
  let ?k = "(lit ''chat'', lit ''i'')"
  let ?t1 = "snd (group_deliver group_start)"
  let ?t2 = "snd (group_deliver ?t1)"
  have k: "(om_chat_id group_message, om_message_id group_message) = ?k"
    by (simp add: group_message_def sample_message_def)
  have steps: "mux_step group_env s (Some ?k, mux_posts_between s (snd (group_deliver s))) (snd (group_deliver s))" for s
    using mux_delivers [of group_env group_message s "fst (group_deliver s)" "snd (group_deliver s)"] k
    by (simp add: group_deliver_def)
  have first: "mux_posts_between group_start ?t1 = [Send_Text (lit ''1@chatroom'') (lit ''hi'')]"
    using group_posted by (simp add: mux_posts_between_def group_start_def mux_sends_def)
  have "\<not> mux_kept group_start ?t1"
    using kept_between [of group_start ?t1] first by auto
  with mux_deliver_posts [of group_env group_message group_start "fst (group_deliver group_start)" ?t1] k
  have "\<not> fresh_message ?t1 ?k" by (auto simp: group_deliver_def)
  with mux_deliver_posts [of group_env group_message ?t1 "fst (group_deliver ?t1)" ?t2] k kept_between [of ?t1 ?t2]
  have second: "mux_posts_between ?t1 ?t2 = []" by (auto simp: group_deliver_def)
  have r: "run (mux_step group_env) group_start
       [(Some ?k, [Send_Text (lit ''1@chatroom'') (lit ''hi'')]), (Some ?k, [])] ?t2"
    using steps [of group_start] steps [of ?t1] unfolding first second by auto
  from multiplexer_posts_once [OF r, of ?k] r show ?thesis by blast
qed

subsection \<open>A send without an answer\<close>

definition slow_env :: lab_env where
  "slow_env = (sample_env 7)\<lparr>lv_api := (\<lambda>calls. if is_send (last calls) then Http_Timeout else Http_Json (group_answer False (last calls)))\<rparr>"

definition slow_transport :: "mux_state transport" where
  "slow_transport = mux_transport slow_env None False"

definition slow_start :: "mux_state runtime" where
  "slow_start = \<lparr>rt_transport = group_start, rt_ready = True, rt_reason = None, rt_marker = None, rt_channel_paused = False,
     rt_idle = True, rt_audit = []\<rparr>"

lemma slow_unknown: "map_sum (\<lambda>e. ()) rc_status (fst (rt_deliver slow_transport No_Fault group_message slow_start)) = Inr Dlv_Unknown"
  by code_simp


end
