(* ===== verification/Message_Bridge.thy ===== *)
theory Message_Bridge
  imports Wechat_Mux_Safety
begin

text \<open>
  The message bridge beside the chat client: \<open>SourceReader\<close> of \<open>scripts/agent_wechat_metadata.py\<close>, which answers the connector's
  requests from snapshots of the client's database. The agent service, the database files, the decompression library, the XML parser
  and the date format are the fields of \<open>bridge\<close>; a request fails as a whole with any exception.
\<close>

subsection \<open>Message bodies\<close>

datatype xml = Elem (xm_tag: str) (xm_text: "str option") (xm_children: "xml list")

definition find_all :: "string \<Rightarrow> xml \<Rightarrow> xml list" where
  "find_all tag e = filter (\<lambda>c. xm_tag c = lit tag) (xm_children e)"

definition max_source :: nat where
  "max_source = 65536"

text \<open>The parameters: \<open>br_decode\<close> is \<open>decode_source\<close> (hexadecimal text, decompression and UTF-8), \<open>br_upper\<close> is \<open>str.upper\<close>.\<close>

record chat_row =
  mr_local_id :: int
  mr_server_id :: json
  mr_local_type :: int
  mr_create_time :: int
  mr_content :: str
  mr_compressed :: int
  mr_source :: str
  mr_source_compressed :: int
  mr_sender :: "str option"

record bridge =
  br_decode :: "str \<Rightarrow> int \<Rightarrow> str result"
  br_parse :: "str \<Rightarrow> xml option"
  br_upper :: "str \<Rightarrow> str"
  br_iso :: "int \<Rightarrow> str"
  br_account :: str
  br_chats :: "str list"

definition has_declarations :: "bridge \<Rightarrow> str \<Rightarrow> bool" where
  "has_declarations b s \<longleftrightarrow> max_source < length s \<or> sublist (lit ''<!DOCTYPE'') (br_upper b s) \<or> sublist (lit ''<!ENTITY'') (br_upper b s)"

text \<open>\<open>quoted_reply\<close>: the body of a reply and the quoted plain text.\<close>

definition quoted_text :: "xml \<Rightarrow> str option" where
  "quoted_text quote =
     (case (find_all ''content'' quote, find_all ''type'' quote) of
        ([t], [k]) \<Rightarrow>
          if xm_text k = Some (lit ''1'') \<and> xm_children t = []
          then (case xm_text t of Some s \<Rightarrow> if s = [] then None else Some s | None \<Rightarrow> None) else None
      | _ \<Rightarrow> None)"

definition quoted_reply :: "bridge \<Rightarrow> str \<Rightarrow> (str \<times> str option) option" where
  "quoted_reply b content =
     (if has_declarations b content then None
      else (case br_parse b content of
        None \<Rightarrow> None
      | Some doc \<Rightarrow>
          (case find_all ''appmsg'' doc of
             [app] \<Rightarrow>
               if xm_tag doc \<noteq> lit ''msg'' then None
               else (case (find_all ''title'' app, find_all ''type'' app, find_all ''refermsg'' app) of
                 ([title], [k], [quote]) \<Rightarrow>
                   if xm_text k \<noteq> Some (lit ''57'') then None
                   else
                     let t = (case xm_text title of Some s \<Rightarrow> s | None \<Rightarrow> [])
                     in if strip t = [] \<or> xm_children title \<noteq> [] then None else Some (t, quoted_text quote)
               | _ \<Rightarrow> None)
           | _ \<Rightarrow> None)))"

text \<open>\<open>canonical_self\<close>: the identity of the account in its own messages.\<close>

definition self_identity :: "json list \<Rightarrow> json option list result" where
  "self_identity rows =
     (if list_all (\<lambda>r. case r of JObj _ \<Rightarrow> True | _ \<Rightarrow> False) rows
      then Inr (remdups (List.map_filter (\<lambda>r. case r of
        JObj d \<Rightarrow> if dget d ''isSelf'' = Some (JBool True) then Some (dget d ''sender'') else None | _ \<Rightarrow> None) rows))
      else Inl (OtherException ''AttributeError''))"

definition identity_of_account :: "str \<Rightarrow> str \<Rightarrow> bool" where
  "identity_of_account account sender \<longleftrightarrow> account = sender \<or> prefix (sender @ lit ''_'') account"

definition canonical_self :: "json list \<Rightarrow> str \<Rightarrow> str result" where
  "canonical_self rows account = bind_result (self_identity rows) (\<lambda>ids.
     case ids of
       [Some (JStr s)] \<Rightarrow>
         if s = [] \<or> 512 < length s then Inl (ValueError ''CanonicalSelfMissing'')
         else if identity_of_account account s then Inr s else Inl (ValueError ''CanonicalSelfMismatch'')
     | [x] \<Rightarrow> Inl (ValueError ''CanonicalSelfMissing'')
     | _ \<Rightarrow> Inl (ValueError ''CanonicalSelfAmbiguous''))"

definition everyone :: "str set" where
  "everyone = {lit ''notify@all'', lit ''all'', lit ''@all''}"

definition mentioned_self :: "bridge \<Rightarrow> str \<Rightarrow> str \<Rightarrow> bool result" where
  "mentioned_self b source identity =
     (if source = [] then Inr False
      else if has_declarations b source then Inl (ValueError ''InvalidSource'')
      else (case br_parse b source of
        None \<Rightarrow> Inl (OtherException ''ParseError'')
      | Some doc \<Rightarrow>
          if xm_tag doc \<noteq> lit ''msgsource'' \<or> 1 < length (find_all ''atuserlist'' doc) then Inl (ValueError ''InvalidSource'')
          else
            let members = (case find_all ''atuserlist'' doc of
                  t # _ \<Rightarrow> map strip (split_at 44 (case xm_text t of Some s \<Rightarrow> s | None \<Rightarrow> [])) | [] \<Rightarrow> [])
            in Inr (identity \<in> set members \<and> set members \<inter> everyone = {})))"

subsection \<open>Rows\<close>

definition drop_sender :: "str \<Rightarrow> str option \<Rightarrow> str \<Rightarrow> str" where
  "drop_sender chat sender text =
     (case sender of
        Some s \<Rightarrow> if is_chatroom chat \<and> prefix (s @ lit '':'' @ [10]) text then drop (length s + 2) text else text
      | None \<Rightarrow> text)"

definition message_type :: "chat_row \<Rightarrow> int" where
  "message_type r = mr_local_type r mod 2 ^ 31"

text \<open>The text of a plain message, or of a reply with what it quotes.\<close>

definition message_body :: "bridge \<Rightarrow> str \<Rightarrow> chat_row \<Rightarrow> (str \<times> (str \<times> str option) option) result" where
  "message_body b chat r =
     (if message_type r = 1 then bind_result (br_decode b (mr_content r) (mr_compressed r)) (\<lambda>t. Inr (t, None))
      else if message_type r = 49 then bind_result (br_decode b (mr_content r) (mr_compressed r)) (\<lambda>content.
        case quoted_reply b (drop_sender chat (mr_sender r) content) of
          None \<Rightarrow> Inr ([], None)
        | Some q \<Rightarrow> Inr (fst q, Some q))
      else Inr ([], None))"

definition row_mentions :: "bridge \<Rightarrow> str \<Rightarrow> str \<Rightarrow> chat_row \<Rightarrow> bool result" where
  "row_mentions b identity chat r =
     (if is_chatroom chat
      then bind_result (br_decode b (mr_source r) (mr_source_compressed r)) (\<lambda>source. mentioned_self b source identity)
      else Inr False)"

definition json_text_option :: "str option \<Rightarrow> json" where
  "json_text_option t = (case t of Some s \<Rightarrow> JStr s | None \<Rightarrow> JNull)"

definition row_dict :: "bridge \<Rightarrow> str \<Rightarrow> str \<Rightarrow> chat_row \<Rightarrow> str \<times> (str \<times> str option) option \<Rightarrow> bool \<Rightarrow> dict" where
  "row_dict b identity chat r body mention =
     [(lit ''localId'', JInt (mr_local_id r)), (lit ''serverId'', mr_server_id r), (lit ''chatId'', JStr chat),
       (lit ''sender'', json_text_option (mr_sender r)), (lit ''type'', JInt (message_type r)),
       (lit ''content'', JStr (drop_sender chat (mr_sender r) (fst body))),
       (lit ''quoteReply'', JBool (snd body \<noteq> None)),
       (lit ''quotedText'', json_text_option (Option.bind (snd body) snd)),
       (lit ''mentionedSelf'', JBool mention), (lit ''timestamp'', JStr (br_iso b (mr_create_time r))),
       (lit ''isSelf'', (case mr_sender r of Some s \<Rightarrow> JBool (s = identity) | None \<Rightarrow> JNull))]"

definition message_dict :: "bridge \<Rightarrow> str \<Rightarrow> str \<Rightarrow> chat_row \<Rightarrow> dict result" where
  "message_dict b identity chat r =
     bind_result (message_body b chat r) (\<lambda>body.
     bind_result (row_mentions b identity chat r) (\<lambda>mention. Inr (row_dict b identity chat r body mention)))"

fun messages_dicts :: "bridge \<Rightarrow> str \<Rightarrow> str \<Rightarrow> chat_row list \<Rightarrow> dict list result" where
  "messages_dicts b identity chat [] = Inr []"
| "messages_dicts b identity chat (r # rs) =
     bind_result (message_dict b identity chat r) (\<lambda>j. bind_result (messages_dicts b identity chat rs) (\<lambda>js. Inr (j # js)))"

subsection \<open>A read cycle\<close>

text \<open>\<open>ORDER BY create_time DESC, local_id DESC LIMIT 1000\<close>.\<close>

definition row_age :: "chat_row \<Rightarrow> int \<times> int" where
  "row_age r = (mr_create_time r, mr_local_id r)"

definition newest_first :: "chat_row list \<Rightarrow> chat_row list" where
  "newest_first rows = take 1000 (rev (sort_key row_age rows))"

definition latest_ids :: "chat_row list \<Rightarrow> int list" where
  "latest_ids rows = map mr_local_id (take 100 rows)"

text \<open>The rows since the anchors, or \<open>AnchorLost\<close>.\<close>

definition up_to_known :: "int list \<Rightarrow> chat_row list \<Rightarrow> chat_row list" where
  "up_to_known ids rows =
     (if list_ex (\<lambda>r. mr_local_id r \<in> set ids) rows then rev (dropWhile (\<lambda>r. mr_local_id r \<notin> set ids) (rev rows)) else rows)"

definition rows_since :: "int list \<Rightarrow> chat_row list \<Rightarrow> string + chat_row list" where
  "rows_since ids rows =
     (if \<not> list_ex (\<lambda>r. mr_local_id r \<in> set ids) rows \<and> (ids \<noteq> [] \<or> 100 \<le> length rows) then Inl ''AnchorLost''
      else Inr (filter (\<lambda>r. mr_local_id r \<notin> set ids) (up_to_known ids rows)))"

definition unhashable :: "json \<Rightarrow> bool" where
  "unhashable j \<longleftrightarrow> (case j of JList _ \<Rightarrow> True | JObj _ \<Rightarrow> True | _ \<Rightarrow> False)"

definition anchor_ids :: "json \<Rightarrow> int list option result" where
  "anchor_ids j =
     (case j of
        JNull \<Rightarrow> Inr None
      | JList xs \<Rightarrow>
          if length xs \<le> 100 \<and> list_ex unhashable xs then Inl (OtherException ''TypeError'')
          else (case positive_ints xs of
             Some is \<Rightarrow> if length is \<le> 100 \<and> distinct is then Inr (Some is) else Inl (ValueError ''InvalidAnchors'')
           | None \<Rightarrow> Inl (ValueError ''InvalidAnchors''))
      | _ \<Rightarrow> Inl (ValueError ''InvalidAnchors''))"

fun requested :: "bridge \<Rightarrow> dict \<Rightarrow> (str \<times> int list option) list result" where
  "requested b [] = Inr []"
| "requested b ((chat, j) # rest) =
     (if chat \<notin> set (br_chats b) then Inl (ValueError ''TargetNotBound'')
      else bind_result (anchor_ids j) (\<lambda>ids. bind_result (requested b rest) (\<lambda>more. Inr ((chat, ids) # more))))"

definition target_dict :: "str \<Rightarrow> int list \<Rightarrow> string option \<Rightarrow> json list \<Rightarrow> dict" where
  "target_dict chat latest err rows =
     [(lit ''chatId'', JStr chat), (lit ''anchors'', JList (map JInt latest)),
       (lit ''error'', (case err of Some e \<Rightarrow> JStr (lit e) | None \<Rightarrow> JNull)), (lit ''rows'', JList rows)]"

text \<open>The tables of a cycle: the error of finding a chat's table, or its rows in the snapshot.\<close>

type_synonym tables = "str \<Rightarrow> string + chat_row list"

definition cycle_target_dict :: "bridge \<Rightarrow> str \<Rightarrow> tables \<Rightarrow> str \<times> int list option \<Rightarrow> dict result" where
  "cycle_target_dict b identity tables req =
     (case tables (fst req) of
        Inl err \<Rightarrow> Inr (target_dict (fst req) [] (Some err) [])
      | Inr table \<Rightarrow>
          let rows = newest_first table
          in (case snd req of
                None \<Rightarrow> Inr (target_dict (fst req) (latest_ids rows) None [])
              | Some ids \<Rightarrow>
                  (case rows_since ids rows of
                     Inl err \<Rightarrow> Inr (target_dict (fst req) (latest_ids rows) (Some err) [])
                   | Inr selected \<Rightarrow> bind_result (messages_dicts b identity (fst req) selected) (\<lambda>js.
                       Inr (target_dict (fst req) (latest_ids rows) None (map JObj js))))))"

definition logged_in_as :: "str \<Rightarrow> json \<Rightarrow> bool" where
  "logged_in_as account auth \<longleftrightarrow> (case auth of
     JObj d \<Rightarrow> dget d ''status'' = Some (JStr (lit ''logged_in'')) \<and> dget d ''loggedInUser'' = Some (JStr account) | _ \<Rightarrow> False)"

definition table_failures :: "string list" where
  "table_failures = [''MessageTableMissing'', ''MessageTableAmbiguous'']"

text \<open>What the world answers during one cycle: the account before and after, the identity found when none is known, the failure of
  finding tables other than a missing one, and the snapshot of each of three attempts.\<close>

record cycle_world =
  cw_before :: json
  cw_after :: json
  cw_self_rows :: "json list result"
  cw_tables_failure :: "exn option"
  cw_snapshots :: "tables result list"

text \<open>\<open>known\<close> is the reader's \<open>canonical_identity\<close>, which it keeps once it is found; the timings of an answer are left out.\<close>

fun take_snapshot :: "nat \<Rightarrow> tables result list \<Rightarrow> tables result" where
  "take_snapshot 0 attempts = Inl AssertionError"
| "take_snapshot (Suc n) attempts =
     (case attempts of
        Inr t # _ \<Rightarrow> Inr t
      | Inl e # rest \<Rightarrow> if e \<noteq> ValueError ''SnapshotSourceChanged'' \<or> n = 0 then Inl e else take_snapshot n rest
      | [] \<Rightarrow> Inl AssertionError)"

definition bridge_identity :: "bridge \<Rightarrow> str option \<Rightarrow> cycle_world \<Rightarrow> str result" where
  "bridge_identity b known w =
     (case known of
        Some s \<Rightarrow> Inr s
      | None \<Rightarrow> bind_result (cw_self_rows w) (\<lambda>rows. canonical_self rows (br_account b)))"

definition read_cycle :: "bridge \<Rightarrow> str option \<Rightarrow> cycle_world \<Rightarrow> json \<Rightarrow> dict result" where
  "read_cycle b known w anchors =
     (case anchors of
        JObj reqs \<Rightarrow>
          if reqs = [] \<or> 20 < length reqs then Inl (ValueError ''InvalidCycle'')
          else
            bind_result (requested b reqs) (\<lambda>rs.
            if \<not> logged_in_as (br_account b) (cw_before w) then Inl (ValueError ''AccountChanged'')
            else
              bind_result (bridge_identity b known w) (\<lambda>identity.
              case cw_tables_failure w of
                Some e \<Rightarrow> Inl e
              | None \<Rightarrow>
                  bind_result (take_snapshot 3 (cw_snapshots w)) (\<lambda>tables.
                  bind_result (map_results (cycle_target_dict b identity tables) rs) (\<lambda>targets.
                  if \<not> logged_in_as (br_account b) (cw_after w) then Inl (ValueError ''AccountChanged'')
                  else Inr [(lit ''accountVerified'', JBool True), (lit ''account'', JStr (br_account b)),
                    (lit ''targets'', JList (map JObj targets))]))))
      | _ \<Rightarrow> Inl (ValueError ''InvalidCycle''))"

text \<open>\<open>messages\<close>: one page of a chat, from one snapshot.\<close>

definition bridge_messages :: "bridge \<Rightarrow> str option \<Rightarrow> cycle_world \<Rightarrow> str \<Rightarrow> int \<Rightarrow> dict result" where
  "bridge_messages b known w chat offset =
     (if chat \<notin> set (br_chats b) \<or> offset < 0 \<or> 900 < offset then Inl (ValueError ''TargetNotBound'')
      else if \<not> logged_in_as (br_account b) (cw_before w) then Inl (ValueError ''AccountChanged'')
      else
        bind_result (bridge_identity b known w) (\<lambda>identity.
        case cw_tables_failure w of
          Some e \<Rightarrow> Inl e
        | None \<Rightarrow>
            bind_result (take_snapshot 3 (cw_snapshots w)) (\<lambda>tables.
            case tables chat of
              Inl err \<Rightarrow> Inl (ValueError err)
            | Inr table \<Rightarrow>
                bind_result (messages_dicts b identity chat (take 100 (drop (nat offset) (rev (sort_key row_age table))))) (\<lambda>rows.
                if \<not> logged_in_as (br_account b) (cw_after w) then Inl (ValueError ''AccountChanged'')
                else Inr [(lit ''rows'', JList (map JObj rows)), (lit ''accountVerified'', JBool True)]))))"

subsection \<open>What a cycle reports\<close>

text \<open>A table has each identity once.\<close>

definition table_ok :: "chat_row list \<Rightarrow> bool" where
  "table_ok rows \<longleftrightarrow> distinct (map mr_local_id rows)"

lemma row_age_inj: "table_ok rows \<Longrightarrow> inj_on row_age (set rows)"
  unfolding table_ok_def distinct_map row_age_def inj_on_def by auto

definition ages_down :: "chat_row list \<Rightarrow> bool" where
  "ages_down rows \<longleftrightarrow> sorted_wrt (\<lambda>x y. row_age y < row_age x) rows"

lemma newest_first_down: "table_ok rows \<Longrightarrow> ages_down (newest_first rows)"
proof -
  assume ok: "table_ok rows"
  have "sorted_wrt (\<lambda>x y. row_age x \<le> row_age y \<and> row_age x \<noteq> row_age y) (sort_key row_age rows)"
  proof (rule sorted_wrt_mono_rel [where P = "\<lambda>x y. row_age x \<le> row_age y \<and> row_age x \<noteq> row_age y"])
    have d: "distinct (map row_age (sort_key row_age rows))"
      using ok row_age_inj [OF ok] by (simp add: distinct_map table_ok_def)
    have "sorted_wrt (\<lambda>x y. row_age x \<le> row_age y) (sort_key row_age rows)"
      using sorted_sort_key [of row_age rows] by (simp add: sorted_map)
    moreover have "sorted_wrt (\<lambda>x y. row_age x \<noteq> row_age y) (sort_key row_age rows)"
      using d by (simp add: distinct_conv_nth sorted_wrt_iff_nth_less)
    ultimately show "sorted_wrt (\<lambda>x y. row_age x \<le> row_age y \<and> row_age x \<noteq> row_age y) (sort_key row_age rows)"
      by (auto simp: sorted_wrt_iff_nth_less)
  qed simp
  then have "sorted_wrt (\<lambda>x y. row_age y < row_age x) (rev (sort_key row_age rows))"
    unfolding sorted_wrt_rev by (rule sorted_wrt_mono_rel [rotated]) auto
  then show ?thesis
    unfolding ages_down_def newest_first_def by (rule sorted_wrt_take)
qed

lemma newest_first_set: "set (newest_first rows) \<subseteq> set rows"
  unfolding newest_first_def by (metis set_rev set_sort set_take_subset)

text \<open>A row newer than one that was read was read too.\<close>

lemma newest_first_closed:
  assumes "table_ok rows" and "r \<in> set rows" and "a \<in> set (newest_first rows)" and "row_age a \<le> row_age r"
  shows "r \<in> set (newest_first rows)"
proof -
  let ?xs = "rev (sort_key row_age rows)"
  have all: "set ?xs = set rows" by simp
  have down: "sorted_wrt (\<lambda>x y. row_age y \<le> row_age x) ?xs"
    using sorted_sort_key [of row_age rows] by (simp add: sorted_map sorted_wrt_rev)
  show ?thesis
  proof (rule ccontr)
    assume "r \<notin> set (newest_first rows)"
    with assms(2) all have "r \<in> set (drop 1000 ?xs)"
      unfolding newest_first_def by (metis Un_iff append_take_drop_id set_append)
    with down assms(3) have "row_age r \<le> row_age a"
      unfolding newest_first_def by (metis append_take_drop_id sorted_wrt_append)
    with assms(4) have "row_age r = row_age a" by simp
    with row_age_inj [OF assms(1)] assms(2,3) newest_first_set [of rows] have "r = a"
      by (auto simp: inj_on_def)
    with \<open>r \<notin> set (newest_first rows)\<close> assms(3) show False by simp
  qed
qed

lemma up_to_known_split:
  assumes "list_ex (\<lambda>r. mr_local_id r \<in> set ids) rows"
  obtains pre a post where "rows = pre @ a # post" "mr_local_id a \<in> set ids"
    "\<forall>r \<in> set post. mr_local_id r \<notin> set ids" "up_to_known ids rows = pre @ [a]"
proof -
  from assms have "\<exists>r \<in> set rows. mr_local_id r \<in> set ids" by (simp add: list_ex_iff)
  from split_list_last_prop [OF this] obtain pre a post where
    s: "rows = pre @ a # post" "mr_local_id a \<in> set ids" "\<forall>r \<in> set post. mr_local_id r \<notin> set ids" by blast
  have "dropWhile (\<lambda>r. mr_local_id r \<notin> set ids) (rev rows) = a # rev pre"
    unfolding s(1) using s(2,3) by (simp, subst dropWhile_append2) auto
  with assms have "up_to_known ids rows = pre @ [a]" by (simp add: up_to_known_def)
  with s that show thesis by blast
qed

text \<open>The selected rows: those newer than some anchor that is still there, the anchors themselves left out.\<close>

lemma rows_since_spec:
  assumes down: "ages_down rows" and sel: "rows_since ids rows = Inr sel" and "ids \<noteq> []"
  shows "set sel = {r \<in> set rows. mr_local_id r \<notin> set ids \<and> (\<exists>a \<in> set rows. mr_local_id a \<in> set ids \<and> row_age a < row_age r)}"
    and "subseq sel rows"
proof -
  from sel \<open>ids \<noteq> []\<close> have ex: "list_ex (\<lambda>r. mr_local_id r \<in> set ids) rows"
    and s: "sel = filter (\<lambda>r. mr_local_id r \<notin> set ids) (up_to_known ids rows)"
    by (auto simp: rows_since_def split: if_splits)
  from up_to_known_split [OF ex] obtain pre a post where p: "rows = pre @ a # post" "mr_local_id a \<in> set ids"
    "\<forall>r \<in> set post. mr_local_id r \<notin> set ids" "up_to_known ids rows = pre @ [a]" .
  from down p(1) have order: "\<forall>r \<in> set pre. row_age a < row_age r" "\<forall>r \<in> set post. \<forall>q \<in> set (pre @ [a]). row_age r < row_age q"
    by (auto simp: ages_down_def sorted_wrt_append)
  have last: "row_age a \<le> row_age q" if "q \<in> set rows" "mr_local_id q \<in> set ids" for q
    using that p(1,3) order(1) by (auto intro: less_imp_le)
  show "set sel = {r \<in> set rows. mr_local_id r \<notin> set ids \<and> (\<exists>a \<in> set rows. mr_local_id a \<in> set ids \<and> row_age a < row_age r)}"
  proof (intro equalityI subsetI)
    fix r assume "r \<in> set sel"
    with s p(2,4) have "r \<in> set pre" "mr_local_id r \<notin> set ids" by auto
    with p(1,2) order(1) show "r \<in> {r \<in> set rows. mr_local_id r \<notin> set ids \<and>
        (\<exists>a \<in> set rows. mr_local_id a \<in> set ids \<and> row_age a < row_age r)}" by auto
  next
    fix r assume "r \<in> {r \<in> set rows. mr_local_id r \<notin> set ids \<and>
        (\<exists>a \<in> set rows. mr_local_id a \<in> set ids \<and> row_age a < row_age r)}"
    then obtain q where r: "r \<in> set rows" "mr_local_id r \<notin> set ids" and q: "q \<in> set rows" "mr_local_id q \<in> set ids" "row_age q < row_age r"
      by blast
    from last [OF q(1,2)] q(3) have "row_age a < row_age r" by simp
    then have "r \<notin> set post" using order(2) by (auto dest: less_asym)
    with r p(1,2,4) s show "r \<in> set sel" by auto
  qed
  have "subseq (up_to_known ids rows) rows" unfolding p(4) by (rule prefix_imp_subseq) (simp add: p(1))
  then show "subseq sel rows" unfolding s by (meson subseq_filter_left subseq_order.trans)
qed

subsection \<open>Over several cycles\<close>

text \<open>A table that grows between two cycles: the hundred newest rows, which are the anchors, stay among the thousand newest, and
  every new row is newer than one of them; an empty table gets fewer than a hundred rows.\<close>

definition anchors_of :: "chat_row list \<Rightarrow> chat_row list" where
  "anchors_of rows = take 100 (newest_first rows)"

definition grows :: "chat_row list \<Rightarrow> chat_row list \<Rightarrow> bool" where
  "grows old new \<longleftrightarrow> table_ok old \<and> table_ok new \<and> set old \<subseteq> set new \<and> set (anchors_of old) \<subseteq> set (newest_first new) \<and>
     (if old = [] then length new < 100
      else \<forall>r \<in> set new - set old. \<exists>a \<in> set (anchors_of old). row_age a < row_age r)"

lemma in_table: "table_ok rows \<Longrightarrow> r \<in> set rows \<Longrightarrow> q \<in> set rows \<Longrightarrow> mr_local_id r = mr_local_id q \<Longrightarrow> r = q"
  by (auto simp: table_ok_def distinct_map inj_on_def)

lemma anchors_in: "set (anchors_of rows) \<subseteq> set rows"
  unfolding anchors_of_def using newest_first_set [of rows] by (blast dest: in_set_takeD)

lemma latest_anchors: "latest_ids (newest_first rows) = map mr_local_id (anchors_of rows)"
  by (simp add: latest_ids_def anchors_of_def)

lemma anchors_Nil: "anchors_of rows = [] \<longleftrightarrow> rows = []"
  by (simp add: anchors_of_def newest_first_def flip: length_0_conv) (auto simp: min_def)

text \<open>A row of the old table that is no anchor is older than every anchor.\<close>

lemma below_anchors:
  assumes "table_ok old" and "r \<in> set old" and "r \<notin> set (anchors_of old)" and "a \<in> set (anchors_of old)"
  shows "row_age r < row_age a"
proof (rule ccontr)
  let ?xs = "newest_first old"
  assume "\<not> row_age r < row_age a"
  then have le: "row_age a \<le> row_age r" by simp
  have "a \<in> set ?xs" using assms(4) unfolding anchors_of_def by (rule in_set_takeD)
  from newest_first_closed [OF assms(1,2) this le] have "r \<in> set ?xs" .
  with assms(3) have "r \<in> set (drop 100 ?xs)" unfolding anchors_of_def by (metis Un_iff append_take_drop_id set_append)
  with newest_first_down [OF assms(1)] assms(4) have "row_age r < row_age a"
    unfolding ages_down_def anchors_of_def by (metis append_take_drop_id sorted_wrt_append)
  with le show False by simp
qed

lemma anchor_iff:
  assumes "table_ok new" and "set old \<subseteq> set new" and "r \<in> set new"
  shows "mr_local_id r \<in> set (latest_ids (newest_first old)) \<longleftrightarrow> r \<in> set (anchors_of old)"
  using assms anchors_in [of old] in_table [OF assms(1)] by (auto simp: latest_anchors)

lemma cycle_reports_new:
  assumes g: "grows old new"
  shows "\<exists>sel. rows_since (latest_ids (newest_first old)) (newest_first new) = Inr sel \<and> set sel = set new - set old \<and>
    subseq sel (newest_first new)"
proof -
  let ?ids = "latest_ids (newest_first old)" and ?xs = "newest_first new"
  from g have ok: "table_ok old" "table_ok new" and sub: "set old \<subseteq> set new" and kept: "set (anchors_of old) \<subseteq> set ?xs"
    by (simp_all add: grows_def)
  note down = newest_first_down [OF ok(2)]
  note anchor = anchor_iff [OF ok(2) sub]
  show ?thesis
  proof (cases "old = []")
    case True
    then have ids: "?ids = []" by (simp add: latest_anchors anchors_Nil)
    from g True have "length new < 100" by (simp add: grows_def)
    then have "?xs = rev (sort_key row_age new)" "length ?xs < 100" by (simp_all add: newest_first_def)
    with ids True show ?thesis by (auto simp: rows_since_def up_to_known_def list_ex_iff)
  next
    case False
    then obtain a where a: "a \<in> set (anchors_of old)" using anchors_Nil [of old] by (cases "anchors_of old") auto
    then have ids: "?ids \<noteq> []" by (auto simp: latest_anchors)
    from a kept have "a \<in> set ?xs" "mr_local_id a \<in> set ?ids" by (auto simp: latest_anchors)
    then have ex: "list_ex (\<lambda>r. mr_local_id r \<in> set ?ids) ?xs" by (auto simp: list_ex_iff)
    then obtain sel where sel: "rows_since ?ids ?xs = Inr sel" by (auto simp: rows_since_def)
    note spec = rows_since_spec [OF down sel ids]
    have "set sel = set new - set old"
    proof (intro equalityI subsetI)
      fix r assume "r \<in> set sel"
      with spec(1) obtain q where r: "r \<in> set ?xs" "mr_local_id r \<notin> set ?ids"
        and q: "q \<in> set ?xs" "mr_local_id q \<in> set ?ids" "row_age q < row_age r" by blast
      from r(1) q(1) newest_first_set have new: "r \<in> set new" "q \<in> set new" by blast+
      with anchor r(2) q(2) have "r \<notin> set (anchors_of old)" "q \<in> set (anchors_of old)" by blast+
      with below_anchors [OF ok(1)] q(3) have "r \<notin> set old" by (auto dest: less_asym)
      with new show "r \<in> set new - set old" by simp
    next
      fix r assume r: "r \<in> set new - set old"
      from g False have "\<forall>r \<in> set new - set old. \<exists>q \<in> set (anchors_of old). row_age q < row_age r" by (simp add: grows_def)
      with r obtain q where q: "q \<in> set (anchors_of old)" "row_age q < row_age r" by blast
      with kept have xs: "q \<in> set ?xs" by blast
      from newest_first_closed [OF ok(2) _ xs] q(2) r have "r \<in> set ?xs" by auto
      moreover have "mr_local_id r \<notin> set ?ids" using anchor [of r] r anchors_in [of old] by auto
      moreover have "mr_local_id q \<in> set ?ids" using q(1) by (simp add: latest_anchors)
      ultimately show "r \<in> set sel" using spec(1) xs q(2) by blast
    qed
    with sel spec(2) show ?thesis by blast
  qed
qed

text \<open>The anchors of a cycle are the latest rows it saw, whether or not they were reported.\<close>

fun cycles :: "int list \<Rightarrow> chat_row list list \<Rightarrow> chat_row list list option" where
  "cycles ids [] = Some []"
| "cycles ids (table # rest) =
     (case rows_since ids (newest_first table) of
        Inl _ \<Rightarrow> None
      | Inr sel \<Rightarrow> map_option ((#) sel) (cycles (latest_ids (newest_first table)) rest))"

fun growing :: "chat_row list list \<Rightarrow> bool" where
  "growing (old # new # rest) \<longleftrightarrow> grows old new \<and> growing (new # rest)"
| "growing _ = True"

lemma growing_mono: "growing (t # ts) \<Longrightarrow> set t \<subseteq> set (last (t # ts))"
proof (induction ts arbitrary: t)
  case (Cons new ts)
  then have "set t \<subseteq> set new" "set new \<subseteq> set (last (new # ts))" by (auto simp: grows_def)
  then show ?case by simp
qed simp

lemma distinct_reported: "table_ok new \<Longrightarrow> subseq sel (newest_first new) \<Longrightarrow> distinct sel"
  by (rule subseq_distinct) (auto simp: newest_first_def table_ok_def distinct_map)

text \<open>C33. The bridge reports every message exactly once. Let a chat's table grow from read cycle to read cycle, with the anchors
  of each cycle (its hundred newest rows) given to the next: rows never change, the anchors stay among the thousand newest rows and
  every new row is newer than one of them. Then no cycle loses its anchors, and the rows reported are, in all, exactly the rows
  that came after the first table, each of them once.\<close>

theorem bridge_reports_once:
  assumes "growing (first # tables)"
  shows "\<exists>sels. cycles (latest_ids (newest_first first)) tables = Some sels \<and> length sels = length tables \<and>
    distinct (concat sels) \<and> set (concat sels) = set (last (first # tables)) - set first"
  using assms
proof (induction tables arbitrary: first)
  case Nil
  then show ?case by simp
next
  case (Cons new rest)
  from Cons.prems have g: "grows first new" and more: "growing (new # rest)" by auto
  from cycle_reports_new [OF g] obtain sel where
    sel: "rows_since (latest_ids (newest_first first)) (newest_first new) = Inr sel" "set sel = set new - set first"
      "subseq sel (newest_first new)" by blast
  from Cons.IH [OF more] obtain sels where
    sels: "cycles (latest_ids (newest_first new)) rest = Some sels" "length sels = length rest" "distinct (concat sels)"
      "set (concat sels) = set (last (new # rest)) - set new" by blast
  have "distinct sel" using g sel(3) distinct_reported by (auto simp: grows_def)
  moreover have "set first \<subseteq> set new" using g by (simp add: grows_def)
  ultimately show ?case
    using sel(1,2) sels growing_mono [OF more] by (intro exI [of _ "sel # sels"]) auto
qed

end
