(* ===== verification/Bridge_Protocol.thy ===== *)
theory Bridge_Protocol
  imports Message_Bridge
begin

text \<open>
  The bridge and the connector together: every answer of a read cycle is one that the multiplexer accepts.
\<close>

subsection \<open>The bridge and the connector agree on the protocol\<close>

text \<open>What the connector accepts as the answer for a conversation.\<close>

definition row_accepted :: "str \<Rightarrow> dict \<Rightarrow> bool" where
  "row_accepted chat d \<longleftrightarrow> dget d ''chatId'' = Some (JStr chat) \<and> valid_local_id d \<and>
     (is_chatroom chat \<longrightarrow> (\<exists>m. dget d ''mentionedSelf'' = Some (JBool m)))"

definition rows_accepted :: "str \<Rightarrow> dict list \<Rightarrow> bool" where
  "rows_accepted chat ds \<longleftrightarrow> length ds \<le> 1000 \<and> (\<forall>d \<in> set ds. row_accepted chat d) \<and> distinct (map local_id ds)"

definition target_accepted :: "bool \<Rightarrow> str \<Rightarrow> dict \<Rightarrow> bool" where
  "target_accepted from_scratch chat td \<longleftrightarrow> dget td ''chatId'' = Some (JStr chat) \<and>
     ((\<exists>e \<in> set target_errors. dget td ''error'' = Some (JStr (lit e))) \<or>
      dget td ''error'' = Some JNull \<and>
      (\<exists>is ds. dget td ''anchors'' = Some (JList (map JInt is)) \<and> length is \<le> 100 \<and> distinct is \<and> (\<forall>i \<in> set is. 0 < i) \<and>
        dget td ''rows'' = Some (JList (map JObj ds)) \<and> rows_accepted chat ds \<and> (from_scratch \<longrightarrow> ds = [])))"

definition good_table :: "chat_row list \<Rightarrow> bool" where
  "good_table rows \<longleftrightarrow> table_ok rows \<and> (\<forall>r \<in> set rows. 0 < mr_local_id r)"

lemma messages_dicts_eq: "messages_dicts b identity chat rs = map_results (message_dict b identity chat) rs"
  by (induction rs) simp_all

lemma message_dict_ok:
  assumes "message_dict b identity chat r = Inr d"
  shows "dget d ''chatId'' = Some (JStr chat)" "dget d ''localId'' = Some (JInt (mr_local_id r))"
    "\<exists>m. dget d ''mentionedSelf'' = Some (JBool m)"
  using assms by (auto simp: message_dict_def bind_result_Inr_iff row_dict_def)

lemma message_dicts_ok:
  assumes "list_all2 (\<lambda>r d. message_dict b identity chat r = Inr d) rs ds" and "\<forall>r \<in> set rs. 0 < mr_local_id r"
  shows "map local_id ds = map mr_local_id rs" "\<forall>d \<in> set ds. row_accepted chat d"
proof -
  from assms show "map local_id ds = map mr_local_id rs"
  proof induction
    case (Cons r rs d ds)
    from message_dict_ok(2) [OF Cons.hyps(1)] Cons show ?case by (simp add: local_id_def)
  qed simp
  show "\<forall>d \<in> set ds. row_accepted chat d"
    using assms
  proof induction
    case (Cons r rs d ds)
    from message_dict_ok [OF Cons.hyps(1)] Cons show ?case by (auto simp: row_accepted_def valid_local_id_def)
  qed simp
qed

lemma rows_since_subseq: "rows_since ids rows = Inr sel \<Longrightarrow> subseq sel rows"
proof -
  assume sel: "rows_since ids rows = Inr sel"
  have "rev (dropWhile (\<lambda>r. mr_local_id r \<notin> set ids) (rev rows)) = take (length rows - length (takeWhile (\<lambda>r. mr_local_id r \<notin> set ids) (rev rows))) rows"
    by (simp add: dropWhile_eq_drop rev_drop)
  then have "subseq (up_to_known ids rows) rows"
    unfolding up_to_known_def by (auto intro: prefix_imp_subseq take_is_prefix)
  with sel show ?thesis
    by (auto simp: rows_since_def split: if_splits intro: subseq_order.trans [OF subseq_filter_left])
qed

lemma newest_first_good: "good_table rows \<Longrightarrow> good_table (newest_first rows) \<and> length (newest_first rows) \<le> 1000"
  using newest_first_set [of rows]
  by (auto simp: good_table_def table_ok_def newest_first_def distinct_map take_map [symmetric] intro!: distinct_take inj_on_subset)

lemma bridge_target_accepted:
  assumes "cycle_target_dict b identity tables (chat, ids) = Inr td"
    and "case tables chat of Inl e \<Rightarrow> e \<in> set table_failures | Inr rows \<Rightarrow> good_table rows"
    and "from_scratch \<Longrightarrow> ids = None"
  shows "target_accepted from_scratch chat td"
proof (cases "tables chat")
  case (Inl e)
  with assms show ?thesis
    by (auto simp: cycle_target_dict_def target_dict_def target_accepted_def table_failures_def target_errors_def)
next
  case (Inr table)
  let ?rows = "newest_first table"
  from assms(2) Inr newest_first_good have good: "good_table ?rows" "length ?rows \<le> 1000" by auto
  have latest: "length (latest_ids ?rows) \<le> 100" "distinct (latest_ids ?rows)" "\<forall>i \<in> set (latest_ids ?rows). 0 < i"
    using good(1) in_set_takeD [of _ 100 ?rows]
    by (auto simp: latest_ids_def good_table_def table_ok_def take_map [symmetric]) (auto simp: latest_ids_def take_map)
  have content: "target_accepted from_scratch chat (target_dict chat (latest_ids ?rows) None (map JObj ds))"
    if "rows_accepted chat ds" "from_scratch \<longrightarrow> ds = []" for ds
    using latest that by (auto simp: target_accepted_def target_dict_def)
  have empty: "rows_accepted chat []" by (simp add: rows_accepted_def)
  show ?thesis
  proof (cases ids)
    case None
    with assms(1) Inr content [OF empty] show ?thesis by (simp add: cycle_target_dict_def Let_def)
  next
    case (Some known)
    with assms(3) have scratch: "\<not> from_scratch" by auto
    show ?thesis
    proof (cases "rows_since known ?rows")
      case (Inl e)
      then have "e = ''AnchorLost''" by (auto simp: rows_since_def split: if_splits)
      with Inl Some Inr assms(1) show ?thesis
        by (auto simp: cycle_target_dict_def Let_def target_dict_def target_accepted_def target_errors_def)
    next
      case (Inr sel)
      with Some \<open>tables chat = Inr table\<close> assms(1) obtain ds where
        ds: "list_all2 (\<lambda>r d. message_dict b identity chat r = Inr d) sel ds"
        and td: "td = target_dict chat (latest_ids ?rows) None (map JObj ds)"
        by (auto simp: cycle_target_dict_def Let_def bind_result_Inr_iff messages_dicts_eq map_results_iff)
      from rows_since_subseq [OF Inr] have sub: "subseq sel ?rows" .
      have pos: "\<forall>r \<in> set sel. 0 < mr_local_id r"
        using good(1) list_emb_set [OF sub] by (fastforce simp: good_table_def)
      have "distinct (map mr_local_id sel)"
        by (rule subseq_distinct [OF subseq_map [OF sub]]) (use good(1) in \<open>simp add: good_table_def table_ok_def\<close>)
      moreover have "length sel \<le> 1000" using list_emb_length [OF sub] good(2) by simp
      ultimately have "rows_accepted chat ds"
        using message_dicts_ok [OF ds pos] list_all2_lengthD [OF ds] by (simp add: rows_accepted_def)
      with content scratch td show ?thesis by simp
    qed
  qed
qed


subsection \<open>The multiplexer on an accepted answer\<close>

definition mux_shape :: "mux_state \<Rightarrow> str \<Rightarrow> (binding \<times> target) option" where
  "mux_shape s ref = map_option (\<lambda>c. (ch_binding c, ch_target c)) (map_of (mx_children s) ref)"

text \<open>A computation that raises nothing but a pause, and keeps the bindings while it runs.\<close>

definition sound :: "(str \<Rightarrow> (binding \<times> target) option) \<Rightarrow> 'a mux \<Rightarrow> bool" where
  "sound sh c \<longleftrightarrow> (\<forall>s. mux_shape s = sh \<longrightarrow>
     (case c s of (Inl e, t) \<Rightarrow> is_lab_paused e \<and> mux_shape t = sh | (Inr a, t) \<Rightarrow> mux_shape t = sh))"

lemma soundD: "sound sh c \<Longrightarrow> mux_shape s = sh \<Longrightarrow> c s = (r, t) \<Longrightarrow> mux_shape t = sh \<and> (\<forall>e. r = Inl e \<longrightarrow> is_lab_paused e)"
  by (cases r) (fastforce simp: sound_def)+

lemma soundI:
  assumes "\<And>s r t. mux_shape s = sh \<Longrightarrow> c s = (r, t) \<Longrightarrow> mux_shape t = sh \<and> (\<forall>e. r = Inl e \<longrightarrow> is_lab_paused e)"
  shows "sound sh c"
  unfolding sound_def using assms by (auto split: prod.split sum.split)

lemma sound_return: "sound sh (act_return a)"
  by (simp add: sound_def act_return_def)

lemma sound_bind:
  assumes "sound sh c" and "\<And>a. sound sh (f a)"
  shows "sound sh (act_bind c f)"
proof (rule soundI)
  fix s r t assume s: "mux_shape s = sh" and run: "act_bind c f s = (r, t)"
  from act_bind_cases [OF run] show "mux_shape t = sh \<and> (\<forall>e. r = Inl e \<longrightarrow> is_lab_paused e)"
    using soundD [OF assms(1) s] soundD [OF assms(2)] by blast
qed

lemma sound_writes: "sound sh (mux_pause code)" "sound sh (target_failure ref code)"
  by (auto simp: sound_def mux_pause_def target_failure_def write_pauses_def mux_shape_def [abs_def] split: if_splits)

lemma sound_catch:
  assumes "sound sh c" and "\<And>code. sound sh (h code)"
  shows "sound sh (catch_lab c h)"
proof (rule soundI)
  fix s r t assume s: "mux_shape s = sh" and run: "catch_lab c h s = (r, t)"
  obtain q u where c: "c s = (q, u)" by force
  from soundD [OF assms(1) s c] have u: "mux_shape u = sh" "\<forall>e. q = Inl e \<longrightarrow> is_lab_paused e" by auto
  show "mux_shape t = sh \<and> (\<forall>e. r = Inl e \<longrightarrow> is_lab_paused e)"
  proof (cases "\<exists>code. q = Inl (LabPaused code)")
    case True
    with run c obtain code where "h code u = (r, t)" by (auto simp: catch_lab_def)
    from soundD [OF assms(2) u(1) this] show ?thesis .
  next
    case False
    with run c u show ?thesis by (auto simp: catch_lab_def split: sum.splits exn.splits)
  qed
qed

definition only_pauses :: "'a lab \<Rightarrow> bool" where
  "only_pauses c \<longleftrightarrow> (\<forall>s e. fst (c s) = Inl e \<longrightarrow> is_lab_paused e)"

lemma sound_on_child:
  assumes "\<And>c. only_pauses (f c)" and "sh ref \<noteq> None"
  shows "sound sh (on_child ref f)"
proof (rule soundI)
  fix s r t assume s: "mux_shape s = sh" and run: "on_child ref f s = (r, t)"
  from assms(2) s obtain c where c: "map_of (mx_children s) ref = Some c" by (auto simp: mux_shape_def)
  obtain q u where f: "f c (enter_child s c) = (q, u)" by force
  from run c f have t: "t = s\<lparr>tr_log := tr_log u, mx_children := AList.update ref (leave_child u c) (mx_children s)\<rparr>" and r: "r = q"
    by (simp_all add: on_child_def)
  have "mux_shape t = mux_shape s"
    by (auto simp: t mux_shape_def fun_eq_iff update_conv' leave_child_def c)
  moreover have "\<forall>e. r = Inl e \<longrightarrow> is_lab_paused e"
    using assms(1) f unfolding only_pauses_def r by (metis fst_conv)
  ultimately show "mux_shape t = sh \<and> (\<forall>e. r = Inl e \<longrightarrow> is_lab_paused e)" using s by simp
qed

named_theorems pausing \<open>computations that raise nothing but a pause\<close>

lemma pausing_basic [pausing]: "only_pauses (act_return a)" "only_pauses (pause code)"
  by (simp_all add: only_pauses_def act_return_def pause_def)

lemma pausing_if [pausing]: "(b \<Longrightarrow> only_pauses c) \<Longrightarrow> (\<not> b \<Longrightarrow> only_pauses d) \<Longrightarrow> only_pauses (if b then c else d)"
  by simp

lemma pausing_cases [pausing]:
  "only_pauses a \<Longrightarrow> (\<And>x. only_pauses (f x)) \<Longrightarrow> only_pauses (case opt of None \<Rightarrow> a | Some x \<Rightarrow> f x)"
  "only_pauses j0 \<Longrightarrow> (\<And>b. only_pauses (j1 b)) \<Longrightarrow> (\<And>i. only_pauses (j2 i)) \<Longrightarrow> (\<And>q. only_pauses (j3 q)) \<Longrightarrow>
    (\<And>s. only_pauses (j4 s)) \<Longrightarrow> (\<And>xs. only_pauses (j5 xs)) \<Longrightarrow> (\<And>d. only_pauses (j6 d)) \<Longrightarrow>
    only_pauses (case j of JNull \<Rightarrow> j0 | JBool b \<Rightarrow> j1 b | JInt i \<Rightarrow> j2 i | JFloat q \<Rightarrow> j3 q | JStr s \<Rightarrow> j4 s | JList xs \<Rightarrow> j5 xs | JObj d \<Rightarrow> j6 d)"
  "only_pauses yes \<Longrightarrow> only_pauses no \<Longrightarrow> only_pauses (case b of True \<Rightarrow> yes | False \<Rightarrow> no)"
  by (simp_all split: option.split json.split bool.split)

lemma pausing_bind [pausing]: "only_pauses c \<Longrightarrow> (\<And>a. only_pauses (f a)) \<Longrightarrow> only_pauses (act_bind c f)"
  unfolding only_pauses_def act_bind_def by (auto split: prod.splits sum.splits) (metis fst_conv)+

lemma pausing_validate [pausing]: "only_pauses (validate_page v j)"
  unfolding validate_page_def by (intro pausing)

lemma pausing_chunks: "only_pauses (validate_chunks v ps)"
  by (induction ps) (auto intro!: pausing)

lemma pausing_conv_event: "only_pauses (conv_event v tg d)"
  unfolding conv_event_def Let_def by (intro pausing)

lemma pausing_event: "only_pauses (mt_event (child_methods v c) row)"
  by (simp add: child_methods_def wechat_methods_def conv_methods_def pausing_conv_event)

lemma sound_cycle_rows:
  assumes "sh ref \<noteq> None" and "\<forall>d \<in> set rows. g \<longrightarrow> (\<exists>m. dget d ''mentionedSelf'' = Some (JBool m))"
  shows "sound sh (cycle_rows v ref g rows es)"
  using assms(2)
proof (induction rows arbitrary: es)
  case Nil
  then show ?case by (simp add: sound_return)
next
  case (Cons row rows)
  let ?c = "catch_lab
          (act_bind (on_child ref (\<lambda>c. mt_event (child_methods v c) row)) (\<lambda>e. act_return (Inr e)))
          (\<lambda>code. act_bind (target_failure ref code) (\<lambda>_. act_return (Inl ())))"
  have "sound sh ?c"
    by (intro sound_catch sound_bind sound_on_child pausing_event sound_return sound_writes assms(1))
  moreover have "sound sh (case out of Inl _ \<Rightarrow> act_return (es, False) | Inr None \<Rightarrow> cycle_rows v ref g rows es
         | Inr (Some e) \<Rightarrow> cycle_rows v ref g rows (es @ [e]))" for out :: "unit + inbound_event option"
    using Cons by (auto split: sum.split option.split intro: sound_return)
  ultimately have "sound sh (act_bind ?c (\<lambda>out. case out of Inl _ \<Rightarrow> act_return (es, False)
         | Inr None \<Rightarrow> cycle_rows v ref g rows es | Inr (Some e) \<Rightarrow> cycle_rows v ref g rows (es @ [e])))"
    by (rule sound_bind)
  moreover have shown: "\<not> (g \<and> (case dget row ''mentionedSelf'' of Some (JBool _) \<Rightarrow> False | _ \<Rightarrow> True))"
    using Cons.prems by auto
  ultimately show ?case by (simp only: cycle_rows.simps shown if_False)
qed


lemma concat_chunks: "0 < n \<Longrightarrow> concat (chunks n xs) = xs"
  by (induction n xs rule: chunks.induct) (subst chunks.simps, auto)

lemma chunks_length: "p \<in> set (chunks n xs) \<Longrightarrow> length p \<le> n \<and> subseq p xs"
proof (induction n xs rule: chunks.induct)
  case (1 n xs)
  then show ?case
    by (subst (asm) (2) chunks.simps)
      (auto split: if_splits intro: prefix_imp_subseq take_is_prefix subseq_order.trans [OF _ suffix_imp_subseq] suffix_drop)
qed

lemma rows_fault_None: "(\<forall>d \<in> set ds. dget d ''chatId'' = Some (JStr chat) \<and> valid_local_id d) \<Longrightarrow> rows_fault chat (map JObj ds) = None"
  by (induction ds) auto

lemma row_dicts_map: "row_dicts (map JObj ds) = ds"
  by (induction ds) (simp_all add: row_dicts_def List.map_filter_def)

lemma row_dicts_append: "row_dicts (xs @ ys) = row_dicts xs @ row_dicts ys"
  by (simp add: row_dicts_def List.map_filter_def)

lemma validate_page_ok:
  assumes "\<forall>d \<in> set ds. dget d ''chatId'' = Some (JStr (bn_chat_id (lv_binding v))) \<and> valid_local_id d"
    and "distinct (map local_id ds)" and "length ds \<le> 100"
  shows "validate_page v (JList (map JObj ds)) s = (Inr ds, s)"
  using assms by (simp add: validate_page_def rows_fault_None row_dicts_map act_return_def)

lemma validate_chunks_ok:
  assumes "\<forall>p \<in> set ps. \<exists>ds. p = map JObj ds \<and> length ds \<le> 100 \<and> distinct (map local_id ds) \<and>
     (\<forall>d \<in> set ds. dget d ''chatId'' = Some (JStr (bn_chat_id (lv_binding v))) \<and> valid_local_id d)"
  shows "validate_chunks v ps s = (Inr (row_dicts (concat ps)), s)"
  using assms
proof (induction ps)
  case Nil
  then show ?case by (simp add: act_return_def row_dicts_def List.map_filter_def)
next
  case (Cons p ps)
  then obtain ds where ds: "p = map JObj ds" "length ds \<le> 100" "distinct (map local_id ds)"
    "\<forall>d \<in> set ds. dget d ''chatId'' = Some (JStr (bn_chat_id (lv_binding v))) \<and> valid_local_id d" by auto
  from Cons have "validate_chunks v ps s = (Inr (row_dicts (concat ps)), s)" by simp
  with validate_page_ok [OF ds(4,3,2)] ds(1) show ?case
    by (simp add: act_bind_def act_return_def row_dicts_map row_dicts_append)
qed

lemma validated_rows:
  assumes "rows_accepted (bn_chat_id (lv_binding v)) ds"
  shows "validate_chunks v (chunks 100 (map JObj ds)) s = (Inr ds, s)"
proof -
  have "\<exists>qs. p = map JObj qs \<and> length qs \<le> 100 \<and> distinct (map local_id qs) \<and>
     (\<forall>d \<in> set qs. dget d ''chatId'' = Some (JStr (bn_chat_id (lv_binding v))) \<and> valid_local_id d)"
    if "p \<in> set (chunks 100 (map JObj ds))" for p
  proof -
    from chunks_length [OF that] have p: "length p \<le> 100" "subseq p (map JObj ds)" by auto
    from p(2) obtain qs where qs: "p = map JObj qs" "subseq qs ds"
      by (metis subseq_conv_nths nths_map)
    have "distinct (map local_id qs)"
      by (rule subseq_distinct [OF subseq_map [OF qs(2)]]) (use assms in \<open>simp add: rows_accepted_def\<close>)
    moreover have "\<forall>d \<in> set qs. row_accepted (bn_chat_id (lv_binding v)) d"
      using assms list_emb_set [OF qs(2)] by (fastforce simp: rows_accepted_def)
    ultimately show ?thesis using p(1) qs(1) by (auto simp: row_accepted_def)
  qed
  then have "validate_chunks v (chunks 100 (map JObj ds)) s = (Inr (row_dicts (concat (chunks 100 (map JObj ds)))), s)"
    by (intro validate_chunks_ok) blast
  then show ?thesis by (simp add: concat_chunks row_dicts_map)
qed

lemma positive_ints_map: "\<forall>i \<in> set ns. 0 < i \<Longrightarrow> positive_ints (map JInt ns) = Some ns"
  by (induction ns) (simp_all add: positive_ints_def)

lemma known_error_target: "e \<in> set target_errors \<Longrightarrow> known_error (JStr (lit e)) = Some e"
  by (auto simp: known_error_def target_errors_def)

text \<open>Reading one accepted conversation raises nothing but a pause.\<close>

lemma sound_cycle_target:
  assumes ok: "target_accepted f (bn_chat_id (ch_binding c)) d" and sh: "sh ref = Some (ch_binding c, ch_target c)"
    and kind: "tg_is_group (ch_target c) = is_chatroom (bn_chat_id (ch_binding c))"
  shows "sound sh (cycle_target v f ref c d es)"
proof (cases "\<exists>e \<in> set target_errors. dget d ''error'' = Some (JStr (lit e))")
  case True
  then show ?thesis
    by (auto simp: cycle_target_def known_error_target intro!: sound_bind sound_writes sound_return)
next
  case False
  with ok obtain anchors ds where d: "dget d ''error'' = Some JNull" "dget d ''anchors'' = Some (JList (map JInt anchors))"
    "length anchors \<le> 100" "distinct anchors" "\<forall>i \<in> set anchors. 0 < i" "dget d ''rows'' = Some (JList (map JObj ds))"
    "rows_accepted (bn_chat_id (ch_binding c)) ds" "f \<longrightarrow> ds = []"
    by (auto simp: target_accepted_def)
  have content: "target_content d = Some (anchors, map JObj ds)"
    using d by (simp add: target_content_def positive_ints_map rows_accepted_def)
  let ?v = "on_child ref (\<lambda>c. validate_chunks (child_env v c) (chunks 100 (map JObj ds)))"
  let ?rest = "act_bind (cycle_rows v ref (tg_is_group (ch_target c)) (rev ds) es) (\<lambda>(es1, complete).
                act_return (es1, if complete then Some (ref, set anchors) else None))"
  have rest: "sound sh ?rest"
    using d(7) kind sh
    by (intro sound_bind sound_cycle_rows) (auto simp: rows_accepted_def row_accepted_def intro: sound_return)
  have eq: "cycle_target v f ref c d es = act_bind ?v (\<lambda>ds'.
      if \<not> distinct (map local_id ds') \<or> f \<and> map JObj ds \<noteq> [] then invalid
      else act_bind (cycle_rows v ref (tg_is_group (ch_target c)) (rev ds') es) (\<lambda>(es1, complete).
                act_return (es1, if complete then Some (ref, set anchors) else None)))"
    using d(1) content by (simp add: cycle_target_def known_error_def)
  show ?thesis
  proof (rule soundI)
    fix s r t assume s: "mux_shape s = sh" and run: "cycle_target v f ref c d es s = (r, t)"
    from s sh obtain c' where c': "map_of (mx_children s) ref = Some c'" "ch_binding c' = ch_binding c"
      by (auto simp: mux_shape_def)
    have "rows_accepted (bn_chat_id (lv_binding (child_env v c'))) ds" using d(7) c'(2) by (simp add: child_env_def)
    from validated_rows [OF this] c'(1)
    have "?v s = (Inr ds, s\<lparr>tr_log := tr_log s, mx_children := AList.update ref (leave_child (enter_child s c') c') (mx_children s)\<rparr>)"
      by (simp add: on_child_def) (simp add: enter_child_def)
    moreover have "sound sh ?v" by (rule sound_on_child [OF pausing_chunks]) (simp add: sh)
    ultimately obtain u where u: "?v s = (Inr ds, u)" "mux_shape u = sh" using soundD [OF _ s] by blast
    with run eq d(7,8) have "?rest u = (r, t)" by (simp add: act_bind_def [where m = ?v] rows_accepted_def split: if_splits)
    from soundD [OF rest u(2) this] show "mux_shape t = sh \<and> (\<forall>e. r = Inl e \<longrightarrow> is_lab_paused e)" .
  qed
qed


text \<open>The requests of a cycle, as the connector sends them and the bridge reads them.\<close>

definition ids_json :: "int list option \<Rightarrow> json" where
  "ids_json ids = (case ids of None \<Rightarrow> JNull | Some ns \<Rightarrow> JList (map JInt ns))"

definition anchors_json :: "(str \<times> int list option) list \<Rightarrow> json" where
  "anchors_json reqs = JObj (map (\<lambda>(chat, ids). (chat, ids_json ids)) reqs)"

lemma requested_sound: "requested b (map (\<lambda>(chat, ids). (chat, ids_json ids)) reqs) = Inr rs \<Longrightarrow> rs = reqs"
proof (induction reqs arbitrary: rs)
  case (Cons p reqs)
  obtain chat ids where p: "p = (chat, ids)" by force
  from Cons.prems p obtain known more where known: "anchor_ids (ids_json ids) = Inr known"
    "requested b (map (\<lambda>(chat, ids). (chat, ids_json ids)) reqs) = Inr more" "rs = (chat, known) # more"
    by (auto simp: bind_result_Inr_iff split: if_splits)
  have "known = ids"
  proof (cases ids)
    case (Some ns)
    from known(1) Some obtain ms where "positive_ints (map JInt ns) = Some ms" "known = Some ms"
      by (auto simp: anchor_ids_def ids_json_def split: option.splits if_splits)
    moreover have "positive_ints (map JInt ns) = Some ms \<Longrightarrow> ms = ns" for ns ms
      by (induction ns arbitrary: ms) (auto simp: positive_ints_def split: if_splits option.splits)
    ultimately show ?thesis using Some by simp
  qed (use known(1) in \<open>simp add: anchor_ids_def ids_json_def\<close>)
  with Cons.IH [OF known(2)] known(3) p show ?case by simp
qed simp

definition world_ok :: "cycle_world \<Rightarrow> bool" where
  "world_ok w \<longleftrightarrow> (\<forall>tables chat. Inr tables \<in> set (cw_snapshots w) \<longrightarrow>
     (case tables chat of Inl e \<Rightarrow> e \<in> set table_failures | Inr rows \<Rightarrow> good_table rows))"

lemma take_snapshot_in: "take_snapshot n xs = Inr t \<Longrightarrow> Inr t \<in> set xs"
  by (induction n xs rule: take_snapshot.induct) (auto split: if_splits sum.splits list.splits)

text \<open>What a successful read cycle answers.\<close>

lemma read_cycle_answer:
  assumes "read_cycle b known w (anchors_json reqs) = Inr d" and "world_ok w" and "from_scratch \<Longrightarrow> \<forall>p \<in> set reqs. snd p = None"
  obtains tds where "d = [(lit ''accountVerified'', JBool True), (lit ''account'', JStr (br_account b)),
      (lit ''targets'', JList (map JObj tds))]"
    and "list_all2 (\<lambda>p td. target_accepted from_scratch (fst p) td) reqs tds"
proof -
  from assms(1) obtain rs identity tables tds where r: "requested b (map (\<lambda>(chat, ids). (chat, ids_json ids)) reqs) = Inr rs"
    "take_snapshot 3 (cw_snapshots w) = Inr tables" "map_results (cycle_target_dict b identity tables) rs = Inr tds"
    "d = [(lit ''accountVerified'', JBool True), (lit ''account'', JStr (br_account b)), (lit ''targets'', JList (map JObj tds))]"
    by (auto simp: read_cycle_def anchors_json_def bind_result_Inr_iff split: if_splits option.splits)
  have ok: "case tables chat of Inl e \<Rightarrow> e \<in> set table_failures | Inr rows \<Rightarrow> good_table rows" for chat
    using assms(2) take_snapshot_in [OF r(2)] by (auto simp: world_ok_def)
  from r(3) requested_sound [OF r(1)] have "list_all2 (\<lambda>p td. cycle_target_dict b identity tables p = Inr td) reqs tds"
    by (simp add: map_results_iff)
  then have "list_all2 (\<lambda>p td. target_accepted from_scratch (fst p) td) reqs tds"
  proof (rule list.rel_mono_strong)
    fix p td assume p: "p \<in> set reqs" "cycle_target_dict b identity tables p = Inr td"
    show "target_accepted from_scratch (fst p) td"
      using bridge_target_accepted [of b identity tables "fst p" "snd p" td from_scratch] p ok assms(3) by auto
  qed
  with r(4) that show thesis by blast
qed


lemma sound_cycle_targets:
  assumes "\<forall>ref \<in> set refs. \<exists>bn tg d. sh ref = Some (bn, tg) \<and> tg_is_group tg = is_chatroom (bn_chat_id bn) \<and>
    map_of by_chat (bn_chat_id bn) = Some d \<and> target_accepted f (bn_chat_id bn) d"
  shows "sound sh (cycle_targets v f by_chat refs es staged)"
  using assms
proof (induction refs arbitrary: es staged)
  case Nil
  then show ?case by (simp add: sound_return)
next
  case (Cons ref refs)
  from Cons.prems obtain bn tg d where sh: "sh ref = Some (bn, tg)" "tg_is_group tg = is_chatroom (bn_chat_id bn)"
    and d: "map_of by_chat (bn_chat_id bn) = Some d" "target_accepted f (bn_chat_id bn) d" by auto
  show ?case
  proof (rule soundI)
    fix s r t assume s: "mux_shape s = sh" and run: "cycle_targets v f by_chat (ref # refs) es staged s = (r, t)"
    from s sh(1) obtain c where c: "map_of (mx_children s) ref = Some c" "ch_binding c = bn" "ch_target c = tg"
      by (auto simp: mux_shape_def)
    have one: "sound sh (cycle_target v f ref c d es)"
      using d(2) sh c by (intro sound_cycle_target) simp_all
    have "sound sh (act_bind (cycle_target v f ref c d es) (\<lambda>(es1, new).
              cycle_targets v f by_chat refs es1 (case new of None \<Rightarrow> staged | Some p \<Rightarrow> staged @ [p])))"
      using Cons by (intro sound_bind [OF one]) auto
    from soundD [OF this s] run c d(1) show "mux_shape t = sh \<and> (\<forall>e. r = Inl e \<longrightarrow> is_lab_paused e)" by auto
  qed
qed

lemma stage_anchor_shape: "mux_shape (stage_anchor p s) = mux_shape s"
  by (auto simp: stage_anchor_def mux_shape_def fun_eq_iff update_conv' split: option.split)

lemma sound_staging: "sound sh (\<lambda>t. (Inr es, fold stage_anchor staged t))"
proof -
  have "mux_shape (fold stage_anchor staged t) = mux_shape t" for t
    by (induction staged arbitrary: t) (simp_all add: stage_anchor_shape)
  then show ?thesis by (simp add: sound_def)
qed

lemma target_rows_accepted:
  assumes "list_all2 (\<lambda>p td. target_accepted f (fst p) td) reqs tds"
  shows "target_rows (map JObj tds) = Some (zip (map fst reqs) tds)"
  using assms by induction (auto simp: target_rows_def target_accepted_def)

lemma zip_accepted:
  assumes "list_all2 (\<lambda>p td. target_accepted f (fst p) td) reqs tds" and "distinct (map fst reqs)" and "(chat, ids) \<in> set reqs"
  shows "\<exists>d. map_of (zip (map fst reqs) tds) chat = Some d \<and> target_accepted f chat d"
  using assms by induction (auto simp: rev_image_eqI)



subsection \<open>Witnesses\<close>

definition bridge_row :: "int \<Rightarrow> chat_row" where
  "bridge_row i = \<lparr>mr_local_id = i, mr_server_id = JNull, mr_local_type = 1, mr_create_time = 5, mr_content = [], mr_compressed = 0,
     mr_source = [], mr_source_compressed = 0, mr_sender = Some (lit ''you'')\<rparr>"

text \<open>Three cycles over a chat with two messages, then three, then five.\<close>

lemma small_tables: "length rows \<le> 100 \<Longrightarrow> set (newest_first rows) = set rows \<and> set (anchors_of rows) = set rows"
  by (simp add: newest_first_def anchors_of_def)

lemma bridge_row_simps: "bridge_row i = bridge_row j \<longleftrightarrow> i = j" "row_age (bridge_row i) < row_age (bridge_row j) \<longleftrightarrow> i < j"
  "mr_local_id (bridge_row i) = i"
  by (auto simp: bridge_row_def row_age_def less_prod_def)

lemma grows_demo:
  assumes "distinct xs" "distinct ys" "set xs \<subseteq> set ys" "length xs \<le> 100" "length ys \<le> 100" "xs \<noteq> []"
    and "\<forall>y \<in> set ys - set xs. \<exists>x \<in> set xs. x < y"
  shows "grows (map bridge_row xs) (map bridge_row ys)"
proof -
  have "y \<in> set ys - set xs" if "y \<in> set ys" "bridge_row y \<notin> bridge_row ` set xs" for y using that by blast
  with assms show ?thesis by (auto simp: grows_def small_tables table_ok_def comp_def bridge_row_simps)
qed

lemma bridge_growing: "growing [map bridge_row [1, 2], map bridge_row [1, 3, 2], map bridge_row [1, 3, 5, 4, 2]]"
proof -
  have "grows (map bridge_row [1, 2]) (map bridge_row [1, 3, 2])" by (rule grows_demo) auto
  moreover have "grows (map bridge_row [1, 3, 2]) (map bridge_row [1, 3, 5, 4, 2])" by (rule grows_demo) auto
  ultimately show ?thesis by (simp only: growing.simps simp_thms)
qed

theorem bridge_reports_once_witness:
  "\<exists>sels. cycles (latest_ids (newest_first (map bridge_row [1, 2]))) [map bridge_row [1, 3, 2], map bridge_row [1, 3, 5, 4, 2]] = Some sels \<and>
     distinct (concat sels) \<and> set (concat sels) = {bridge_row 3, bridge_row 4, bridge_row 5}"
  using bridge_reports_once [OF bridge_growing] by (auto simp: bridge_row_simps)

definition sample_bridge :: bridge where
  "sample_bridge = \<lparr>br_decode = (\<lambda>t c. Inr t), br_parse = (\<lambda>s. None), br_upper = (\<lambda>s. s), br_iso = (\<lambda>t. []),
     br_account = lit ''me'', br_chats = [lit ''1@chatroom'']\<rparr>"

definition sample_auth :: json where
  "sample_auth = sample_answer False Get_Auth"

definition sample_world :: cycle_world where
  "sample_world = \<lparr>cw_before = sample_auth, cw_after = sample_auth, cw_self_rows = Inr [], cw_tables_failure = None,
     cw_snapshots = [Inl (ValueError ''SnapshotSourceChanged''), Inr (\<lambda>chat. Inr (map bridge_row [1, 3, 2]))]\<rparr>"

definition sample_requests :: "(str \<times> int list option) list" where
  "sample_requests = [(lit ''1@chatroom'', Some [])]"

lemma sample_read: "is_ok (read_cycle sample_bridge (Some (lit ''me'')) sample_world (anchors_json sample_requests))"
  by code_simp


end
