(* ===== verification/Restore_Switch.thy ===== *)
theory Restore_Switch
  imports Prelude
begin

text \<open>
  Backups (\<open>backup.py\<close>). First the switch of a restore: \<open>_atomic_install_restore\<close> renames the files of the profile out of the way and
  the staged ones into place, and renames them back when a step fails. Any \<open>os.replace\<close> may fail.
\<close>

subsection \<open>The switch of a restore\<close>

datatype slot = Database | Wal | Shm | Objects | Old_Database | Old_Wal | Old_Shm | Old_Objects | Staged_Database | Staged_Objects
  | Failed_Database | Failed_Objects

text \<open>What stands at each path, which of the next calls fail, and the local variables of the function.\<close>

record 'a switch =
  sw_at :: "slot \<Rightarrow> 'a option"
  sw_faults :: "bool list"
  sw_moved_database :: bool
  sw_moved_objects :: bool
  sw_installed_database :: bool
  sw_installed_objects :: bool
  sw_sidecars :: "(slot \<times> slot) list"

text \<open>A step says whether it returned.\<close>

type_synonym 'a switching = "'a switch \<Rightarrow> bool \<times> 'a switch"

definition os_replace :: "slot \<Rightarrow> slot \<Rightarrow> 'a switching" where
  "os_replace a b s =
     (let fails = sw_faults s \<noteq> [] \<and> hd (sw_faults s); t = s\<lparr>sw_faults := tl (sw_faults s)\<rparr>
      in if fails \<or> sw_at s a = None then (False, t)
         else (True, t\<lparr>sw_at := (sw_at s)(b := sw_at s a, a := None)\<rparr>))"

definition and_then :: "'a switching \<Rightarrow> ('a switch \<Rightarrow> 'a switch) \<Rightarrow> 'a switching" where
  "and_then p f s = (case p s of (True, t) \<Rightarrow> (True, f t) | (False, t) \<Rightarrow> (False, t))"

definition seq :: "'a switching \<Rightarrow> 'a switching \<Rightarrow> 'a switching" where
  "seq p q s = (case p s of (True, t) \<Rightarrow> q t | (False, t) \<Rightarrow> (False, t))"

definition only_if :: "('a switch \<Rightarrow> bool) \<Rightarrow> 'a switching \<Rightarrow> 'a switching" where
  "only_if c p s = (if c s then p s else (True, s))"

definition save_database :: "'a switching" where
  "save_database = only_if (\<lambda>s. sw_at s Database \<noteq> None)
     (and_then (os_replace Database Old_Database) (\<lambda>s. s\<lparr>sw_moved_database := True\<rparr>))"

definition save_sidecar :: "slot \<Rightarrow> slot \<Rightarrow> 'a switching" where
  "save_sidecar active saved = only_if (\<lambda>s. sw_at s active \<noteq> None)
     (and_then (os_replace active saved) (\<lambda>s. s\<lparr>sw_sidecars := sw_sidecars s @ [(active, saved)]\<rparr>))"

definition save_objects :: "'a switching" where
  "save_objects = only_if (\<lambda>s. sw_at s Objects \<noteq> None)
     (and_then (os_replace Objects Old_Objects) (\<lambda>s. s\<lparr>sw_moved_objects := True\<rparr>))"

definition install_database :: "'a switching" where
  "install_database = and_then (os_replace Staged_Database Database) (\<lambda>s. s\<lparr>sw_installed_database := True\<rparr>)"

definition install_objects :: "'a switching" where
  "install_objects = and_then (os_replace Staged_Objects Objects) (\<lambda>s. s\<lparr>sw_installed_objects := True\<rparr>)"

definition switch_over :: "'a switching" where
  "switch_over = seq save_database (seq (save_sidecar Wal Old_Wal) (seq (save_sidecar Shm Old_Shm)
     (seq save_objects (seq install_database install_objects))))"

fun restore_sidecars :: "(slot \<times> slot) list \<Rightarrow> 'a switching" where
  "restore_sidecars [] s = (True, s)"
| "restore_sidecars ((active, saved) # rest) s =
     seq (only_if (\<lambda>s. sw_at s saved \<noteq> None) (os_replace saved active)) (restore_sidecars rest) s"

definition roll_back :: "'a switching" where
  "roll_back =
     seq (only_if (\<lambda>s. sw_installed_objects s \<and> sw_at s Objects \<noteq> None) (os_replace Objects Failed_Objects))
     (seq (only_if (\<lambda>s. sw_installed_database s \<and> sw_at s Database \<noteq> None) (os_replace Database Failed_Database))
     (seq (only_if (\<lambda>s. sw_moved_objects s \<and> sw_at s Old_Objects \<noteq> None) (os_replace Old_Objects Objects))
     (seq (only_if (\<lambda>s. sw_moved_database s \<and> sw_at s Old_Database \<noteq> None) (os_replace Old_Database Database))
     (\<lambda>s. restore_sidecars (sw_sidecars s) s))))"

definition backup_error :: "string \<Rightarrow> exn" where
  "backup_error m = RuntimeError m"

definition atomic_install_restore :: "'a switch \<Rightarrow> unit result \<times> 'a switch" where
  "atomic_install_restore s =
     (case switch_over s of
        (True, t) \<Rightarrow> (Inr (), t)
      | (False, t) \<Rightarrow> (Inl (backup_error ''atomic restore switch failed; active state was rolled back''), snd (roll_back t)))"

definition switch_start :: "(slot \<Rightarrow> 'a option) \<Rightarrow> bool list \<Rightarrow> 'a switch" where
  "switch_start there faults = \<lparr>sw_at = there, sw_faults = faults, sw_moved_database = False, sw_moved_objects = False,
     sw_installed_database = False, sw_installed_objects = False, sw_sidecars = []\<rparr>"

subsection \<open>The switch can be undone\<close>

lemmas switch_defs = os_replace_def and_then_def seq_def only_if_def Let_def

definition moved_aside :: "'a option \<Rightarrow> bool \<Rightarrow> bool \<Rightarrow> 'a option \<Rightarrow> 'a option \<Rightarrow> bool" where
  "moved_aside before moved installed active old \<longleftrightarrow>
     (if moved then before \<noteq> None \<and> old = before else old = None) \<and>
     (if installed then active \<noteq> None \<and> (moved \<or> before = None)
      else active = (if moved then None else before))"

text \<open>From \<open>t\<close> the files of \<open>there\<close> can be put back.\<close>

definition undoable :: "(slot \<Rightarrow> 'a option) \<Rightarrow> 'a switch \<Rightarrow> bool" where
  "undoable there t \<longleftrightarrow>
     moved_aside (there Database) (sw_moved_database t) (sw_installed_database t) (sw_at t Database) (sw_at t Old_Database) \<and>
     moved_aside (there Objects) (sw_moved_objects t) (sw_installed_objects t) (sw_at t Objects) (sw_at t Old_Objects) \<and>
     distinct (sw_sidecars t) \<and> set (sw_sidecars t) \<subseteq> {(Wal, Old_Wal), (Shm, Old_Shm)} \<and>
     moved_aside (there Wal) ((Wal, Old_Wal) \<in> set (sw_sidecars t)) False (sw_at t Wal) (sw_at t Old_Wal) \<and>
     moved_aside (there Shm) ((Shm, Old_Shm) \<in> set (sw_sidecars t)) False (sw_at t Shm) (sw_at t Old_Shm)"

definition calm :: "'a switch \<Rightarrow> bool" where
  "calm s \<longleftrightarrow> True \<notin> set (sw_faults s)"

definition same_locals :: "'a switch \<Rightarrow> 'a switch \<Rightarrow> bool" where
  "same_locals s t \<longleftrightarrow> sw_moved_database t = sw_moved_database s \<and> sw_moved_objects t = sw_moved_objects s \<and>
     sw_installed_database t = sw_installed_database s \<and> sw_installed_objects t = sw_installed_objects s \<and> sw_sidecars t = sw_sidecars s"

lemma undo_step_ex:
  assumes "calm s" and "c s \<Longrightarrow> sw_at s a \<noteq> None"
  shows "\<exists>u. only_if c (os_replace a b) s = (True, u) \<and> calm u \<and> same_locals s u \<and>
    sw_at u = (if c s then (sw_at s)(b := sw_at s a, a := None) else sw_at s)"
proof (cases "c s")
  case True
  let ?u = "s\<lparr>sw_faults := tl (sw_faults s), sw_at := (sw_at s)(b := sw_at s a, a := None)\<rparr>"
  from assms(1) have quiet: "\<not> (sw_faults s \<noteq> [] \<and> hd (sw_faults s))" by (cases "sw_faults s") (auto simp: calm_def)
  from assms(1) have later: "True \<notin> set (tl (sw_faults s))" by (cases "sw_faults s") (auto simp: calm_def)
  from assms(2) [OF True] have there: "sw_at s a \<noteq> None" .
  have "only_if c (os_replace a b) s = (True, ?u)"
    unfolding only_if_def os_replace_def Let_def using True quiet there by simp
  moreover have "calm ?u" using later by (simp add: calm_def)
  moreover have "same_locals s ?u" by (simp add: same_locals_def)
  moreover have "sw_at ?u = (if c s then (sw_at s)(b := sw_at s a, a := None) else sw_at s)" using True by simp
  ultimately show ?thesis by blast
next
  case False
  with assms(1) show ?thesis by (simp add: only_if_def same_locals_def)
qed

lemma undo_step:
  assumes "calm s" and "c s \<Longrightarrow> sw_at s a \<noteq> None"
  obtains u where "only_if c (os_replace a b) s = (True, u)" "calm u" "same_locals s u"
    "sw_at u = (if c s then (sw_at s)(b := sw_at s a, a := None) else sw_at s)"
  using undo_step_ex [of s c a b] assms by metis

lemma seq_True: "p s = (True, t) \<Longrightarrow> seq p q s = q t"
  by (simp add: seq_def)

lemma undo_sidecar:
  assumes "calm s"
  obtains u where "only_if (\<lambda>s. sw_at s saved \<noteq> None) (os_replace saved active) s = (True, u)" "calm u"
    "sw_at u = (if sw_at s saved \<noteq> None then (sw_at s)(active := sw_at s saved, saved := None) else sw_at s)"
  by (rule undo_step [OF assms, of "\<lambda>s. sw_at s saved \<noteq> None" saved active]) (auto intro: that)

lemma undo_sidecars:
  assumes "calm s" and "distinct ps" and "set ps \<subseteq> {(Wal, Old_Wal), (Shm, Old_Shm)}"
    and "\<forall>(a, b) \<in> set ps. sw_at s b = there a \<and> there a \<noteq> None"
  shows "\<exists>u. restore_sidecars ps s = (True, u) \<and> (\<forall>(a, b) \<in> set ps. sw_at u a = there a) \<and>
    (\<forall>x. x \<notin> fst ` set ps \<union> snd ` set ps \<longrightarrow> sw_at u x = sw_at s x)"
  using assms
proof (induction ps arbitrary: s)
  case (Cons p ps)
  obtain a b where p: "p = (a, b)" by force
  from undo_sidecar [OF Cons.prems(1), of b a] obtain v where v: "only_if (\<lambda>s. sw_at s b \<noteq> None) (os_replace b a) s = (True, v)"
    "calm v" "sw_at v = (if sw_at s b \<noteq> None then (sw_at s)(a := sw_at s b, b := None) else sw_at s)" .
  from Cons.prems p have away: "a \<notin> fst ` set ps \<union> snd ` set ps" "b \<notin> fst ` set ps \<union> snd ` set ps" "a \<noteq> b"
    "\<forall>(x, y) \<in> set ps. y \<noteq> a \<and> y \<noteq> b" by auto
  have at_v: "sw_at v = (sw_at s)(a := there a, b := None)" using v(3) Cons.prems(4) p by auto
  have "\<forall>(x, y) \<in> set ps. sw_at v y = there x \<and> there x \<noteq> None" using at_v away(4) Cons.prems(4) p by fastforce
  with Cons.IH [OF v(2)] Cons.prems(2,3) obtain u where u: "restore_sidecars ps v = (True, u)" "\<forall>(x, y) \<in> set ps. sw_at u x = there x"
    "\<forall>x. x \<notin> fst ` set ps \<union> snd ` set ps \<longrightarrow> sw_at u x = sw_at v x" by auto
  with v(1) p away at_v show ?case by (simp add: seq_def)
qed simp

lemma roll_back_undoes:
  assumes un: "undoable there t" and "calm t"
  shows "\<exists>u. roll_back t = (True, u) \<and> (\<forall>a \<in> {Database, Wal, Shm, Objects}. sw_at u a = there a)"
proof -
  from undo_step [OF \<open>calm t\<close>, of "\<lambda>s. sw_installed_objects s \<and> sw_at s Objects \<noteq> None" Objects Failed_Objects]
  obtain t1 where t1: "only_if (\<lambda>s. sw_installed_objects s \<and> sw_at s Objects \<noteq> None) (os_replace Objects Failed_Objects) t = (True, t1)"
    "calm t1" "same_locals t t1" "sw_at t1 = (if sw_installed_objects t \<and> sw_at t Objects \<noteq> None
      then (sw_at t)(Failed_Objects := sw_at t Objects, Objects := None) else sw_at t)" by blast
  from undo_step [OF t1(2), of "\<lambda>s. sw_installed_database s \<and> sw_at s Database \<noteq> None" Database Failed_Database]
  obtain t2 where t2: "only_if (\<lambda>s. sw_installed_database s \<and> sw_at s Database \<noteq> None) (os_replace Database Failed_Database) t1 = (True, t2)"
    "calm t2" "same_locals t1 t2" "sw_at t2 = (if sw_installed_database t1 \<and> sw_at t1 Database \<noteq> None
      then (sw_at t1)(Failed_Database := sw_at t1 Database, Database := None) else sw_at t1)" by blast
  from undo_step [OF t2(2), of "\<lambda>s. sw_moved_objects s \<and> sw_at s Old_Objects \<noteq> None" Old_Objects Objects]
  obtain t3 where t3: "only_if (\<lambda>s. sw_moved_objects s \<and> sw_at s Old_Objects \<noteq> None) (os_replace Old_Objects Objects) t2 = (True, t3)"
    "calm t3" "same_locals t2 t3" "sw_at t3 = (if sw_moved_objects t2 \<and> sw_at t2 Old_Objects \<noteq> None
      then (sw_at t2)(Objects := sw_at t2 Old_Objects, Old_Objects := None) else sw_at t2)" by blast
  from undo_step [OF t3(2), of "\<lambda>s. sw_moved_database s \<and> sw_at s Old_Database \<noteq> None" Old_Database Database]
  obtain t4 where t4: "only_if (\<lambda>s. sw_moved_database s \<and> sw_at s Old_Database \<noteq> None) (os_replace Old_Database Database) t3 = (True, t4)"
    "calm t4" "same_locals t3 t4" "sw_at t4 = (if sw_moved_database t3 \<and> sw_at t3 Old_Database \<noteq> None
      then (sw_at t3)(Database := sw_at t3 Old_Database, Old_Database := None) else sw_at t3)" by blast
  note locals = t1(3) t2(3) t3(3) t4(3)
  have "sw_at t3 Objects = there Objects \<and> sw_at t3 Database = (if sw_installed_database t then None else sw_at t Database) \<and>
      sw_at t3 Old_Database = sw_at t Old_Database"
    using un locals unfolding t3(4) t2(4) t1(4) by (auto simp: undoable_def moved_aside_def same_locals_def split: if_splits)
  then have at4: "sw_at t4 Objects = there Objects" "sw_at t4 Database = there Database"
    using un locals unfolding t4(4) by (auto simp: undoable_def moved_aside_def same_locals_def split: if_splits)
  have side: "\<forall>x \<in> {Wal, Shm, Old_Wal, Old_Shm}. sw_at t4 x = sw_at t x" unfolding t4(4) t3(4) t2(4) t1(4) by simp
  have ps: "sw_sidecars t4 = sw_sidecars t" using locals by (simp add: same_locals_def)
  have saved: "distinct (sw_sidecars t)" "set (sw_sidecars t) \<subseteq> {(Wal, Old_Wal), (Shm, Old_Shm)}"
    using un by (simp_all add: undoable_def)
  have old: "\<forall>(a, b) \<in> set (sw_sidecars t). sw_at t4 b = there a \<and> there a \<noteq> None"
  proof (intro ballI, unfold split_paired_all prod.case)
    fix a b assume "(a, b) \<in> set (sw_sidecars t)"
    with saved(2) un side show "sw_at t4 b = there a \<and> there a \<noteq> None" by (auto simp: undoable_def moved_aside_def)
  qed
  from undo_sidecars [OF t4(2) saved old] obtain u where u: "restore_sidecars (sw_sidecars t) t4 = (True, u)"
    "\<forall>(a, b) \<in> set (sw_sidecars t). sw_at u a = there a"
    "\<forall>x. x \<notin> fst ` set (sw_sidecars t) \<union> snd ` set (sw_sidecars t) \<longrightarrow> sw_at u x = sw_at t4 x" by blast
  have run: "roll_back t = (True, u)"
    unfolding roll_back_def using t1(1) t2(1) t3(1) t4(1) u(1) ps by (simp add: seq_def)
  have "Database \<notin> fst ` set (sw_sidecars t) \<union> snd ` set (sw_sidecars t)" "Objects \<notin> fst ` set (sw_sidecars t) \<union> snd ` set (sw_sidecars t)"
    using saved(2) by auto
  with u(3) at4 have "sw_at u Database = there Database" "sw_at u Objects = there Objects" by simp_all
  moreover have "sw_at u Wal = there Wal"
  proof (cases "(Wal, Old_Wal) \<in> set (sw_sidecars t)")
    case False
    with saved(2) have "Wal \<notin> fst ` set (sw_sidecars t) \<union> snd ` set (sw_sidecars t)" by auto
    with u(3) side un False show ?thesis by (auto simp: undoable_def moved_aside_def)
  qed (use u(2) in auto)
  moreover have "sw_at u Shm = there Shm"
  proof (cases "(Shm, Old_Shm) \<in> set (sw_sidecars t)")
    case False
    with saved(2) have "Shm \<notin> fst ` set (sw_sidecars t) \<union> snd ` set (sw_sidecars t)" by auto
    with u(3) side un False show ?thesis by (auto simp: undoable_def moved_aside_def)
  qed (use u(2) in auto)
  ultimately show ?thesis using run by auto
qed

text \<open>Every step keeps the files recoverable, whether it fails or not. \<open>budget\<close> counts the failures to come.\<close>

definition budget :: "'a switch \<Rightarrow> nat" where
  "budget s = length (filter id (sw_faults s))"

lemma budget_0: "budget s = 0 \<Longrightarrow> calm s"
  by (auto simp: budget_def calm_def filter_empty_conv)

text \<open>What holds before step \<open>n\<close> of the switch.\<close>

definition phase :: "(slot \<Rightarrow> 'a option) \<Rightarrow> nat \<Rightarrow> 'a switch \<Rightarrow> bool" where
  "phase there n t \<longleftrightarrow>
     (n = 0 \<longrightarrow> \<not> sw_moved_database t) \<and> (n \<le> 1 \<longrightarrow> (Wal, Old_Wal) \<notin> set (sw_sidecars t)) \<and>
     (n \<le> 2 \<longrightarrow> (Shm, Old_Shm) \<notin> set (sw_sidecars t)) \<and> (n \<le> 3 \<longrightarrow> \<not> sw_moved_objects t) \<and>
     (n \<le> 4 \<longrightarrow> \<not> sw_installed_database t) \<and> (n \<le> 5 \<longrightarrow> \<not> sw_installed_objects t) \<and>
     (1 \<le> n \<and> n \<le> 4 \<longrightarrow> sw_at t Database = None) \<and> (2 \<le> n \<longrightarrow> sw_at t Wal = None) \<and> (3 \<le> n \<longrightarrow> sw_at t Shm = None) \<and>
     (4 \<le> n \<and> n \<le> 5 \<longrightarrow> sw_at t Objects = None) \<and>
     (n \<le> 4 \<longrightarrow> sw_at t Staged_Database = there Staged_Database) \<and> (5 \<le> n \<longrightarrow> sw_at t Database = there Staged_Database) \<and>
     (n \<le> 5 \<longrightarrow> sw_at t Staged_Objects = there Staged_Objects) \<and> (n = 6 \<longrightarrow> sw_at t Objects = there Staged_Objects)"

text \<open>A step keeps the files recoverable; one that fails has used up a failure, one that returns reaches its phase.\<close>

definition step_ok :: "(slot \<Rightarrow> 'a option) \<Rightarrow> nat \<Rightarrow> 'a switching \<Rightarrow> 'a switch \<Rightarrow> bool" where
  "step_ok there n p s \<longleftrightarrow> (case p s of (ok, t) \<Rightarrow>
     undoable there t \<and> budget t + (if ok then 0 else 1) \<le> budget s \<and> (ok \<longrightarrow> phase there n t))"

lemma os_replace_cases:
  assumes "sw_at s a \<noteq> None"
  obtains t where "os_replace a b s = (False, t)" "t = s\<lparr>sw_faults := tl (sw_faults s)\<rparr>" "Suc (budget t) = budget s"
  | t where "os_replace a b s = (True, t)" "t = s\<lparr>sw_faults := tl (sw_faults s), sw_at := (sw_at s)(b := sw_at s a, a := None)\<rparr>"
    "budget t \<le> budget s"
proof (cases "sw_faults s \<noteq> [] \<and> hd (sw_faults s)")
  case True
  then obtain fs where "sw_faults s = True # fs" by (cases "sw_faults s") auto
  with True show thesis by (intro that(1)) (auto simp: os_replace_def budget_def)
next
  case False
  then have "length (filter id (tl (sw_faults s))) \<le> length (filter id (sw_faults s))" by (cases "sw_faults s") auto
  with False assms show thesis by (intro that(2)) (auto simp: os_replace_def budget_def)
qed

lemma undoable_faults: "undoable there (s\<lparr>sw_faults := fs\<rparr>) = undoable there s"
  by (simp add: undoable_def)

lemma step_ok_rename:
  assumes "undoable there s" and "sw_at s a \<noteq> None"
    and "\<And>fs. undoable there (f (s\<lparr>sw_faults := fs, sw_at := (sw_at s)(b := sw_at s a, a := None)\<rparr>))"
    and "\<And>fs. phase there n (f (s\<lparr>sw_faults := fs, sw_at := (sw_at s)(b := sw_at s a, a := None)\<rparr>))"
    and "\<And>t. sw_faults (f t) = sw_faults t"
  shows "step_ok there n (and_then (os_replace a b) f) s"
  using assms(2)
proof (cases rule: os_replace_cases [where b = b])
  case (1 t)
  with assms(1) show ?thesis by (simp add: step_ok_def and_then_def undoable_faults)
next
  case (2 t)
  have "budget (f t) = budget t" using assms(5) by (simp add: budget_def)
  with 2 assms(3,4) show ?thesis by (simp add: step_ok_def and_then_def)
qed

lemma step_ok_only_if:
  assumes "undoable there s" and "\<not> c s \<Longrightarrow> phase there n s" and "c s \<Longrightarrow> step_ok there n p s"
  shows "step_ok there n (only_if c p) s"
  using assms by (cases "c s") (simp_all add: step_ok_def only_if_def)

lemma step_ok_seq:
  assumes "step_ok there n p s" and "\<And>t. undoable there t \<Longrightarrow> phase there n t \<Longrightarrow> step_ok there m q t"
  shows "step_ok there m (seq p q) s"
proof -
  obtain ok t where t: "p s = (ok, t)" by force
  show ?thesis
  proof (cases ok)
    case True
    with assms t have "step_ok there m q t" "budget t \<le> budget s" by (auto simp: step_ok_def)
    then show ?thesis using t True by (cases "q t") (auto simp: step_ok_def seq_def)
  qed (use assms(1) t in \<open>simp add: step_ok_def seq_def\<close>)
qed

lemmas recoverable_defs = undoable_def moved_aside_def phase_def

lemma save_database_ok: "undoable there s \<Longrightarrow> phase there 0 s \<Longrightarrow> step_ok there 1 save_database s"
  unfolding save_database_def
  by (intro step_ok_only_if step_ok_rename) (simp_all add: recoverable_defs)

lemma save_wal_ok: "undoable there s \<Longrightarrow> phase there 1 s \<Longrightarrow> step_ok there 2 (save_sidecar Wal Old_Wal) s"
  unfolding save_sidecar_def
  by (intro step_ok_only_if step_ok_rename) (auto simp: recoverable_defs)

lemma save_shm_ok: "undoable there s \<Longrightarrow> phase there 2 s \<Longrightarrow> step_ok there 3 (save_sidecar Shm Old_Shm) s"
  unfolding save_sidecar_def
  by (intro step_ok_only_if step_ok_rename) (auto simp: recoverable_defs)

lemma save_objects_ok: "undoable there s \<Longrightarrow> phase there 3 s \<Longrightarrow> step_ok there 4 save_objects s"
  unfolding save_objects_def
  by (intro step_ok_only_if step_ok_rename) (simp_all add: recoverable_defs)

lemma install_database_ok:
  "there Staged_Database \<noteq> None \<Longrightarrow> undoable there s \<Longrightarrow> phase there 4 s \<Longrightarrow> step_ok there 5 install_database s"
  unfolding install_database_def
  by (intro step_ok_rename) (simp_all add: recoverable_defs split: if_splits)

lemma install_objects_ok:
  "there Staged_Objects \<noteq> None \<Longrightarrow> undoable there s \<Longrightarrow> phase there 5 s \<Longrightarrow> step_ok there 6 install_objects s"
  unfolding install_objects_def
  by (intro step_ok_rename) (simp_all add: recoverable_defs split: if_splits)

lemma switch_over_ok:
  assumes "there Staged_Database \<noteq> None" and "there Staged_Objects \<noteq> None" and "undoable there s" and "phase there 0 s"
  shows "step_ok there 6 switch_over s"
  unfolding switch_over_def
  by (rule step_ok_seq [OF save_database_ok step_ok_seq [OF save_wal_ok step_ok_seq [OF save_shm_ok step_ok_seq [OF save_objects_ok
      step_ok_seq [OF install_database_ok install_objects_ok]]]]]) (use assms in auto)

text \<open>The files of a profile after the switch: all new, or all as before.\<close>

lemma switch_all_or_nothing:
  assumes "there Staged_Database \<noteq> None" and "there Staged_Objects \<noteq> None"
    and "\<forall>x \<in> {Old_Database, Old_Wal, Old_Shm, Old_Objects}. there x = None" and "length (filter id faults) \<le> 1"
    and run: "atomic_install_restore (switch_start there faults) = (r, t)"
  shows "case r of
      Inr _ \<Rightarrow> sw_at t Database = there Staged_Database \<and> sw_at t Objects = there Staged_Objects \<and> sw_at t Wal = None \<and> sw_at t Shm = None
    | Inl _ \<Rightarrow> \<forall>a \<in> {Database, Wal, Shm, Objects}. sw_at t a = there a"
proof -
  let ?s = "switch_start there faults"
  have "undoable there ?s" "phase there 0 ?s" using assms(3) by (simp_all add: recoverable_defs switch_start_def)
  with assms(1,2) have ok: "step_ok there 6 switch_over ?s" by (rule switch_over_ok)
  obtain b u where u: "switch_over ?s = (b, u)" by force
  show ?thesis
  proof (cases b)
    case True
    with ok u run show ?thesis by (auto simp: step_ok_def atomic_install_restore_def phase_def)
  next
    case False
    with ok u have "undoable there u" "budget u + 1 \<le> budget ?s" by (auto simp: step_ok_def)
    moreover have "budget ?s \<le> 1" using assms(4) by (simp add: budget_def switch_start_def)
    ultimately have "undoable there u" "budget u = 0" by simp_all
    from roll_back_undoes [OF this(1) budget_0 [OF this(2)]] obtain v where
      "roll_back u = (True, v)" "\<forall>a \<in> {Database, Wal, Shm, Objects}. sw_at v a = there a" by blast
    with u False run show ?thesis by (auto simp: atomic_install_restore_def)
  qed
qed


end
