(* ===== verification/Attachments.thy ===== *)
theory Attachments
  imports Sql_Table Domain Framing
begin

text \<open>
  Attachments of a conversation: the content-addressed object files (\<open>tools/object_store.py\<close>), the table of their metadata and the
  breaker that stops intake when the disk is full (\<open>tools/attachments.py\<close>). The digest function is a parameter; the free space, the
  clock, fresh identifiers and failing calls of the operating system are inputs of the operations.
\<close>

subsection \<open>Object files\<close>

text \<open>What stands at the path of a shard, and at the path of an object in it.\<close>

datatype shard = Directory | Dangling_Link | Link_Elsewhere | Plain_File

datatype object_entry = Object (object_bytes: "byte list") | Not_Regular

record object_files =
  of_shards :: "str \<Rightarrow> shard option"
  of_entries :: "str \<Rightarrow> object_entry option"

datatype io_fault = No_Space | Other_Fault

record disk =
  dk_free :: "int option"
  dk_mkdir :: "io_fault option"
  dk_read :: "io_fault option"
  dk_write :: "io_fault option"

definition digest_ok :: "str \<Rightarrow> bool" where
  "digest_ok d \<longleftrightarrow> length d = 64 \<and> list_all (\<lambda>c. 48 \<le> c \<and> c \<le> 57 \<or> 97 \<le> c \<and> c \<le> 102) d"

definition object_store_error :: exn where
  "object_store_error = OtherException ''ObjectStoreError''"

definition disk_error :: exn where
  "disk_error = OtherException ''OSError''"

definition no_space_error :: exn where
  "no_space_error = OtherException ''OSError ENOSPC''"

definition io_error :: "io_fault \<Rightarrow> exn" where
  "io_error f = (case f of No_Space \<Rightarrow> no_space_error | Other_Fault \<Rightarrow> disk_error)"

definition entry_at :: "object_files \<Rightarrow> str \<Rightarrow> object_entry option" where
  "entry_at fs d = (if of_shards fs (take 2 d) = Some Directory then of_entries fs d else None)"

text \<open>\<open>_directory_for\<close>: the files after it, or the exception.\<close>

definition directory_for :: "io_fault option \<Rightarrow> str \<Rightarrow> bool \<Rightarrow> object_files \<Rightarrow> object_files result" where
  "directory_for mkdir d create fs =
     (case of_shards fs (take 2 d) of
        Some Directory \<Rightarrow> Inr fs
      | Some Link_Elsewhere \<Rightarrow> Inl object_store_error
      | Some Plain_File \<Rightarrow> Inl object_store_error
      | Some Dangling_Link \<Rightarrow> if create then Inl object_store_error else Inr fs
      | None \<Rightarrow>
          if \<not> create then Inr fs
          else (case mkdir of
            Some f \<Rightarrow> Inl (io_error f)
          | None \<Rightarrow> Inr (fs\<lparr>of_shards := (of_shards fs)(take 2 d \<mapsto> Directory), of_entries := (\<lambda>k. if take 2 k = take 2 d then None else of_entries fs k)\<rparr>)))"

definition path_for :: "str \<Rightarrow> object_files \<Rightarrow> object_entry option result" where
  "path_for d fs =
     (if \<not> digest_ok d then Inl (ValueError ''invalid SHA-256 object identifier'')
      else bind_result (directory_for None d False fs) (\<lambda>fs.
        if entry_at fs d = Some Not_Regular then Inl object_store_error else Inr (entry_at fs d)))"

record attachment_env =
  ae_sha256 :: "byte list \<Rightarrow> str"
  ae_lower :: "str \<Rightarrow> str"
  ae_max_bytes :: nat
  ae_min_free :: int

text \<open>\<open>put_bytes\<close>: an object is written beside its path and then moved there, so it is there in full or not at all.\<close>

definition write_object :: "disk \<Rightarrow> str \<Rightarrow> byte list \<Rightarrow> object_files \<Rightarrow> unit result \<times> object_files" where
  "write_object dk d content fs =
     (case dk_write dk of
        Some f \<Rightarrow> (Inl (io_error f), fs)
      | None \<Rightarrow> (Inr (), fs\<lparr>of_entries := (of_entries fs)(d \<mapsto> Object content)\<rparr>))"

definition store_object :: "attachment_env \<Rightarrow> disk \<Rightarrow> str \<Rightarrow> byte list \<Rightarrow> object_files \<Rightarrow> unit result \<times> object_files" where
  "store_object v dk d content fs =
     (case entry_at fs d of
        Some Not_Regular \<Rightarrow> (Inl object_store_error, fs)
      | Some (Object old) \<Rightarrow>
          if length old \<noteq> length content then (Inl object_store_error, fs)
          else (case dk_read dk of
            Some f \<Rightarrow> (Inl (io_error f), fs)
          | None \<Rightarrow> if ae_sha256 v old \<noteq> d then (Inl object_store_error, fs) else (Inr (), fs))
      | None \<Rightarrow> write_object dk d content fs)"

definition put_bytes :: "attachment_env \<Rightarrow> disk \<Rightarrow> byte list \<Rightarrow> object_files \<Rightarrow> (str \<times> nat) result \<times> object_files" where
  "put_bytes v dk content fs =
     (if ae_max_bytes v < length content then (Inl (ValueError ''object exceeds configured size limit''), fs)
      else
        let d = ae_sha256 v content
        in (case directory_for (dk_mkdir dk) d True fs of
              Inl e \<Rightarrow> (Inl e, fs)
            | Inr fs1 \<Rightarrow>
                (case store_object v dk d content fs1 of
                   (Inl e, fs2) \<Rightarrow> (Inl e, fs2)
                 | (Inr _, fs2) \<Rightarrow> (Inr (d, length content), fs2))))"

subsection \<open>The breaker\<close>

record capacity =
  cp_paused :: bool
  cp_last_free :: "int option"
  cp_required :: "nat option"
  cp_reason :: "string option"
  cp_checked_at :: "time option"
  cp_triggered_at :: "time option"

record attachment =
  att_id :: uuid
  att_channel :: str
  att_chat_id :: str
  att_event_id :: str
  att_sha256 :: str
  att_media_type :: str
  att_original_name :: "str option"
  att_size :: nat
  att_status :: string
  att_created_at :: time

record attachment_store =
  as_rows :: "attachment list"
  as_files :: object_files
  as_capacity :: capacity

definition attachment_store_init :: "attachment list \<Rightarrow> object_files \<Rightarrow> attachment_store" where
  "attachment_store_init rows fs = \<lparr>as_rows = rows, as_files = fs, as_capacity = \<lparr>cp_paused = False, cp_last_free = None,
     cp_required = None, cp_reason = None, cp_checked_at = None, cp_triggered_at = None\<rparr>\<rparr>"

definition capacity_error :: exn where
  "capacity_error = OtherException ''AttachmentCapacityError''"

definition latch_capacity_pause :: "int option \<Rightarrow> nat \<Rightarrow> string \<Rightarrow> time \<Rightarrow> attachment_store \<Rightarrow> attachment_store" where
  "latch_capacity_pause free required reason now s =
     s\<lparr>as_capacity := \<lparr>cp_paused = True, cp_last_free = free, cp_required = Some required, cp_reason = Some reason,
       cp_checked_at = Some now,
       cp_triggered_at = Some (case cp_triggered_at (as_capacity s) of Some t \<Rightarrow> t | None \<Rightarrow> now)\<rparr>\<rparr>"

definition capacity_observed :: "int \<Rightarrow> nat \<Rightarrow> time \<Rightarrow> attachment_store \<Rightarrow> attachment_store" where
  "capacity_observed free required now s =
     s\<lparr>as_capacity := \<lparr>cp_paused = False, cp_last_free = Some free, cp_required = Some required, cp_reason = None,
       cp_checked_at = Some now, cp_triggered_at = None\<rparr>\<rparr>"

definition recheck_capacity :: "attachment_env \<Rightarrow> int option \<Rightarrow> time \<Rightarrow> attachment_store \<Rightarrow> capacity result \<times> attachment_store" where
  "recheck_capacity v free now s =
     (case free of
        None \<Rightarrow> (Inl capacity_error, latch_capacity_pause None 0 ''disk_usage_unavailable'' now s)
      | Some f \<Rightarrow>
          let t = (if f < ae_min_free v then latch_capacity_pause (Some f) 0 ''insufficient_free_space'' now s
                   else capacity_observed f 0 now s)
          in (Inr (as_capacity t), t))"

definition put_checked :: "attachment_env \<Rightarrow> disk \<Rightarrow> byte list \<Rightarrow> int \<Rightarrow> nat \<Rightarrow> time \<Rightarrow> attachment_store \<Rightarrow> (str \<times> nat) result \<times> attachment_store" where
  "put_checked v dk content free required now s =
     (case put_bytes v dk content (as_files s) of
        (Inr stored, fs) \<Rightarrow> (Inr stored, s\<lparr>as_files := fs\<rparr>)
      | (Inl e, fs) \<Rightarrow>
          if e = no_space_error
          then (Inl capacity_error, latch_capacity_pause (Some free) required ''object_write_no_space'' now (s\<lparr>as_files := fs\<rparr>))
          else (Inl e, s\<lparr>as_files := fs\<rparr>))"

definition put_with_capacity :: "attachment_env \<Rightarrow> disk \<Rightarrow> byte list \<Rightarrow> time \<Rightarrow> attachment_store \<Rightarrow> (str \<times> nat) result \<times> attachment_store" where
  "put_with_capacity v dk content now s =
     (if cp_paused (as_capacity s) then (Inl capacity_error, s)
      else (case path_for (ae_sha256 v content) (as_files s) of
        Inl e \<Rightarrow> (Inl e, s)
      | Inr entry \<Rightarrow>
          let required = (if entry \<noteq> None then 0 else length content)
          in (case dk_free dk of
                None \<Rightarrow> (Inl capacity_error, latch_capacity_pause None required ''disk_usage_unavailable'' now s)
              | Some free \<Rightarrow>
                  if free < ae_min_free v + int required
                  then (Inl capacity_error, latch_capacity_pause (Some free) required ''insufficient_free_space'' now s)
                  else put_checked v dk content free required now (capacity_observed free required now s))))"

subsection \<open>The table\<close>

text \<open>\<open>INSERT OR IGNORE\<close> with the primary key and \<open>UNIQUE(channel, event_id, sha256)\<close>, then \<open>SELECT\<close>.\<close>

definition same_object :: "attachment \<Rightarrow> attachment \<Rightarrow> bool" where
  "same_object a r \<longleftrightarrow> att_channel r = att_channel a \<and> att_event_id r = att_event_id a \<and> att_sha256 r = att_sha256 a"

definition insert_attachment :: "attachment \<Rightarrow> attachment list \<Rightarrow> attachment option \<times> attachment list" where
  "insert_attachment a rows =
     (let t = (if list_ex (\<lambda>r. att_id r = att_id a \<or> same_object a r) rows then rows else rows @ [a])
      in (find (same_object a) t, t))"

definition media_name_ok :: "str \<Rightarrow> bool" where
  "media_name_ok p \<longleftrightarrow>
     (let plain = (\<lambda>c. 97 \<le> c \<and> c \<le> 122 \<or> 48 \<le> c \<and> c \<le> 57)
      in p \<noteq> [] \<and> length p \<le> 64 \<and> plain (hd p) \<and> list_all (\<lambda>c. plain c \<or> c = 46 \<or> c = 43 \<or> c = 45) (tl p))"

definition media_type_ok :: "str \<Rightarrow> bool" where
  "media_type_ok m \<longleftrightarrow> (case split_at 47 m of [a, b] \<Rightarrow> media_name_ok a \<and> media_name_ok b | _ \<Rightarrow> False)"

text \<open>\<open>PurePath(name.replace(''\'', ''/'')).name[:255] or None\<close>.\<close>

definition path_name :: "str \<Rightarrow> str" where
  "path_name p = (case filter (\<lambda>c. c \<noteq> [] \<and> c \<noteq> [46]) (split_at 47 p) of [] \<Rightarrow> [] | cs \<Rightarrow> last cs)"

definition safe_name :: "str option \<Rightarrow> str option" where
  "safe_name n =
     (case n of
        None \<Rightarrow> None
      | Some s \<Rightarrow>
          let base = take 255 (path_name (map (\<lambda>c. if c = 92 then 47 else c) s))
          in if base = [] then None else Some base)"

record intake =
  in_channel :: str
  in_chat_id :: str
  in_event_id :: str
  in_content :: "byte list"
  in_media_type :: str
  in_original_name :: "str option"

record intake_world =
  iw_disk :: disk
  iw_now :: time
  iw_id :: uuid
  iw_database_fails :: bool

definition new_attachment :: "attachment_env \<Rightarrow> intake \<Rightarrow> intake_world \<Rightarrow> str \<times> nat \<Rightarrow> attachment" where
  "new_attachment v i w stored = \<lparr>att_id = iw_id w, att_channel = in_channel i, att_chat_id = in_chat_id i, att_event_id = in_event_id i,
     att_sha256 = fst stored, att_media_type = ae_lower v (in_media_type i), att_original_name = safe_name (in_original_name i),
     att_size = snd stored, att_status = ''quarantined'', att_created_at = iw_now w\<rparr>"

definition record_attachment :: "attachment \<Rightarrow> bool \<Rightarrow> attachment_store \<Rightarrow> attachment result \<times> attachment_store" where
  "record_attachment a fails s =
     (if fails then (Inl (OtherException ''OperationalError''), s)
      else (case insert_attachment a (as_rows s) of
        (Some r, rows) \<Rightarrow> (Inr r, s\<lparr>as_rows := rows\<rparr>)
      | (None, _) \<Rightarrow> (Inl (RuntimeError ''attachment insert failed''), s)))"

definition intake_fault :: "attachment_env \<Rightarrow> intake \<Rightarrow> string option" where
  "intake_fault v i =
     (if in_channel i = [] \<or> in_chat_id i = [] \<or> in_event_id i = [] then Some ''attachment scope is required''
      else if \<not> media_type_ok (ae_lower v (in_media_type i)) then Some ''invalid attachment media type''
      else if in_content i = [] \<or> ae_max_bytes v < length (in_content i)
      then Some ''attachment is empty or exceeds the configured limit''
      else None)"

definition ingest_content :: "attachment_env \<Rightarrow> intake \<Rightarrow> intake_world \<Rightarrow> attachment_store \<Rightarrow> attachment result \<times> attachment_store" where
  "ingest_content v i w s =
     (case intake_fault v i of
        Some e \<Rightarrow> (Inl (ValueError e), s)
      | None \<Rightarrow>
          (case put_with_capacity v (iw_disk w) (in_content i) (iw_now w) s of
             (Inl e, t) \<Rightarrow> (Inl e, t)
           | (Inr stored, t) \<Rightarrow> record_attachment (new_attachment v i w stored) (iw_database_fails w) t))"

subsection \<open>Reading\<close>

definition size_checked :: "attachment_env \<Rightarrow> attachment \<Rightarrow> object_entry option \<Rightarrow> attachment result" where
  "size_checked v r entry =
     (case entry of
        Some (Object c) \<Rightarrow>
          if length c \<noteq> att_size r \<or> ae_max_bytes v < length c
          then Inl (RuntimeError ''attachment object failed size verification'') else Inr r
      | _ \<Rightarrow> Inl disk_error)"

definition resolve_bound :: "attachment_env \<Rightarrow> attachment_store \<Rightarrow> uuid \<Rightarrow> str \<times> str \<times> str \<Rightarrow> attachment result" where
  "resolve_bound v s i scope =
     (case get_row att_id i (as_rows s) of
        None \<Rightarrow> Inl KeyError
      | Some r \<Rightarrow>
          if (att_channel r, att_chat_id r, att_event_id r) \<noteq> scope then Inl (OtherException ''AttachmentScopeError'')
          else bind_result (path_for (att_sha256 r) (as_files s)) (size_checked v r))"

text \<open>The file is read after it was resolved: \<open>later\<close> is what the read returned, or \<open>None\<close> when it failed.\<close>

definition read_bound :: "attachment_env \<Rightarrow> attachment_store \<Rightarrow> byte list option \<Rightarrow> uuid \<Rightarrow> str \<times> str \<times> str \<Rightarrow> (attachment \<times> byte list) result" where
  "read_bound v s later i scope =
     bind_result (resolve_bound v s i scope) (\<lambda>r.
       case later of
         None \<Rightarrow> Inl disk_error
       | Some c \<Rightarrow>
           if length c \<noteq> att_size r \<or> ae_sha256 v c \<noteq> att_sha256 r
           then Inl (RuntimeError ''attachment object failed integrity verification'') else Inr (r, c))"

subsection \<open>Steps\<close>

text \<open>Others may change the files: \<open>Tamper\<close>.\<close>

datatype attachment_op = Ingest intake intake_world | Recheck "int option" time | Tamper object_files

datatype attachment_result = Stored "attachment result" | Rechecked "capacity result" | Tampered

fun attachment_step :: "attachment_env \<Rightarrow> attachment_op \<Rightarrow> attachment_store \<Rightarrow> attachment_result \<times> attachment_store" where
  "attachment_step v (Ingest i w) s = map_prod Stored id (ingest_content v i w s)"
| "attachment_step v (Recheck free now) s = map_prod Rechecked id (recheck_capacity v free now s)"
| "attachment_step v (Tamper fs) s = (Tampered, s\<lparr>as_files := fs\<rparr>)"

fun attachment_run :: "attachment_env \<Rightarrow> attachment_op list \<Rightarrow> attachment_store \<Rightarrow> attachment_result list \<times> attachment_store" where
  "attachment_run v [] s = ([], s)"
| "attachment_run v (x # xs) s =
     (case attachment_step v x s of (r, t) \<Rightarrow> case attachment_run v xs t of (rs, u) \<Rightarrow> (r # rs, u))"

subsection \<open>Objects are kept\<close>

text \<open>One file set has every object of another.\<close>

definition keeps_objects :: "object_files \<Rightarrow> object_files \<Rightarrow> bool" where
  "keeps_objects fs gs \<longleftrightarrow> (\<forall>d x. entry_at fs d = Some x \<longrightarrow> entry_at gs d = Some x)"

lemma keeps_refl [simp]: "keeps_objects fs fs"
  by (simp add: keeps_objects_def)

lemma keeps_trans: "keeps_objects fs gs \<Longrightarrow> keeps_objects gs hs \<Longrightarrow> keeps_objects fs hs"
  by (simp add: keeps_objects_def)

lemma directory_for_ok:
  assumes "directory_for mkdir d True fs = Inr gs"
  shows "of_shards gs (take 2 d) = Some Directory" "entry_at gs = entry_at fs"
  using assms by (auto simp: directory_for_def entry_at_def fun_eq_iff split: option.splits shard.splits if_splits)

lemma directory_for_shown: "directory_for mkdir d False fs = Inr gs \<Longrightarrow> gs = fs"
  by (auto simp: directory_for_def split: option.splits shard.splits)

lemma path_for_ok: "path_for d fs = Inr e \<Longrightarrow> e = entry_at fs d \<and> e \<noteq> Some Not_Regular"
  by (auto simp: path_for_def bind_result_Inr_iff dest: directory_for_shown split: if_splits)

lemma entry_at_write:
  assumes "of_shards fs (take 2 d) = Some Directory"
  shows "entry_at (fs\<lparr>of_entries := (of_entries fs)(d \<mapsto> x)\<rparr>) = (entry_at fs)(d \<mapsto> x)"
  using assms by (auto simp: entry_at_def fun_eq_iff)

text \<open>What \<open>put_bytes\<close> does to the objects: nothing, or the one new object.\<close>

lemma store_object_cases:
  assumes "store_object v dk d c fs = (r, gs)" and "of_shards fs (take 2 d) = Some Directory"
  shows "gs = fs \<and> (r = Inr () \<longrightarrow> (\<exists>old. entry_at fs d = Some (Object old) \<and> length old = length c \<and> ae_sha256 v old = d)) \<or>
    r = Inr () \<and> entry_at fs d = None \<and> entry_at gs = (entry_at fs)(d \<mapsto> Object c)"
  using assms(1) entry_at_write [OF assms(2), of "Object c"]
  by (auto simp: store_object_def write_object_def split: option.splits object_entry.splits if_splits)

lemma put_bytes_cases:
  assumes "put_bytes v dk c fs = (r, gs)"
  shows "entry_at gs = entry_at fs \<and> (\<forall>x. r = Inr x \<longrightarrow> x = (ae_sha256 v c, length c) \<and> length c \<le> ae_max_bytes v \<and>
      (\<exists>old. entry_at fs (ae_sha256 v c) = Some (Object old) \<and> length old = length c \<and> ae_sha256 v old = ae_sha256 v c)) \<or>
    r = Inr (ae_sha256 v c, length c) \<and> length c \<le> ae_max_bytes v \<and> entry_at fs (ae_sha256 v c) = None \<and>
      entry_at gs = (entry_at fs)(ae_sha256 v c \<mapsto> Object c)"
proof (cases "ae_max_bytes v < length c")
  case True
  with assms show ?thesis by (auto simp: put_bytes_def)
next
  case False
  let ?d = "ae_sha256 v c"
  show ?thesis
  proof (cases "directory_for (dk_mkdir dk) ?d True fs")
    case (Inl e)
    with False assms show ?thesis by (auto simp: put_bytes_def)
  next
    case (Inr fs1)
    obtain q hs where st: "store_object v dk ?d c fs1 = (q, hs)" by force
    from directory_for_ok [OF Inr] store_object_cases [OF st] False assms Inr st show ?thesis
      by (cases q) (auto simp: put_bytes_def)
  qed
qed

lemma put_bytes_ok:
  assumes "put_bytes v dk c fs = (Inr x, gs)"
  shows "x = (ae_sha256 v c, length c)" "length c \<le> ae_max_bytes v"
    "\<exists>o'. entry_at gs (ae_sha256 v c) = Some (Object o') \<and> length o' = length c \<and> ae_sha256 v o' = ae_sha256 v c"
  using put_bytes_cases [OF assms] by auto

text \<open>Intake: the rows stay; an object may be new, and then there was room for it.\<close>

definition intake_effect :: "attachment_env \<Rightarrow> intake \<Rightarrow> intake_world \<Rightarrow> attachment_store \<Rightarrow> attachment_store \<Rightarrow> bool" where
  "intake_effect v i w s t \<longleftrightarrow> entry_at (as_files t) = entry_at (as_files s) \<or>
     (\<not> cp_paused (as_capacity s) \<and> entry_at (as_files s) (ae_sha256 v (in_content i)) = None \<and>
      entry_at (as_files t) = (entry_at (as_files s))(ae_sha256 v (in_content i) \<mapsto> Object (in_content i)) \<and>
      (\<exists>free. dk_free (iw_disk w) = Some free \<and> ae_min_free v + int (length (in_content i)) \<le> free))"

lemma put_checked_files: "put_checked v dk c free n now s = (r, t) \<Longrightarrow>
  \<exists>q. put_bytes v dk c (as_files s) = (q, as_files t) \<and> as_rows t = as_rows s \<and> (\<forall>x. r = Inr x \<longrightarrow> q = Inr x)"
  by (auto simp: put_checked_def latch_capacity_pause_def split: prod.splits sum.splits if_splits)

lemma put_with_capacity_effect:
  assumes "put_with_capacity v (iw_disk w) (in_content i) now s = (r, t)"
  shows "intake_effect v i w s t" "as_rows t = as_rows s"
    "r = Inr x \<Longrightarrow> x = (ae_sha256 v (in_content i), length (in_content i)) \<and> length (in_content i) \<le> ae_max_bytes v \<and>
      (\<exists>o'. entry_at (as_files t) (fst x) = Some (Object o') \<and> length o' = snd x \<and> ae_sha256 v o' = fst x)"
proof -
  let ?c = "in_content i"
  consider (refused) "as_files t = as_files s" "as_rows t = as_rows s" "\<exists>e. r = Inl e"
    | (written) free q where "\<not> cp_paused (as_capacity s)" "dk_free (iw_disk w) = Some free"
        "entry_at (as_files s) (ae_sha256 v ?c) = None \<longrightarrow> ae_min_free v + int (length ?c) \<le> free"
        "put_bytes v (iw_disk w) ?c (as_files s) = (q, as_files t)" "as_rows t = as_rows s" "\<forall>x. r = Inr x \<longrightarrow> q = Inr x"
  proof (cases "cp_paused (as_capacity s) \<or> (\<exists>e. path_for (ae_sha256 v ?c) (as_files s) = Inl e) \<or> dk_free (iw_disk w) = None")
    case True
    with assms have "as_files t = as_files s \<and> as_rows t = as_rows s \<and> (\<exists>e. r = Inl e)"
      by (auto simp: put_with_capacity_def latch_capacity_pause_def split: if_splits sum.splits option.splits)
    with refused show thesis by blast
  next
    case False
    then obtain entry free where p: "path_for (ae_sha256 v ?c) (as_files s) = Inr entry" "dk_free (iw_disk w) = Some free"
      "\<not> cp_paused (as_capacity s)"
      by (cases "path_for (ae_sha256 v ?c) (as_files s)") auto
    let ?n = "if entry \<noteq> None then 0 else length ?c"
    show thesis
    proof (cases "free < ae_min_free v + int ?n")
      case True
      with assms p have "r = Inl capacity_error" "t = latch_capacity_pause (Some free) ?n ''insufficient_free_space'' now s"
        by (simp_all add: put_with_capacity_def)
      with refused show thesis by (simp add: latch_capacity_pause_def)
    next
      case False
      with assms p have "put_checked v (iw_disk w) ?c free ?n now (capacity_observed free ?n now s) = (r, t)"
        by (simp add: put_with_capacity_def)
      from put_checked_files [OF this] False p path_for_ok [OF p(1)] written show thesis
        by (auto simp: capacity_observed_def split: if_splits)
    qed
  qed
  note cases = this
  from cases show "intake_effect v i w s t"
  proof cases
    case written
    with put_bytes_cases [OF written(4)] show ?thesis by (auto simp: intake_effect_def)
  qed (simp add: intake_effect_def)
  from cases show "as_rows t = as_rows s" by cases
  assume r: "r = Inr x"
  from cases show "x = (ae_sha256 v ?c, length ?c) \<and> length ?c \<le> ae_max_bytes v \<and>
      (\<exists>o'. entry_at (as_files t) (fst x) = Some (Object o') \<and> length o' = snd x \<and> ae_sha256 v o' = fst x)"
  proof cases
    case written
    with r have "put_bytes v (iw_disk w) ?c (as_files s) = (Inr x, as_files t)" by simp
    from put_bytes_ok [OF this] show ?thesis by simp
  qed (use r in simp)
qed

lemma find_append_Some: "find P xs = None \<Longrightarrow> P a \<Longrightarrow> find P (xs @ [a]) = Some a"
  by (simp add: find_append_None)

lemma insert_attachment_cases:
  assumes "insert_attachment a rows = (found, t)"
  shows "t = rows \<or> t = rows @ [a] \<and> found = Some a \<and> att_id a \<notin> att_id ` set rows"
    "found = Some r \<Longrightarrow> r \<in> set t \<and> same_object a r"
proof -
  have same: "same_object a a" by (simp add: same_object_def)
  show "t = rows \<or> t = rows @ [a] \<and> found = Some a \<and> att_id a \<notin> att_id ` set rows"
  proof (cases "list_ex (\<lambda>r. att_id r = att_id a \<or> same_object a r) rows")
    case True
    with assms show ?thesis by (simp add: insert_attachment_def)
  next
    case False
    then have "find (same_object a) rows = None" "att_id a \<notin> att_id ` set rows"
      by (auto simp: find_None_iff list_ex_iff)
    with assms same False show ?thesis by (auto simp: insert_attachment_def find_append_None)
  qed
  assume "found = Some r"
  with assms show "r \<in> set t \<and> same_object a r"
    by (auto simp: insert_attachment_def Let_def dest: find_in split: if_splits)
qed

abbreviation digest_of :: "attachment_env \<Rightarrow> intake \<Rightarrow> str" where
  "digest_of v i \<equiv> ae_sha256 v (in_content i)"

text \<open>The object of an attachment: there, of the recorded size, with the recorded digest.\<close>

definition object_of :: "attachment_env \<Rightarrow> object_files \<Rightarrow> attachment \<Rightarrow> byte list \<Rightarrow> bool" where
  "object_of v fs a c \<longleftrightarrow> entry_at fs (att_sha256 a) = Some (Object c) \<and> ae_sha256 v c = att_sha256 a \<and> length c = att_size a \<and>
     att_size a \<le> ae_max_bytes v"

definition genuine :: "attachment_env \<Rightarrow> intake \<Rightarrow> intake_world \<Rightarrow> attachment" where
  "genuine v i w = new_attachment v i w (digest_of v i, length (in_content i))"

lemma record_attachment_cases:
  assumes "record_attachment a fails s = (r, t)"
  shows "as_files t = as_files s"
    "as_rows t = as_rows s \<or> as_rows t = as_rows s @ [a] \<and> r = Inr a \<and> att_id a \<notin> att_id ` set (as_rows s)"
    "r = Inr b \<Longrightarrow> b \<in> set (as_rows t) \<and> same_object a b"
proof -
  obtain found rows where ins: "insert_attachment a (as_rows s) = (found, rows)" by force
  note c = insert_attachment_cases [OF ins]
  from assms ins show "as_files t = as_files s"
    by (auto simp: record_attachment_def split: if_splits option.splits)
  from assms ins c(1) show "as_rows t = as_rows s \<or> as_rows t = as_rows s @ [a] \<and> r = Inr a \<and> att_id a \<notin> att_id ` set (as_rows s)"
    by (auto simp: record_attachment_def split: if_splits option.splits)
  assume "r = Inr b"
  with assms ins c(2) show "b \<in> set (as_rows t) \<and> same_object a b"
    by (auto simp: record_attachment_def split: if_splits option.splits)
qed

lemma ingest_content_cases:
  assumes "ingest_content v i w s = (r, t)"
  shows "intake_effect v i w s t \<and>
    (as_rows t = as_rows s \<or> r = Inr (genuine v i w) \<and> as_rows t = as_rows s @ [genuine v i w] \<and> iw_id w \<notin> att_id ` set (as_rows s) \<and>
      (\<exists>c. object_of v (as_files t) (genuine v i w) c)) \<and>
    (\<forall>a. r = Inr a \<longrightarrow> a \<in> set (as_rows t) \<and> att_channel a = in_channel i \<and> att_event_id a = in_event_id i \<and> att_sha256 a = digest_of v i)"
proof (cases "intake_fault v i")
  case (Some e)
  with assms show ?thesis by (auto simp: ingest_content_def intake_effect_def)
next
  case None
  obtain q u where put: "put_with_capacity v (iw_disk w) (in_content i) (iw_now w) s = (q, u)" by force
  note effect = put_with_capacity_effect [OF put]
  show ?thesis
  proof (cases q)
    case (Inl e)
    with assms None put effect show ?thesis by (auto simp: ingest_content_def)
  next
    case (Inr x)
    from effect(3) [OF Inr] obtain o' where x: "x = (digest_of v i, length (in_content i))" "length (in_content i) \<le> ae_max_bytes v"
      "entry_at (as_files u) (fst x) = Some (Object o')" "length o' = snd x" "ae_sha256 v o' = fst x" by blast
    from assms None put Inr x(1) have rec: "record_attachment (genuine v i w) (iw_database_fails w) u = (r, t)"
      by (simp add: ingest_content_def genuine_def)
    note c = record_attachment_cases [OF rec]
    have "intake_effect v i w s t" using effect(1) c(1) by (simp add: intake_effect_def)
    moreover have "object_of v (as_files t) (genuine v i w) o'"
      using x c(1) by (simp add: object_of_def genuine_def new_attachment_def)
    ultimately show ?thesis
      using c(2,3) effect(2) by (auto simp: genuine_def new_attachment_def same_object_def)
  qed
qed

text \<open>Steps that nobody else disturbs.\<close>

fun undisturbed :: "attachment_op \<Rightarrow> bool" where
  "undisturbed (Tamper _) = False"
| "undisturbed _ = True"

fun content_of :: "attachment_op \<Rightarrow> byte list set" where
  "content_of (Ingest i w) = {in_content i}"
| "content_of _ = {}"

lemma recheck_frame: "attachment_step v (Recheck free now) s = (r, t) \<Longrightarrow> as_rows t = as_rows s \<and> as_files t = as_files s"
  by (auto simp: recheck_capacity_def latch_capacity_pause_def capacity_observed_def Let_def split: option.splits)

definition sound_store :: "attachment_env \<Rightarrow> byte list set \<Rightarrow> attachment_store \<Rightarrow> bool" where
  "sound_store v C s \<longleftrightarrow> distinct (map att_id (as_rows s)) \<and> (\<forall>a \<in> set (as_rows s). \<exists>c. object_of v (as_files s) a c) \<and>
     (\<forall>d c. entry_at (as_files s) d = Some (Object c) \<longrightarrow> c \<in> C)"

lemma intake_effect_keeps: "intake_effect v i w s t \<Longrightarrow> keeps_objects (as_files s) (as_files t)"
  by (auto simp: intake_effect_def keeps_objects_def)

lemma object_of_keeps: "keeps_objects fs gs \<Longrightarrow> object_of v fs a c \<Longrightarrow> object_of v gs a c"
  by (auto simp: keeps_objects_def object_of_def)

lemma step_sound:
  assumes "attachment_step v x s = (r, t)" and "undisturbed x" and s: "sound_store v C s"
  shows "sound_store v (C \<union> content_of x) t \<and> keeps_objects (as_files s) (as_files t) \<and> set (as_rows s) \<subseteq> set (as_rows t)"
proof (cases x)
  case (Ingest i w)
  with assms(1) obtain q where run: "ingest_content v i w s = (q, t)" by (auto simp: map_prod_def split: prod.splits)
  note c = ingest_content_cases [OF run]
  have keeps: "keeps_objects (as_files s) (as_files t)" using c by (auto intro: intake_effect_keeps)
  have "distinct (map att_id (as_rows t))" "set (as_rows s) \<subseteq> set (as_rows t)"
    using c s by (auto simp: sound_store_def genuine_def new_attachment_def)
  moreover have "\<forall>a \<in> set (as_rows t). \<exists>c. object_of v (as_files t) a c"
    using c s keeps object_of_keeps [OF keeps] by (auto simp: sound_store_def) blast+
  moreover have "\<forall>d c. entry_at (as_files t) d = Some (Object c) \<longrightarrow> c \<in> C \<union> content_of x"
    using c s Ingest by (auto simp: sound_store_def intake_effect_def split: if_splits)
  ultimately show ?thesis using keeps by (simp add: sound_store_def)
next
  case (Recheck free now)
  with recheck_frame assms(1) have "as_rows t = as_rows s" "as_files t = as_files s" by blast+
  with s Recheck show ?thesis by (simp add: sound_store_def)
qed (use assms(2) in simp)

lemma attachment_run_Cons:
  assumes "attachment_run v (x # xs) s = (rs, u)"
  obtains r t rs' where "attachment_step v x s = (r, t)" "attachment_run v xs t = (rs', u)" "rs = r # rs'"
  using assms by (auto split: prod.splits)

lemma run_sound:
  assumes "attachment_run v xs s = (rs, t)" and "\<forall>x \<in> set xs. undisturbed x" and "sound_store v C s"
  shows "sound_store v (C \<union> \<Union> (content_of ` set xs)) t \<and> keeps_objects (as_files s) (as_files t) \<and> set (as_rows s) \<subseteq> set (as_rows t)"
  using assms
proof (induction xs arbitrary: s rs C)
  case (Cons x xs)
  from attachment_run_Cons [OF Cons.prems(1)] obtain r u rs' where
    u: "attachment_step v x s = (r, u)" "attachment_run v xs u = (rs', t)" .
  from step_sound [OF u(1) _ Cons.prems(3)] Cons.prems(2) have s: "sound_store v (C \<union> content_of x) u"
    "keeps_objects (as_files s) (as_files u)" "set (as_rows s) \<subseteq> set (as_rows u)" by auto
  from Cons.IH [OF u(2) _ s(1)] Cons.prems(2) s(2,3) show ?case by (auto intro: keeps_trans simp: Un_assoc)
qed simp

lemma in_zip_Cons: "(x, r) \<in> set (zip (y # ys) (q # qs)) \<longleftrightarrow> x = y \<and> r = q \<or> (x, r) \<in> set (zip ys qs)"
  by auto

text \<open>An attachment that intake returned is in the table from then on.\<close>

lemma returned_is_kept:
  assumes "attachment_run v xs s = (rs, t)" and "\<forall>x \<in> set xs. undisturbed x" and "sound_store v C s"
    and "(Ingest i w, Stored (Inr a)) \<in> set (zip xs rs)"
  shows "a \<in> set (as_rows t) \<and> att_channel a = in_channel i \<and> att_event_id a = in_event_id i \<and> att_sha256 a = digest_of v i"
  using assms
proof (induction xs arbitrary: s rs C)
  case (Cons x xs)
  from attachment_run_Cons [OF Cons.prems(1)] obtain r u rs' where
    u: "attachment_step v x s = (r, u)" "attachment_run v xs u = (rs', t)" "rs = r # rs'" .
  from step_sound [OF u(1) _ Cons.prems(3)] Cons.prems(2) have s: "sound_store v (C \<union> content_of x) u" by auto
  from Cons.prems(4) u(3) consider "x = Ingest i w" "r = Stored (Inr a)" | "(Ingest i w, Stored (Inr a)) \<in> set (zip xs rs')"
    by (auto simp: in_zip_Cons)
  then show ?case
  proof cases
    case 1
    with u(1) have "ingest_content v i w s = (Inr a, u)" by (auto simp: map_prod_def split: prod.splits)
    from ingest_content_cases [OF this] run_sound [OF u(2) _ s] Cons.prems(2) show ?thesis by auto
  next
    case 2
    from Cons.IH [OF u(2) _ s 2] Cons.prems(2) show ?thesis by simp
  qed
qed simp

lemma readable:
  assumes "sound_store v C s" and "a \<in> set (as_rows s)" and "\<And>c. digest_ok (ae_sha256 v c)"
  obtains c where "object_of v (as_files s) a c" "c \<in> C" "resolve_bound v s (att_id a) (att_channel a, att_chat_id a, att_event_id a) = Inr a"
    "read_bound v s (Some c) (att_id a) (att_channel a, att_chat_id a, att_event_id a) = Inr (a, c)"
proof -
  from assms(1,2) obtain c where c: "object_of v (as_files s) a c" "c \<in> C" by (auto simp: sound_store_def object_of_def)
  have row: "get_row att_id (att_id a) (as_rows s) = Some a"
    using assms(1,2) by (auto simp: sound_store_def intro: get_row_unique)
  have "path_for (att_sha256 a) (as_files s) = Inr (Some (Object c))"
    using c(1) assms(3) [of c]
    by (auto simp: path_for_def object_of_def directory_for_def entry_at_def split: if_splits)
  then have "resolve_bound v s (att_id a) (att_channel a, att_chat_id a, att_event_id a) = Inr a"
    using row c(1) by (simp add: resolve_bound_def size_checked_def object_of_def)
  with c that show thesis by (simp add: read_bound_def object_of_def)
qed

subsection \<open>Properties\<close>

text \<open>C36. What intake returned stays readable. In any sequence of intakes, failed writes included, and capacity checks over an
  object store that was empty, an attachment that an intake returned can be resolved at the end under its own channel, chat and event, and
  its object is the content of that intake, provided no two of the contents have the same digest.\<close>

theorem attachment_stays_readable:
  assumes "attachment_run v xs (attachment_store_init [] fs) = (rs, t)" and "\<forall>x \<in> set xs. undisturbed x"
    and "\<And>d. entry_at fs d = None" and "\<And>c. digest_ok (ae_sha256 v c)" and "inj_on (ae_sha256 v) (\<Union> (content_of ` set xs))"
    and "(Ingest i w, Stored (Inr a)) \<in> set (zip xs rs)"
  shows "resolve_bound v t (att_id a) (att_channel a, att_chat_id a, att_event_id a) = Inr a \<and>
    entry_at (as_files t) (att_sha256 a) = Some (Object (in_content i)) \<and>
    read_bound v t (Some (in_content i)) (att_id a) (att_channel a, att_chat_id a, att_event_id a) = Inr (a, in_content i)"
proof -
  have start: "sound_store v {} (attachment_store_init [] fs)" using assms(3) by (simp add: sound_store_def attachment_store_init_def)
  from run_sound [OF assms(1,2) start] have t: "sound_store v (\<Union> (content_of ` set xs)) t" by simp
  from returned_is_kept [OF assms(1,2) start assms(6)] have a: "a \<in> set (as_rows t)" "att_sha256 a = digest_of v i" by auto
  from readable [OF t a(1) assms(4)] obtain c where c: "object_of v (as_files t) a c" "c \<in> \<Union> (content_of ` set xs)"
    "resolve_bound v t (att_id a) (att_channel a, att_chat_id a, att_event_id a) = Inr a"
    "read_bound v t (Some c) (att_id a) (att_channel a, att_chat_id a, att_event_id a) = Inr (a, c)" .
  have "in_content i \<in> \<Union> (content_of ` set xs)" using assms(6) by (force dest: set_zip_leftD)
  with assms(5) c(1,2) a(2) have "c = in_content i" by (auto simp: object_of_def dest: inj_onD)
  with c show ?thesis by (simp add: object_of_def)
qed

lemma row_provenance:
  assumes "attachment_run v xs s = (rs, t)" and "a \<in> set (as_rows t)"
  shows "a \<in> set (as_rows s) \<or> (\<exists>i w. (Ingest i w, Stored (Inr a)) \<in> set (zip xs rs) \<and> a = genuine v i w)"
  using assms
proof (induction xs arbitrary: s rs)
  case (Cons x xs)
  from attachment_run_Cons [OF Cons.prems(1)] obtain r u rs' where
    u: "attachment_step v x s = (r, u)" "attachment_run v xs u = (rs', t)" "rs = r # rs'" .
  have "a \<in> set (as_rows u) \<Longrightarrow> a \<in> set (as_rows s) \<or> (\<exists>i w. x = Ingest i w \<and> r = Stored (Inr a) \<and> a = genuine v i w)"
  proof (cases x)
    case (Ingest i w)
    with u(1) obtain q where run: "ingest_content v i w s = (q, u)" "r = Stored q" by (auto simp: map_prod_def split: prod.splits)
    assume "a \<in> set (as_rows u)"
    with ingest_content_cases [OF run(1)] run(2) Ingest show ?thesis by auto
  next
    case (Recheck free now)
    then have "as_rows u = as_rows s" using u(1) recheck_frame by blast
    then show "a \<in> set (as_rows u) \<Longrightarrow> ?thesis" by simp
  qed (use u(1) in auto)
  with Cons.IH [OF u(2) Cons.prems(2)] u(3) show ?case by auto
qed simp

lemma size_checked_ok: "size_checked v r entry = Inr a \<Longrightarrow> a = r"
  by (auto simp: size_checked_def split: option.splits object_entry.splits if_splits)

lemma resolve_bound_ok: "resolve_bound v s k scope = Inr a \<Longrightarrow>
  get_row att_id k (as_rows s) = Some a \<and> (att_channel a, att_chat_id a, att_event_id a) = scope"
  unfolding resolve_bound_def
  by (cases "get_row att_id k (as_rows s)") (auto simp: bind_result_Inr_iff dest!: size_checked_ok split: if_splits)

lemma read_bound_ok: "read_bound v s later k scope = Inr (a, c) \<Longrightarrow>
  get_row att_id k (as_rows s) = Some a \<and> (att_channel a, att_chat_id a, att_event_id a) = scope \<and>
  length c = att_size a \<and> ae_sha256 v c = att_sha256 a"
  by (auto simp: read_bound_def bind_result_Inr_iff split: option.splits if_splits dest: resolve_bound_ok)

text \<open>C35. Only ingested content is read, and only in its own conversation. Whatever happens to the object files, between the
  operations of a run or between the check of a file and its reading, a read that succeeds returns an attachment that an intake for exactly
  that channel, chat and event made, and content of the length and the digest of the content of that intake.\<close>

theorem attachment_read_is_genuine:
  assumes "attachment_run v xs (attachment_store_init [] fs) = (rs, t)" and "read_bound v t later k scope = Inr (a, c)"
  shows "\<exists>i w. (Ingest i w, Stored (Inr a)) \<in> set (zip xs rs) \<and> scope = (in_channel i, in_chat_id i, in_event_id i) \<and> iw_id w = k \<and>
    length c = length (in_content i) \<and> ae_sha256 v c = digest_of v i"
proof -
  note row = read_bound_ok [OF assms(2)]
  from row get_row_in have "a \<in> set (as_rows t)" "att_id a = k" by fast+
  with row_provenance [OF assms(1)] row show ?thesis
    by (force simp: attachment_store_init_def genuine_def new_attachment_def)
qed

subsection \<open>The disk\<close>

definition rearms :: "attachment_env \<Rightarrow> attachment_op \<Rightarrow> bool" where
  "rearms v x \<longleftrightarrow> (case x of Recheck (Some free) _ \<Rightarrow> ae_min_free v \<le> free | _ \<Rightarrow> False)"

lemma paused_step:
  assumes "attachment_step v x s = (r, t)" and "undisturbed x" and "cp_paused (as_capacity s)" and "\<not> rearms v x"
  shows "as_rows t = as_rows s \<and> as_files t = as_files s \<and> cp_paused (as_capacity t) \<and> (\<forall>a. r \<noteq> Stored (Inr a))"
proof (cases x)
  case (Ingest i w)
  with assms show ?thesis
    by (auto simp: ingest_content_def put_with_capacity_def split: option.splits)
next
  case (Recheck free now)
  with assms show ?thesis
    by (auto simp: recheck_capacity_def rearms_def latch_capacity_pause_def Let_def split: option.splits if_splits)
qed (use assms(2) in simp)

lemma paused_run:
  assumes "attachment_run v xs s = (rs, t)" and "\<forall>x \<in> set xs. undisturbed x \<and> \<not> rearms v x" and "cp_paused (as_capacity s)"
  shows "as_rows t = as_rows s \<and> as_files t = as_files s \<and> cp_paused (as_capacity t) \<and> (\<forall>a. Stored (Inr a) \<notin> set rs)"
  using assms
proof (induction xs arbitrary: s rs)
  case (Cons x xs)
  from attachment_run_Cons [OF Cons.prems(1)] obtain r u rs' where
    u: "attachment_step v x s = (r, u)" "attachment_run v xs u = (rs', t)" "rs = r # rs'" .
  from paused_step [OF u(1)] Cons.prems(2,3) have s: "as_rows u = as_rows s" "as_files u = as_files s" "cp_paused (as_capacity u)"
    "\<forall>a. r \<noteq> Stored (Inr a)" by auto
  from Cons.IH [OF u(2) _ s(3)] Cons.prems(2) s u(3) show ?case by auto
qed simp

lemma put_bytes_error: "put_bytes v dk c fs = (Inl e, gs) \<Longrightarrow> e \<noteq> capacity_error"
  by (auto simp: put_bytes_def store_object_def write_object_def directory_for_def io_error_def object_store_error_def disk_error_def
      no_space_error_def capacity_error_def Let_def
      split: option.splits prod.splits sum.splits if_splits shard.splits object_entry.splits io_fault.splits)

lemma put_checked_refusal: "put_checked v dk c free n now s = (Inl capacity_error, t) \<Longrightarrow> cp_paused (as_capacity t)"
  by (auto simp: put_checked_def latch_capacity_pause_def dest: put_bytes_error split: prod.splits sum.splits if_splits)

lemma path_for_error: "path_for d fs \<noteq> Inl capacity_error"
  by (auto simp: path_for_def directory_for_def object_store_error_def capacity_error_def bind_result_def
      split: option.splits shard.splits if_splits)

lemma put_refusal: "put_with_capacity v dk c now s = (Inl capacity_error, t) \<Longrightarrow> cp_paused (as_capacity t)"
  using path_for_error [of "ae_sha256 v c" "as_files s"]
  by (auto simp: put_with_capacity_def latch_capacity_pause_def Let_def dest: put_checked_refusal split: option.splits sum.splits if_splits)

lemma refusal_pauses: "ingest_content v i w s = (Inl capacity_error, t) \<Longrightarrow> cp_paused (as_capacity t)"
  by (auto simp: ingest_content_def record_attachment_def dest: put_refusal split: option.splits prod.splits sum.splits if_splits)
    (auto simp: capacity_error_def)

text \<open>C37. The breaker stays open. Once an intake has failed for want of space, or because the free space could not be read, every
  later intake is refused and neither the table nor the object files change, in any sequence of intakes and capacity checks,
  until a check finds the reserve free.\<close>

theorem breaker_latches:
  assumes "ingest_content v i w s = (Inl capacity_error, u)" and "attachment_run v xs u = (rs, t)"
    and "\<forall>x \<in> set xs. undisturbed x \<and> \<not> rearms v x"
  shows "as_rows t = as_rows u \<and> as_files t = as_files u \<and> cp_paused (as_capacity t) \<and> (\<forall>a. Stored (Inr a) \<notin> set rs)"
  using paused_run [OF assms(2,3) refusal_pauses [OF assms(1)]] .

text \<open>The reserve is kept. An operation changes no object, or adds one whose size the free space exceeded by at least the
  reserve, while the breaker was closed.\<close>

theorem object_keeps_reserve:
  assumes "attachment_step v x s = (r, t)" and "undisturbed x" and "entry_at (as_files t) d \<noteq> entry_at (as_files s) d"
  shows "\<exists>i w free. x = Ingest i w \<and> dk_free (iw_disk w) = Some free \<and> ae_min_free v + int (length (in_content i)) \<le> free \<and>
    d = digest_of v i \<and> entry_at (as_files s) d = None \<and> entry_at (as_files t) d = Some (Object (in_content i)) \<and>
    \<not> cp_paused (as_capacity s)"
proof (cases x)
  case (Ingest i w)
  with assms(1) obtain q where run: "ingest_content v i w s = (q, t)" by (auto simp: map_prod_def split: prod.splits)
  from ingest_content_cases [OF run] assms(3) Ingest show ?thesis
    by (auto simp: intake_effect_def split: if_splits)
next
  case (Recheck free now)
  with recheck_frame assms(1) have "as_files t = as_files s" by blast
  with assms(3) show ?thesis by simp
qed (use assms(2) in simp)

subsection \<open>Witnesses\<close>

text \<open>Two contents, a digest that tells them apart, and a disk with little room.\<close>

definition sample_store_env :: attachment_env where
  "sample_store_env = \<lparr>ae_sha256 = (\<lambda>c. replicate 64 (48 + length c mod 10)), ae_lower = (\<lambda>s. s), ae_max_bytes = 5, ae_min_free = 10\<rparr>"

definition no_files :: object_files where
  "no_files = \<lparr>of_shards = (\<lambda>_. None), of_entries = (\<lambda>_. None)\<rparr>"

definition sample_intake :: "byte list \<Rightarrow> intake" where
  "sample_intake c = \<lparr>in_channel = lit ''wechat'', in_chat_id = lit ''chat'', in_event_id = lit ''event'', in_content = c,
     in_media_type = lit ''image/png'', in_original_name = Some (lit ''a/b.png'')\<rparr>"

definition intake_with :: "int option \<Rightarrow> uuid \<Rightarrow> intake_world" where
  "intake_with free k = \<lparr>iw_disk = \<lparr>dk_free = free, dk_mkdir = None, dk_read = None, dk_write = None\<rparr>, iw_now = 7, iw_id = k,
     iw_database_fails = False\<rparr>"

definition sample_attachment :: "byte list \<Rightarrow> uuid \<Rightarrow> attachment" where
  "sample_attachment c k = genuine sample_store_env (sample_intake c) (intake_with None k)"

definition sample_ops :: "attachment_op list" where
  "sample_ops = [Ingest (sample_intake [1]) (intake_with (Some 20) (lit ''k'')), Recheck (Some 11) 8,
     Ingest (sample_intake [1, 2]) (intake_with (Some 11) (lit ''l'')), Ingest (sample_intake [1]) (intake_with (Some 20) (lit ''m''))]"

definition empty_start :: attachment_store where
  "empty_start = attachment_store_init [] no_files"

lemma sample_outcomes: "fst (attachment_run sample_store_env sample_ops empty_start) =
  [Stored (Inr (sample_attachment [1] (lit ''k''))),
   Rechecked (Inr \<lparr>cp_paused = False, cp_last_free = Some 11, cp_required = Some 0, cp_reason = None, cp_checked_at = Some 8, cp_triggered_at = None\<rparr>),
   Stored (Inl capacity_error), Stored (Inl capacity_error)]"
  by code_simp

lemma sample_digest: "digest_ok (ae_sha256 sample_store_env c)"
proof -
  have "48 + length c mod 10 \<le> 57" using mod_less_divisor [of 10 "length c"] by linarith
  then show ?thesis by (auto simp: digest_ok_def sample_store_env_def list_all_iff)
qed

definition sample_end :: attachment_store where
  "sample_end = snd (attachment_run sample_store_env sample_ops empty_start)"

definition sample_scope :: "str \<times> str \<times> str" where
  "sample_scope = (lit ''wechat'', lit ''chat'', lit ''event'')"

lemma sample_run: "attachment_run sample_store_env sample_ops (attachment_store_init [] no_files) =
  (fst (attachment_run sample_store_env sample_ops empty_start), sample_end)"
  by (simp add: sample_end_def empty_start_def)

lemma sample_returned:
  "(Ingest (sample_intake [1]) (intake_with (Some 20) (lit ''k'')), Stored (Inr (sample_attachment [1] (lit ''k''))))
    \<in> set (zip sample_ops (fst (attachment_run sample_store_env sample_ops empty_start)))"
  unfolding sample_outcomes by (simp add: sample_ops_def)

lemma sample_undisturbed: "\<forall>x \<in> set sample_ops. undisturbed x"
  by (simp add: sample_ops_def)

lemma sample_no_files: "entry_at no_files d = None"
  by (simp add: entry_at_def no_files_def)

lemma sample_no_collision: "inj_on (ae_sha256 sample_store_env) (\<Union> (content_of ` set sample_ops))"
proof -
  have "\<Union> (content_of ` set sample_ops) = {[1], [1, 2]}" by (auto simp: sample_ops_def sample_intake_def)
  then show ?thesis by (simp add: sample_store_env_def)
qed

lemma sample_fields: "att_id (sample_attachment c k) = k" "att_channel (sample_attachment c k) = lit ''wechat''"
  "att_chat_id (sample_attachment c k) = lit ''chat''" "att_event_id (sample_attachment c k) = lit ''event''"
  "in_content (sample_intake c) = c"
  by (simp_all add: sample_attachment_def genuine_def new_attachment_def sample_intake_def intake_with_def)

theorem attachment_stays_readable_witness:
  "resolve_bound sample_store_env sample_end (lit ''k'') sample_scope = Inr (sample_attachment [1] (lit ''k'')) \<and>
   read_bound sample_store_env sample_end (Some [1]) (lit ''k'') sample_scope = Inr (sample_attachment [1] (lit ''k''), [1])"
  using attachment_stays_readable [OF sample_run sample_undisturbed sample_no_files sample_digest sample_no_collision sample_returned]
  by (simp add: sample_fields sample_scope_def)

lemma sample_read_back: "read_bound sample_store_env sample_end (Some [1]) (lit ''k'') sample_scope = Inr (sample_attachment [1] (lit ''k''), [1])"
  by code_simp

theorem attachment_read_is_genuine_witness:
  "\<exists>i w. (Ingest i w, Stored (Inr (sample_attachment [1] (lit ''k'')))) \<in>
       set (zip sample_ops (fst (attachment_run sample_store_env sample_ops empty_start))) \<and>
     sample_scope = (in_channel i, in_chat_id i, in_event_id i) \<and> iw_id w = lit ''k'' \<and>
     length ([1] :: byte list) = length (in_content i) \<and> ae_sha256 sample_store_env [1] = digest_of sample_store_env i"
  by (rule attachment_read_is_genuine [OF sample_run sample_read_back])

definition refused_store :: attachment_store where
  "refused_store = snd (ingest_content sample_store_env (sample_intake [1, 2]) (intake_with (Some 11) (lit ''l'')) empty_start)"

definition later_ops :: "attachment_op list" where
  "later_ops = [Ingest (sample_intake [1]) (intake_with (Some 20) (lit ''m'')), Recheck (Some 9) 8, Recheck None 9]"

lemma sample_refusal: "fst (ingest_content sample_store_env (sample_intake [1, 2]) (intake_with (Some 11) (lit ''l'')) empty_start) = Inl capacity_error"
  by code_simp

lemma later_run: "attachment_run sample_store_env later_ops refused_store =
    (fst (attachment_run sample_store_env later_ops refused_store), snd (attachment_run sample_store_env later_ops refused_store))"
  by simp

lemma later_no_rearm: "\<forall>x \<in> set later_ops. undisturbed x \<and> \<not> rearms sample_store_env x"
  by (simp add: later_ops_def rearms_def sample_store_env_def)

theorem breaker_latches_witness:
  "as_rows (snd (attachment_run sample_store_env later_ops refused_store)) = as_rows refused_store \<and>
   cp_paused (as_capacity (snd (attachment_run sample_store_env later_ops refused_store)))"
proof -
  have "ingest_content sample_store_env (sample_intake [1, 2]) (intake_with (Some 11) (lit ''l'')) empty_start = (Inl capacity_error, refused_store)"
    using sample_refusal by (simp add: refused_store_def prod_eq_iff)
  from breaker_latches [OF this later_run later_no_rearm] show ?thesis by simp
qed

lemma sample_first: "\<exists>r. attachment_step sample_store_env (Ingest (sample_intake [1]) (intake_with (Some 20) (lit ''k''))) empty_start = (r, snd
    (attachment_step sample_store_env (Ingest (sample_intake [1]) (intake_with (Some 20) (lit ''k''))) empty_start))"
  by (metis prod.collapse)

lemma sample_written: "entry_at (as_files (snd (attachment_step sample_store_env
    (Ingest (sample_intake [1]) (intake_with (Some 20) (lit ''k''))) empty_start))) (replicate 64 49) \<noteq>
  entry_at (as_files empty_start) (replicate 64 49)"
  by code_simp

theorem object_keeps_reserve_witness:
  "\<exists>i w free. Ingest (sample_intake [1]) (intake_with (Some 20) (lit ''k'')) = Ingest i w \<and> dk_free (iw_disk w) = Some free \<and>
     ae_min_free sample_store_env + int (length (in_content i)) \<le> free"
proof -
  obtain r where r: "attachment_step sample_store_env (Ingest (sample_intake [1]) (intake_with (Some 20) (lit ''k''))) empty_start = (r, snd
    (attachment_step sample_store_env (Ingest (sample_intake [1]) (intake_with (Some 20) (lit ''k''))) empty_start))"
    using sample_first by blast
  from object_keeps_reserve [OF r _ sample_written] show ?thesis by auto
qed

end
