(* ===== verification/Backup.thy ===== *)
theory Backup
  imports Restore_Switch Json_Text Attachments "HOL-Library.AList"
begin

text \<open>
  Backups (\<open>backup.py\<close>): the inventory of the object files, the archive that a backup writes, the validation and staging of an
  archive, and the restore, which is all or nothing. A zip archive is the list of its members; what the archive of an attacker says
  about itself and what reading it gives are arbitrary.
\<close>

subsection \<open>Object files\<close>

text \<open>A directory lists its entries with distinct names, in any order.\<close>

datatype node = File (file_bytes: "byte list") | Dir (dir_entries: "(str \<times> node) list") | Other_Node

text \<open>The parameters: the digest, what \<open>Connection.backup\<close> copies from a database and its write-ahead log, \<open>PRAGMA integrity_check\<close>,
  the \<open>json\<close> module (\<open>None\<close> for a text that is not UTF-8 or not JSON), \<open>str.casefold\<close>, the clock's text and the profile.\<close>

record backup_env =
  bk_sha256 :: "byte list \<Rightarrow> str"
  bk_snapshot :: "byte list \<Rightarrow> byte list option \<Rightarrow> byte list result"
  bk_intact :: "byte list \<Rightarrow> bool"
  bk_dumps :: "json \<Rightarrow> byte list"
  bk_loads :: "byte list \<Rightarrow> json option"
  bk_casefold :: "str \<Rightarrow> str"
  bk_profile :: str

definition hex_text :: "str \<Rightarrow> bool" where
  "hex_text s \<longleftrightarrow> list_all (\<lambda>c. 48 \<le> c \<and> c \<le> 57 \<or> 97 \<le> c \<and> c \<le> 102) s"

text \<open>An object of the inventory: its shard and digest, and its content. The inventory itself holds name, digest and size.\<close>

definition object_name :: "str \<Rightarrow> str \<Rightarrow> str" where
  "object_name shard digest = shard @ 47 # digest"

definition shard_item :: "backup_env \<Rightarrow> str \<Rightarrow> str \<times> node \<Rightarrow> (str \<times> byte list) result" where
  "shard_item v shard item =
     (case snd item of
        File c \<Rightarrow>
          if length (fst item) \<noteq> 64 \<or> \<not> hex_text (fst item) \<or> take 2 (fst item) \<noteq> shard
          then Inl (backup_error ''object store contains a non-addressed object'')
          else if bk_sha256 v c \<noteq> fst item then Inl (backup_error ''content-addressed object failed digest validation'')
          else Inr (fst item, c)
      | _ \<Rightarrow> Inl (backup_error ''object store contains a non-addressed object''))"

definition shard_items :: "backup_env \<Rightarrow> str \<times> node \<Rightarrow> (str \<times> byte list) list result" where
  "shard_items v shard =
     (case snd shard of
        Dir items \<Rightarrow>
          if length (fst shard) \<noteq> 2 \<or> \<not> hex_text (fst shard) then Inl (backup_error ''object store contains an invalid shard'')
          else map_results (shard_item v (fst shard)) (sort_items items)
      | _ \<Rightarrow> Inl (backup_error ''object store contains an invalid shard''))"

definition object_listing :: "backup_env \<Rightarrow> node option \<Rightarrow> (str \<times> byte list) list result" where
  "object_listing v store =
     (case store of
        None \<Rightarrow> Inr []
      | Some (Dir shards) \<Rightarrow> bind_result (map_results (shard_items v) (sort_items shards)) (\<lambda>xss. Inr (concat xss))
      | Some _ \<Rightarrow> Inl (backup_error ''object store root is not a regular directory''))"

record object_meta =
  meta_name :: str
  meta_sha256 :: str
  meta_size :: nat

definition meta_of :: "str \<times> byte list \<Rightarrow> object_meta" where
  "meta_of x = \<lparr>meta_name = object_name (take 2 (fst x)) (fst x), meta_sha256 = fst x, meta_size = length (snd x)\<rparr>"

definition object_inventory :: "backup_env \<Rightarrow> node option \<Rightarrow> object_meta list result" where
  "object_inventory v store = bind_result (object_listing v store) (\<lambda>xs. Inr (map meta_of xs))"

subsection \<open>Writing a backup\<close>

record member =
  zm_name :: str
  zm_mode :: nat
  zm_flags :: nat
  zm_method :: nat
  zm_size :: nat
  zm_content :: "byte list result"

definition zip_member :: "str \<Rightarrow> byte list \<Rightarrow> member" where
  "zip_member name c = \<lparr>zm_name = name, zm_mode = 33152, zm_flags = 0, zm_method = 8, zm_size = length c, zm_content = Inr c\<rparr>"

record profile_files =
  pf_database :: "byte list option"
  pf_wal :: "byte list option"
  pf_shm :: "byte list option"
  pf_objects :: "node option"

definition sqlite_snapshot :: "backup_env \<Rightarrow> profile_files \<Rightarrow> byte list result" where
  "sqlite_snapshot v p =
     (case pf_database p of
        None \<Rightarrow> Inl (backup_error ''database does not exist'')
      | Some db \<Rightarrow> bind_result (bk_snapshot v db (pf_wal p)) (\<lambda>copy.
          if bk_intact v copy then Inr copy else Inl (backup_error ''database integrity check failed'')))"

definition database_name :: "backup_env \<Rightarrow> str" where
  "database_name v = bk_profile v @ lit ''.db''"

definition meta_json :: "object_meta \<Rightarrow> json" where
  "meta_json m = JObj [(lit ''name'', JStr (meta_name m)), (lit ''sha256'', JStr (meta_sha256 m)), (lit ''size'', JInt (int (meta_size m)))]"

definition manifest_json :: "backup_env \<Rightarrow> str \<Rightarrow> byte list \<Rightarrow> object_meta list \<Rightarrow> json" where
  "manifest_json v created copy ms = JObj [(lit ''format'', JInt 1), (lit ''profile'', JStr (bk_profile v)), (lit ''created_at'', JStr created),
     (lit ''database'', JObj [(lit ''name'', JStr (database_name v)), (lit ''sha256'', JStr (bk_sha256 v copy)), (lit ''size'', JInt (int (length copy)))]),
     (lit ''objects'', JList (map meta_json ms))]"

definition database_member :: "backup_env \<Rightarrow> str" where
  "database_member v = lit ''database/'' @ database_name v"

definition object_member :: "str \<Rightarrow> str" where
  "object_member name = lit ''objects/'' @ name"

definition archive_of :: "backup_env \<Rightarrow> str \<Rightarrow> byte list \<Rightarrow> (str \<times> byte list) list \<Rightarrow> member list" where
  "archive_of v created copy xs =
     zip_member (lit ''manifest.json'') (bk_dumps v (manifest_json v created copy (map meta_of xs))) #
     zip_member (database_member v) copy # map (\<lambda>x. zip_member (object_member (meta_name (meta_of x))) (snd x)) xs"

definition create_backup :: "backup_env \<Rightarrow> str \<Rightarrow> bool \<Rightarrow> profile_files \<Rightarrow> member list result" where
  "create_backup v created exists p =
     (if exists then Inl (backup_error ''refusing to overwrite an existing backup'')
      else bind_result (sqlite_snapshot v p) (\<lambda>copy.
        bind_result (object_listing v (pf_objects p)) (\<lambda>xs. Inr (archive_of v created copy xs))))"

subsection \<open>Reading a backup\<close>

text \<open>\<open>PurePosixPath(name)\<close>: a name that leaves the archive's root, or names a directory.\<close>

definition unsafe_name :: "str \<Rightarrow> bool" where
  "unsafe_name n \<longleftrightarrow> n = [] \<or> 92 \<in> set n \<or> 0 \<in> set n \<or> hd n = 47 \<or> [46, 46] \<in> set (split_at 47 n) \<or> last n = 47"

definition member_fault :: "backup_env \<Rightarrow> str set \<Rightarrow> member \<Rightarrow> string option" where
  "member_fault v folded m =
     (if unsafe_name (zm_name m) then Some ''backup contains an unsafe or unsupported path''
      else if zm_mode m div 4096 mod 16 = 10 then Some ''backup contains a symbolic link''
      else if odd (zm_flags m) then Some ''encrypted ZIP members are unsupported''
      else if zm_method m \<notin> {0, 8} then Some ''backup uses an unsupported compression method''
      else if bk_casefold v (zm_name m) \<in> folded then Some ''backup contains duplicate member names''
      else None)"

fun scan_members :: "backup_env \<Rightarrow> nat \<Rightarrow> str set \<Rightarrow> nat \<Rightarrow> member list \<Rightarrow> unit result" where
  "scan_members v maximum folded used [] = Inr ()"
| "scan_members v maximum folded used (m # ms) =
     (case member_fault v folded m of
        Some e \<Rightarrow> Inl (backup_error e)
      | None \<Rightarrow>
          if maximum < used + zm_size m then Inl (backup_error ''backup exceeds the restore size limit'')
          else scan_members v maximum (insert (bk_casefold v (zm_name m)) folded) (used + zm_size m) ms)"

definition find_member :: "str \<Rightarrow> member list \<Rightarrow> member option" where
  "find_member name ms = find (\<lambda>m. zm_name m = name) ms"

definition read_manifest :: "backup_env \<Rightarrow> member list \<Rightarrow> dict result" where
  "read_manifest v ms =
     (case find_member (lit ''manifest.json'') ms of
        None \<Rightarrow> Inl (backup_error ''backup manifest is missing or too large'')
      | Some m \<Rightarrow>
          if 16 * 1024 * 1024 < zm_size m then Inl (backup_error ''backup manifest is missing or too large'')
          else (case zm_content m of
            Inl e \<Rightarrow> Inl (if e = disk_error then backup_error ''backup manifest is missing or invalid'' else e)
          | Inr c \<Rightarrow>
              (case bk_loads v c of
                 None \<Rightarrow> Inl (backup_error ''backup manifest is missing or invalid'')
               | Some (JObj d) \<Rightarrow> Inr d
               | Some _ \<Rightarrow> Inl (backup_error ''backup manifest must be an object''))))"

definition json_is_one :: "json option \<Rightarrow> bool" where
  "json_is_one j \<longleftrightarrow> j = Some (JInt 1) \<or> j = Some (JBool True) \<or> j = Some (JFloat 1)"

definition sha_text :: "str \<Rightarrow> bool" where
  "sha_text s \<longleftrightarrow> length s = 64 \<and> hex_text s"

definition object_entry_of :: "json \<Rightarrow> object_meta result" where
  "object_entry_of j =
     (case j of
        JObj d \<Rightarrow>
          if fst ` set d \<noteq> {lit ''name'', lit ''sha256'', lit ''size''} then Inl (backup_error ''backup object metadata is invalid'')
          else (case (dget d ''name'', dget d ''sha256'', dget d ''size'') of
            (Some (JStr name), Some (JStr digest), Some (JInt n)) \<Rightarrow>
              if n < 0 \<or> name \<noteq> object_name (take 2 digest) digest \<or> \<not> sha_text digest
              then Inl (backup_error ''backup object inventory is not content-addressed'')
              else Inr \<lparr>meta_name = name, meta_sha256 = digest, meta_size = nat n\<rparr>
          | _ \<Rightarrow> Inl (backup_error ''backup object inventory is not content-addressed''))
      | _ \<Rightarrow> Inl (backup_error ''backup object metadata is invalid''))"

fun object_entries :: "backup_env \<Rightarrow> str set \<Rightarrow> json list \<Rightarrow> object_meta list result" where
  "object_entries v seen [] = Inr []"
| "object_entries v seen (j # js) =
     bind_result (object_entry_of j) (\<lambda>m.
       if bk_casefold v (meta_name m) \<in> seen then Inl (backup_error ''backup object inventory is not content-addressed'')
       else bind_result (object_entries v (insert (bk_casefold v (meta_name m)) seen) js) (\<lambda>ms. Inr (m # ms)))"

definition database_meta :: "backup_env \<Rightarrow> dict \<Rightarrow> (str \<times> nat) result" where
  "database_meta v d =
     (if dget d ''name'' \<noteq> Some (JStr (database_name v)) then Inl (backup_error ''backup database name does not match the profile'')
      else (case (dget d ''sha256'', dget d ''size'') of
        (Some (JStr digest), Some (JInt n)) \<Rightarrow>
          if \<not> sha_text digest \<or> n < 1 then Inl (backup_error ''backup database metadata is invalid'') else Inr (digest, nat n)
      | _ \<Rightarrow> Inl (backup_error ''backup database metadata is invalid'')))"

definition member_size :: "str \<Rightarrow> member list \<Rightarrow> nat option" where
  "member_size name ms = map_option zm_size (find_member name ms)"

definition members_match :: "backup_env \<Rightarrow> member list \<Rightarrow> str \<times> nat \<Rightarrow> object_meta list \<Rightarrow> unit result" where
  "members_match v ms db os =
     (if zm_name ` set ms \<noteq> {lit ''manifest.json'', database_member v} \<union> (object_member \<circ> meta_name) ` set os
      then Inl (backup_error ''backup members do not exactly match the manifest'')
      else if member_size (database_member v) ms \<noteq> Some (snd db) then Inl (backup_error ''backup database size does not match its manifest'')
      else if \<not> list_all (\<lambda>m. member_size (object_member (meta_name m)) ms = Some (meta_size m)) os
      then Inl (backup_error ''backup object size does not match its manifest'')
      else Inr ())"

definition validated_archive_members :: "backup_env \<Rightarrow> nat \<Rightarrow> member list \<Rightarrow> ((str \<times> nat) \<times> object_meta list) result" where
  "validated_archive_members v maximum ms =
     bind_result (scan_members v maximum {} 0 ms) (\<lambda>_.
     bind_result (read_manifest v ms) (\<lambda>d.
     if \<not> json_is_one (dget d ''format'') \<or> dget d ''profile'' \<noteq> Some (JStr (bk_profile v))
     then Inl (backup_error ''backup format or profile does not match this runtime'')
     else (case (dget d ''database'', dget d ''objects'') of
       (Some (JObj database), Some (JList objects)) \<Rightarrow>
         bind_result (database_meta v database) (\<lambda>db.
         bind_result (object_entries v {} objects) (\<lambda>os.
         bind_result (members_match v ms db os) (\<lambda>_. Inr (db, os))))
     | _ \<Rightarrow> Inl (backup_error ''backup manifest lacks a complete object inventory''))))"

subsection \<open>Restoring\<close>

text \<open>The world of a restore: the lock, free space, failing extractions (by position), the calls that fail in the switch, and what
  the backup of the current state needs.\<close>

record restore_world =
  rw_running :: bool
  rw_free :: int
  rw_stage_fault :: "nat \<Rightarrow> exn option"
  rw_mkdir_fails :: bool
  rw_faults :: "bool list"
  rw_created :: str
  rw_backup_exists :: bool

definition extract_member :: "backup_env \<Rightarrow> exn option \<Rightarrow> member list \<Rightarrow> str \<Rightarrow> str \<Rightarrow> nat \<Rightarrow> byte list result" where
  "extract_member v fault ms name digest n =
     (case find_member name ms of
        None \<Rightarrow> Inl KeyError
      | Some m \<Rightarrow>
          (case fault of
             Some e \<Rightarrow> Inl e
           | None \<Rightarrow> bind_result (zm_content m) (\<lambda>c.
               if n < length c then Inl (backup_error ''backup member exceeds its declared size'')
               else if length c \<noteq> n \<or> bk_sha256 v c \<noteq> digest
               then Inl (backup_error ''backup member digest or size does not match its manifest'')
               else Inr c)))"

fun extract_objects :: "backup_env \<Rightarrow> (nat \<Rightarrow> exn option) \<Rightarrow> nat \<Rightarrow> member list \<Rightarrow> object_meta list \<Rightarrow> (str \<times> byte list) list result" where
  "extract_objects v faults i ms [] = Inr []"
| "extract_objects v faults i ms (m # os) =
     bind_result (extract_member v (faults i) ms (object_member (meta_name m)) (meta_sha256 m) (meta_size m)) (\<lambda>c.
     bind_result (extract_objects v faults (Suc i) ms os) (\<lambda>xs. Inr ((meta_sha256 m, c) # xs)))"

definition add_object :: "str \<times> byte list \<Rightarrow> (str \<times> node) list \<Rightarrow> (str \<times> node) list" where
  "add_object x shards =
     (let shard = take 2 (fst x) in
      case map_of shards shard of
        Some (Dir items) \<Rightarrow> AList.update shard (Dir (items @ [(fst x, File (snd x))])) shards
      | _ \<Rightarrow> shards @ [(shard, Dir [(fst x, File (snd x))])])"

definition staged_objects :: "(str \<times> byte list) list \<Rightarrow> node" where
  "staged_objects xs = Dir (fold add_object xs [])"

definition stage_restore :: "backup_env \<Rightarrow> restore_world \<Rightarrow> nat \<Rightarrow> member list \<Rightarrow> (byte list \<times> node) result" where
  "stage_restore v w maximum ms =
     bind_result (validated_archive_members v maximum ms) (\<lambda>(db, os).
     if rw_free w < int (sum_list (map zm_size ms)) + 64 * 1024 * 1024
     then Inl (backup_error ''insufficient free space to stage the restore safely'')
     else
       bind_result (extract_member v (rw_stage_fault w 0) ms (database_member v) (fst db) (snd db)) (\<lambda>copy.
       bind_result (extract_objects v (rw_stage_fault w) 1 ms os) (\<lambda>xs.
       bind_result (object_inventory v (Some (staged_objects xs))) (\<lambda>inventory.
       if inventory \<noteq> os then Inl (backup_error ''staged object inventory failed validation'')
       else if \<not> bk_intact v copy then Inl (backup_error ''restored database failed integrity_check'')
       else Inr (copy, staged_objects xs)))))"

datatype stored_file = Plain "byte list" | Tree node

definition slots_of :: "profile_files \<Rightarrow> byte list \<times> node \<Rightarrow> slot \<Rightarrow> stored_file option" where
  "slots_of p new a =
     (case a of
        Database \<Rightarrow> map_option Plain (pf_database p)
      | Wal \<Rightarrow> map_option Plain (pf_wal p)
      | Shm \<Rightarrow> map_option Plain (pf_shm p)
      | Objects \<Rightarrow> map_option Tree (pf_objects p)
      | Staged_Database \<Rightarrow> Some (Plain (fst new))
      | Staged_Objects \<Rightarrow> Some (Tree (snd new))
      | _ \<Rightarrow> None)"

definition plain_file :: "stored_file option \<Rightarrow> byte list option" where
  "plain_file f = (case f of Some (Plain c) \<Rightarrow> Some c | _ \<Rightarrow> None)"

definition tree_file :: "stored_file option \<Rightarrow> node option" where
  "tree_file f = (case f of Some (Tree t) \<Rightarrow> Some t | _ \<Rightarrow> None)"

text \<open>The staging directory, with what was moved aside, is removed in the end: the profile's own paths are left.\<close>

definition profile_at :: "(slot \<Rightarrow> stored_file option) \<Rightarrow> profile_files" where
  "profile_at there = \<lparr>pf_database = plain_file (there Database), pf_wal = plain_file (there Wal), pf_shm = plain_file (there Shm),
     pf_objects = tree_file (there Objects)\<rparr>"

definition install_restore :: "restore_world \<Rightarrow> byte list \<times> node \<Rightarrow> profile_files \<Rightarrow> unit result \<times> profile_files" where
  "install_restore w new p =
     (if rw_mkdir_fails w then (Inl disk_error, p)
      else (case atomic_install_restore (switch_start (slots_of p new) (rw_faults w)) of
        (r, t) \<Rightarrow> (r, profile_at (sw_at t))))"

definition preserve_backup :: "backup_env \<Rightarrow> restore_world \<Rightarrow> bool \<Rightarrow> profile_files \<Rightarrow> member list option result" where
  "preserve_backup v w preserve p =
     (if preserve \<and> pf_database p \<noteq> None
      then bind_result (create_backup v (rw_created w) (rw_backup_exists w) p) (\<lambda>ms. Inr (Some ms))
      else Inr None)"

text \<open>\<open>paths.ensure()\<close> creates the object store's directory.\<close>

definition ensured :: "profile_files \<Rightarrow> profile_files" where
  "ensured p = p\<lparr>pf_objects := Some (case pf_objects p of Some t \<Rightarrow> t | None \<Rightarrow> Dir [])\<rparr>"

definition restore_locked :: "backup_env \<Rightarrow> restore_world \<Rightarrow> bool \<Rightarrow> nat \<Rightarrow> member list \<Rightarrow> profile_files \<Rightarrow> member list option result \<times> profile_files" where
  "restore_locked v w preserve maximum ms p =
     (case bind_result (preserve_backup v w preserve p) (\<lambda>kept. bind_result (stage_restore v w maximum ms) (\<lambda>new. Inr (kept, new))) of
        Inl e \<Rightarrow> (Inl e, p)
      | Inr (kept, new) \<Rightarrow>
          (case install_restore w new p of
             (Inl e, q) \<Rightarrow> (Inl e, q)
           | (Inr _, q) \<Rightarrow> (Inr kept, q)))"

definition restore_backup :: "backup_env \<Rightarrow> restore_world \<Rightarrow> bool \<Rightarrow> nat \<Rightarrow> member list \<Rightarrow> profile_files \<Rightarrow> member list option result \<times> profile_files" where
  "restore_backup v w preserve maximum ms p =
     (if rw_running w then (Inl (backup_error ''Lemonbot is running; stop it before restore''), ensured p)
      else restore_locked v w preserve maximum ms (ensured p))"

subsection \<open>All or nothing\<close>

lemma profile_at_slots: "\<forall>a \<in> {Database, Wal, Shm, Objects}. there a = slots_of p new a \<Longrightarrow> profile_at there = p"
  by (cases p) (simp add: profile_at_def slots_of_def plain_file_def tree_file_def split: option.split)

lemma install_restore_cases:
  assumes "install_restore w new p = (r, q)" and "length (filter id (rw_faults w)) \<le> 1"
  shows "case r of Inl _ \<Rightarrow> q = p | Inr _ \<Rightarrow> q = \<lparr>pf_database = Some (fst new), pf_wal = None, pf_shm = None, pf_objects = Some (snd new)\<rparr>"
proof (cases "rw_mkdir_fails w")
  case True
  with assms(1) show ?thesis by (auto simp: install_restore_def)
next
  case False
  obtain t where t: "atomic_install_restore (switch_start (slots_of p new) (rw_faults w)) = (r, t)" "q = profile_at (sw_at t)"
    using assms(1) False by (auto simp: install_restore_def split: prod.splits)
  have out: "case r of
      Inr _ \<Rightarrow> sw_at t Database = slots_of p new Staged_Database \<and> sw_at t Objects = slots_of p new Staged_Objects \<and>
        sw_at t Wal = None \<and> sw_at t Shm = None
    | Inl _ \<Rightarrow> \<forall>a \<in> {Database, Wal, Shm, Objects}. sw_at t a = slots_of p new a"
    by (rule switch_all_or_nothing [OF _ _ _ assms(2) t(1)]) (simp_all add: slots_of_def)
  show ?thesis
  proof (cases r)
    case (Inl e)
    with out t(2) profile_at_slots [of "sw_at t" p new] show ?thesis by simp
  next
    case (Inr u)
    with out t(2) show ?thesis
      by (simp add: profile_at_def plain_file_def tree_file_def slots_of_def)
  qed
qed

subsection \<open>What a listing shows\<close>

lemma sort_items_strict:
  assumes "distinct (map fst xs)"
  shows "sorted_wrt (<) (map fst (sort_items xs))"
proof -
  have "sorted (map fst (sort_items xs))" by (simp add: sort_items_def)
  moreover have "distinct (map fst (sort_items xs))"
    using assms by (simp add: sort_items_def distinct_map)
  ultimately show ?thesis by (simp add: strict_sorted_iff)
qed

lemma set_sort_items [simp]: "set (sort_items xs) = set xs"
  by (simp add: sort_items_def)

definition object_key :: "str \<times> byte list \<Rightarrow> str \<times> str" where
  "object_key x = (take 2 (fst x), fst x)"

text \<open>A tree of object files: distinct names, and only addressed objects with their digests.\<close>

definition shard_ok :: "backup_env \<Rightarrow> str \<times> node \<Rightarrow> bool" where
  "shard_ok v s \<longleftrightarrow> length (fst s) = 2 \<and> hex_text (fst s) \<and> (\<exists>items. snd s = Dir items \<and> distinct (map fst items) \<and>
     (\<forall>(d, f) \<in> set items. \<exists>c. f = File c \<and> sha_text d \<and> take 2 d = fst s \<and> bk_sha256 v c = d))"

definition objects_in :: "(str \<times> node) list \<Rightarrow> (str \<times> byte list) set" where
  "objects_in shards = {(d, c). \<exists>s items. (s, Dir items) \<in> set shards \<and> (d, File c) \<in> set items}"

definition names_distinct :: "node option \<Rightarrow> bool" where
  "names_distinct store \<longleftrightarrow> (case store of Some (Dir shards) \<Rightarrow> distinct (map fst shards) \<and>
     (\<forall>(s, f) \<in> set shards. case f of Dir items \<Rightarrow> distinct (map fst items) | _ \<Rightarrow> True) | _ \<Rightarrow> True)"

lemma shard_item_iff: "shard_item v s (d, f) = Inr x \<longleftrightarrow>
  (\<exists>c. f = File c \<and> x = (d, c) \<and> sha_text d \<and> take 2 d = s \<and> bk_sha256 v c = d)"
  by (auto simp: shard_item_def sha_text_def split: node.splits)

lemma list_all2_items:
  assumes "list_all2 (\<lambda>i x. shard_item v s i = Inr x) items xs"
  shows "items = map (\<lambda>(d, c). (d, File c)) xs" "\<forall>(d, c) \<in> set xs. sha_text d \<and> take 2 d = s \<and> bk_sha256 v c = d"
  using assms by (induction, auto simp: shard_item_iff)

lemma shard_items_Inr:
  assumes "shard_items v (s, f) = Inr xs" and "case f of Dir items \<Rightarrow> distinct (map fst items) | _ \<Rightarrow> True"
  shows "shard_ok v (s, f)" "sorted_wrt (<) (map fst xs)" "\<forall>x \<in> set xs. take 2 (fst x) = s \<and> sha_text (fst x) \<and> bk_sha256 v (snd x) = fst x"
    "\<exists>items. f = Dir items \<and> set items = (\<lambda>(d, c). (d, File c)) ` set xs"
proof -
  from assms(1) obtain items where f: "f = Dir items" "length s = 2" "hex_text s"
    and r: "map_results (shard_item v s) (sort_items items) = Inr xs"
    by (auto simp: shard_items_def split: node.splits if_splits)
  from r have l: "list_all2 (\<lambda>i x. shard_item v s i = Inr x) (sort_items items) xs" by (simp add: map_results_iff)
  note i = list_all2_items [OF l]
  have set_i: "set items = (\<lambda>(d, c). (d, File c)) ` set xs" using i(1) set_sort_items [of items] by simp
  have "map fst (sort_items items) = map fst xs" unfolding i(1) by (simp add: comp_def case_prod_beta)
  then show "sorted_wrt (<) (map fst xs)" using sort_items_strict [of items] assms(2) f(1) by simp
  show "\<forall>x \<in> set xs. take 2 (fst x) = s \<and> sha_text (fst x) \<and> bk_sha256 v (snd x) = fst x" using i(2) by auto
  show "\<exists>items. f = Dir items \<and> set items = (\<lambda>(d, c). (d, File c)) ` set xs" using f(1) set_i by blast
  show "shard_ok v (s, f)" using f assms(2) i(2) set_i by (auto simp: shard_ok_def)
qed

lemma objects_in_Cons:
  assumes "set items = (\<lambda>(d, c). (d, File c)) ` X"
  shows "objects_in ((s, Dir items) # shards) = X \<union> objects_in shards"
proof -
  have "(d, File c) \<in> set items \<longleftrightarrow> (d, c) \<in> X" for d c unfolding assms by force
  then show ?thesis by (auto simp: objects_in_def)
qed

lemma shards_listing:
  assumes "list_all2 (\<lambda>s xs. shard_items v s = Inr xs) shards xss" and "sorted_wrt (<) (map fst shards)"
    and "\<forall>(s, f) \<in> set shards. case f of Dir items \<Rightarrow> distinct (map fst items) | _ \<Rightarrow> True"
  shows "sorted_wrt (<) (map object_key (concat xss)) \<and> set (concat xss) = objects_in shards \<and>
    (\<forall>x \<in> set (concat xss). take 2 (fst x) \<in> fst ` set shards \<and> sha_text (fst x) \<and> bk_sha256 v (snd x) = fst x)"
  using assms
proof induction
  case (Cons p shards xs xss)
  obtain s f where p: "p = (s, f)" by force
  from Cons.hyps(1) Cons.prems(2) p have sh: "shard_items v (s, f) = Inr xs" "case f of Dir items \<Rightarrow> distinct (map fst items) | _ \<Rightarrow> True"
    by auto
  note one = shard_items_Inr [OF sh]
  have tail: "sorted_wrt (<) (map fst shards)"
    "\<forall>(s, f) \<in> set shards. case f of Dir items \<Rightarrow> distinct (map fst items) | _ \<Rightarrow> True"
    using Cons.prems by simp_all
  have rest: "sorted_wrt (<) (map object_key (concat xss))" "set (concat xss) = objects_in shards"
    "\<forall>x \<in> set (concat xss). take 2 (fst x) \<in> fst ` set shards \<and> sha_text (fst x) \<and> bk_sha256 v (snd x) = fst x"
    using Cons.IH [OF tail] by blast+
  have prefixes: "\<forall>x \<in> set xs. take 2 (fst x) = s" using one(3) by blast
  have "sorted_wrt (\<lambda>x y. fst x < fst y) xs" using one(2) by (simp add: sorted_wrt_map)
  then have "sorted_wrt (\<lambda>x y. object_key x < object_key y) xs"
    by (rule sorted_wrt_mono_rel [rotated]) (use prefixes in \<open>simp add: object_key_def less_prod_def\<close>)
  then have first: "sorted_wrt (<) (map object_key xs)" by (simp add: sorted_wrt_map)
  have less: "\<forall>y \<in> fst ` set shards. s < y" using Cons.prems(1) p by auto
  have "\<forall>x \<in> set xs. \<forall>y \<in> set (concat xss). object_key x < object_key y"
  proof (intro ballI)
    fix x y assume "x \<in> set xs" "y \<in> set (concat xss)"
    with rest(3) have "take 2 (fst y) \<in> fst ` set shards" by blast
    with less prefixes \<open>x \<in> set xs\<close> have "take 2 (fst x) < take 2 (fst y)" by (simp del: ball_simps)
    then show "object_key x < object_key y" by (simp add: object_key_def less_prod_def)
  qed
  with first rest(1) have "sorted_wrt (<) (map object_key (concat (xs # xss)))"
    by (simp add: sorted_wrt_append sorted_wrt_map del: set_concat)
  moreover have "set (concat (xs # xss)) = objects_in (p # shards)"
    using one(4) rest(2) objects_in_Cons [of _ "set xs" s shards] p by auto
  moreover have "\<forall>x \<in> set (concat (xs # xss)). take 2 (fst x) \<in> fst ` set (p # shards) \<and> sha_text (fst x) \<and> bk_sha256 v (snd x) = fst x"
  proof
    fix x assume "x \<in> set (concat (xs # xss))"
    then consider "x \<in> set xs" | "x \<in> set (concat xss)" by auto
    then show "take 2 (fst x) \<in> fst ` set (p # shards) \<and> sha_text (fst x) \<and> bk_sha256 v (snd x) = fst x"
    proof cases
      case 1
      with one(3) show ?thesis unfolding p by (simp only: list.set image_insert fst_conv insert_iff) blast
    next
      case 2
      with rest(3) show ?thesis by (simp only: list.set image_insert insert_iff) blast
    qed
  qed
  ultimately show ?case by blast
qed (simp add: objects_in_def)

lemma object_listing_Inr:
  assumes "object_listing v (Some (Dir shards)) = Inr xs" and "names_distinct (Some (Dir shards))"
  shows "sorted_wrt (<) (map object_key xs)" "set xs = objects_in shards" "\<forall>x \<in> set xs. sha_text (fst x) \<and> bk_sha256 v (snd x) = fst x"
proof -
  from assms(1) obtain xss where "list_all2 (\<lambda>s xs. shard_items v s = Inr xs) (sort_items shards) xss" "xs = concat xss"
    by (auto simp: object_listing_def bind_result_Inr_iff map_results_iff)
  from shards_listing [OF this(1)] sort_items_strict [of shards] assms(2) this(2)
  have "sorted_wrt (<) (map object_key xs) \<and> set xs = objects_in (sort_items shards) \<and>
    (\<forall>x \<in> set xs. sha_text (fst x) \<and> bk_sha256 v (snd x) = fst x)" by (auto simp: names_distinct_def)
  moreover have "objects_in (sort_items shards) = objects_in shards" by (simp add: objects_in_def)
  ultimately show "sorted_wrt (<) (map object_key xs)" "set xs = objects_in shards" "\<forall>x \<in> set xs. sha_text (fst x) \<and> bk_sha256 v (snd x) = fst x"
    by auto
qed

lemma map_results_ex: "(\<And>x. x \<in> set xs \<Longrightarrow> \<exists>y. f x = Inr y) \<Longrightarrow> \<exists>ys. map_results f xs = Inr ys"
  by (induction xs) (force simp: bind_result_Inr_iff)+

lemma shard_ok_lists: "shard_ok v s \<Longrightarrow> \<exists>xs. shard_items v s = Inr xs"
proof -
  assume ok: "shard_ok v s"
  obtain n f where s: "s = (n, f)" by force
  from ok s obtain items where f: "f = Dir items" "length n = 2" "hex_text n"
    "\<forall>(d, f) \<in> set items. \<exists>c. f = File c \<and> sha_text d \<and> take 2 d = n \<and> bk_sha256 v c = d" by (auto simp: shard_ok_def)
  then have "\<exists>ys. map_results (shard_item v n) (sort_items items) = Inr ys"
    by (intro map_results_ex) (fastforce simp: shard_item_iff)
  with s f show ?thesis by (auto simp: shard_items_def)
qed

lemma good_tree_lists:
  assumes "distinct (map fst shards)" and "\<forall>s \<in> set shards. shard_ok v s"
  shows "\<exists>xs. object_listing v (Some (Dir shards)) = Inr xs" "names_distinct (Some (Dir shards))"
proof -
  have "\<exists>xss. map_results (shard_items v) (sort_items shards) = Inr xss"
    using assms(2) shard_ok_lists by (intro map_results_ex) auto
  then show "\<exists>xs. object_listing v (Some (Dir shards)) = Inr xs" by (auto simp: object_listing_def)
  show "names_distinct (Some (Dir shards))" using assms by (auto simp: names_distinct_def shard_ok_def split: node.split)
qed

text \<open>A listing is determined by its objects.\<close>

lemma sorted_objects_unique:
  assumes "sorted_wrt (<) (map object_key xs)" and "sorted_wrt (<) (map object_key ys)" and "set xs = set ys"
  shows "xs = ys"
proof -
  have "inj_on object_key (set xs)" using assms(1) by (simp add: strict_sorted_iff distinct_map)
  with assms show ?thesis by (intro map_sorted_distinct_set_unique [of object_key]) (auto simp: strict_sorted_iff)
qed

subsection \<open>Staging\<close>

text \<open>A tree that holds exactly the objects of a set.\<close>

definition holds :: "backup_env \<Rightarrow> (str \<times> node) list \<Rightarrow> (str \<times> byte list) set \<Rightarrow> bool" where
  "holds v shards X \<longleftrightarrow> distinct (map fst shards) \<and> (\<forall>s \<in> set shards. shard_ok v s) \<and> objects_in shards = X"

lemma objects_in_map_of:
  "distinct (map fst shards) \<Longrightarrow>
    objects_in shards = {(d, c). \<exists>s items. map_of shards s = Some (Dir items) \<and> (d, File c) \<in> set items}"
  by (simp add: objects_in_def map_of_eq_Some_iff)

lemma objects_in_append: "objects_in (xs @ ys) = objects_in xs \<union> objects_in ys"
  unfolding objects_in_def by auto

lemma objects_in_single: "objects_in [(s, Dir [(d, File c)])] = {(d, c)}"
  unfolding objects_in_def by auto

lemma holds_add:
  assumes "holds v shards X" and "sha_text d" and "bk_sha256 v c = d" and "d \<notin> fst ` X"
  shows "holds v (add_object (d, c) shards) (insert (d, c) X)"
proof -
  let ?s = "take 2 d"
  from assms(1) have dist: "distinct (map fst shards)" and ok: "\<forall>s \<in> set shards. shard_ok v s" and X: "objects_in shards = X"
    by (simp_all add: holds_def)
  have name: "length ?s = 2" "hex_text ?s"
    using assms(2) by (auto simp: sha_text_def hex_text_def list_all_iff dest: in_set_takeD)
  show ?thesis
  proof (cases "map_of shards ?s")
    case None
    then have add: "add_object (d, c) shards = shards @ [(?s, Dir [(d, File c)])]" by (simp add: add_object_def)
    have "?s \<notin> fst ` set shards" using None by (simp add: map_of_eq_None_iff)
    moreover have "shard_ok v (?s, Dir [(d, File c)])" using name assms(2,3) by (simp add: shard_ok_def)
    moreover have "objects_in (add_object (d, c) shards) = insert (d, c) (objects_in shards)"
      by (simp add: add objects_in_append objects_in_single)
    ultimately show ?thesis using dist ok X unfolding holds_def by (simp add: add)
  next
    case (Some f)
    with ok have "shard_ok v (?s, f)" by (auto dest: map_of_SomeD)
    then obtain items where f: "f = Dir items" "distinct (map fst items)"
      "\<forall>(d, f) \<in> set items. \<exists>c. f = File c \<and> sha_text d \<and> take 2 d = ?s \<and> bk_sha256 v c = d" by (auto simp: shard_ok_def)
    let ?new = "Dir (items @ [(d, File c)])"
    have add: "add_object (d, c) shards = AList.update ?s ?new shards" using Some f(1) by (simp add: add_object_def)
    have fresh: "d \<notin> fst ` set items"
    proof
      assume "d \<in> fst ` set items"
      with f(3) obtain c' where "(d, File c') \<in> set items" by fastforce
      with Some f(1) have "(d, c') \<in> objects_in shards" by (auto simp: objects_in_def dest: map_of_SomeD)
      with X assms(4) show False by force
    qed
    then have new: "shard_ok v (?s, ?new)" using name f(2,3) assms(2,3) by (auto simp: shard_ok_def)
    have dist': "distinct (map fst (AList.update ?s ?new shards))" using dist by (simp add: distinct_update)
    have mapped: "map_of (AList.update ?s ?new shards) = (map_of shards)(?s \<mapsto> ?new)" by (simp add: update_conv')
    have "\<forall>s \<in> set (AList.update ?s ?new shards). shard_ok v s"
    proof
      fix x assume "x \<in> set (AList.update ?s ?new shards)"
      then have "map_of (AList.update ?s ?new shards) (fst x) = Some (snd x)" using dist' by (simp add: map_of_eq_Some_iff)
      then have "x = (?s, ?new) \<or> x \<in> set shards" unfolding mapped by (cases x) (auto split: if_splits dest: map_of_SomeD)
      with ok new show "shard_ok v x" by blast
    qed
    moreover have "objects_in (AList.update ?s ?new shards) = insert (d, c) (objects_in shards)"
    proof (intro equalityI subrelI)
      fix x y assume "(x, y) \<in> objects_in (AList.update ?s ?new shards)"
      then obtain s its where "((map_of shards)(?s \<mapsto> ?new)) s = Some (Dir its)" "(x, File y) \<in> set its"
        unfolding objects_in_map_of [OF dist'] mapped by blast
      with Some f(1) show "(x, y) \<in> insert (d, c) (objects_in shards)"
        unfolding objects_in_map_of [OF dist] by (cases "s = ?s") auto
    next
      fix x y assume "(x, y) \<in> insert (d, c) (objects_in shards)"
      then consider "(x, y) = (d, c)" | s its where "map_of shards s = Some (Dir its)" "(x, File y) \<in> set its"
        unfolding objects_in_map_of [OF dist] by blast
      then have "\<exists>s its. ((map_of shards)(?s \<mapsto> ?new)) s = Some (Dir its) \<and> (x, File y) \<in> set its"
      proof cases
        case 1
        then show ?thesis by (intro exI [of _ ?s]) simp
      next
        case (2 s its)
        then show ?thesis using Some f(1) by (intro exI [of _ s]) (cases "s = ?s"; simp)
      qed
      then show "(x, y) \<in> objects_in (AList.update ?s ?new shards)" unfolding objects_in_map_of [OF dist'] mapped by blast
    qed
    ultimately show ?thesis using dist' X by (simp add: holds_def add)
  qed
qed

definition valid_objects :: "backup_env \<Rightarrow> (str \<times> byte list) list \<Rightarrow> bool" where
  "valid_objects v xs \<longleftrightarrow> distinct (map fst xs) \<and> (\<forall>x \<in> set xs. sha_text (fst x) \<and> bk_sha256 v (snd x) = fst x)"

lemma holds_staged:
  assumes "valid_objects v xs"
  shows "holds v (fold add_object xs []) (set xs)"
proof -
  have "holds v (fold add_object xs shards) (X \<union> set xs)"
    if "holds v shards X" "valid_objects v xs" "fst ` X \<inter> fst ` set xs = {}" for shards X xs
    using that
  proof (induction xs arbitrary: shards X)
    case (Cons x xs)
    obtain d c where x: "x = (d, c)" by force
    from Cons.prems x have "holds v (add_object (d, c) shards) (insert (d, c) X)"
      by (intro holds_add) (auto simp: valid_objects_def)
    from Cons.IH [OF this] Cons.prems x show ?case by (auto simp: valid_objects_def)
  qed simp
  from this [of "[]" "{}" xs] assms show ?thesis by (simp add: holds_def objects_in_def)
qed

lemma listing_staged:
  assumes "valid_objects v xs"
  obtains ys where "object_listing v (Some (staged_objects xs)) = Inr ys" "set ys = set xs" "sorted_wrt (<) (map object_key ys)"
    "names_distinct (Some (staged_objects xs))"
proof -
  from holds_staged [OF assms] have h: "distinct (map fst (fold add_object xs []))" "\<forall>s \<in> set (fold add_object xs []). shard_ok v s"
    "objects_in (fold add_object xs []) = set xs" by (simp_all add: holds_def)
  from good_tree_lists [OF h(1,2)] obtain ys where ys: "object_listing v (Some (Dir (fold add_object xs []))) = Inr ys"
    "names_distinct (Some (Dir (fold add_object xs [])))" by blast
  from object_listing_Inr [OF ys] h(3) ys that show thesis by (simp add: staged_objects_def)
qed

subsection \<open>What was validated\<close>

lemma object_entry_ok: "object_entry_of j = Inr m \<Longrightarrow> sha_text (meta_sha256 m) \<and> meta_name m = object_name (take 2 (meta_sha256 m)) (meta_sha256 m)"
  by (auto simp: object_entry_of_def split: json.splits option.splits if_splits)

lemma object_entries_ok:
  "object_entries v seen js = Inr ms \<Longrightarrow> distinct (map (bk_casefold v \<circ> meta_name) ms) \<and> (\<forall>m \<in> set ms. bk_casefold v (meta_name m) \<notin> seen) \<and>
    (\<forall>m \<in> set ms. sha_text (meta_sha256 m) \<and> meta_name m = object_name (take 2 (meta_sha256 m)) (meta_sha256 m))"
proof (induction v seen js arbitrary: ms rule: object_entries.induct)
  case (2 v seen j js)
  from "2.prems" obtain m rest where r: "object_entry_of j = Inr m" "bk_casefold v (meta_name m) \<notin> seen"
    "object_entries v (insert (bk_casefold v (meta_name m)) seen) js = Inr rest" "ms = m # rest"
    by (auto simp: bind_result_Inr_iff split: if_splits)
  from "2.IH" [OF r(2,3)] r(2) object_entry_ok [OF r(1)] show ?case unfolding r(4) by (auto simp del: map_map)
qed simp

lemma object_entries_distinct:
  assumes "object_entries v seen js = Inr ms"
  shows "distinct (map meta_name ms)" "distinct (map meta_sha256 ms)"
proof -
  have "distinct (map (bk_casefold v) (map meta_name ms))" using object_entries_ok [OF assms] by (simp only: map_map)
  then show names: "distinct (map meta_name ms)" unfolding distinct_map [of "bk_casefold v"] ..
  have "map meta_name ms = map (\<lambda>d. object_name (take 2 d) d) (map meta_sha256 ms)" using object_entries_ok [OF assms] by simp
  with names have "distinct (map (\<lambda>d. object_name (take 2 d) d) (map meta_sha256 ms))" by simp
  then show "distinct (map meta_sha256 ms)" unfolding distinct_map [of "\<lambda>d. object_name (take 2 d) d"] ..
qed

lemma extract_objects_ok:
  assumes "extract_objects v faults i ms os = Inr xs"
  shows "map fst xs = map meta_sha256 os" "map (length \<circ> snd) xs = map meta_size os" "\<forall>x \<in> set xs. bk_sha256 v (snd x) = fst x"
  using assms by (induction v faults i ms os arbitrary: xs rule: extract_objects.induct)
    (auto simp: bind_result_Inr_iff extract_member_def split: option.splits if_splits)

lemma scan_members_bound: "scan_members v maximum folded used ms = Inr () \<Longrightarrow> used \<le> maximum \<Longrightarrow> used + sum_list (map zm_size ms) \<le> maximum"
  by (induction v maximum folded used ms rule: scan_members.induct) (auto split: option.splits if_splits)

lemma member_size_Cons: "member_size n (m # ms) = (if zm_name m = n then Some (zm_size m) else member_size n ms)"
  by (simp add: member_size_def find_member_def)

lemma member_sizes_bound:
  assumes "distinct ns" and "\<forall>n \<in> set ns. member_size n ms = Some (g n)"
  shows "sum_list (map g ns) \<le> sum_list (map zm_size ms)"
  using assms
proof (induction ms arbitrary: ns)
  case Nil
  then show ?case by (cases ns) (auto simp: member_size_def find_member_def)
next
  case (Cons m ms)
  let ?rest = "remove1 (zm_name m) ns"
  have "\<forall>n \<in> set ?rest. member_size n ms = Some (g n)" using Cons.prems by (auto simp: member_size_Cons split: if_splits)
  from Cons.IH [OF _ this] Cons.prems(1) have rest: "sum_list (map g ?rest) \<le> sum_list (map zm_size ms)" by simp
  show ?case
  proof (cases "zm_name m \<in> set ns")
    case True
    with Cons.prems(2) have "g (zm_name m) = zm_size m" by (auto simp: member_size_Cons)
    with True rest show ?thesis by (simp add: sum_list_map_remove1)
  qed (use rest in \<open>simp add: remove1_idem\<close>)
qed

lemma validated_ok:
  assumes "validated_archive_members v maximum ms = Inr (db, os)"
  shows "snd db + sum_list (map meta_size os) \<le> maximum" "distinct (map meta_sha256 os)" "\<forall>m \<in> set os. sha_text (meta_sha256 m)"
proof -
  from assms obtain d database js where r: "scan_members v maximum {} 0 ms = Inr ()" "read_manifest v ms = Inr d"
    "database_meta v database = Inr db" "object_entries v {} js = Inr os" "members_match v ms db os = Inr ()"
    by (auto simp: validated_archive_members_def bind_result_Inr_iff split: if_splits option.splits json.splits)
  note os = object_entries_distinct [OF r(4)] object_entries_ok [OF r(4)]
  show "distinct (map meta_sha256 os)" "\<forall>m \<in> set os. sha_text (meta_sha256 m)" using os by blast+
  from r(5) have sizes: "member_size (database_member v) ms = Some (snd db)"
    "\<forall>m \<in> set os. member_size (object_member (meta_name m)) ms = Some (meta_size m)"
    by (auto simp: members_match_def list_all_iff split: if_splits)
  let ?ns = "database_member v # map (object_member \<circ> meta_name) os"
  let ?g = "\<lambda>n. the (member_size n ms)"
  have "database_member v \<noteq> object_member n" for n by (simp add: database_member_def object_member_def lit_def)
  moreover have "distinct (map (object_member \<circ> meta_name) os)"
    using os(1) by (simp add: distinct_map object_member_def inj_on_def)
  ultimately have "distinct ?ns" by auto
  moreover have "\<forall>n \<in> set ?ns. member_size n ms = Some (?g n)" using sizes by auto
  ultimately have "sum_list (map ?g ?ns) \<le> sum_list (map zm_size ms)" by (rule member_sizes_bound)
  moreover have "map ?g ?ns = snd db # map meta_size os" using sizes by simp
  ultimately show "snd db + sum_list (map meta_size os) \<le> maximum" using scan_members_bound [OF r(1)] by (simp del: map_map)
qed

text \<open>What a staged restore holds: an intact database, addressed objects, and no more than the limit.\<close>

definition good_restore :: "backup_env \<Rightarrow> nat \<Rightarrow> profile_files \<Rightarrow> bool" where
  "good_restore v maximum q \<longleftrightarrow> (\<exists>copy xs. pf_database q = Some copy \<and> bk_intact v copy \<and> pf_wal q = None \<and> pf_shm q = None \<and>
     object_listing v (pf_objects q) = Inr xs \<and> valid_objects v xs \<and> length copy + sum_list (map (length \<circ> snd) xs) \<le> maximum)"

lemma stage_restore_good:
  assumes "stage_restore v w maximum ms = Inr (copy, store)"
  shows "good_restore v maximum \<lparr>pf_database = Some copy, pf_wal = None, pf_shm = None, pf_objects = Some store\<rparr>"
proof -
  from assms obtain db os xs where r: "validated_archive_members v maximum ms = Inr (db, os)"
    "extract_member v (rw_stage_fault w 0) ms (database_member v) (fst db) (snd db) = Inr copy"
    "extract_objects v (rw_stage_fault w) 1 ms os = Inr xs" "store = staged_objects xs" "bk_intact v copy"
    by (auto simp: stage_restore_def bind_result_Inr_iff split: if_splits)
  note val = validated_ok [OF r(1)] and ext = extract_objects_ok [OF r(3)]
  have "length copy = snd db" using r(2) by (auto simp: extract_member_def bind_result_Inr_iff split: option.splits if_splits)
  have names: "\<forall>x \<in> set xs. sha_text (fst x)"
  proof
    fix x assume "x \<in> set xs"
    then have "fst x \<in> set (map fst xs)" by simp
    with ext(1) val(3) show "sha_text (fst x)" by auto
  qed
  with ext val(2) have valid: "valid_objects v xs" by (simp add: valid_objects_def)
  from listing_staged [OF valid] obtain ys where ys: "object_listing v (Some store) = Inr ys" "set ys = set xs"
    "sorted_wrt (<) (map object_key ys)" using r(4) by blast
  have "distinct ys" using ys(3) by (simp add: strict_sorted_iff distinct_map)
  moreover have "inj_on fst (set xs)" "distinct xs" using valid by (auto simp: valid_objects_def distinct_map)
  ultimately have "valid_objects v ys" and "mset ys = mset xs"
    using ys(2) valid by (auto simp: valid_objects_def distinct_map set_eq_iff_mset_eq_distinct [symmetric])
  then have "sum_list (map (length \<circ> snd) ys) = sum_list (map (length \<circ> snd) xs)" by (metis mset_map sum_mset_sum_list)
  with \<open>valid_objects v ys\<close> ys(1) r(5) val(1) ext(2) \<open>length copy = snd db\<close> show ?thesis
    by (simp add: good_restore_def)
qed

text \<open>C38. A restore is all or nothing. Whatever the archive holds and whichever step fails (with at most one failing rename in the
  switch), a restore that raises leaves the profile's files as they were; one that returns has installed an intact database without
  sidecar files and an object store whose objects all have their digest as their name, within the size limit, and has first
  backed up what was there when it was asked to.\<close>

theorem restore_all_or_nothing:
  assumes "restore_backup v w preserve maximum ms p = (r, q)" and "length (filter id (rw_faults w)) \<le> 1"
  shows "case r of
      Inl _ \<Rightarrow> q = ensured p
    | Inr kept \<Rightarrow> good_restore v maximum q \<and>
        (if preserve \<and> pf_database p \<noteq> None
         then \<exists>b. kept = Some b \<and> create_backup v (rw_created w) (rw_backup_exists w) (ensured p) = Inr b else kept = None)"
proof (cases "rw_running w")
  case True
  with assms(1) show ?thesis by (auto simp: restore_backup_def)
next
  case False
  with assms(1) have run: "restore_locked v w preserve maximum ms (ensured p) = (r, q)" by (simp add: restore_backup_def)
  have db: "pf_database (ensured p) = pf_database p" by (simp add: ensured_def)
  show ?thesis
  proof (cases "bind_result (preserve_backup v w preserve (ensured p)) (\<lambda>kept. bind_result (stage_restore v w maximum ms) (\<lambda>new. Inr (kept, new)))")
    case (Inl e)
    with run show ?thesis by (auto simp: restore_locked_def)
  next
    case (Inr x)
    obtain kept copy store where x: "x = (kept, copy, store)" by (cases x) auto
    with Inr have k: "preserve_backup v w preserve (ensured p) = Inr kept" and st: "stage_restore v w maximum ms = Inr (copy, store)"
      by (auto simp: bind_result_Inr_iff)
    obtain r' q' where inst: "install_restore w (copy, store) (ensured p) = (r', q')" by force
    from run Inr x inst have rq: "q = q'" "r = (case r' of Inl e \<Rightarrow> Inl e | Inr _ \<Rightarrow> Inr kept)"
      by (auto simp: restore_locked_def split: sum.splits)
    from install_restore_cases [OF inst assms(2)] stage_restore_good [OF st] k rq db show ?thesis
      by (cases r') (auto simp: preserve_backup_def bind_result_Inr_iff)
  qed
qed

end
