(* ===== verification/Backup_Round_Trip.thy ===== *)
theory Backup_Round_Trip
  imports Backup
begin

text \<open>
  Restoring a backup gives back what it saved: every check of the validation accepts the archive that \<open>create_backup\<close> writes, and the
  staged object store lists the same objects.
\<close>

subsection \<open>The round trip\<close>

text \<open>What \<open>str.casefold\<close> is documented to do: characters are folded one by one, and ASCII characters other than capitals stay.\<close>

definition casefold_ok :: "(str \<Rightarrow> str) \<Rightarrow> bool" where
  "casefold_ok f \<longleftrightarrow> (\<forall>s t. f (s @ t) = f s @ f t) \<and> (\<forall>s. (\<forall>c \<in> set s. c < 128 \<and> \<not> (65 \<le> c \<and> c \<le> 90)) \<longrightarrow> f s = s)"

lemma split_at_none: "c \<notin> set xs \<Longrightarrow> split_at c xs = [xs]"
  by (induction xs) auto

lemma split_at_first: "c \<notin> set xs \<Longrightarrow> split_at c (xs @ c # ys) = xs # split_at c ys"
  by (induction xs) auto

lemma sha_text_chars: "sha_text d \<Longrightarrow> c \<in> set d \<Longrightarrow> 48 \<le> c \<and> c \<le> 102"
  by (fastforce simp: sha_text_def hex_text_def list_all_iff)

lemma sha_text_lower: "sha_text d \<Longrightarrow> c \<in> set d \<Longrightarrow> c < 128 \<and> \<not> (65 \<le> c \<and> c \<le> 90)"
  by (fastforce simp: sha_text_def hex_text_def list_all_iff)

definition object_path :: "str \<Rightarrow> str" where
  "object_path d = object_member (object_name (take 2 d) d)"

lemma object_path_eq: "object_path d = lit ''objects'' @ 47 # take 2 d @ 47 # d"
  by (simp add: object_path_def object_member_def object_name_def lit_def)

lemma database_member_eq: "database_member v = lit ''database'' @ 47 # bk_profile v @ lit ''.db''"
  by (simp add: database_member_def database_name_def lit_def)

lemma safe_object_path:
  assumes "sha_text d"
  shows "\<not> unsafe_name (object_path d)"
proof -
  note chars = sha_text_chars [OF assms]
  have d: "d \<noteq> []" "length d = 64" using assms by (auto simp: sha_text_def)
  have no: "47 \<notin> set d" "92 \<notin> set d" "0 \<notin> set d" "46 \<notin> set d"
    using chars [of 47] chars [of 0] chars [of 46] assms by (auto simp: sha_text_def hex_text_def list_all_iff)
  then have "47 \<notin> set (take 2 d)" "92 \<notin> set (take 2 d)" "0 \<notin> set (take 2 d)" "46 \<notin> set (take 2 d)" by (auto dest: in_set_takeD)
  then have "split_at 47 (object_path d) = [lit ''objects'', take 2 d, d]"
    unfolding object_path_eq using no by (simp add: split_at_first split_at_none lit_def)
  moreover have "[46, 46] \<noteq> d" "[46, 46] \<noteq> take 2 d" using no \<open>46 \<notin> set (take 2 d)\<close> by (metis list.set_intros(1))+
  moreover have "last (object_path d) \<noteq> 47" unfolding object_path_eq using d(1) no(1) by (auto dest: last_in_set)
  moreover have "set (object_path d) = set (lit ''objects'') \<union> {47} \<union> set (take 2 d) \<union> set d" unfolding object_path_eq by auto
  ultimately show ?thesis using no \<open>92 \<notin> set (take 2 d)\<close> \<open>0 \<notin> set (take 2 d)\<close>
    by (auto simp: unsafe_name_def object_path_eq lit_def)
qed

lemma safe_database_member:
  assumes "{47, 92, 0} \<inter> set (bk_profile v) = {}"
  shows "\<not> unsafe_name (database_member v)"
proof -
  have no: "47 \<notin> set (bk_profile v @ lit ''.db'')" "92 \<notin> set (bk_profile v)" "0 \<notin> set (bk_profile v)" using assms by (auto simp: lit_def)
  have "split_at 47 (database_member v) = [lit ''database'', bk_profile v @ lit ''.db'']"
    unfolding database_member_eq using no by (simp add: split_at_first split_at_none lit_def)
  moreover have "[46, 46] \<noteq> bk_profile v @ lit ''.db''"
  proof
    assume "[46, 46] = bk_profile v @ lit ''.db''"
    then have "last [46, 46] = last (bk_profile v @ lit ''.db'')" by metis
    then show False by (simp add: lit_def)
  qed
  ultimately show ?thesis using no by (auto simp: unsafe_name_def database_member_eq lit_def)
qed

text \<open>The names of the members of a backup, and what they fold to.\<close>

definition archive_names :: "backup_env \<Rightarrow> (str \<times> byte list) list \<Rightarrow> str list" where
  "archive_names v xs = lit ''manifest.json'' # database_member v # map (\<lambda>x. object_path (fst x)) xs"

lemma archive_names_eq: "map zm_name (archive_of v created copy xs) = archive_names v xs"
  by (simp add: archive_of_def archive_names_def zip_member_def meta_of_def object_path_def)

lemma object_path_inj: "sha_text d \<Longrightarrow> sha_text e \<Longrightarrow> object_path d = object_path e \<Longrightarrow> d = e"
  by (simp add: object_path_eq sha_text_def)

lemma folded_names:
  assumes "casefold_ok (bk_casefold v)" and "valid_objects v xs"
  shows "distinct (map (bk_casefold v) (archive_names v xs))" "\<forall>x \<in> set xs. bk_casefold v (object_name (take 2 (fst x)) (fst x)) = object_name (take 2 (fst x)) (fst x)"
proof -
  have append: "bk_casefold v (s @ t) = bk_casefold v s @ bk_casefold v t" for s t using assms(1) by (simp add: casefold_ok_def)
  have same: "(\<And>c. c \<in> set s \<Longrightarrow> c < 128 \<and> \<not> (65 \<le> c \<and> c \<le> 90)) \<Longrightarrow> bk_casefold v s = s" for s
    using assms(1) by (simp add: casefold_ok_def)
  have name: "bk_casefold v (object_name (take 2 d) d) = object_name (take 2 d) d" if "sha_text d" for d
    by (rule same) (use sha_text_lower [OF that] in \<open>auto simp: object_name_def dest: in_set_takeD\<close>)
  show "\<forall>x \<in> set xs. bk_casefold v (object_name (take 2 (fst x)) (fst x)) = object_name (take 2 (fst x)) (fst x)"
    using name assms(2) by (auto simp: valid_objects_def)
  have "bk_casefold v (lit ''objects/'') = lit ''objects/''" "bk_casefold v (lit ''manifest.json'') = lit ''manifest.json''"
    "bk_casefold v (lit ''database/'') = lit ''database/''" by (rule same, auto simp: lit_def)+
  with name have folds: "bk_casefold v (lit ''manifest.json'') = lit ''manifest.json''"
    "bk_casefold v (database_member v) = lit ''database/'' @ bk_casefold v (database_name v)"
    "\<And>d. sha_text d \<Longrightarrow> bk_casefold v (object_path d) = object_path d"
    by (simp_all add: database_member_def object_path_def object_member_def append)
  have folded: "map (bk_casefold v) (archive_names v xs) = lit ''manifest.json'' # (lit ''database/'' @ bk_casefold v (database_name v)) #
      map (\<lambda>x. object_path (fst x)) xs"
    using folds assms(2) by (auto simp: archive_names_def valid_objects_def)
  have "distinct (map object_path (map fst xs))"
    unfolding distinct_map [of object_path] using assms(2) object_path_inj by (fastforce simp: valid_objects_def inj_on_def)
  then have "distinct (map (\<lambda>x. object_path (fst x)) xs)" by (simp add: comp_def)
  then show "distinct (map (bk_casefold v) (archive_names v xs))"
    unfolding folded by (auto simp: object_path_eq lit_def)
qed

lemma scan_members_ok:
  assumes "\<forall>m \<in> set ms. \<not> unsafe_name (zm_name m) \<and> zm_mode m div 4096 mod 16 \<noteq> 10 \<and> even (zm_flags m) \<and> zm_method m \<in> {0, 8}"
    and "distinct (map (bk_casefold v) (map zm_name ms))" and "bk_casefold v ` zm_name ` set ms \<inter> folded = {}"
    and "used + sum_list (map zm_size ms) \<le> maximum"
  shows "scan_members v maximum folded used ms = Inr ()"
  using assms
proof (induction ms arbitrary: folded used)
  case (Cons m ms)
  then have "member_fault v folded m = None" by (simp add: member_fault_def)
  moreover have "scan_members v maximum (insert (bk_casefold v (zm_name m)) folded) (used + zm_size m) ms = Inr ()"
    by (rule Cons.IH) (use Cons.prems in \<open>auto simp: add.assoc\<close>)
  ultimately show ?case using Cons.prems(4) by simp
qed simp

lemma find_member_unique: "distinct (map zm_name ms) \<Longrightarrow> m \<in> set ms \<Longrightarrow> find_member (zm_name m) ms = Some m"
  unfolding find_member_def find_key_get_row by (rule get_row_unique)

lemma object_entry_of_meta: "sha_text (fst x) \<Longrightarrow> object_entry_of (meta_json (meta_of x)) = Inr (meta_of x)"
  by (auto simp: object_entry_of_def meta_json_def meta_of_def)

lemma object_entries_meta:
  assumes "casefold_ok (bk_casefold v)" and "valid_objects v xs" and "meta_name ` meta_of ` set xs \<inter> seen = {}"
  shows "object_entries v seen (map meta_json (map meta_of xs)) = Inr (map meta_of xs)"
  using assms(2,3)
proof (induction xs arbitrary: seen)
  case (Cons x xs)
  from Cons.prems have x: "sha_text (fst x)" "valid_objects v xs" by (auto simp: valid_objects_def)
  have fold: "bk_casefold v (meta_name (meta_of x)) = meta_name (meta_of x)"
    using folded_names(2) [OF assms(1) Cons.prems(1)] by (simp add: meta_of_def)
  have "meta_name (meta_of x) \<notin> meta_name ` meta_of ` set xs"
  proof
    assume "meta_name (meta_of x) \<in> meta_name ` meta_of ` set xs"
    then obtain y where y: "y \<in> set xs" "object_path (fst x) = object_path (fst y)" by (auto simp: meta_of_def object_path_def)
    with x have "sha_text (fst y)" by (auto simp: valid_objects_def)
    from object_path_inj [OF x(1) this y(2)] y(1) Cons.prems(1) show False by (force simp: valid_objects_def)
  qed
  with Cons.IH [OF x(2), of "insert (meta_name (meta_of x)) seen"] Cons.prems(2)
  have "object_entries v (insert (meta_name (meta_of x)) seen) (map meta_json (map meta_of xs)) = Inr (map meta_of xs)" by auto
  then show ?case using object_entry_of_meta [OF x(1)] fold Cons.prems(2) by simp
qed simp

lemma listing_valid:
  assumes "object_listing v store = Inr xs" and "names_distinct store"
  shows "valid_objects v xs \<and> sorted_wrt (<) (map object_key xs)"
proof (cases store)
  case None
  with assms(1) show ?thesis by (simp add: object_listing_def valid_objects_def)
next
  case (Some f)
  with assms(1) obtain shards where f: "f = Dir shards" by (cases f) (auto simp: object_listing_def)
  from object_listing_Inr [of v shards xs] assms Some f have o': "sorted_wrt (<) (map object_key xs)"
    "\<forall>x \<in> set xs. sha_text (fst x) \<and> bk_sha256 v (snd x) = fst x" by auto
  from o'(1) have "distinct (map object_key xs)" by (simp add: strict_sorted_iff)
  then have "distinct (map fst xs)" by (auto simp: distinct_map inj_on_def object_key_def)
  with o' show ?thesis by (simp add: valid_objects_def)
qed

lemma archive_members_ok:
  assumes "valid_objects v xs" and "{47, 92, 0} \<inter> set (bk_profile v) = {}"
  shows "\<forall>m \<in> set (archive_of v created copy xs).
    \<not> unsafe_name (zm_name m) \<and> zm_mode m div 4096 mod 16 \<noteq> 10 \<and> even (zm_flags m) \<and> zm_method m \<in> {0, 8}"
proof -
  have "\<not> unsafe_name (lit ''manifest.json'')" by code_simp
  moreover have "\<forall>x \<in> set xs. \<not> unsafe_name (object_path (fst x))"
    using assms(1) safe_object_path by (auto simp: valid_objects_def)
  ultimately show ?thesis
    using safe_database_member [OF assms(2)] by (auto simp: archive_of_def zip_member_def meta_of_def object_path_def)
qed

lemma archive_distinct:
  assumes "casefold_ok (bk_casefold v)" and "valid_objects v xs"
  shows "distinct (map zm_name (archive_of v created copy xs))"
  using folded_names(1) [OF assms] unfolding archive_names_eq distinct_map [of "bk_casefold v"] ..

lemma archive_find:
  assumes "casefold_ok (bk_casefold v)" and "valid_objects v xs"
  shows "find_member (database_member v) (archive_of v created copy xs) = Some (zip_member (database_member v) copy)"
    "x \<in> set xs \<Longrightarrow> find_member (object_path (fst x)) (archive_of v created copy xs) = Some (zip_member (object_path (fst x)) (snd x))"
proof -
  have find: "m \<in> set (archive_of v created copy xs) \<Longrightarrow> find_member (zm_name m) (archive_of v created copy xs) = Some m" for m
    by (rule find_member_unique [OF archive_distinct [OF assms]])
  show "find_member (database_member v) (archive_of v created copy xs) = Some (zip_member (database_member v) copy)"
    using find [of "zip_member (database_member v) copy"] by (simp add: archive_of_def zip_member_def)
  assume "x \<in> set xs"
  then have "zip_member (object_path (fst x)) (snd x) \<in> set (archive_of v created copy xs)"
    by (auto simp: archive_of_def meta_of_def object_path_def)
  from find [OF this] show "find_member (object_path (fst x)) (archive_of v created copy xs) = Some (zip_member (object_path (fst x)) (snd x))"
    by (simp add: zip_member_def)
qed

text \<open>\<open>json.loads\<close> reads back what \<open>json.dumps\<close> wrote.\<close>

definition json_kept :: "backup_env \<Rightarrow> json \<Rightarrow> bool" where
  "json_kept v j \<longleftrightarrow> bk_loads v (bk_dumps v j) = Some j"

lemma archive_validated:
  assumes fold: "casefold_ok (bk_casefold v)" and xs: "valid_objects v xs" and profile: "{47, 92, 0} \<inter> set (bk_profile v) = {}"
    and json: "json_kept v (manifest_json v created copy (map meta_of xs))"
    and digest: "sha_text (bk_sha256 v copy)" "copy \<noteq> []"
    and size: "length (bk_dumps v (manifest_json v created copy (map meta_of xs))) \<le> 16 * 1024 * 1024"
      "sum_list (map zm_size (archive_of v created copy xs)) \<le> maximum"
  shows "validated_archive_members v maximum (archive_of v created copy xs) = Inr ((bk_sha256 v copy, length copy), map meta_of xs)"
proof -
  let ?ms = "archive_of v created copy xs" and ?os = "map meta_of xs"
  have scan: "scan_members v maximum {} 0 ?ms = Inr ()"
    by (rule scan_members_ok) (use archive_members_ok [OF xs profile] folded_names(1) [OF fold xs] size(2) in \<open>simp_all add: archive_names_eq\<close>)
  have "find_member (lit ''manifest.json'') ?ms = Some (zip_member (lit ''manifest.json'') (bk_dumps v (manifest_json v created copy ?os)))"
    by (simp add: archive_of_def find_member_def zip_member_def)
  moreover obtain d where d: "manifest_json v created copy ?os = JObj d" by (simp add: manifest_json_def)
  ultimately have manifest: "read_manifest v ?ms = Inr d"
    using size(1) json by (simp add: read_manifest_def zip_member_def json_kept_def)
  have db: "database_meta v [(lit ''name'', JStr (database_name v)), (lit ''sha256'', JStr (bk_sha256 v copy)), (lit ''size'', JInt (int (length copy)))] =
      Inr (bk_sha256 v copy, length copy)"
    using digest by (simp add: database_meta_def Suc_le_eq)
  have os: "object_entries v {} (map meta_json ?os) = Inr ?os" by (rule object_entries_meta [OF fold xs]) simp
  have path: "object_member (meta_name (meta_of x)) = object_path (fst x)" for x by (simp add: meta_of_def object_path_def)
  have "zm_name ` set ?ms = set (archive_names v xs)" unfolding archive_names_eq [symmetric, where created = created and copy = copy] by simp
  also have "\<dots> = {lit ''manifest.json'', database_member v} \<union> (object_member \<circ> meta_name) ` set ?os"
    by (simp add: archive_names_def path image_image comp_def)
  finally have names: "zm_name ` set ?ms = {lit ''manifest.json'', database_member v} \<union> (object_member \<circ> meta_name) ` set ?os" .
  have sizes: "member_size (database_member v) ?ms = Some (length copy)"
    "list_all (\<lambda>m. member_size (object_member (meta_name m)) ?ms = Some (meta_size m)) ?os"
    using archive_find [OF fold xs] by (auto simp: member_size_def zip_member_def list_all_iff path) (simp add: meta_of_def)
  from names sizes have "members_match v ?ms (bk_sha256 v copy, length copy) ?os = Inr ()" by (simp add: members_match_def)
  moreover have "dget d ''format'' = Some (JInt 1)" "dget d ''profile'' = Some (JStr (bk_profile v))"
    "dget d ''database'' = Some (JObj [(lit ''name'', JStr (database_name v)), (lit ''sha256'', JStr (bk_sha256 v copy)), (lit ''size'', JInt (int (length copy)))])"
    "dget d ''objects'' = Some (JList (map meta_json ?os))"
    using d by (auto simp: manifest_json_def)
  ultimately show ?thesis using scan manifest db os by (simp add: validated_archive_members_def json_is_one_def)
qed

lemma extract_archive:
  assumes "find_member n ms = Some (zip_member n c)"
  shows "extract_member v None ms n (bk_sha256 v c) (length c) = Inr c"
  using assms by (simp add: extract_member_def zip_member_def)

lemma extract_archive_objects:
  assumes "\<forall>x \<in> set xs. find_member (object_path (fst x)) ms = Some (zip_member (object_path (fst x)) (snd x))"
    and "valid_objects v xs" and "\<forall>i. faults i = None"
  shows "extract_objects v faults i ms (map meta_of xs) = Inr xs"
  using assms(1,2)
proof (induction xs arbitrary: i)
  case (Cons x xs)
  have "bk_sha256 v (snd x) = fst x" using Cons.prems(2) by (simp add: valid_objects_def)
  then have "extract_member v (faults i) ms (object_path (fst x)) (fst x) (length (snd x)) = Inr (snd x)"
    using extract_archive [of "object_path (fst x)" ms "snd x" v] Cons.prems(1) assms(3) by simp
  moreover have "valid_objects v xs" using Cons.prems(2) by (simp add: valid_objects_def)
  ultimately show ?case using Cons by (simp add: meta_of_def object_path_def)
qed simp

lemma quiet_install:
  assumes "\<not> rw_mkdir_fails w" and "True \<notin> set (rw_faults w)"
  shows "install_restore w new p = (Inr (), \<lparr>pf_database = Some (fst new), pf_wal = None, pf_shm = None, pf_objects = Some (snd new)\<rparr>)"
proof -
  let ?s = "switch_start (slots_of p new) (rw_faults w)"
  have none: "length (filter id (rw_faults w)) = 0" using assms(2) by (auto simp: filter_empty_conv)
  have "undoable (slots_of p new) ?s" "phase (slots_of p new) 0 ?s" by (simp_all add: recoverable_defs switch_start_def slots_of_def)
  then have "step_ok (slots_of p new) 6 switch_over ?s" by (rule switch_over_ok [rotated 2]) (simp_all add: slots_of_def)
  then have "fst (switch_over ?s)" using none by (auto simp: step_ok_def budget_def switch_start_def split: if_splits)
  then obtain u where "atomic_install_restore ?s = (Inr (), u)" by (cases "switch_over ?s") (auto simp: atomic_install_restore_def)
  then have "install_restore w new p = (Inr (), profile_at (sw_at u))" using assms(1) by (simp add: install_restore_def)
  with install_restore_cases [OF this] none show ?thesis by simp
qed

text \<open>C39. A backup restores what it saved. When a backup of a profile was made, and its archive is within the limits, a restore of it
  into any state of a profile of that name, with room on the disk and no failing call, succeeds: the database is the copy that was
  taken, there is no sidecar file, and the object store lists exactly the objects of the saved one, with their contents.\<close>

theorem backup_round_trip:
  assumes made: "create_backup v created False p = Inr ms" and names: "names_distinct (pf_objects p)"
    and fold: "casefold_ok (bk_casefold v)" and profile: "{47, 92, 0} \<inter> set (bk_profile v) = {}"
    and json: "\<And>copy xs. sqlite_snapshot v p = Inr copy \<Longrightarrow> object_listing v (pf_objects p) = Inr xs \<Longrightarrow>
      json_kept v (manifest_json v created copy (map meta_of xs))"
    and digest: "\<And>c. sha_text (bk_sha256 v c)" and copied: "\<And>copy. sqlite_snapshot v p = Inr copy \<Longrightarrow> copy \<noteq> []"
    and size: "zm_size (hd ms) \<le> 16 * 1024 * 1024" "sum_list (map zm_size ms) \<le> maximum"
    and room: "int (sum_list (map zm_size ms)) + 64 * 1024 * 1024 \<le> rw_free w"
    and calm: "\<not> rw_running w" "\<forall>i. rw_stage_fault w i = None" "\<not> rw_mkdir_fails w" "True \<notin> set (rw_faults w)"
    and kept: "is_ok (preserve_backup v w preserve (ensured q))"
  shows "\<exists>kept q'. restore_backup v w preserve maximum ms q = (Inr kept, q') \<and>
    (\<exists>copy. sqlite_snapshot v p = Inr copy \<and> pf_database q' = Some copy) \<and> pf_wal q' = None \<and> pf_shm q' = None \<and>
    object_listing v (pf_objects q') = object_listing v (pf_objects p)"
proof -
  from made obtain copy xs where c: "sqlite_snapshot v p = Inr copy" "object_listing v (pf_objects p) = Inr xs" "ms = archive_of v created copy xs"
    by (auto simp: create_backup_def bind_result_Inr_iff)
  from listing_valid [OF c(2) names] have xs: "valid_objects v xs" "sorted_wrt (<) (map object_key xs)" by auto
  have intact: "bk_intact v copy" using c(1) by (auto simp: sqlite_snapshot_def bind_result_Inr_iff split: option.splits if_splits)
  have limit: "length (bk_dumps v (manifest_json v created copy (map meta_of xs))) \<le> 16 * 1024 * 1024"
    using size(1) c(3) by (simp add: archive_of_def zip_member_def)
  note find = archive_find [OF fold xs(1), where created = created and copy = copy]
  have val: "validated_archive_members v maximum ms = Inr ((bk_sha256 v copy, length copy), map meta_of xs)"
    using archive_validated [OF fold xs(1) profile json [OF c(1,2)] digest copied [OF c(1)] limit] size(2) c(3) by simp
  have ext: "extract_member v (rw_stage_fault w 0) ms (database_member v) (bk_sha256 v copy) (length copy) = Inr copy"
    using extract_archive [OF find(1)] calm(2) c(3) by simp
  have objects: "extract_objects v (rw_stage_fault w) 1 ms (map meta_of xs) = Inr xs"
    by (rule extract_archive_objects [OF _ xs(1) calm(2)]) (use find(2) c(3) in blast)
  from listing_staged [OF xs(1)] obtain ys where ys: "object_listing v (Some (staged_objects xs)) = Inr ys" "set ys = set xs"
    "sorted_wrt (<) (map object_key ys)" by blast
  from sorted_objects_unique [OF ys(3) xs(2) ys(2)] ys(1) have listing: "object_listing v (Some (staged_objects xs)) = Inr xs" by simp
  have "\<not> rw_free w < int (sum_list (map zm_size ms)) + 64 * 1024 * 1024" using room by simp
  with val ext objects listing intact have staged: "stage_restore v w maximum ms = Inr (copy, staged_objects xs)"
    by (simp add: stage_restore_def object_inventory_def)
  from kept obtain k where "preserve_backup v w preserve (ensured q) = Inr k" by (auto simp: is_ok_iff)
  with staged quiet_install [OF calm(3,4)] calm(1) c(1,2) listing show ?thesis
    by (simp add: restore_backup_def restore_locked_def)
qed

subsection \<open>Witnesses\<close>

definition sample_digest_text :: "byte list \<Rightarrow> str" where
  "sample_digest_text c = replicate 64 (48 + length c mod 10)"

definition sample_object :: "str \<times> byte list" where
  "sample_object = (replicate 64 49, [7])"

definition saved_profile :: profile_files where
  "saved_profile = \<lparr>pf_database = Some [1, 2], pf_wal = None, pf_shm = None,
     pf_objects = Some (Dir [(replicate 2 49, Dir [(replicate 64 49, File [7])])])\<rparr>"

definition plain_env :: backup_env where
  "plain_env = \<lparr>bk_sha256 = sample_digest_text, bk_snapshot = (\<lambda>db log. Inr db), bk_intact = (\<lambda>db. True), bk_dumps = (\<lambda>j. []),
     bk_loads = (\<lambda>c. None), bk_casefold = casefold, bk_profile = lit ''linux''\<rparr>"

definition sample_backup_env :: backup_env where
  "sample_backup_env = plain_env\<lparr>bk_loads := (\<lambda>c. Some (manifest_json plain_env [] [1, 2] [meta_of sample_object]))\<rparr>"

definition calm_world :: restore_world where
  "calm_world = \<lparr>rw_running = False, rw_free = 100000000, rw_stage_fault = (\<lambda>i. None), rw_mkdir_fails = False, rw_faults = [],
     rw_created = [], rw_backup_exists = False\<rparr>"

definition empty_profile :: profile_files where
  "empty_profile = \<lparr>pf_database = None, pf_wal = None, pf_shm = None, pf_objects = None\<rparr>"

lemma sample_digest_text_ok: "sha_text (bk_sha256 sample_backup_env c)"
proof -
  have "48 + length c mod 10 \<le> 57" using mod_less_divisor [of 10 "length c"] by linarith
  then show ?thesis by (auto simp: sha_text_def hex_text_def list_all_iff sample_backup_env_def plain_env_def sample_digest_text_def)
qed

lemma sample_casefold_ok: "casefold_ok (bk_casefold sample_backup_env)"
  by (auto simp: casefold_ok_def sample_backup_env_def plain_env_def casefold_def intro!: map_idI)

lemma sample_listing: "object_listing sample_backup_env (pf_objects saved_profile) = Inr [sample_object]"
  by code_simp

lemma sample_snapshot: "sqlite_snapshot sample_backup_env saved_profile = Inr [1, 2]"
  by code_simp

definition sample_archive :: "member list" where
  "sample_archive = archive_of sample_backup_env [] [1, 2] [sample_object]"

lemma sample_made: "create_backup sample_backup_env [] False saved_profile = Inr sample_archive"
  by (simp add: create_backup_def sample_listing sample_snapshot sample_archive_def)

lemma sample_sizes: "map zm_size sample_archive = [0, 2, 1]"
  by (simp add: sample_archive_def archive_of_def zip_member_def sample_backup_env_def plain_env_def sample_object_def)

lemma sample_size: "zm_size (hd sample_archive) \<le> 16 * 1024 * 1024" "sum_list (map zm_size sample_archive) \<le> 10"
  "int (sum_list (map zm_size sample_archive)) + 64 * 1024 * 1024 \<le> rw_free calm_world"
proof -
  have "zm_size (hd sample_archive) = 0"
    by (simp add: sample_archive_def archive_of_def zip_member_def sample_backup_env_def plain_env_def)
  then show "zm_size (hd sample_archive) \<le> 16 * 1024 * 1024" by simp
qed (simp_all add: sample_sizes calm_world_def)

lemma sample_json:
  assumes "sqlite_snapshot sample_backup_env saved_profile = Inr copy" and "object_listing sample_backup_env (pf_objects saved_profile) = Inr xs"
  shows "json_kept sample_backup_env (manifest_json sample_backup_env [] copy (map meta_of xs))"
proof -
  from assms have "copy = [1, 2]" "xs = [sample_object]" by (simp_all add: sample_snapshot sample_listing)
  then show ?thesis by (simp add: json_kept_def sample_backup_env_def manifest_json_def plain_env_def database_name_def)
qed

theorem backup_round_trip_witness:
  "\<exists>kept q'. restore_backup sample_backup_env calm_world True 10 sample_archive empty_profile = (Inr kept, q') \<and>
     (\<exists>copy. sqlite_snapshot sample_backup_env saved_profile = Inr copy \<and> pf_database q' = Some copy) \<and> pf_wal q' = None \<and> pf_shm q' = None \<and>
     object_listing sample_backup_env (pf_objects q') = object_listing sample_backup_env (pf_objects saved_profile)"
proof (rule backup_round_trip [OF sample_made _ sample_casefold_ok _ sample_json sample_digest_text_ok _ sample_size])
  show "names_distinct (pf_objects saved_profile)" by (simp add: names_distinct_def saved_profile_def)
  show "{47, 92, 0} \<inter> set (bk_profile sample_backup_env) = {}" by (simp add: sample_backup_env_def plain_env_def lit_def)
  show "\<And>copy. sqlite_snapshot sample_backup_env saved_profile = Inr copy \<Longrightarrow> copy \<noteq> []" by (simp add: sample_snapshot)
  show "is_ok (preserve_backup sample_backup_env calm_world True (ensured empty_profile))"
    by (simp add: preserve_backup_def ensured_def empty_profile_def)
qed (simp_all add: calm_world_def)

definition rough_world :: restore_world where
  "rough_world = calm_world\<lparr>rw_faults := [False, False, True]\<rparr>"

theorem restore_all_or_nothing_witness:
  "case fst (restore_backup sample_backup_env rough_world True 10 sample_archive saved_profile) of
      Inl _ \<Rightarrow> snd (restore_backup sample_backup_env rough_world True 10 sample_archive saved_profile) = ensured saved_profile
    | Inr _ \<Rightarrow> good_restore sample_backup_env 10 (snd (restore_backup sample_backup_env rough_world True 10 sample_archive saved_profile))"
proof -
  obtain r q where rq: "restore_backup sample_backup_env rough_world True 10 sample_archive saved_profile = (r, q)" by force
  have "length (filter id (rw_faults rough_world)) \<le> 1" by (simp add: rough_world_def)
  from restore_all_or_nothing [OF rq this] rq show ?thesis by (cases r) simp_all
qed

end
