(* ===== verification/Budget_Crash.thy ===== *)
theory Budget_Crash
  imports Budget
begin

text \<open>
  The persistent budget manager at the grain of its awaits
  (\<open>PersistentBudgetManager\<close>, \<open>lemonbot/models/persistent_budget.py\<close>). A call changes the memory first and
  the ledger after an await; in between other calls run, the task may be cancelled, the write may fail and
  the process may stop. What is under way is state here: the reservations whose ledger row is not written
  yet, those given up while their insert may still reach the file, and the settlements applied in memory
  but not in the ledger. Main result: a restart never finds less than what the stopped process had spent
  and handed out.
\<close>

record budget_world =
  bw_memory :: budget_manager
  bw_ledger :: "ledger_row list"
  bw_inserting :: "reservation list"
  bw_orphaned :: "reservation list"
  bw_settling :: "(reservation \<times> ledger_state \<times> rat) list"
  bw_failed :: "(reservation \<times> ledger_state \<times> rat) list"

definition quiet_world :: "persistent_manager \<Rightarrow> budget_world" where
  "quiet_world pm = \<lparr>bw_memory = pm_memory pm, bw_ledger = pm_ledger pm, bw_inserting = [], bw_orphaned = [],
     bw_settling = [], bw_failed = []\<rparr>"

text \<open>The three calls that end a reservation: what each does in memory, and the row it then writes.\<close>

datatype closing_call = Call_Release | Call_Settle int int int | Call_Unknown

fun close_in_memory :: "closing_call \<Rightarrow> uuid \<Rightarrow> budget_manager \<Rightarrow> (ledger_state \<times> rat) result \<times> budget_manager" where
  "close_in_memory Call_Release rid m =
     (case release rid m of (Inl e, m') \<Rightarrow> (Inl e, m') | (Inr _, m') \<Rightarrow> (Inr (Lg_Released, 0), m'))"
| "close_in_memory (Call_Settle pt ct ch) rid m =
     (case settle rid pt ct ch m of (Inl e, m') \<Rightarrow> (Inl e, m') | (Inr st, m') \<Rightarrow> (Inr (Lg_Settled, bs_charged st), m'))"
| "close_in_memory Call_Unknown rid m =
     (case settle_unknown rid m of (Inl e, m') \<Rightarrow> (Inl e, m') | (Inr st, m') \<Rightarrow> (Inr (Lg_Unknown, bs_charged st), m'))"

definition used_ids :: "budget_world \<Rightarrow> uuid set" where
  "used_ids w = br_id ` (set (bm_reservations (bw_memory w)) \<union> set (bw_inserting w) \<union> set (bw_orphaned w)) \<union>
     lg_reservation_id ` set (bw_ledger w)"

text \<open>One atomic piece of a call. A new id is fresh (\<open>uuid4\<close>); a reservation is known to its caller, who may
  close it, only once its insert is done.\<close>

inductive budget_event :: "budget_world \<Rightarrow> budget_world \<Rightarrow> bool" where
  reserved_in_memory: "reserve rid now p md pt ct (bw_memory w) = (Inr r, m) \<Longrightarrow> rid \<notin> used_ids w \<Longrightarrow>
    budget_event w (w\<lparr>bw_memory := m, bw_inserting := r # bw_inserting w\<rparr>)"
| reserve_refused: "reserve rid now p md pt ct (bw_memory w) = (Inl e, m) \<Longrightarrow>
    budget_event w (w\<lparr>bw_memory := m\<rparr>)"
| inserted: "r \<in> set (bw_inserting w) \<Longrightarrow> insert_reservation True r (bw_ledger w) = Inr rows \<Longrightarrow>
    budget_event w (w\<lparr>bw_ledger := rows, bw_inserting := remove1 r (bw_inserting w)\<rparr>)"
| insert_failed: "r \<in> set (bw_inserting w) \<Longrightarrow>
    budget_event w (w\<lparr>bw_memory := snd (release (br_id r) (bw_memory w)),
      bw_inserting := remove1 r (bw_inserting w)\<rparr>)"
| insert_cancelled: "r \<in> set (bw_inserting w) \<Longrightarrow>
    budget_event w (w\<lparr>bw_memory := snd (release (br_id r) (bw_memory w)),
      bw_inserting := remove1 r (bw_inserting w), bw_orphaned := r # bw_orphaned w\<rparr>)"
| inserted_late: "r \<in> set (bw_orphaned w) \<Longrightarrow> insert_reservation True r (bw_ledger w) = Inr rows \<Longrightarrow>
    budget_event w (w\<lparr>bw_ledger := rows, bw_orphaned := remove1 r (bw_orphaned w)\<rparr>)"
| closed_in_memory: "close_in_memory call (br_id r) (bw_memory w) = (Inr (st, c), m) \<Longrightarrow>
    find_reservation (br_id r) (bw_memory w) = Some r \<Longrightarrow> r \<notin> set (bw_inserting w) \<Longrightarrow>
    budget_event w (w\<lparr>bw_memory := m, bw_settling := (r, st, c) # bw_settling w\<rparr>)"
| close_refused: "close_in_memory call rid (bw_memory w) = (Inl e, m) \<Longrightarrow>
    rid \<notin> br_id ` set (bw_inserting w) \<Longrightarrow> budget_event w (w\<lparr>bw_memory := m\<rparr>)"
| written: "(r, st, c) \<in> set (bw_settling w) \<Longrightarrow>
    update_settlement True now (br_id r) st c (bw_ledger w) = Inr rows \<Longrightarrow>
    budget_event w (w\<lparr>bw_ledger := rows, bw_settling := remove1 (r, st, c) (bw_settling w)\<rparr>)"
| write_failed: "(r, st, c) \<in> set (bw_settling w) \<Longrightarrow>
    budget_event w (w\<lparr>bw_settling := remove1 (r, st, c) (bw_settling w), bw_failed := (r, st, c) # bw_failed w\<rparr>)"

subsection \<open>Accounting\<close>

definition handed_out :: "budget_world \<Rightarrow> reservation set" where
  "handed_out w = set (bm_reservations (bw_memory w)) - set (bw_inserting w)"

text \<open>Money spent, plus the reservations their callers may be using.\<close>

definition at_stake :: "period \<Rightarrow> budget_world \<Rightarrow> str \<Rightarrow> rat" where
  "at_stake p w d = spend_get (bm_spend p (bw_memory w)) d +
     (\<Sum>r \<in> handed_out w. if br_period p r = d then br_amount r else 0)"

definition pending_change :: "period \<Rightarrow> str \<Rightarrow> (reservation \<times> ledger_state \<times> rat) list \<Rightarrow> rat" where
  "pending_change p d xs = sum_list (map (\<lambda>(r, st, c). if br_period p r = d then c - br_amount r else 0) xs)"

definition unrecorded :: "period \<Rightarrow> str \<Rightarrow> (reservation \<times> ledger_state \<times> rat) list \<Rightarrow> rat" where
  "unrecorded p d xs = sum_list (map (\<lambda>(r, st, c). if br_period p r = d then max 0 (c - br_amount r) else 0) xs)"

lemma change_le_unrecorded: "pending_change p d xs \<le> unrecorded p d xs"
  unfolding pending_change_def unrecorded_def by (rule sum_list_mono) (auto split: prod.split)

lemma pending_change_remove:
  "(r, st, c) \<in> set xs \<Longrightarrow> pending_change p d xs =
     pending_change p d (remove1 (r, st, c) xs) + (if br_period p r = d then c - br_amount r else 0)"
  unfolding pending_change_def by (simp add: sum_list_map_remove1)

lemma pending_simps [simp]:
  "pending_change p d [] = 0" "unrecorded p d [] = 0"
  "pending_change p d ((r, st, c) # xs) = (if br_period p r = d then c - br_amount r else 0) + pending_change p d xs"
  "unrecorded p d ((r, st, c) # xs) = (if br_period p r = d then max 0 (c - br_amount r) else 0) + unrecorded p d xs"
  "unrecorded p d (xs @ ys) = unrecorded p d xs + unrecorded p d ys"
  by (simp_all add: pending_change_def unrecorded_def)

definition settling_ok :: "reservation \<times> ledger_state \<times> rat \<Rightarrow> bool" where
  "settling_ok = (\<lambda>(r, st, c). 0 \<le> br_amount r \<and> 0 \<le> c \<and> st \<in> {Lg_Released, Lg_Settled, Lg_Unknown} \<and>
     (st = Lg_Released \<longrightarrow> c = 0))"

definition row_of :: "reservation \<Rightarrow> ledger_row list \<Rightarrow> bool" where
  "row_of r rows \<longleftrightarrow> (\<exists>q. get_row lg_reservation_id (br_id r) rows = Some q \<and> reservation_row r q)"

definition world_linked :: "budget_world \<Rightarrow> bool" where
  "world_linked w \<longleftrightarrow> (\<forall>q \<in> set (bw_ledger w). ledger_row_ok q) \<and> manager_ok (bw_memory w) \<and>
     distinct (map br_id (bw_inserting w) @ map br_id (bw_orphaned w) @ map lg_reservation_id (bw_ledger w)) \<and>
     distinct (map br_id (bm_reservations (bw_memory w)) @ map (br_id \<circ> fst) (bw_settling w)) \<and>
     set (bw_inserting w) \<subseteq> set (bm_reservations (bw_memory w)) \<and>
     (\<forall>r \<in> set (bw_orphaned w). 0 \<le> br_amount r \<and> br_id r \<notin> br_id ` set (bm_reservations (bw_memory w))) \<and>
     (\<forall>r \<in> handed_out w. row_of r (bw_ledger w)) \<and>
     (\<forall>x \<in> set (bw_settling w). settling_ok x \<and> row_of (fst x) (bw_ledger w))"

lemma world_linkedI:
  assumes "\<forall>q \<in> set (bw_ledger w). ledger_row_ok q" and "manager_ok (bw_memory w)"
    and "distinct (map br_id (bw_inserting w) @ map br_id (bw_orphaned w) @ map lg_reservation_id (bw_ledger w))"
    and "distinct (map br_id (bm_reservations (bw_memory w)) @ map (br_id \<circ> fst) (bw_settling w))"
    and "set (bw_inserting w) \<subseteq> set (bm_reservations (bw_memory w))"
    and "\<And>r. r \<in> set (bw_orphaned w) \<Longrightarrow> 0 \<le> br_amount r \<and> br_id r \<notin> br_id ` set (bm_reservations (bw_memory w))"
    and "\<And>r. r \<in> handed_out w \<Longrightarrow> row_of r (bw_ledger w)"
    and "\<And>x. x \<in> set (bw_settling w) \<Longrightarrow> settling_ok x \<and> row_of (fst x) (bw_ledger w)"
  shows "world_linked w"
  using assms by (simp add: world_linked_def)

lemma world_linkedD:
  assumes "world_linked w"
  shows "\<forall>q \<in> set (bw_ledger w). ledger_row_ok q" and "manager_ok (bw_memory w)"
    and "distinct (map br_id (bw_inserting w) @ map br_id (bw_orphaned w) @ map lg_reservation_id (bw_ledger w))"
    and "distinct (map br_id (bm_reservations (bw_memory w)) @ map (br_id \<circ> fst) (bw_settling w))"
    and "set (bw_inserting w) \<subseteq> set (bm_reservations (bw_memory w))"
    and "r \<in> set (bw_orphaned w) \<Longrightarrow> 0 \<le> br_amount r \<and> br_id r \<notin> br_id ` set (bm_reservations (bw_memory w))"
    and "r \<in> handed_out w \<Longrightarrow> row_of r (bw_ledger w)"
    and "x \<in> set (bw_settling w) \<Longrightarrow> settling_ok x \<and> row_of (fst x) (bw_ledger w)"
  using assms by (simp_all add: world_linked_def)

definition world_covered :: "budget_world \<Rightarrow> bool" where
  "world_covered w \<longleftrightarrow> (\<forall>p d. at_stake p w d \<le>
     owed p d (bw_ledger w) + pending_change p d (bw_settling w) + unrecorded p d (bw_failed w))"


lemma map_remove1_set:
  "distinct (map f xs) \<Longrightarrow> x \<in> set xs \<Longrightarrow> f ` set (remove1 x xs) = f ` set xs - {f x}"
  by (auto simp: distinct_map inj_on_def)

lemma distinct_map_remove1: "distinct (map f xs) \<Longrightarrow> distinct (map f (remove1 x xs))"
  by (auto simp: distinct_map inj_on_def dest: in_set_remove1 [THEN iffD1, rotated] set_remove1_subset [THEN subsetD])

lemma handed_out_id:
  assumes "world_linked w" and "x \<in> set (bm_reservations (bw_memory w))" "y \<in> set (bm_reservations (bw_memory w))"
    and "br_id x = br_id y"
  shows "x = y"
  using assms by (auto simp: world_linked_def distinct_map inj_on_def)

lemma row_of_append: "row_of r rows \<Longrightarrow> row_of r (rows @ [q])"
  by (auto simp: row_of_def get_row_append)

lemma row_of_id: "row_of r rows \<Longrightarrow> br_id r \<in> lg_reservation_id ` set rows"
  unfolding row_of_def by (metis get_row_in imageI)

lemma row_of_update:
  assumes "row_of r rows" and "br_id r \<noteq> rid" and "\<And>q. lg_reservation_id (f q) = lg_reservation_id q"
  shows "row_of r (update_where (\<lambda>q. lg_reservation_id q = rid \<and> lg_state q = Lg_Reserved) f rows)"
proof -
  from assms(1) obtain q where q: "get_row lg_reservation_id (br_id r) rows = Some q" "reservation_row r q"
    by (auto simp: row_of_def)
  with get_row_in [OF q(1)] assms(2) have "lg_reservation_id q \<noteq> rid" by simp
  with q assms(3) show ?thesis by (simp add: row_of_def get_row_update_where)
qed

subsection \<open>Each event\<close>

lemma world_reserved:
  assumes "world_linked w" and "reserve rid now p md pt ct (bw_memory w) = (Inr r, m)" and "rid \<notin> used_ids w"
  defines "w' \<equiv> w\<lparr>bw_memory := m, bw_inserting := r # bw_inserting w\<rparr>"
  shows "world_linked w'" and "at_stake q w' d = at_stake q w d"
proof -
  note r = reserve_Inr [OF assms(2)] and wl = world_linkedD [OF assms(1)]
  have ok: "manager_ok (bw_memory w)" using assms(1) by (simp add: world_linked_def)
  have pos: "0 \<le> br_amount r" by (rule priced_nonneg [OF ok r(3)])
  have fresh: "br_id x \<noteq> rid" if "x \<in> set (bm_reservations (bw_memory w)) \<union> set (bw_inserting w) \<union> set (bw_orphaned w)" for x
    using assms(3) that by (auto simp: used_ids_def)
  have rs: "bm_reservations m = bm_reservations (bw_memory w) @ [r]"
    using fresh by (auto simp: r put_reservation_def filter_id_conv)
  have h: "handed_out w' = handed_out w" using fresh r(1) by (auto simp: handed_out_def w'_def rs)
  have new: "rid \<notin> br_id ` set (bw_inserting w)" "rid \<notin> br_id ` set (bw_orphaned w)"
    "rid \<notin> lg_reservation_id ` set (bw_ledger w)" "rid \<notin> br_id ` set (bm_reservations (bw_memory w))"
    using assms(3) by (auto simp: used_ids_def)
  have st: "rid \<notin> (br_id \<circ> fst) ` set (bw_settling w)"
  proof
    assume "rid \<in> (br_id \<circ> fst) ` set (bw_settling w)"
    then obtain x where "x \<in> set (bw_settling w)" "rid = br_id (fst x)" by auto
    with assms(1) have "row_of (fst x) (bw_ledger w)" by (auto simp: world_linked_def)
    with new(3) \<open>rid = br_id (fst x)\<close> show False by (auto dest: row_of_id)
  qed
  have "manager_ok m" using ok pos by (auto simp: manager_ok_def r(2) put_reservation_def)
  then show "world_linked w'"
  proof (intro world_linkedI)
    show "0 \<le> br_amount x \<and> br_id x \<notin> br_id ` set (bm_reservations (bw_memory w'))" if "x \<in> set (bw_orphaned w')" for x
      using that wl(6) [of x] fresh [of x] r(1) by (auto simp: w'_def rs)
    show "distinct (map br_id (bm_reservations (bw_memory w')) @ map (br_id \<circ> fst) (bw_settling w'))"
      using wl(4) new(4) st r(1) by (auto simp: w'_def rs)
    show "row_of x (bw_ledger w')" if "x \<in> handed_out w'" for x
      using that wl(7) by (simp add: h) (simp add: w'_def)
  qed (use wl(1,3,5,8) new r(1) in \<open>auto simp: w'_def rs\<close>)
  show "at_stake q w' d = at_stake q w d"
    by (simp add: at_stake_def h) (simp add: w'_def r(2))
qed

lemma amounts_nonneg: "world_linked w \<Longrightarrow> r \<in> set (bm_reservations (bw_memory w)) \<Longrightarrow> 0 \<le> br_amount r"
  by (simp add: world_linked_def manager_ok_def)

text \<open>A row appended for a reservation that was waiting for it.\<close>

lemma appended_row:
  assumes "insert_reservation True r rows = Inr rows'" and "0 \<le> br_amount r"
  shows "owed p d rows' = owed p d rows + (if br_period p r = d then br_amount r else 0)"
    and "row_of r rows'" and "map lg_reservation_id rows' = map lg_reservation_id rows @ [br_id r]"
    and "(\<forall>q \<in> set rows. ledger_row_ok q) \<Longrightarrow> (\<forall>q \<in> set rows'. ledger_row_ok q)"
    and "row_of x rows \<Longrightarrow> row_of x rows'"
proof -
  obtain q where q: "get_row lg_reservation_id (br_id r) rows = None" "rows' = rows @ [q]"
    "lg_reservation_id q = br_id r" "reservation_row r q" "lg_charged q = None"
    using insert_reservation_Inr [OF assms(1)] by blast
  have "row_owed q = br_amount r" using q(4) by (simp add: row_owed_def reservation_row_def)
  then show "owed p d rows' = owed p d rows + (if br_period p r = d then br_amount r else 0)"
    by (simp add: q(2) reservation_row_period [OF q(4)])
  show "row_of r rows'" using q by (simp add: row_of_def get_row_append)
  show "map lg_reservation_id rows' = map lg_reservation_id rows @ [br_id r]" by (simp add: q)
  show "(\<forall>q \<in> set rows. ledger_row_ok q) \<Longrightarrow> (\<forall>q \<in> set rows'. ledger_row_ok q)"
    using q assms(2) by (auto simp: ledger_row_ok_def reservation_row_def)
  show "row_of x rows \<Longrightarrow> row_of x rows'" by (simp add: q(2) row_of_append)
qed

lemma world_inserted:
  assumes "world_linked w" and "r \<in> set (bw_inserting w)" and "insert_reservation True r (bw_ledger w) = Inr rows"
  defines "w' \<equiv> w\<lparr>bw_ledger := rows, bw_inserting := remove1 r (bw_inserting w)\<rparr>"
  shows "world_linked w'"
    and "at_stake p w' d - owed p d (bw_ledger w') = at_stake p w d - owed p d (bw_ledger w)"
proof -
  have mem: "r \<in> set (bm_reservations (bw_memory w))" using assms(1,2) by (auto simp: world_linked_def)
  note a = appended_row [OF assms(3) amounts_nonneg [OF assms(1) mem]] and wl = world_linkedD [OF assms(1)]
  have d: "distinct (map br_id (bw_inserting w))" using assms(1) by (simp add: world_linked_def)
  then have "distinct (bw_inserting w)" by (simp add: distinct_map)
  then have h: "handed_out w' = insert r (handed_out w)" using mem by (auto simp: handed_out_def w'_def)
  have r: "r \<notin> handed_out w" using assms(2) by (simp add: handed_out_def)
  have s: "set (remove1 r (bw_inserting w)) = set (bw_inserting w) - {r}"
    using \<open>distinct (bw_inserting w)\<close> by simp
  have ids: "br_id ` set (remove1 r (bw_inserting w)) = br_id ` set (bw_inserting w) - {br_id r}"
    by (rule map_remove1_set [OF d assms(2)])
  have rid: "br_id r \<in> br_id ` set (bw_inserting w)" using assms(2) by blast
  show "world_linked w'"
  proof (rule world_linkedI)
    show "distinct (map br_id (bw_inserting w') @ map br_id (bw_orphaned w') @ map lg_reservation_id (bw_ledger w'))"
      using wl(3) distinct_map_remove1 [OF d, of r] rid by (auto simp: w'_def a(3) ids)
    show "set (bw_inserting w') \<subseteq> set (bm_reservations (bw_memory w'))" using wl(5) by (auto simp: w'_def s)
    show "row_of x (bw_ledger w')" if "x \<in> handed_out w'" for x
      using that a(2) a(5) [OF wl(7)] by (auto simp: h) (auto simp: w'_def)
  qed (use wl(1,2,4,6,8) a(4,5) in \<open>auto simp: w'_def\<close>)
  show "at_stake p w' d - owed p d (bw_ledger w') = at_stake p w d - owed p d (bw_ledger w)"
    using r by (simp add: at_stake_def h) (simp add: w'_def a(1) handed_out_def)
qed

lemma popped_handed_out:
  assumes "world_linked w" and "r \<in> set (bw_inserting w)"
    and "bm_reservations m = filter (\<lambda>q. br_id q \<noteq> br_id r) (bm_reservations (bw_memory w))"
  shows "set (bm_reservations m) - set (remove1 r (bw_inserting w)) = handed_out w"
    and "set (remove1 r (bw_inserting w)) \<subseteq> set (bm_reservations m)"
proof -
  have d: "distinct (map br_id (bw_inserting w))" and sub: "set (bw_inserting w) \<subseteq> set (bm_reservations (bw_memory w))"
    using assms(1) by (simp_all add: world_linked_def)
  then have s: "set (remove1 r (bw_inserting w)) = set (bw_inserting w) - {r}" by (simp add: distinct_map)
  have same: "x = r" if "x \<in> set (bm_reservations (bw_memory w))" "br_id x = br_id r" for x
    using handed_out_id [OF assms(1) that(1) _ that(2)] assms(2) sub by auto
  show "set (bm_reservations m) - set (remove1 r (bw_inserting w)) = handed_out w"
    using same assms(2) by (auto simp: s assms(3) handed_out_def)
  show "set (remove1 r (bw_inserting w)) \<subseteq> set (bm_reservations m)"
    using same sub assms(2) by (auto simp: s assms(3) dest: subsetD)
qed

lemma release_pop:
  "snd (release rid m) = pop_reservation rid m"
proof (cases "find_reservation rid m")
  case None
  then have "filter (\<lambda>r. br_id r \<noteq> rid) (bm_reservations m) = bm_reservations m"
    by (auto simp: find_reservation_def get_row_None filter_id_conv image_iff)
  with None show ?thesis by (simp add: release_def pop_reservation_def)
qed (simp add: release_def)

text \<open>A key that moves from one list of keys to the next.\<close>

lemma distinct_moved:
  "distinct (xs @ ys @ zs) \<Longrightarrow> distinct xs' \<Longrightarrow> set xs' = set xs - {a} \<Longrightarrow> a \<in> set xs \<Longrightarrow>
   distinct (xs' @ ys @ zs) \<and> distinct (xs' @ (a # ys) @ zs)"
  by auto

lemma world_insert_failed:
  assumes "world_linked w" and "r \<in> set (bw_inserting w)" and "os = bw_orphaned w \<or> os = r # bw_orphaned w"
  defines "w' \<equiv> w\<lparr>bw_memory := snd (release (br_id r) (bw_memory w)), bw_inserting := remove1 r (bw_inserting w),
    bw_orphaned := os\<rparr>"
  shows "world_linked w'" and "at_stake p w' d = at_stake p w d"
proof -
  let ?m = "snd (release (br_id r) (bw_memory w))"
  note wl = world_linkedD [OF assms(1)]
  have rs: "bm_reservations ?m = filter (\<lambda>q. br_id q \<noteq> br_id r) (bm_reservations (bw_memory w))"
    by (simp add: release_pop pop_reservation_def)
  note pop = popped_handed_out [OF assms(1,2) rs]
  have h: "handed_out w' = handed_out w" using pop(1) by (simp add: handed_out_def w'_def)
  have d: "distinct (map br_id (bw_inserting w))" using wl(3) by simp
  have ids: "br_id ` set (remove1 r (bw_inserting w)) = br_id ` set (bw_inserting w) - {br_id r}"
    by (rule map_remove1_set [OF d assms(2)])
  have rid: "br_id r \<in> br_id ` set (bw_inserting w)" using assms(2) by blast
  have pos: "0 \<le> br_amount r" using amounts_nonneg [OF assms(1)] wl(5) assms(2) by blast
  show "world_linked w'"
  proof (rule world_linkedI)
    show "distinct (map br_id (bw_inserting w') @ map br_id (bw_orphaned w') @ map lg_reservation_id (bw_ledger w'))"
      using assms(3) distinct_moved [OF wl(3) distinct_map_remove1 [OF d, of r], of "br_id r"] rid ids
      by (elim disjE) (simp_all add: w'_def)
    show "distinct (map br_id (bm_reservations (bw_memory w')) @ map (br_id \<circ> fst) (bw_settling w'))"
      using wl(4) by (auto simp: w'_def rs distinct_map_filter)
    show "0 \<le> br_amount x \<and> br_id x \<notin> br_id ` set (bm_reservations (bw_memory w'))" if "x \<in> set (bw_orphaned w')" for x
      using that assms(3) wl(6) [of x] pos by (auto simp: w'_def rs)
    show "row_of x (bw_ledger w')" if "x \<in> handed_out w'" for x
      using that wl(7) by (simp add: h) (simp add: w'_def)
    show "manager_ok (bw_memory w')" using wl(2) by (simp add: w'_def release_pop)
  qed (use wl(1,8) pop(2) in \<open>auto simp: w'_def\<close>)
  show "at_stake p w' d = at_stake p w d"
    by (simp add: at_stake_def h) (cases p; simp add: w'_def release_pop pop_reservation_def)
qed

lemma world_inserted_late:
  assumes "world_linked w" and "r \<in> set (bw_orphaned w)" and "insert_reservation True r (bw_ledger w) = Inr rows"
  defines "w' \<equiv> w\<lparr>bw_ledger := rows, bw_orphaned := remove1 r (bw_orphaned w)\<rparr>"
  shows "world_linked w'" and "at_stake p w' d = at_stake p w d" and "owed p d (bw_ledger w) \<le> owed p d (bw_ledger w')"
proof -
  note wl = world_linkedD [OF assms(1)]
  have pos: "0 \<le> br_amount r" using wl(6) [OF assms(2)] by simp
  note a = appended_row [OF assms(3) pos]
  have d: "distinct (map br_id (bw_orphaned w))" using wl(3) by simp
  have ids: "br_id ` set (remove1 r (bw_orphaned w)) = br_id ` set (bw_orphaned w) - {br_id r}"
    by (rule map_remove1_set [OF d assms(2)])
  have rid: "br_id r \<in> br_id ` set (bw_orphaned w)" using assms(2) by blast
  have h: "handed_out w' = handed_out w" by (simp add: handed_out_def w'_def)
  show "world_linked w'"
  proof (rule world_linkedI)
    show "distinct (map br_id (bw_inserting w') @ map br_id (bw_orphaned w') @ map lg_reservation_id (bw_ledger w'))"
      using wl(3) distinct_map_remove1 [OF d, of r] rid by (auto simp: w'_def a(3) ids)
    show "0 \<le> br_amount x \<and> br_id x \<notin> br_id ` set (bm_reservations (bw_memory w'))" if "x \<in> set (bw_orphaned w')" for x
      using that wl(6) [of x] by (auto simp: w'_def dest: set_remove1_subset [THEN subsetD])
    show "row_of x (bw_ledger w')" if "x \<in> handed_out w'" for x
      using that a(5) [OF wl(7)] by (simp add: h) (simp add: w'_def)
  qed (use wl(1,2,4,5,8) a(4,5) in \<open>auto simp: w'_def\<close>)
  show "at_stake p w' d = at_stake p w d" by (simp add: at_stake_def h) (simp add: w'_def)
  show "owed p d (bw_ledger w) \<le> owed p d (bw_ledger w')" using pos by (simp add: w'_def a(1))
qed

lemma close_in_memory_Inr:
  assumes "close_in_memory call rid m = (Inr (st, c), m')" and "manager_ok m" and "find_reservation rid m = Some r"
  shows "settling_ok (r, st, c)" and "bm_reservations m' = filter (\<lambda>q. br_id q \<noteq> rid) (bm_reservations m)"
    and "manager_ok m'"
    and "spend_get (bm_spend p m') d = spend_get (bm_spend p m) d + (if br_period p r = d then c else 0)"
proof -
  have pos: "0 \<le> br_amount r" using find_reservation_in [OF assms(3)] assms(2) by (simp add: manager_ok_def)
  have spend: "bm_spend p (pop_reservation rid m) = bm_spend p m" for p by (cases p) (simp_all add: pop_reservation_def)
  show "settling_ok (r, st, c)"
    using assms pos priced_nonneg [of "pop_reservation rid m" "br_provider r" "br_model r"]
    by (cases call) (auto simp: settling_ok_def release_def settle_def settle_unknown_def split: sum.splits)
  show "bm_reservations m' = filter (\<lambda>q. br_id q \<noteq> rid) (bm_reservations m)"
    using assms by (cases call)
      (auto simp: release_def settle_def settle_unknown_def pop_reservation_def split: sum.splits)
  show "manager_ok m'"
    using assms by (cases call) (auto simp: release_def settle_def settle_unknown_def split: sum.splits)
  show "spend_get (bm_spend p m') d = spend_get (bm_spend p m) d + (if br_period p r = d then c else 0)"
    using assms by (cases call) (auto simp: release_def settle_def settle_unknown_def spend split: sum.splits)
qed

lemma close_in_memory_Inl:
  assumes "close_in_memory call rid m = (Inl e, m')"
  shows "m' = m \<or> m' = pop_reservation rid m"
  using assms by (cases call) (auto simp: release_def settle_def settle_unknown_def split: sum.splits option.splits)

lemma handed_out_finite [simp]: "finite (handed_out w)"
  by (simp add: handed_out_def)

lemma world_closed:
  assumes "world_linked w" and "close_in_memory call (br_id r) (bw_memory w) = (Inr (st, c), m)"
    and "find_reservation (br_id r) (bw_memory w) = Some r" and "r \<notin> set (bw_inserting w)"
  defines "w' \<equiv> w\<lparr>bw_memory := m, bw_settling := (r, st, c) # bw_settling w\<rparr>"
  shows "world_linked w'"
    and "at_stake p w' d - pending_change p d (bw_settling w') = at_stake p w d - pending_change p d (bw_settling w)"
proof -
  note wl = world_linkedD [OF assms(1)]
  note cl = close_in_memory_Inr [OF assms(2) wl(2) assms(3)]
  have mem: "r \<in> set (bm_reservations (bw_memory w))" using find_reservation_in [OF assms(3)] by simp
  have same: "x = r" if "x \<in> set (bm_reservations (bw_memory w))" "br_id x = br_id r" for x
    by (rule handed_out_id [OF assms(1) that(1) mem that(2)])
  have r: "r \<in> handed_out w" using mem assms(4) by (simp add: handed_out_def)
  have h: "handed_out w' = handed_out w - {r}"
    using same assms(4) by (auto simp: handed_out_def w'_def cl(2))
  show "world_linked w'"
  proof (rule world_linkedI)
    show "distinct (map br_id (bm_reservations (bw_memory w')) @ map (br_id \<circ> fst) (bw_settling w'))"
      using wl(4) mem by (auto simp: w'_def cl(2) distinct_map_filter)
    show "set (bw_inserting w') \<subseteq> set (bm_reservations (bw_memory w'))"
      using wl(5) same assms(4) by (auto simp: w'_def cl(2) dest: subsetD)
    show "0 \<le> br_amount x \<and> br_id x \<notin> br_id ` set (bm_reservations (bw_memory w'))" if "x \<in> set (bw_orphaned w')" for x
      using that wl(6) [of x] by (auto simp: w'_def cl(2))
    show "row_of x (bw_ledger w')" if "x \<in> handed_out w'" for x
      using that wl(7) by (simp add: h) (simp add: w'_def)
    show "settling_ok x \<and> row_of (fst x) (bw_ledger w')" if "x \<in> set (bw_settling w')" for x
      using that wl(8) [of x] cl(1) wl(7) [OF r] by (auto simp: w'_def)
  qed (use wl(1,3) cl(3) in \<open>simp_all add: w'_def\<close>)
  have "(\<Sum>x \<in> handed_out w. if br_period p x = d then br_amount x else 0) =
      (if br_period p r = d then br_amount r else 0) +
      (\<Sum>x \<in> handed_out w - {r}. if br_period p x = d then br_amount x else 0)"
    by (rule sum.remove) (simp_all add: r)
  then show "at_stake p w' d - pending_change p d (bw_settling w') = at_stake p w d - pending_change p d (bw_settling w)"
    by (simp add: at_stake_def h) (simp add: w'_def cl(4))
qed

lemma world_close_refused:
  assumes "world_linked w" and "close_in_memory call rid (bw_memory w) = (Inl e, m)" and "rid \<notin> br_id ` set (bw_inserting w)"
  defines "w' \<equiv> w\<lparr>bw_memory := m\<rparr>"
  shows "world_linked w'" and "at_stake p w' d \<le> at_stake p w d"
proof -
  note wl = world_linkedD [OF assms(1)]
  from close_in_memory_Inl [OF assms(2)] have "world_linked w' \<and> at_stake p w' d \<le> at_stake p w d"
  proof
    assume m: "m = pop_reservation rid (bw_memory w)"
    have h: "handed_out w' \<subseteq> handed_out w" by (auto simp: handed_out_def w'_def m pop_reservation_def)
    have "world_linked w'"
    proof (rule world_linkedI)
      show "distinct (map br_id (bm_reservations (bw_memory w')) @ map (br_id \<circ> fst) (bw_settling w'))"
        using wl(4) by (auto simp: w'_def m pop_reservation_def distinct_map_filter)
      show "set (bw_inserting w') \<subseteq> set (bm_reservations (bw_memory w'))"
        using wl(5) assms(3) by (auto simp: w'_def m pop_reservation_def)
      show "0 \<le> br_amount x \<and> br_id x \<notin> br_id ` set (bm_reservations (bw_memory w'))" if "x \<in> set (bw_orphaned w')" for x
        using that wl(6) [of x] by (auto simp: w'_def m pop_reservation_def)
      show "row_of x (bw_ledger w')" if "x \<in> handed_out w'" for x
        using wl(7) [OF subsetD [OF h that]] by (simp add: w'_def)
    qed (use wl(1,2,3,8) in \<open>simp_all add: w'_def m\<close>)
    moreover have "(\<Sum>x \<in> handed_out w'. if br_period p x = d then br_amount x else 0) \<le>
        (\<Sum>x \<in> handed_out w. if br_period p x = d then br_amount x else 0)"
      using h amounts_nonneg [OF assms(1)] by (intro sum_mono2) (auto simp: handed_out_def)
    moreover have "bm_spend p m = bm_spend p (bw_memory w)" by (cases p) (simp_all add: m pop_reservation_def)
    ultimately show ?thesis by (simp add: at_stake_def w'_def)
  qed (simp add: w'_def assms(1))
  then show "world_linked w'" "at_stake p w' d \<le> at_stake p w d" by simp_all
qed

lemma world_written:
  assumes "world_linked w" and "(r, st, c) \<in> set (bw_settling w)"
    and "update_settlement True now (br_id r) st c (bw_ledger w) = Inr rows"
  defines "w' \<equiv> w\<lparr>bw_ledger := rows, bw_settling := remove1 (r, st, c) (bw_settling w)\<rparr>"
  shows "world_linked w'" and "at_stake p w' d = at_stake p w d"
    and "owed p d (bw_ledger w') + pending_change p d (bw_settling w') =
      owed p d (bw_ledger w) + pending_change p d (bw_settling w)"
proof -
  note wl = world_linkedD [OF assms(1)]
  let ?P = "\<lambda>q. lg_reservation_id q = br_id r \<and> lg_state q = Lg_Reserved"
  let ?f = "\<lambda>q. q\<lparr>lg_state := st, lg_charged := Some c, lg_settled_at := Some now\<rparr>"
  have rows: "rows = update_where ?P ?f (bw_ledger w)"
    using assms(3) by (auto simp: update_settlement_def Let_def split: if_splits)
  have ids: "map lg_reservation_id rows = map lg_reservation_id (bw_ledger w)" by (simp add: rows map_update_where)
  from wl(8) [OF assms(2)] obtain q where ok: "settling_ok (r, st, c)"
    and q: "get_row lg_reservation_id (br_id r) (bw_ledger w) = Some q" "reservation_row r q"
    by (auto simp: row_of_def)
  have d: "distinct (map (br_id \<circ> fst) (bw_settling w))" using wl(4) by simp
  have rid: "br_id r \<in> (br_id \<circ> fst) ` set (bw_settling w)" using assms(2) by force
  have h: "handed_out w' = handed_out w" by (simp add: handed_out_def w'_def)
  have other: "br_id x \<noteq> br_id r" if "x \<in> handed_out w" for x
  proof -
    have "br_id x \<in> br_id ` set (bm_reservations (bw_memory w))" using that by (simp add: handed_out_def)
    moreover have "br_id ` set (bm_reservations (bw_memory w)) \<inter> (br_id \<circ> fst) ` set (bw_settling w) = {}"
      using wl(4) by simp
    ultimately show ?thesis using rid by (metis disjoint_iff)
  qed
  have rest: "set (remove1 (r, st, c) (bw_settling w)) = set (bw_settling w) - {(r, st, c)}"
    using d by (simp add: distinct_map)
  have apart: "br_id (fst x) \<noteq> br_id r" if "x \<in> set (bw_settling w)" "x \<noteq> (r, st, c)" for x
    using d that assms(2) by (fastforce simp: distinct_map inj_on_def)
  have kept: "row_of x rows" if "row_of x (bw_ledger w)" "br_id x \<noteq> br_id r" for x
    unfolding rows by (rule row_of_update [OF that]) simp
  show "world_linked w'"
  proof (rule world_linkedI)
    show "\<forall>q \<in> set (bw_ledger w'). ledger_row_ok q"
      using wl(1) ok by (simp add: w'_def rows ball_update_where ledger_row_ok_def settling_ok_def)
    show "distinct (map br_id (bw_inserting w') @ map br_id (bw_orphaned w') @ map lg_reservation_id (bw_ledger w'))"
      using wl(3) by (simp add: w'_def ids)
    show "distinct (map br_id (bm_reservations (bw_memory w')) @ map (br_id \<circ> fst) (bw_settling w'))"
      using wl(4) distinct_map_remove1 [OF d, of "(r, st, c)"] by (auto simp: w'_def rest)
    show "row_of x (bw_ledger w')" if "x \<in> handed_out w'" for x
      using that kept [OF wl(7)] other by (simp add: h) (simp add: w'_def)
    show "settling_ok x \<and> row_of (fst x) (bw_ledger w')" if "x \<in> set (bw_settling w')" for x
      using that wl(8) [of x] kept apart by (auto simp: w'_def rest)
  qed (use wl(2,5,6) in \<open>simp_all add: w'_def\<close>)
  show "at_stake p w' d = at_stake p w d" by (simp add: at_stake_def h) (simp add: w'_def)
  have dl: "distinct (map lg_reservation_id (bw_ledger w))" using wl(3) by simp
  have "lg_state q = Lg_Reserved" "lg_reserved q = br_amount r" "lg_period p q = br_period p r"
    using q(2) reservation_row_period [OF q(2)] by (simp_all add: reservation_row_def)
  then have "owed p d rows = owed p d (bw_ledger w) + (if br_period p r = d then c - br_amount r else 0)"
    using owed_update [OF dl q(1), of p ?f d] ok by (auto simp: rows row_owed_def settling_ok_def)
  with pending_change_remove [OF assms(2), of p d]
  show "owed p d (bw_ledger w') + pending_change p d (bw_settling w') =
      owed p d (bw_ledger w) + pending_change p d (bw_settling w)"
    by (simp add: w'_def)
qed

lemma world_write_failed:
  assumes "world_linked w" and "(r, st, c) \<in> set (bw_settling w)"
  defines "w' \<equiv> w\<lparr>bw_settling := remove1 (r, st, c) (bw_settling w), bw_failed := (r, st, c) # bw_failed w\<rparr>"
  shows "world_linked w'" and "at_stake p w' d = at_stake p w d"
    and "pending_change p d (bw_settling w) + unrecorded p d (bw_failed w) \<le>
      pending_change p d (bw_settling w') + unrecorded p d (bw_failed w')"
proof -
  note wl = world_linkedD [OF assms(1)]
  have d: "distinct (map (br_id \<circ> fst) (bw_settling w))" using wl(4) by simp
  have h: "handed_out w' = handed_out w" by (simp add: handed_out_def w'_def)
  have sub: "set (remove1 (r, st, c) (bw_settling w)) \<subseteq> set (bw_settling w)" by (rule set_remove1_subset)
  show "world_linked w'"
  proof (rule world_linkedI)
    show "distinct (map br_id (bm_reservations (bw_memory w')) @ map (br_id \<circ> fst) (bw_settling w'))"
      using wl(4) distinct_map_remove1 [OF d, of "(r, st, c)"] sub by (auto simp: w'_def)
    show "row_of x (bw_ledger w')" if "x \<in> handed_out w'" for x
      using that wl(7) by (simp add: h) (simp add: w'_def)
    show "settling_ok x \<and> row_of (fst x) (bw_ledger w')" if "x \<in> set (bw_settling w')" for x
      using that wl(8) [of x] sub by (auto simp: w'_def)
  qed (use wl(1,2,3,5,6) in \<open>simp_all add: w'_def\<close>)
  show "at_stake p w' d = at_stake p w d" by (simp add: at_stake_def h) (simp add: w'_def)
  show "pending_change p d (bw_settling w) + unrecorded p d (bw_failed w) \<le>
      pending_change p d (bw_settling w') + unrecorded p d (bw_failed w')"
    using pending_change_remove [OF assms(2), of p d] by (simp add: w'_def)
qed

subsection \<open>Every reachable moment\<close>

definition world_inv :: "budget_world \<Rightarrow> bool" where
  "world_inv w \<longleftrightarrow> world_linked w \<and> world_covered w"

lemma budget_event_inv:
  assumes "budget_event w w'" and "world_inv w"
  shows "world_inv w'"
proof -
  have l: "world_linked w" and c: "\<And>p d. at_stake p w d \<le>
      owed p d (bw_ledger w) + pending_change p d (bw_settling w) + unrecorded p d (bw_failed w)"
    using assms(2) by (auto simp: world_inv_def world_covered_def)
  from assms(1) have "world_linked w' \<and> (\<forall>p d. at_stake p w' d - (owed p d (bw_ledger w') +
      pending_change p d (bw_settling w') + unrecorded p d (bw_failed w')) \<le>
      at_stake p w d - (owed p d (bw_ledger w) + pending_change p d (bw_settling w) + unrecorded p d (bw_failed w)))"
  proof (cases rule: budget_event.cases)
    case (reserved_in_memory rid now p md pt ct r m)
    with world_reserved [OF l reserved_in_memory(2,3)] show ?thesis by simp
  next
    case (reserve_refused rid now p md pt ct e m)
    then have "w' = w" using reserve_Inl by fastforce
    with l show ?thesis by simp
  next
    case (inserted r rows)
    have "at_stake p w' d - (owed p d (bw_ledger w') + pending_change p d (bw_settling w') + unrecorded p d (bw_failed w'))
        \<le> at_stake p w d - (owed p d (bw_ledger w) + pending_change p d (bw_settling w) + unrecorded p d (bw_failed w))" for p d
      using world_inserted(2) [OF l inserted(2,3), of p d] by (simp add: inserted(1))
    with world_inserted(1) [OF l inserted(2,3)] inserted(1) show ?thesis by simp
  next
    case (insert_failed r)
    have "w' = w\<lparr>bw_memory := snd (release (br_id r) (bw_memory w)), bw_inserting := remove1 r (bw_inserting w),
      bw_orphaned := bw_orphaned w\<rparr>" by (simp add: insert_failed(1))
    with world_insert_failed [OF l insert_failed(2), of "bw_orphaned w"] show ?thesis by simp
  next
    case (insert_cancelled r)
    with world_insert_failed [OF l insert_cancelled(2), of "r # bw_orphaned w"] show ?thesis by simp
  next
    case (inserted_late r rows)
    with world_inserted_late [OF l inserted_late(2,3)] show ?thesis by simp
  next
    case (closed_in_memory call r st c m)
    have "at_stake p w' d - (owed p d (bw_ledger w') + pending_change p d (bw_settling w') + unrecorded p d (bw_failed w'))
        \<le> at_stake p w d - (owed p d (bw_ledger w) + pending_change p d (bw_settling w) + unrecorded p d (bw_failed w))" for p d
      using world_closed(2) [OF l closed_in_memory(2,3,4), of p d] by (simp add: closed_in_memory(1))
    with world_closed(1) [OF l closed_in_memory(2,3,4)] closed_in_memory(1) show ?thesis by simp
  next
    case (close_refused call rid e m)
    with world_close_refused [OF l close_refused(2,3)] show ?thesis by simp
  next
    case (written r st c now rows)
    with world_written [OF l written(2,3)] show ?thesis by simp
  next
    case (write_failed r st c)
    have "at_stake p w' d - (owed p d (bw_ledger w') + pending_change p d (bw_settling w') + unrecorded p d (bw_failed w'))
        \<le> at_stake p w d - (owed p d (bw_ledger w) + pending_change p d (bw_settling w) + unrecorded p d (bw_failed w))" for p d
      using world_write_failed(2,3) [OF l write_failed(2), of p d] by (simp add: write_failed(1))
    with world_write_failed(1) [OF l write_failed(2)] write_failed(1) show ?thesis by simp
  qed
  moreover have "at_stake p w' d \<le> owed p d (bw_ledger w') + pending_change p d (bw_settling w') +
      unrecorded p d (bw_failed w')" for p d
  proof -
    from calculation have "at_stake p w' d - (owed p d (bw_ledger w') + pending_change p d (bw_settling w') +
      unrecorded p d (bw_failed w')) \<le>
      at_stake p w d - (owed p d (bw_ledger w) + pending_change p d (bw_settling w) + unrecorded p d (bw_failed w))"
      by blast
    with c [of p d] show ?thesis by linarith
  qed
  ultimately show ?thesis by (simp add: world_inv_def world_covered_def)
qed

lemma create_manager_world:
  assumes "create_manager l prices z t0 t1 rows = Inr pm" and "ledger_ok rows" and "\<forall>q \<in> set prices. model_price_ok (snd q)"
    and "day_key z t0 = day_key z t1" "month_key z t0 = month_key z t1"
  shows "world_inv (quiet_world pm)"
proof -
  from assms(1,4,5) have pm: "pm = \<lparr>pm_memory = \<lparr>bm_limits = l, bm_prices = prices, bm_zone = z,
     bm_daily = [day_key z t1 \<mapsto> owed Daily (day_key z t1) rows],
     bm_monthly = [month_key z t1 \<mapsto> owed Monthly (month_key z t1) rows], bm_reservations = []\<rparr>,
     pm_ledger = recover_ledger t0 rows\<rparr>"
    by (auto simp: create_manager_def initialize_owed new_manager_def split: if_splits)
  have nn: "0 \<le> owed p d rows" for p d using assms(2) by (simp add: ledger_ok_def owed_nonneg)
  have "at_stake p (quiet_world pm) d \<le> owed p d (recover_ledger t0 rows)" for p d
    using nn by (cases p) (auto simp: pm at_stake_def handed_out_def quiet_world_def spend_get_def owed_recover)
  with recover_ledger_ok [OF assms(2), of t0] assms(3) show ?thesis
    by (auto simp: world_inv_def world_linked_def world_covered_def quiet_world_def pm manager_ok_def ledger_ok_def
        handed_out_def)
qed

interpretation budget_life: invariant_machine "\<lambda>w. world_inv w \<and> w = w0" budget_event world_inv for w0
  by unfold_locales (auto intro: budget_event_inv)

lemma budget_events_inv: "budget_event\<^sup>*\<^sup>* w w' \<Longrightarrow> world_inv w \<Longrightarrow> world_inv w'"
  using budget_life.reachable_inv by blast

text \<open>The sum a caller's view gives: the reservations of a period that \<open>reserve\<close> has returned.\<close>

lemma handed_out_sum:
  assumes "distinct (map br_id rs)"
  shows "sum_amounts (\<lambda>r. br_period p r = d \<and> r \<notin> A) rs = (\<Sum>r \<in> set rs - A. if br_period p r = d then br_amount r else 0)"
  using assms
proof (induction rs)
  case (Cons x rs)
  then have "x \<notin> set rs" by auto
  with Cons show ?case by (cases "x \<in> A") (auto simp: insert_Diff_if)
qed simp

text \<open>The calls as the client sees them are runs of events.\<close>

lemma pm_reserve_events:
  assumes "rid \<notin> used_ids (quiet_world pm)"
  shows "budget_event\<^sup>*\<^sup>* (quiet_world pm) (quiet_world (snd (pm_reserve io rid now p md pt ct pm)))"
proof -
  obtain v m where rm: "reserve rid now p md pt ct (pm_memory pm) = (v, m)" by force
  show ?thesis
  proof (cases v)
    case (Inl e)
    with rm have "budget_event (quiet_world pm) ((quiet_world pm)\<lparr>bw_memory := m\<rparr>)"
      by (intro budget_event.reserve_refused) (simp add: quiet_world_def)
    with Inl rm show ?thesis by (simp add: pm_reserve_def quiet_world_def r_into_rtranclp)
  next
    case (Inr r)
    let ?w = "(quiet_world pm)\<lparr>bw_memory := m, bw_inserting := r # bw_inserting (quiet_world pm)\<rparr>"
    have a: "budget_event (quiet_world pm) ?w"
      by (rule budget_event.reserved_in_memory [OF _ assms]) (use rm Inr in \<open>simp add: quiet_world_def\<close>)
    have "budget_event ?w (quiet_world (snd (pm_reserve io rid now p md pt ct pm)))"
    proof (cases "insert_reservation io r (pm_ledger pm)")
      case (Inl e)
      with budget_event.insert_failed [of r ?w] rm Inr show ?thesis by (simp add: pm_reserve_def quiet_world_def)
    next
      case (Inr rows)
      then have "insert_reservation True r (bw_ledger ?w) = Inr rows"
        by (auto simp: insert_reservation_def quiet_world_def split: if_splits)
      from budget_event.inserted [OF _ this] rm \<open>v = Inr r\<close> Inr show ?thesis by (simp add: pm_reserve_def quiet_world_def)
    qed
    with a show ?thesis by (meson converse_rtranclp_into_rtranclp rtranclp.rtrancl_refl)
  qed
qed

text \<open>C12.
  Conservative crash recovery (\<open>PersistentBudgetManager._initialize_and_recover\<close>). Start a manager on a ledger, run
  any interleaving of calls on it, cut at every await, with failing and cancelled ledger writes, stop the process at any
  moment, and restart from the file. The totals found for the current day and month are at least what the stopped
  process had spent in them plus the reservations that \<open>reserve\<close> had returned to a caller, less the overruns not
  written: the amounts by which a settlement whose ledger row was not updated, because the write failed or was still
  under way, exceeded its reservation. A reservation still being inserted is not counted: its caller has not got it and
  no model call has begun under it. The manager must have been started within one local day (its two clock readings give
  the same day and month); reservation ids are fresh.
\<close>

theorem budget_recovery_conservative:
  assumes "ledger_ok rows" and "\<forall>q \<in> set prices. model_price_ok (snd q)"
    and "create_manager l prices z t0 t1 rows = Inr pm" and "budget_event\<^sup>*\<^sup>* (quiet_world pm) w"
    and "day_key z t0 = day_key z t1" "month_key z t0 = month_key z t1"
    and "initialize_and_recover z now (bw_ledger w) = ((daily, monthly), rows')"
  shows "spend_get (bm_daily (bw_memory w)) (day_key z now) +
      sum_amounts (\<lambda>r. br_day r = day_key z now \<and> r \<notin> set (bw_inserting w)) (bm_reservations (bw_memory w)) -
      unrecorded Daily (day_key z now) (bw_settling w @ bw_failed w) \<le> daily \<and>
    spend_get (bm_monthly (bw_memory w)) (month_key z now) +
      sum_amounts (\<lambda>r. br_month r = month_key z now \<and> r \<notin> set (bw_inserting w)) (bm_reservations (bw_memory w)) -
      unrecorded Monthly (month_key z now) (bw_settling w @ bw_failed w) \<le> monthly"
proof -
  have inv: "world_inv w"
    by (rule budget_events_inv [OF assms(4) create_manager_world [OF assms(3,1,2,5,6)]])
  then have "distinct (map br_id (bm_reservations (bw_memory w)))" by (simp add: world_inv_def world_linked_def)
  note sum = handed_out_sum [OF this, of _ _ "set (bw_inserting w)"]
  have "at_stake p w d - unrecorded p d (bw_settling w @ bw_failed w) \<le> owed p d (bw_ledger w)" for p d
  proof -
    have "at_stake p w d \<le> owed p d (bw_ledger w) + pending_change p d (bw_settling w) + unrecorded p d (bw_failed w)"
      using inv by (simp add: world_inv_def world_covered_def)
    with change_le_unrecorded [of p d "bw_settling w"] show ?thesis by simp
  qed
  from this [of Daily "day_key z now"] this [of Monthly "month_key z now"] assms(7) show ?thesis
    using sum [of Daily] sum [of Monthly] by (simp add: initialize_owed at_stake_def handed_out_def)
qed

subsection \<open>Witness\<close>

text \<open>A call of 5 is priced and reserved, its row is written, and a second one is stopped before its insert.\<close>

definition demo_stopped :: budget_world where
  "demo_stopped = (let w = quiet_world (snd demo_reserve_call)
     in case reserve [9] 0 (lit ''deepseek'') (lit ''flash'') 100000 200000 (bw_memory w) of
          (Inr r, m) \<Rightarrow> w\<lparr>bw_memory := m, bw_inserting := r # bw_inserting w\<rparr>
        | (Inl e, m) \<Rightarrow> w)"

lemma demo_manager_unfolded:
  "demo_manager = \<lparr>pm_memory = \<lparr>bm_limits = demo_limits, bm_prices = demo_prices, bm_zone = fixed_zone 0,
     bm_daily = [day_key (fixed_zone 0) 0 \<mapsto> 3], bm_monthly = [month_key (fixed_zone 0) 0 \<mapsto> 3], bm_reservations = []\<rparr>,
     pm_ledger = recover_ledger 0 demo_ledger\<rparr>"
  using demo_manager_created(2)
  by (simp add: demo_manager_def create_manager_def initialize_owed demo_ledger_def owed_def row_owed_def new_manager_def)

lemma demo_first: "budget_event\<^sup>*\<^sup>* (quiet_world demo_manager) (quiet_world (snd demo_reserve_call))"
  unfolding demo_reserve_call_def
  by (rule pm_reserve_events)
    (simp add: used_ids_def quiet_world_def demo_manager_unfolded recover_ledger_def demo_ledger_def update_where_def)

lemma demo_first_memory:
  "pm_memory (snd demo_reserve_call) = (pm_memory demo_manager)\<lparr>bm_reservations := [\<lparr>br_id = [2], br_provider = lit ''deepseek'',
     br_model = lit ''flash'', br_amount = 5, br_day = day_key (fixed_zone 0) 0, br_month = month_key (fixed_zone 0) 0,
     br_created_at = 0\<rparr>]\<rparr>"
  by (simp add: demo_reserve_call_def pm_reserve_def reserve_def demo_manager_unfolded price_for_def demo_prices_def cost_def
      cached_price_def spend_get_def reserved_day_def reserved_month_def demo_limits_def insert_reservation_def
      exists_row_def demo_ledger_def recover_ledger_def update_where_def put_reservation_def)

lemma demo_first_ledger:
  "lg_reservation_id ` set (pm_ledger (snd demo_reserve_call)) \<subseteq> {[1], [2]}"
  by (simp add: demo_reserve_call_def pm_reserve_def reserve_def demo_manager_unfolded price_for_def demo_prices_def cost_def
      cached_price_def spend_get_def reserved_day_def reserved_month_def demo_limits_def insert_reservation_def
      exists_row_def demo_ledger_def recover_ledger_def update_where_def put_reservation_def)

lemma demo_second:
  obtains r m where "reserve [9] 0 (lit ''deepseek'') (lit ''flash'') 100000 200000 (pm_memory (snd demo_reserve_call)) = (Inr r, m)"
  by (simp add: demo_first_memory demo_manager_unfolded reserve_def price_for_def demo_prices_def cost_def cached_price_def
      spend_get_def reserved_day_def reserved_month_def demo_limits_def)

theorem budget_recovery_conservative_witness:
  "length (bw_inserting demo_stopped) = 1 \<and> budget_event\<^sup>*\<^sup>* (quiet_world demo_manager) demo_stopped \<and>
   spend_get (bm_daily (bw_memory demo_stopped)) (day_key (fixed_zone 0) 5) +
     sum_amounts (\<lambda>r. br_day r = day_key (fixed_zone 0) 5 \<and> r \<notin> set (bw_inserting demo_stopped))
       (bm_reservations (bw_memory demo_stopped)) \<le>
     fst (fst (initialize_and_recover (fixed_zone 0) 5 (bw_ledger demo_stopped)))"
proof -
  obtain r m where second:
    "reserve [9] 0 (lit ''deepseek'') (lit ''flash'') 100000 200000 (pm_memory (snd demo_reserve_call)) = (Inr r, m)"
    by (rule demo_second)
  have eq: "demo_stopped = (quiet_world (snd demo_reserve_call))\<lparr>bw_memory := m, bw_inserting := [r]\<rparr>"
    by (simp add: demo_stopped_def quiet_world_def second)
  have fresh: "[9] \<notin> used_ids (quiet_world (snd demo_reserve_call))"
    using demo_first_ledger by (auto simp: used_ids_def quiet_world_def demo_first_memory)
  have "budget_event (quiet_world (snd demo_reserve_call)) demo_stopped"
    unfolding eq using budget_event.reserved_in_memory [OF _ fresh, of 0 "lit ''deepseek''" "lit ''flash''" 100000 200000 r m]
    by (simp add: quiet_world_def second)
  with demo_first have events: "budget_event\<^sup>*\<^sup>* (quiet_world demo_manager) demo_stopped" by (rule rtranclp.rtrancl_into_rtrancl)
  have "ledger_ok demo_ledger" by (simp add: demo_ledger_def ledger_ok_def ledger_row_ok_def)
  from budget_recovery_conservative [OF this demo_prices_ok demo_manager_created(1) events refl refl initialize_owed, of 5] events
  show ?thesis by (simp add: initialize_owed eq quiet_world_def)
qed

end
