(* ===== verification/Spec2Isabelle.thy ===== *)
theory Spec2Isabelle
  imports Row_Life Recovery Approvals Budget Framing Dedup Context Loop_Bounds Gateway Derivation Proactive Bridge_Protocol Backup_Round_Trip Budget_Crash
begin

text \<open>
  A verification development of Lemonbot, a text agent for WeChat. A connector reads messages of bound chats; the broker stores each
  as an inbox event, a policy decides whether it is answered, a model (with tools, under a budget) writes the answer, and the
  answer leaves through a durable outbox. The process may stop at any moment, answers of the outside world may be missing or
  wrong, and a message must never be sent twice.

  \<^bold>\<open>Shared vocabulary.\<close> \<open>Prelude\<close>: Python values (text as code points, JSON, times in microseconds, exceptions) and the result
  type \<open>exn + 'a\<close>. \<open>Sql_Table\<close>: a SQLite table as the list of its rows with the statements the code issues. \<open>Lifecycle\<close>: the contracts
  \<open>invariant_machine\<close>, \<open>lifecycle\<close> and \<open>ranked_machine\<close> of a step relation, and runs with labels; \<open>Row_Life\<close>: the contract of tables
  that are only updated conditionally. \<open>Json_Text\<close>: canonical JSON.

  \<^bold>\<open>Data and storage.\<close> \<open>Domain\<close>: \<open>domain/models.py\<close>, with the validators of pydantic as predicates. \<open>Storage\<close>: the tables of
  \<open>storage/models.py\<close> and the transaction of a repository method. \<open>storage/repository.py\<close> is \<open>Inbox\<close>, \<open>Outbox\<close>, \<open>Tool_Journal\<close>,
  \<open>Broker_State\<close> and \<open>Recovery\<close>: one definition per method, one transaction per call. Their lemmas show that a claim is first in first
  out per chat, that an event and a reply are stored once, that every row moves along the permitted statuses only, that a delivery
  and a tool call are opened at most once, and what recovery does to a database stopped anywhere (\<open>repo_reachable_inv\<close>).

  \<^bold>\<open>Decisions.\<close> \<open>Policy\<close>: \<open>policy/engine.py\<close> and \<open>policy/config.py\<close>; \<open>decide\<close> is compared with a specification of what justifies
  an automatic reply, and the quotas are bounds on the stored windows. \<open>Approvals\<close>: \<open>approvals/\<close>, with the digest as a parameter.
  \<open>Budget\<close>: \<open>models/budget.py\<close> and \<open>models/persistent_budget.py\<close>; with the hard limits.
  \<open>Budget_Crash\<close>: the same calls cut at their awaits; a restart finds at least what the stopped process had spent and handed out.

  \<^bold>\<open>Models and memory.\<close> \<open>Memory\<close>: \<open>memory/store.py\<close> and \<open>memory/sqlite_store.py\<close>, the second a refinement of the first.
  \<open>Context\<close>: \<open>memory/context.py\<close>. \<open>Derivation\<close>: \<open>memory/derivation.py\<close> and \<open>memory/compression.py\<close>. \<open>Gateway\<close>: \<open>models/gateway.py\<close> with
  its routing and schemas; the endpoint is a function from a payload to an outcome. \<open>Framing\<close>: \<open>ipc/framing.py\<close> on bytes and a pipe that
  may split reads anywhere.

  \<^bold>\<open>The pipeline.\<close> \<open>Effects\<close>: the broker's world, its database with what was handed outside, and the exception-keeping-state computations over
  it; an await may be interleaved with any other permitted step. \<open>Tool_Loop\<close> and \<open>Pipeline\<close>: \<open>orchestration/pipeline.py\<close>, every handler with its guards
  and its \<open>except\<close> branches. \<open>Pipeline_Safety\<close>: in every run of the whole broker nothing is sent or executed twice.
  \<open>Pipeline_Verdicts\<close>: how a dispatch and the processing of an event end on every branch. \<open>Loop_Bounds\<close>: the loop over model
  turns ends within the configured limits; its fuel is the configured number of turns, so it is the bound of the source's own loop.
  \<open>Proactive\<close>: \<open>proactive/\<close>, whose jobs enter the same pipeline.

  \<^bold>\<open>The connector.\<close> \<open>Wechat_Screen\<close>: the client of the local agent service, \<open>account_id\<close>, \<open>unique_testing\<close> and the search of the
  accessibility tree. The service is a function from the log of requests to an outcome, so every behaviour of it is covered.
  \<open>Wechat_Agent\<close>: \<open>AgentWechatConnector\<close> and \<open>ConversationTransport\<close>; the methods that the subclass overrides are a record, and polling and
  delivery are written once over it. \<open>Wechat_Delivery\<close> and \<open>Wechat_Poll\<close>: the locales \<open>overridable\<close> and \<open>polling\<close>, interpreted on both
  classes, give at most one post per message, the verdict of a delivery and what a poll hands over.
  \<open>Wechat_Runtime\<close>: \<open>RuntimeAgentWechatConnector\<close> around any transport, with failing writes and restarts: a pause is durable.
  \<open>Wechat_Mux\<close> and \<open>Wechat_Mux_Safety\<close>: \<open>ConversationMultiplexer\<close>, whose conversations are paused alone; the locale \<open>kept_relation\<close>
  is the contract of computations that respect a relation of states, interpreted on posting nothing.
  \<open>Message_Bridge\<close>: the reader of \<open>scripts/agent_wechat_metadata.py\<close>, which runs beside the client and answers the
  multiplexer's read cycles: parsing of replies and mentions, the selection of the rows after the anchors, and that a run of cycles
  reports every message once. \<open>Bridge_Protocol\<close>: the multiplexer never rejects one of its answers as malformed.
  \<open>Attachments\<close>: the content-addressed object files (\<open>tools/object_store.py\<close>) and the table, the breaker and the scoped
  reading of attachments (\<open>tools/attachments.py\<close>), with failing calls of the operating system and files that others change.
  \<open>Restore_Switch\<close>, \<open>Backup\<close> and \<open>Backup_Round_Trip\<close>: \<open>backup.py\<close>, with the renames of a restore and their roll-back, the
  validation of an archive and the round trip of a backup.
  \<^bold>\<open>Bounds and fuel.\<close> Loops of the source that count (pages of a chat list, model turns, retries, the search for a transcript that
  fits) are recursions on the same count; loops over data are structural. A read-back that waits for a deadline takes
  the number of checks the clock allows as an input. Random names, digests, clocks, token counts and the answers of services are
  parameters.

  \<^bold>\<open>Not modelled.\<close> The command line, the construction of the process (\<open>runtime.py\<close>), settings files, the administration pages,
  secret storage, the engine settings of SQLite, worker process control, vision, network and browser tools, external tool
  servers, the retired desktop connectors and the research and deployment scripts: they call the operating system, a framework or a
  service, and keep no state of the broker. Diagnostics and timing records are left out of every model. SQLite executes one
  transaction at a time and keeps what it committed.
\<close>

end
